(* ===== verification/Prelude.thy ===== *)
theory Prelude
  imports Main "HOL-Library.Sublist"
begin

text \<open>
  Shared vocabulary of the development: the result and panic types that stand for Rust's
  \<^verbatim>\<open>Result\<close> and for a panicking expression, the statements of SQL the storage
  layer issues as functions on lists of rows, and the generic lemmas the component theories
  rely on. The collections \<open>sql_simps\<close> and \<open>str_simps\<close> hold the rewrite rules of the two
  groups.
\<close>

named_theorems sql_simps "rewrite rules for the table operations"
named_theorems str_simps "rewrite rules for byte strings and char boundaries"

section \<open>Results and panics\<close>

text \<open>
  A Rust expression that may panic has the type \<open>'a rust\<close>: \<open>Inl\<close> names the panic,
  \<open>Inr\<close> carries the value.
\<close>

datatype panic = Slice_panic | Index_panic

type_synonym 'a rust = "panic + 'a"

definition bind_rust :: "('e + 'a) \<Rightarrow> ('a \<Rightarrow> 'e + 'b) \<Rightarrow> 'e + 'b" where
  "bind_rust r f = (case r of Inl e \<Rightarrow> Inl e | Inr a \<Rightarrow> f a)"

lemma bind_rust_simps [simp]:
  "bind_rust (Inl e) f = Inl e"
  "bind_rust (Inr a) f = f a"
  by (simp_all add: bind_rust_def)

lemma bind_rust_Inr_iff:
  "bind_rust r f = Inr b \<longleftrightarrow> (\<exists>a. r = Inr a \<and> f a = Inr b)"
  by (cases r) simp_all

text \<open>A fallible Rust function whose evaluation may also panic.\<close>

definition bind_result :: "('e + 'a) rust \<Rightarrow> ('a \<Rightarrow> ('e + 'b) rust) \<Rightarrow> ('e + 'b) rust" where
  "bind_result r f = bind_rust r (\<lambda>x. case x of Inl e \<Rightarrow> Inr (Inl e) | Inr a \<Rightarrow> f a)"

lemma bind_result_simps [simp]:
  "bind_result (Inl p) f = Inl p"
  "bind_result (Inr (Inl e)) f = Inr (Inl e)"
  "bind_result (Inr (Inr a)) f = f a"
  by (simp_all add: bind_result_def)

lemma bind_result_Inr_iff:
  "bind_result r f = Inr (Inr b) \<longleftrightarrow> (\<exists>a. r = Inr (Inr a) \<and> f a = Inr (Inr b))"
  by (cases r; cases "projr r") simp_all

section \<open>Tables\<close>

text \<open>
  A table is the list of its rows in rowid order. \<open>sql_update\<close>, \<open>sql_delete\<close> and
  \<open>sql_count\<close> are the statements \<^verbatim>\<open>UPDATE .. WHERE\<close>, \<^verbatim>\<open>DELETE .. WHERE\<close> and
  \<^verbatim>\<open>SELECT COUNT(*) .. WHERE\<close>; \<open>sql_changed\<close> is the affected-row count the driver
  returns for the first two. A single-row \<^verbatim>\<open>SELECT\<close> is \<^const>\<open>List.find\<close>.
\<close>

definition sql_update :: "('r \<Rightarrow> bool) \<Rightarrow> ('r \<Rightarrow> 'r) \<Rightarrow> 'r list \<Rightarrow> 'r list" where
  "sql_update p f rows = map (\<lambda>r. if p r then f r else r) rows"

definition sql_delete :: "('r \<Rightarrow> bool) \<Rightarrow> 'r list \<Rightarrow> 'r list" where
  "sql_delete p rows = filter (\<lambda>r. \<not> p r) rows"

definition sql_count :: "('r \<Rightarrow> bool) \<Rightarrow> 'r list \<Rightarrow> nat" where
  "sql_count p rows = length (filter p rows)"

abbreviation sql_changed :: "('r \<Rightarrow> bool) \<Rightarrow> 'r list \<Rightarrow> nat" where
  "sql_changed \<equiv> sql_count"

lemma sql_update_Nil [simp, sql_simps]: "sql_update p f [] = []"
  by (simp add: sql_update_def)

lemma sql_update_Cons [simp, sql_simps]:
  "sql_update p f (r # rs) = (if p r then f r else r) # sql_update p f rs"
  by (simp add: sql_update_def)

lemma sql_update_append [sql_simps]:
  "sql_update p f (rs @ rs') = sql_update p f rs @ sql_update p f rs'"
  by (simp add: sql_update_def)

lemma length_sql_update [simp, sql_simps]: "length (sql_update p f rows) = length rows"
  by (simp add: sql_update_def)

lemma set_sql_update [sql_simps]:
  "set (sql_update p f rows) = {f r | r. r \<in> set rows \<and> p r} \<union> {r \<in> set rows. \<not> p r}"
  by (auto simp: sql_update_def)

lemma map_sql_update_same [sql_simps]:
  "(\<And>r. r \<in> set rows \<Longrightarrow> p r \<Longrightarrow> g (f r) = g r) \<Longrightarrow> map g (sql_update p f rows) = map g rows"
  by (simp add: sql_update_def)

lemma sql_update_none [sql_simps]:
  "(\<And>r. r \<in> set rows \<Longrightarrow> \<not> p r) \<Longrightarrow> sql_update p f rows = rows"
  by (auto simp: sql_update_def intro: map_idI)

lemma sql_delete_Nil [simp, sql_simps]: "sql_delete p [] = []"
  by (simp add: sql_delete_def)

lemma sql_delete_Cons [simp, sql_simps]:
  "sql_delete p (r # rs) = (if p r then sql_delete p rs else r # sql_delete p rs)"
  by (simp add: sql_delete_def)

lemma set_sql_delete [simp, sql_simps]: "set (sql_delete p rows) = {r \<in> set rows. \<not> p r}"
  by (simp add: sql_delete_def)

lemma sql_delete_sql_delete [sql_simps]:
  "sql_delete p (sql_delete q rows) = sql_delete (\<lambda>r. q r \<or> p r) rows"
  by (simp add: sql_delete_def)

lemma sql_delete_none [sql_simps]:
  "(\<And>r. r \<in> set rows \<Longrightarrow> \<not> p r) \<Longrightarrow> sql_delete p rows = rows"
  by (simp add: sql_delete_def filter_id_conv)

lemma distinct_map_sql_delete [sql_simps]:
  "distinct (map g rows) \<Longrightarrow> distinct (map g (sql_delete p rows))"
  by (simp add: sql_delete_def distinct_map_filter)

lemma sql_count_Nil [simp, sql_simps]: "sql_count p [] = 0"
  by (simp add: sql_count_def)

lemma sql_count_Cons [simp, sql_simps]:
  "sql_count p (r # rs) = (if p r then Suc (sql_count p rs) else sql_count p rs)"
  by (simp add: sql_count_def)

lemma sql_count_eq_0 [sql_simps]: "sql_count p rows = 0 \<longleftrightarrow> (\<forall>r \<in> set rows. \<not> p r)"
  by (simp add: sql_count_def filter_empty_conv)

lemma sql_count_append [sql_simps]: "sql_count p (xs @ ys) = sql_count p xs + sql_count p ys"
  by (simp add: sql_count_def)

text \<open>On a table keyed by \<open>k\<close>, an update or a count restricted to one key touches one row.\<close>

lemma sql_count_key:
  assumes "distinct (map k rows)"
  shows "sql_count (\<lambda>r. k r = x \<and> p r) rows \<le> 1"
  using assms
proof (induction rows)
  case (Cons a rows)
  show ?case
  proof (cases "k a = x \<and> p a")
    case True
    with Cons.prems have "x \<notin> k ` set rows" by auto
    then have "sql_count (\<lambda>r. k r = x \<and> p r) rows = 0"
      unfolding sql_count_eq_0 by blast
    with True show ?thesis by simp
  qed (use Cons in auto)
qed simp

lemma find_in_set: "List.find p rows = Some r \<Longrightarrow> r \<in> set rows \<and> p r"
  by (induction rows) (auto split: if_splits)

lemma find_None_iff': "List.find p rows = None \<longleftrightarrow> (\<forall>r \<in> set rows. \<not> p r)"
  by (auto simp: find_None_iff)

lemma find_append:
  "List.find p (xs @ ys) = (case List.find p xs of None \<Rightarrow> List.find p ys | Some x \<Rightarrow> Some x)"
  by (induction xs) auto

lemma find_key:
  assumes "distinct (map k rows)" and "r \<in> set rows"
  shows "List.find (\<lambda>r'. k r' = k r) rows = Some r"
  using assms by (induction rows) (auto simp: image_iff)

section \<open>Lists\<close>

lemma mem_set_nthI: "i < length xs \<Longrightarrow> xs ! i \<in> set xs"
  by simp

lemma filter_id_iff: "(\<And>x. x \<in> set xs \<Longrightarrow> P x) \<Longrightarrow> filter P xs = xs"
  by (simp add: filter_id_conv)

text \<open>\<^verbatim>\<open>slice::chunks\<close>: consecutive runs of \<open>n\<close> elements, the last one possibly shorter.\<close>

function chunks_of :: "nat \<Rightarrow> 'a list \<Rightarrow> 'a list list" where
  "chunks_of n xs = (if xs = [] \<or> n = 0 then [] else take n xs # chunks_of n (drop n xs))"
  by pat_completeness auto
termination
  by (relation "measure (\<lambda>(n, xs). length xs)") auto

declare chunks_of.simps [simp del]

lemma chunks_of_Nil [simp]: "chunks_of n [] = []"
  by (simp add: chunks_of.simps)

lemma concat_chunks_of [simp]: "0 < n \<Longrightarrow> concat (chunks_of n xs) = xs"
proof (induction n xs rule: chunks_of.induct)
  case (1 n xs)
  then show ?case by (cases "xs = []") (simp_all add: chunks_of.simps [of n xs])
qed

lemma chunks_of_length: "c \<in> set (chunks_of n xs) \<Longrightarrow> length c \<le> n"
proof (induction n xs rule: chunks_of.induct)
  case (1 n xs)
  then show ?case by (auto simp: chunks_of.simps [of n xs] split: if_splits)
qed

end
