(* ===== verification/Chunking.thy ===== *)
theory Chunking
  imports Utf8
begin

text \<open>
  \<^verbatim>\<open>src/chunking.rs\<close>: the char-budget chunker, the token-offset chunker, the wrapper around
  the Markdown splitter, and the lossless split of an oversized body into sub-memories. The
  Markdown splitter (\<^verbatim>\<open>text_splitter\<close>) and the BPE token counter (\<^verbatim>\<open>tiktoken_rs\<close>) are
  third-party code: the definitions that reach them take \<open>chunk_indices\<close> and
  \<open>count_tokens\<close> as arguments.
\<close>

section \<open>Constants and the chunk type\<close>

definition CHUNK_SIZE_TOKENS :: nat where "CHUNK_SIZE_TOKENS = 400"

definition CHUNK_OVERLAP_TOKENS :: nat where "CHUNK_OVERLAP_TOKENS = 50"

definition CHARS_PER_TOKEN :: nat where "CHARS_PER_TOKEN = 2"

definition CHUNK_SIZE_CHARS :: nat where
  "CHUNK_SIZE_CHARS = CHUNK_SIZE_TOKENS * CHARS_PER_TOKEN"

definition CHUNK_OVERLAP_CHARS :: nat where
  "CHUNK_OVERLAP_CHARS = CHUNK_OVERLAP_TOKENS * CHARS_PER_TOKEN"

definition AUTOSPLIT_PARTITION_MAX_BYTES :: nat where
  "AUTOSPLIT_PARTITION_MAX_BYTES = 80 * 1024"

definition REMEMBER_MAX_SAFE_MULTI_CHUNKS :: nat where
  "REMEMBER_MAX_SAFE_MULTI_CHUNKS = 512"

definition EMBEDDING_REQUEST_MAX_TOKENS :: nat where
  "EMBEDDING_REQUEST_MAX_TOKENS = 30000"

lemmas chunk_consts = CHUNK_SIZE_TOKENS_def CHUNK_OVERLAP_TOKENS_def CHARS_PER_TOKEN_def
  CHUNK_SIZE_CHARS_def CHUNK_OVERLAP_CHARS_def

record chunk =
  start_offset :: nat
  end_offset :: nat
  token_count_approx :: nat

section \<open>Char boundaries\<close>

text \<open>
  \<^verbatim>\<open>previous_char_boundary\<close> and \<^verbatim>\<open>next_char_boundary\<close>: the two loops walk down and up
  from the clamped index.
\<close>

fun walk_down :: "string \<Rightarrow> nat \<Rightarrow> nat" where
  "walk_down s 0 = 0"
| "walk_down s (Suc i) = (if is_char_boundary s (Suc i) then Suc i else walk_down s i)"

definition previous_char_boundary :: "string \<Rightarrow> nat \<Rightarrow> nat" where
  "previous_char_boundary body idx = walk_down body (min idx (length body))"

function walk_up :: "string \<Rightarrow> nat \<Rightarrow> nat" where
  "walk_up s i = (if i < length s \<and> \<not> is_char_boundary s i then walk_up s (Suc i) else i)"
  by pat_completeness auto
termination
  by (relation "measure (\<lambda>(s, i). length s - i)") auto

declare walk_up.simps [simp del]

definition next_char_boundary :: "string \<Rightarrow> nat \<Rightarrow> nat" where
  "next_char_boundary body idx = walk_up body (min idx (length body))"

section \<open>The char-budget chunker\<close>

definition rfind :: "string \<Rightarrow> string \<Rightarrow> nat option" where
  "rfind pat s = List.find (\<lambda>i. prefix pat (drop i s)) (rev [0..<length s])"

definition needs_chunking :: "string \<Rightarrow> bool" where
  "needs_chunking body \<longleftrightarrow> CHUNK_SIZE_CHARS < length body"

definition find_split_boundary :: "string \<Rightarrow> nat \<Rightarrow> nat \<Rightarrow> nat rust" where
  "find_split_boundary body start desired_end =
     bind_rust (str_slice body start desired_end) (\<lambda>slice.
       case rfind ''\<newline>\<newline>'' slice of Some pos \<Rightarrow> Inr (start + pos + 2)
       | None \<Rightarrow> (case rfind ''. '' slice of Some pos \<Rightarrow> Inr (start + pos + 2)
       | None \<Rightarrow> (case rfind '' '' slice of Some pos \<Rightarrow> Inr (start + pos + 1)
       | None \<Rightarrow> Inr desired_end)))"

text \<open>
  One turn of the \<^verbatim>\<open>while\<close> loop of \<^verbatim>\<open>split_into_chunks\<close>: the chunk it pushes and the
  next \<open>start\<close>, or no next start when the loop breaks.
\<close>

definition chunk_step :: "string \<Rightarrow> nat \<Rightarrow> (chunk \<times> nat option) rust" where
  "chunk_step body start0 =
     (let start = next_char_boundary body start0;
          desired_end = previous_char_boundary body (min (start + CHUNK_SIZE_CHARS) (length body))
      in bind_rust (if desired_end < length body then find_split_boundary body start desired_end
                    else Inr desired_end) (\<lambda>end0.
         let end1 = (if end0 \<le> start then
                       (let fallback = previous_char_boundary body
                              (min (start + CHUNK_SIZE_CHARS) (length body))
                        in if start < fallback then fallback else length body)
                     else end0)
         in bind_rust (str_slice body start end1) (\<lambda>txt.
              let c = \<lparr>start_offset = start, end_offset = end1,
                       token_count_approx = char_count txt div CHARS_PER_TOKEN\<rparr>
              in if length body \<le> end1 then Inr (c, None)
                 else let next_start = next_char_boundary body (end1 - CHUNK_OVERLAP_CHARS)
                      in Inr (c, Some (if end1 \<le> next_start then end1 else next_start)))))"

text \<open>
  The loop itself. Nothing bounds its turns, so it is a partial function: \<^const>\<open>None\<close> is a
  call that never returns, \<open>Some (Inl p)\<close> one that panics.
\<close>

partial_function (option) chunk_loop :: "string \<Rightarrow> nat \<Rightarrow> chunk list \<Rightarrow> chunk list rust option" where
  "chunk_loop body start chunks =
     (if start < length body then
        (case chunk_step body start of
           Inl p \<Rightarrow> Some (Inl p)
         | Inr (c, nxt) \<Rightarrow>
             (case nxt of None \<Rightarrow> Some (Inr (chunks @ [c]))
              | Some start' \<Rightarrow> chunk_loop body start' (chunks @ [c])))
      else Some (Inr chunks))"

definition split_into_chunks :: "string \<Rightarrow> chunk list rust option" where
  "split_into_chunks body =
     (if \<not> needs_chunking body then
        Some (Inr [\<lparr>start_offset = 0, end_offset = length body,
                    token_count_approx = char_count body div CHARS_PER_TOKEN\<rparr>])
      else chunk_loop body 0 [])"

section \<open>The token-offset chunker\<close>

text \<open>
  The loop of \<^verbatim>\<open>split_into_chunks_by_token_offsets\<close>. Both indexed reads stand under the
  panic of an out-of-range index.
\<close>

definition offset_at :: "(nat \<times> nat) list \<Rightarrow> nat \<Rightarrow> (nat \<times> nat) rust" where
  "offset_at offs i = (if i < length offs then Inr (offs ! i) else Inl Index_panic)"

function token_loop :: "string \<Rightarrow> (nat \<times> nat) list \<Rightarrow> nat \<Rightarrow> chunk list \<Rightarrow> chunk list rust" where
  "token_loop body offs start_token chunks =
     (if start_token < length offs then
        (let end_token = min (start_token + CHUNK_SIZE_TOKENS) (length offs) in
         bind_rust (if start_token = 0 then Inr 0
                    else bind_rust (offset_at offs start_token) (\<lambda>o1. Inr (fst o1))) (\<lambda>s.
         bind_rust (if end_token = length offs then Inr (length body)
                    else bind_rust (offset_at offs (end_token - 1)) (\<lambda>o2. Inr (snd o2))) (\<lambda>e.
           let chunks' = chunks @ [\<lparr>start_offset = s, end_offset = e,
                                    token_count_approx = end_token - start_token\<rparr>]
           in if end_token = length offs then Inr chunks'
              else let next_start = end_token - CHUNK_OVERLAP_TOKENS
                   in token_loop body offs
                        (if next_start \<le> start_token then end_token else next_start) chunks')))
      else Inr chunks)"
  by pat_completeness auto
termination
  by (relation "measure (\<lambda>(body, offs, start_token, chunks). length offs - start_token)")
    (auto simp: Let_def chunk_consts)

declare token_loop.simps [simp del]

definition split_into_chunks_by_token_offsets ::
    "string \<Rightarrow> (nat \<times> nat) list \<Rightarrow> chunk list rust" where
  "split_into_chunks_by_token_offsets body token_offsets =
     (if length token_offsets \<le> CHUNK_SIZE_TOKENS then
        Inr [\<lparr>start_offset = 0, end_offset = length body,
              token_count_approx = length token_offsets\<rparr>]
      else token_loop body token_offsets 0 [])"

section \<open>The Markdown splitter and the single-memory budget\<close>

definition split_into_chunks_hierarchical ::
    "(string \<Rightarrow> (nat \<times> string) list) \<Rightarrow> string \<Rightarrow> chunk list" where
  "split_into_chunks_hierarchical chunk_indices body =
     (if body = [] then []
      else (case chunk_indices body of
          [] \<Rightarrow> [\<lparr>start_offset = 0, end_offset = length body,
                  token_count_approx = char_count body div CHARS_PER_TOKEN\<rparr>]
        | items \<Rightarrow> map (\<lambda>(start, txt). \<lparr>start_offset = start, end_offset = start + length txt,
                          token_count_approx = char_count txt div CHARS_PER_TOKEN\<rparr>) items))"

definition chunk_text :: "string \<Rightarrow> chunk \<Rightarrow> string rust" where
  "chunk_text body c = str_slice body (start_offset c) (end_offset c)"

definition estimate_chunk_count :: "(string \<Rightarrow> (nat \<times> string) list) \<Rightarrow> string \<Rightarrow> nat" where
  "estimate_chunk_count chunk_indices body =
     length (split_into_chunks_hierarchical chunk_indices body)"

definition fits_single_partition ::
    "(string \<Rightarrow> (nat \<times> string) list) \<Rightarrow> (string \<Rightarrow> nat) \<Rightarrow> string \<Rightarrow> bool" where
  "fits_single_partition chunk_indices count_tokens body \<longleftrightarrow>
     length body \<le> AUTOSPLIT_PARTITION_MAX_BYTES
     \<and> estimate_chunk_count chunk_indices body \<le> REMEMBER_MAX_SAFE_MULTI_CHUNKS
     \<and> count_tokens body \<le> EMBEDDING_REQUEST_MAX_TOKENS"

section \<open>Splitting a body into sub-memories\<close>

fun split_inclusive :: "char \<Rightarrow> string \<Rightarrow> string list" where
  "split_inclusive sep [] = []"
| "split_inclusive sep (c # s) =
     (if c = sep then [c] # split_inclusive sep s
      else (case split_inclusive sep s of [] \<Rightarrow> [[c]] | l # ls \<Rightarrow> (c # l) # ls))"

definition is_atx_header :: "string \<Rightarrow> bool" where
  "is_atx_header line =
     (let trimmed = dropWhile (\<lambda>c. c = CHR '' '') line;
          hashes = length (takeWhile (\<lambda>c. c = CHR ''#'') trimmed)
      in if hashes = 0 \<or> 6 < hashes then False
         else let after = drop hashes trimmed
              in after = [] \<or> hd after = CHR '' '' \<or> hd after = CHR ''\<newline>'' \<or> hd after = CHR 0x09)"

fun section_loop :: "string list \<Rightarrow> string list \<Rightarrow> string \<Rightarrow> string list \<times> string" where
  "section_loop [] sections current = (sections, current)"
| "section_loop (line # lines) sections current =
     (if is_atx_header line \<and> current \<noteq> []
      then section_loop lines (sections @ [current]) line
      else section_loop lines sections (current @ line))"

definition split_markdown_sections :: "string \<Rightarrow> string list" where
  "split_markdown_sections body =
     (let (sections, current) = section_loop (split_inclusive CHR ''\<newline>'' body) [] [];
          sections = (if current \<noteq> [] then sections @ [current] else sections)
      in if sections = [] then [body] else sections)"

fun pack_loop :: "nat \<Rightarrow> string list \<Rightarrow> string list \<Rightarrow> string \<Rightarrow> string list \<times> string" where
  "pack_loop max_bytes [] packed current = (packed, current)"
| "pack_loop max_bytes (s # ss) packed current =
     (if current \<noteq> [] \<and> max_bytes < length current + length s
      then pack_loop max_bytes ss (packed @ [current]) s
      else pack_loop max_bytes ss packed (current @ s))"

lemma walk_up_ge: "i \<le> walk_up s i"
proof (induction s i rule: walk_up.induct)
  case (1 s i)
  then show ?case by (auto simp: walk_up.simps [of s i])
qed

lemma next_char_boundary_ge: "i \<le> length s \<Longrightarrow> i \<le> next_char_boundary s i"
  using walk_up_ge by (simp add: next_char_boundary_def)

function hard_slice_loop :: "string \<Rightarrow> nat \<Rightarrow> nat \<Rightarrow> string list \<Rightarrow> string list rust" where
  "hard_slice_loop body max_bytes start pieces =
     (if start < length body then
        (let end0 = previous_char_boundary body (min (start + max_bytes) (length body));
             end1 = (if end0 \<le> start then next_char_boundary body (start + 1) else end0)
         in bind_rust (str_slice body start end1)
              (\<lambda>piece. hard_slice_loop body max_bytes end1 (pieces @ [piece])))
      else Inr pieces)"
  by pat_completeness auto
termination
proof (relation "measure (\<lambda>(body, max_bytes, start, pieces). length body - start)")
  fix body :: string and max_bytes start :: nat and pieces :: "string list"
  fix end0 end1 piece
  assume "start < length body"
    and "end0 = previous_char_boundary body (min (start + max_bytes) (length body))"
    and "end1 = (if end0 \<le> start then next_char_boundary body (start + 1) else end0)"
  then show "((body, max_bytes, end1, pieces @ [piece]), (body, max_bytes, start, pieces))
      \<in> measure (\<lambda>(body, max_bytes, start, pieces). length body - start)"
    using next_char_boundary_ge [of "start + 1" body] by auto
qed simp

declare hard_slice_loop.simps [simp del]

definition hard_slice_to_budget :: "string \<Rightarrow> string list rust" where
  "hard_slice_to_budget body = hard_slice_loop body AUTOSPLIT_PARTITION_MAX_BYTES 0 []"

fun slice_loop ::
    "(string \<Rightarrow> bool) \<Rightarrow> string list \<Rightarrow> string list \<Rightarrow> string list rust" where
  "slice_loop fits [] result = Inr result"
| "slice_loop fits (p # ps) result =
     (if fits p then slice_loop fits ps (result @ [p])
      else bind_rust (hard_slice_to_budget p) (\<lambda>pieces. slice_loop fits ps (result @ pieces)))"

definition split_body_by_sections ::
    "(string \<Rightarrow> (nat \<times> string) list) \<Rightarrow> (string \<Rightarrow> nat) \<Rightarrow> string \<Rightarrow> string list rust" where
  "split_body_by_sections chunk_indices count_tokens body =
     (if fits_single_partition chunk_indices count_tokens body then Inr [body]
      else
        (let (packed0, current) =
               pack_loop AUTOSPLIT_PARTITION_MAX_BYTES (split_markdown_sections body) [] [];
             packed = (if current \<noteq> [] then packed0 @ [current] else packed0)
         in bind_rust (slice_loop (fits_single_partition chunk_indices count_tokens) packed [])
              (\<lambda>result. Inr (if result = [] then [body] else result))))"

record body_budget =
  bytes :: nat
  approx_tokens :: nat
  chunk_count :: nat
  partition_count :: nat
  exceeds_limits :: bool

definition assess_body_budget ::
    "(string \<Rightarrow> (nat \<times> string) list) \<Rightarrow> (string \<Rightarrow> nat) \<Rightarrow> string \<Rightarrow> body_budget rust" where
  "assess_body_budget chunk_indices count_tokens body =
     bind_rust (split_body_by_sections chunk_indices count_tokens body) (\<lambda>parts.
       Inr \<lparr>bytes = length body, approx_tokens = count_tokens body,
            chunk_count = estimate_chunk_count chunk_indices body,
            partition_count = length parts, exceeds_limits = 1 < length parts\<rparr>)"

section \<open>Boundary facts\<close>

lemma walk_down_le: "walk_down s i \<le> i"
  by (induction i) (auto intro: le_SucI)

lemma walk_down_boundary [simp]: "is_char_boundary s (walk_down s i)"
  by (induction i) auto

lemma walk_down_greatest: "j \<le> i \<Longrightarrow> is_char_boundary s j \<Longrightarrow> j \<le> walk_down s i"
  by (induction i) (auto simp: le_Suc_eq)

lemma previous_char_boundary_le: "previous_char_boundary s i \<le> i"
  using walk_down_le [of s "min i (length s)"] by (simp add: previous_char_boundary_def)

lemma previous_char_boundary_boundary [simp]: "is_char_boundary s (previous_char_boundary s i)"
  by (simp add: previous_char_boundary_def)

lemma previous_char_boundary_len [simp]: "previous_char_boundary s (length s) = length s"
  by (cases "length s") (simp_all add: previous_char_boundary_def flip: length_greater_0_conv,
      metis is_char_boundary_length walk_down.simps(2))

lemma previous_char_boundary_greatest:
  "j \<le> i \<Longrightarrow> is_char_boundary s j \<Longrightarrow> j \<le> previous_char_boundary s i"
  using walk_down_greatest [of j "min i (length s)" s]
  by (auto simp: previous_char_boundary_def dest: is_char_boundary_le)

lemma walk_up_boundary: "i \<le> length s \<Longrightarrow> is_char_boundary s (walk_up s i)"
proof (induction s i rule: walk_up.induct)
  case (1 s i)
  then show ?case
    by (cases "i = length s") (auto simp: walk_up.simps [of s i] walk_up.simps [of s "length s"])
qed

lemma next_char_boundary_boundary [simp]: "is_char_boundary s (next_char_boundary s i)"
  by (simp add: next_char_boundary_def walk_up_boundary)

lemma next_char_boundary_id: "is_char_boundary s i \<Longrightarrow> next_char_boundary s i = i"
  using is_char_boundary_le [of s i] by (simp add: next_char_boundary_def walk_up.simps [of s i])

lemma next_char_boundary_le: "next_char_boundary s i \<le> length s"
  using is_char_boundary_le next_char_boundary_boundary by blast

lemma walk_up_least: "i \<le> j \<Longrightarrow> is_char_boundary s j \<Longrightarrow> walk_up s i \<le> j"
proof (induction s i rule: walk_up.induct)
  case (1 s i)
  show ?case
  proof (cases "i < length s \<and> \<not> is_char_boundary s i")
    case True
    with "1.prems" have "Suc i \<le> j" by (auto simp: le_less)
    with "1.IH" "1.prems"(2) True show ?thesis by (simp add: walk_up.simps [of s i])
  qed (use "1.prems" walk_up.simps [of s i] in auto)
qed

lemma next_char_boundary_least:
  "i \<le> j \<Longrightarrow> is_char_boundary s j \<Longrightarrow> next_char_boundary s i \<le> j"
  using walk_up_least [of i j s] is_char_boundary_le [of s j] by (simp add: next_char_boundary_def)

text \<open>In valid text a window of at least four bytes always contains a further boundary.\<close>

lemma previous_char_boundary_progress:
  assumes "utf8_valid s" and "a < length s" and "4 \<le> w"
  shows "a < previous_char_boundary s (min (a + w) (length s))"
    and "min (a + w) (length s) - 3 \<le> previous_char_boundary s (min (a + w) (length s))"
proof -
  let ?i = "min (a + w) (length s)"
  have "?i - 3 \<le> previous_char_boundary s ?i \<and> (a < previous_char_boundary s ?i)"
  proof (cases "length s \<le> a + w")
    case True
    with assms(2) show ?thesis by (simp add: min_def)
  next
    case False
    then obtain j where "?i - 3 \<le> j" "j \<le> ?i" "is_char_boundary s j"
      using utf8_valid_boundary_near [OF assms(1), of "a + w"] assms(3) by (auto simp: min_def)
    with previous_char_boundary_greatest [of j ?i s] False assms(3) show ?thesis
      by (simp add: min_def)
  qed
  then show "a < previous_char_boundary s ?i" and "?i - 3 \<le> previous_char_boundary s ?i" by simp_all
qed

lemma utf8_hd_boundary: "utf8_valid (c # s) \<Longrightarrow> \<not> is_cont c"
  using utf8_valid_ConsE by metis

lemma ascii_next_boundary:
  assumes "utf8_valid s" and "i < length s" and "byte_in 0 127 (s ! i)"
  shows "is_char_boundary s (Suc i)"
proof -
  have "utf8_valid (take i s @ s ! i # drop (Suc i) s)"
    using assms(1,2) by (simp flip: id_take_nth_drop)
  then have "utf8_valid (drop (Suc i) s)" using utf8_valid_ascii_mid assms(3) by blast
  then show ?thesis
    using utf8_hd_boundary assms(2)
    by (cases "drop (Suc i) s") (auto simp: is_char_boundary_def Cons_nth_drop_Suc [symmetric])
qed

section \<open>The lossless split\<close>

lemma concat_split_inclusive [simp]: "concat (split_inclusive sep s) = s"
  by (induction s) (auto split: list.splits)

lemma concat_section_loop:
  "section_loop lines secs cur = (secs', cur') \<Longrightarrow>
   concat secs' @ cur' = concat secs @ cur @ concat lines"
  by (induction lines arbitrary: secs cur) (auto split: if_splits)

lemma concat_split_markdown_sections [simp]: "concat (split_markdown_sections body) = body"
  using concat_section_loop [of "split_inclusive CHR ''\<newline>'' body" "[]" "[]"]
  by (auto simp: split_markdown_sections_def Let_def split: prod.splits)

lemma concat_pack_loop:
  "pack_loop m ss packed cur = (packed', cur') \<Longrightarrow>
   concat packed' @ cur' = concat packed @ cur @ concat ss"
  by (induction m ss packed cur rule: pack_loop.induct) (auto split: if_splits)

text \<open>Every piece of a hard slice is a slice at boundaries, and they tile the rest of the body.\<close>

lemma hard_slice_loop_ok:
  assumes "is_char_boundary body start"
  shows "\<exists>qs. hard_slice_loop body m start ps = Inr (ps @ qs) \<and> concat qs = drop start body
    \<and> (utf8_valid body \<longrightarrow> 4 \<le> m \<longrightarrow> (\<forall>q \<in> set qs. utf8_valid q \<and> length q \<le> m))"
  using assms
proof (induction body m start ps rule: hard_slice_loop.induct)
  case (1 body m start ps)
  note eq = hard_slice_loop.simps [of body m start ps]
  show ?case
  proof (cases "start < length body")
    case False
    with eq show ?thesis by simp
  next
    case True
    define e0 where "e0 = previous_char_boundary body (min (start + m) (length body))"
    define e1 where "e1 = (if e0 \<le> start then next_char_boundary body (start + 1) else e0)"
    have b: "is_char_boundary body e1" by (simp add: e1_def e0_def)
    have gt: "start < e1"
      using True next_char_boundary_ge [of "start + 1" body] by (auto simp: e1_def)
    define q where "q = take (e1 - start) (drop start body)"
    have sl: "str_slice body start e1 = Inr q"
      using str_slice_ok [of start e1 body] "1.prems" b gt by (simp add: q_def)
    from "1.IH" [OF True e0_def e1_def b, of q] obtain qs where
      qs: "hard_slice_loop body m e1 (ps @ [q]) = Inr ((ps @ [q]) @ qs)" "concat qs = drop e1 body"
        "utf8_valid body \<longrightarrow> 4 \<le> m \<longrightarrow> (\<forall>q \<in> set qs. utf8_valid q \<and> length q \<le> m)"
      by blast
    have step: "hard_slice_loop body m start ps = hard_slice_loop body m e1 (ps @ [q])"
      using eq True sl by (simp add: Let_def flip: e0_def e1_def)
    have "q @ drop e1 body = drop start body"
      using gt by (simp add: q_def) (metis append_take_drop_id drop_drop le_add_diff_inverse2 less_imp_le)
    moreover have "utf8_valid q \<and> length q \<le> m" if v: "utf8_valid body" and m: "4 \<le> m"
    proof -
      have "start < e0" using previous_char_boundary_progress(1) [OF v True m] by (simp add: e0_def)
      then have "e1 = e0" by (simp add: e1_def)
      moreover have "e0 \<le> start + m"
        using previous_char_boundary_le [of body "min (start + m) (length body)"] by (simp add: e0_def)
      ultimately have "length q \<le> m" by (simp add: q_def)
      with utf8_valid_slice [OF v sl] show ?thesis by simp
    qed
    ultimately show ?thesis using step qs by (intro exI [of _ "q # qs"]) auto
  qed
qed

lemma hard_slice_to_budget_ok:
  "\<exists>qs. hard_slice_to_budget body = Inr qs \<and> concat qs = body
    \<and> (utf8_valid body \<longrightarrow> (\<forall>q \<in> set qs. utf8_valid q \<and> length q \<le> AUTOSPLIT_PARTITION_MAX_BYTES))"
  using hard_slice_loop_ok [of body 0 AUTOSPLIT_PARTITION_MAX_BYTES "[]"]
  by (simp add: hard_slice_to_budget_def AUTOSPLIT_PARTITION_MAX_BYTES_def)

lemma slice_loop_ok:
  assumes "\<And>p. fits p \<Longrightarrow> length p \<le> AUTOSPLIT_PARTITION_MAX_BYTES"
  shows "\<exists>qs. slice_loop fits ps res = Inr (res @ qs) \<and> concat qs = concat ps
    \<and> ((\<forall>p \<in> set ps. utf8_valid p) \<longrightarrow>
        (\<forall>q \<in> set qs. utf8_valid q \<and> length q \<le> AUTOSPLIT_PARTITION_MAX_BYTES))"
proof (induction ps arbitrary: res)
  case (Cons p ps)
  obtain rs where rs: "(if fits p then Inr [p] else hard_slice_to_budget p) = Inr rs"
    "concat rs = p"
    "utf8_valid p \<longrightarrow> (\<forall>q \<in> set rs. utf8_valid q \<and> length q \<le> AUTOSPLIT_PARTITION_MAX_BYTES)"
    using hard_slice_to_budget_ok [of p] assms [of p] by (cases "fits p") auto
  from Cons.IH [of "res @ rs"] obtain qs where
    qs: "slice_loop fits ps (res @ rs) = Inr ((res @ rs) @ qs)" "concat qs = concat ps"
    "(\<forall>p \<in> set ps. utf8_valid p) \<longrightarrow>
      (\<forall>q \<in> set qs. utf8_valid q \<and> length q \<le> AUTOSPLIT_PARTITION_MAX_BYTES)" by blast
  have "slice_loop fits (p # ps) res = Inr (res @ rs @ qs)"
    using rs(1) qs(1) by (simp split: if_splits)
  moreover have "concat (rs @ qs) = concat (p # ps)" using rs(2) qs(2) by simp
  moreover have "(\<forall>p \<in> set (p # ps). utf8_valid p) \<longrightarrow>
      (\<forall>q \<in> set (rs @ qs). utf8_valid q \<and> length q \<le> AUTOSPLIT_PARTITION_MAX_BYTES)"
    using rs(3) qs(3) unfolding set_append list.set by blast
  ultimately show ?case by blast
qed simp

text \<open>A predicate closed under concatenation passes from the lines to the sections and partitions.\<close>

definition append_closed :: "(string \<Rightarrow> bool) \<Rightarrow> bool" where
  "append_closed P \<longleftrightarrow> P [] \<and> (\<forall>a b. P a \<longrightarrow> P b \<longrightarrow> P (a @ b))"

lemma append_closed_utf8 [simp]: "append_closed utf8_valid"
  by (simp add: append_closed_def utf8_valid_append)

lemma section_loop_closed:
  assumes "append_closed P"
  shows "section_loop lines secs cur = (secs', cur') \<Longrightarrow> list_all P lines \<Longrightarrow> list_all P secs \<Longrightarrow> P cur \<Longrightarrow>
    list_all P secs' \<and> P cur'"
  using assms
  by (induction lines arbitrary: secs cur) (auto simp: append_closed_def split: if_splits)

lemma pack_loop_closed:
  assumes "append_closed P"
  shows "pack_loop m ss packed cur = (packed', cur') \<Longrightarrow> list_all P ss \<Longrightarrow> list_all P packed \<Longrightarrow> P cur \<Longrightarrow>
    list_all P packed' \<and> P cur'"
  using assms
  by (induction ss arbitrary: packed cur) (auto simp: append_closed_def split: if_splits)

lemma split_inclusive_free:
  "sep \<notin> set a \<Longrightarrow> split_inclusive sep a = (if a = [] then [] else [a])"
  by (induction a) auto

lemma split_inclusive_first:
  "sep \<notin> set a \<Longrightarrow> split_inclusive sep (a @ sep # b) = (a @ [sep]) # split_inclusive sep b"
  by (induction a) auto

lemma split_inclusive_valid:
  assumes "byte_in 0 127 sep"
  shows "utf8_valid s \<Longrightarrow> list_all utf8_valid (split_inclusive sep s)"
proof (induction "length s" arbitrary: s rule: less_induct)
  case less
  show ?case
  proof (cases "sep \<in> set s")
    case False
    with less.prems show ?thesis by (simp add: split_inclusive_free)
  next
    case True
    then obtain a b where s: "s = a @ sep # b" "sep \<notin> set a" using split_list_first by metis
    with less.prems assms have v: "utf8_valid a" "utf8_valid b" using utf8_valid_ascii_mid by blast+
    then have "utf8_valid (a @ [sep])" using assms by (simp add: utf8_valid_append utf8_valid.simps(2))
    with less.hyps [of b] v s show ?thesis by (simp add: split_inclusive_first)
  qed
qed

lemma split_markdown_sections_valid:
  assumes "utf8_valid body"
  shows "list_all utf8_valid (split_markdown_sections body)"
proof -
  have nl: "byte_in 0 127 CHR ''\<newline>''" by (simp add: byte_in_def)
  obtain secs cur where sc: "section_loop (split_inclusive CHR ''\<newline>'' body) [] [] = (secs, cur)"
    by fastforce
  from section_loop_closed [OF append_closed_utf8 sc split_inclusive_valid [OF nl assms]]
  have "list_all utf8_valid secs" "utf8_valid cur" by simp_all
  with sc assms show ?thesis by (simp add: split_markdown_sections_def Let_def)
qed

lemma split_body_by_sections_ok:
  "\<exists>ps. split_body_by_sections ci ct body = Inr ps \<and> concat ps = body
    \<and> (utf8_valid body \<longrightarrow> (\<forall>p \<in> set ps. utf8_valid p \<and> length p \<le> AUTOSPLIT_PARTITION_MAX_BYTES))"
proof (cases "fits_single_partition ci ct body")
  case True
  then show ?thesis by (simp add: split_body_by_sections_def fits_single_partition_def)
next
  case False
  let ?M = AUTOSPLIT_PARTITION_MAX_BYTES and ?secs = "split_markdown_sections body"
  obtain packed cur where pk: "pack_loop ?M ?secs [] [] = (packed, cur)" by fastforce
  define parts where "parts = (if cur \<noteq> [] then packed @ [cur] else packed)"
  have cc: "concat parts = body" using concat_pack_loop [OF pk] by (auto simp: parts_def)
  have valid: "\<forall>p \<in> set parts. utf8_valid p" if "utf8_valid body"
    using pack_loop_closed [OF append_closed_utf8 pk split_markdown_sections_valid [OF that]]
    by (auto simp: parts_def list_all_iff)
  obtain qs where qs: "slice_loop (fits_single_partition ci ct) parts [] = Inr qs" "concat qs = concat parts"
    "(\<forall>p \<in> set parts. utf8_valid p) \<longrightarrow> (\<forall>q \<in> set qs. utf8_valid q \<and> length q \<le> ?M)"
    using slice_loop_ok [of "fits_single_partition ci ct" parts "[]"]
    by (auto simp: fits_single_partition_def)
  have eq: "split_body_by_sections ci ct body = Inr (if qs = [] then [body] else qs)"
    using False pk qs(1) by (simp add: split_body_by_sections_def parts_def)
  show ?thesis
  proof (cases "qs = []")
    case True
    with qs(2) cc eq show ?thesis by simp
  next
    case False
    then have "split_body_by_sections ci ct body = Inr qs" using eq by simp
    moreover have "concat qs = body" using qs(2) cc by simp
    moreover have "utf8_valid body \<longrightarrow> (\<forall>q \<in> set qs. utf8_valid q \<and> length q \<le> ?M)"
      using qs(3) valid by blast
    ultimately show ?thesis by blast
  qed
qed

section \<open>Properties of the split\<close>

text \<open>
  Splitting a body into sub-memories never panics, and the partitions in order are
  exactly the body: nothing is lost, duplicated or reordered, whatever the Markdown splitter
  and the token counter answer.
\<close>

theorem split_body_by_sections_lossless:
  "\<exists>parts. split_body_by_sections chunk_indices count_tokens body = Inr parts \<and> concat parts = body"
  using split_body_by_sections_ok by blast

text \<open>
  Claim C37. Every partition of a well-formed body is itself well-formed UTF-8 and no longer
  than the partition budget.
\<close>

theorem split_body_by_sections_bounded:
  assumes "utf8_valid body"
    and "split_body_by_sections chunk_indices count_tokens body = Inr parts"
    and "p \<in> set parts"
  shows "utf8_valid p \<and> length p \<le> AUTOSPLIT_PARTITION_MAX_BYTES"
  using assms split_body_by_sections_ok [of chunk_indices count_tokens body] by auto

theorem split_body_by_sections_bounded_witness:
  "utf8_valid ''hello'' \<and> split_body_by_sections (\<lambda>_. []) length ''hello'' = Inr [''hello'']
    \<and> utf8_valid ''hello'' \<and> length ''hello'' \<le> AUTOSPLIT_PARTITION_MAX_BYTES"
proof -
  have v: "utf8_valid ''hello''" by code_simp
  have e: "split_body_by_sections (\<lambda>_. []) length ''hello'' = Inr [''hello'']"
    by (simp add: split_body_by_sections_def fits_single_partition_def estimate_chunk_count_def
        split_into_chunks_hierarchical_def AUTOSPLIT_PARTITION_MAX_BYTES_def
        REMEMBER_MAX_SAFE_MULTI_CHUNKS_def EMBEDDING_REQUEST_MAX_TOKENS_def)
  from split_body_by_sections_bounded [OF v e, of "''hello''"] v e show ?thesis by simp
qed

end
