(* ===== verification/Chunk_Loops.thy ===== *)
theory Chunk_Loops
  imports Chunking
begin

text \<open>
  Correctness of the two chunking loops of \<^verbatim>\<open>src/chunking.rs\<close>: the turn lemma of the
  char-budget loop, what a returning run guarantees, where the loop returns, where it never
  does, and the functional behaviour of the token-offset loop.
\<close>

section \<open>One turn of the char-budget loop\<close>

lemma rfind_SomeD: "rfind pat s = Some pos \<Longrightarrow> pos < length s \<and> prefix pat (drop pos s)"
  unfolding rfind_def by (drule find_in_set) auto

lemma rfind_SomeI:
  assumes "pos < length s" and "prefix pat (drop pos s)"
    and "\<And>i. pos < i \<Longrightarrow> i < length s \<Longrightarrow> \<not> prefix pat (drop i s)"
  shows "rfind pat s = Some pos"
proof -
  have "[0..<length s] = [0..<pos] @ pos # [Suc pos..<length s]"
    using assms(1) by (metis less_imp_le upt_add_eq_append upt_conv_Cons le_add_diff_inverse le0 add_0)
  moreover have "List.find (\<lambda>i. prefix pat (drop i s)) (rev [Suc pos..<length s]) = None"
    using assms(3) by (simp add: find_None_iff' Suc_le_eq)
  ultimately show ?thesis using assms(2) by (simp add: rfind_def find_append)
qed

lemma rfind_NoneD: "rfind pat s = None \<Longrightarrow> i < length s \<Longrightarrow> \<not> prefix pat (drop i s)"
  unfolding rfind_def find_None_iff' by simp

text \<open>A separator found in the slice ends at a boundary inside the slice.\<close>

lemma separator_boundary:
  assumes "utf8_valid body" and "a \<le> d" and "d \<le> length body"
    and "prefix pat (drop pos (take (d - a) (drop a body)))"
    and "pat \<noteq> []" and "byte_in 0 127 (last pat)"
  shows "a + pos + length pat \<le> d" and "is_char_boundary body (a + pos + length pat)"
proof -
  let ?sl = "take (d - a) (drop a body)"
  from assms(4) obtain r where r: "drop pos ?sl = pat @ r" by (auto simp: prefix_def)
  then have "length pat + length r = length ?sl - pos" by (metis length_append length_drop)
  then have "pos + length pat \<le> length ?sl" using assms(5) by (cases pat) auto
  then show le: "a + pos + length pat \<le> d" using assms(2,3) by simp
  let ?i = "a + pos + (length pat - 1)"
  have pl: "length pat - 1 < length pat" using assms(5) by simp
  have "body ! ?i = ?sl ! (pos + (length pat - 1))" using le pl assms(3) by (simp add: add.assoc)
  also have "\<dots> = (pat @ r) ! (length pat - 1)"
    using le pl assms(3) by (subst r [symmetric]) simp
  also have "\<dots> = last pat" using assms(5) pl by (simp add: nth_append last_conv_nth)
  finally have "byte_in 0 127 (body ! ?i)" using assms(6) by simp
  with ascii_next_boundary [OF assms(1), of ?i] le pl assms(3)
  have "is_char_boundary body (Suc ?i)" by simp
  moreover have "Suc ?i = a + pos + length pat" using assms(5) by (cases pat) simp_all
  ultimately show "is_char_boundary body (a + pos + length pat)" by metis
qed

lemma find_split_boundary_ok:
  assumes "utf8_valid body" and "a < d" and "is_char_boundary body a" and "is_char_boundary body d"
  shows "\<exists>e. find_split_boundary body a d = Inr e \<and> a < e \<and> e \<le> d \<and> is_char_boundary body e"
proof -
  let ?sl = "take (d - a) (drop a body)"
  have dl: "d \<le> length body" using assms(4) is_char_boundary_le by blast
  have sl: "str_slice body a d = Inr ?sl" using assms str_slice_ok by simp
  note sep = separator_boundary [OF assms(1) less_imp_le [OF assms(2)] dl]
  show ?thesis
  proof (cases "rfind ''\<newline>\<newline>'' ?sl")
    case (Some pos)
    with sl sep [of "''\<newline>\<newline>''" pos] show ?thesis
      by (auto simp: find_split_boundary_def byte_in_def dest!: rfind_SomeD)
  next
    case n1: None
    show ?thesis
    proof (cases "rfind ''. '' ?sl")
      case (Some pos)
      with n1 sl sep [of "''. ''" pos] show ?thesis
        by (auto simp: find_split_boundary_def byte_in_def dest!: rfind_SomeD)
    next
      case n2: None
      show ?thesis
      proof (cases "rfind '' '' ?sl")
        case (Some pos)
        with n1 n2 sl sep [of "'' ''" pos] show ?thesis
          by (auto simp: find_split_boundary_def byte_in_def dest!: rfind_SomeD)
      next
        case None
        with n1 n2 sl assms show ?thesis by (auto simp: find_split_boundary_def)
      qed
    qed
  qed
qed

text \<open>
  The turn at a boundary \<open>start\<close> of valid text: it pushes a non-empty chunk of at most
  \<^const>\<open>CHUNK_SIZE_CHARS\<close> bytes that begins at \<open>start\<close>, and either that chunk ends the
  body or the next start is a boundary at most \<^const>\<open>CHUNK_OVERLAP_CHARS\<close> bytes back.
\<close>

definition turn_ok :: "string \<Rightarrow> nat \<Rightarrow> chunk \<Rightarrow> nat option \<Rightarrow> bool" where
  "turn_ok body start c nxt \<longleftrightarrow>
     start_offset c = start \<and> start < end_offset c
     \<and> end_offset c \<le> start + CHUNK_SIZE_CHARS \<and> is_char_boundary body (end_offset c)
     \<and> (case nxt of
          None \<Rightarrow> end_offset c = length body
        | Some n \<Rightarrow> end_offset c < length body \<and> is_char_boundary body n \<and> n \<le> end_offset c
            \<and> n = next_char_boundary body (end_offset c - CHUNK_OVERLAP_CHARS))"

lemma chunk_step_ok:
  assumes v: "utf8_valid body" and lt: "start < length body" and b: "is_char_boundary body start"
  shows "\<exists>c nxt. chunk_step body start = Inr (c, nxt) \<and> turn_ok body start c nxt"
proof -
  define d where "d = previous_char_boundary body (min (start + CHUNK_SIZE_CHARS) (length body))"
  have ad: "start < d"
    using previous_char_boundary_progress(1) [OF v lt, of CHUNK_SIZE_CHARS] by (simp add: d_def chunk_consts)
  have db: "is_char_boundary body d" by (simp add: d_def)
  have dl: "d \<le> min (start + CHUNK_SIZE_CHARS) (length body)"
    using previous_char_boundary_le by (simp only: d_def)
  obtain e where e: "(if d < length body then find_split_boundary body start d else Inr d) = Inr e"
    "start < e" "e \<le> d" "is_char_boundary body e"
    using find_split_boundary_ok [OF v ad b db] ad db by (cases "d < length body") auto
  have sl: "str_slice body start e = Inr (take (e - start) (drop start body))"
    using str_slice_ok e b by simp
  define c where "c = \<lparr>start_offset = start, end_offset = e,
    token_count_approx = char_count (take (e - start) (drop start body)) div CHARS_PER_TOKEN\<rparr>"
  define n where "n = next_char_boundary body (e - CHUNK_OVERLAP_CHARS)"
  have ns: "next_char_boundary body start = start" using next_char_boundary_id b by blast
  have ne: "n \<le> e" using e(4) next_char_boundary_least by (simp add: n_def)
  have "chunk_step body start = Inr (c, if length body \<le> e then None else Some n)"
    using e(2) sl ne
    by (simp only: chunk_step_def Let_def ns d_def [symmetric] e(1) bind_rust_simps)
      (simp add: c_def n_def)
  moreover have "turn_ok body start c (if length body \<le> e then None else Some n)"
    using e dl ne is_char_boundary_le [OF e(4)] by (simp add: turn_ok_def c_def n_def)
  ultimately show ?thesis by blast
qed

section \<open>Runs of the char-budget loop\<close>

text \<open>What every chunk of a run satisfies, and what a list of chunks covers.\<close>

definition chunk_wf :: "string \<Rightarrow> chunk \<Rightarrow> bool" where
  "chunk_wf body c \<longleftrightarrow> start_offset c < end_offset c
     \<and> end_offset c - start_offset c \<le> CHUNK_SIZE_CHARS
     \<and> is_char_boundary body (start_offset c) \<and> is_char_boundary body (end_offset c)"

definition covered :: "chunk list \<Rightarrow> nat \<Rightarrow> bool" where
  "covered cs n \<longleftrightarrow> (\<forall>i < n. \<exists>c \<in> set cs. start_offset c \<le> i \<and> i < end_offset c)"

lemma covered_snoc:
  "covered cs (start_offset c) \<Longrightarrow> n \<le> end_offset c \<Longrightarrow> covered (cs @ [c]) n"
  unfolding covered_def by (metis Un_iff in_set_conv_decomp linorder_not_le order.strict_trans2 set_append)

lemma covered_mono: "covered cs n \<Longrightarrow> m \<le> n \<Longrightarrow> covered cs m"
  by (auto simp: covered_def)

text \<open>
  A run from a boundary whose predecessors are covered: it does not panic, its chunks are
  well formed, cover the body and the last one ends it.
\<close>

lemma chunk_loop_ok:
  assumes ret: "chunk_loop body start cs = Some res"
    and pre: "utf8_valid body" "start < length body" "is_char_boundary body start"
      "list_all (chunk_wf body) cs" "covered cs start"
  shows "\<exists>ds. res = Inr ds \<and> list_all (chunk_wf body) ds \<and> covered ds (length body)
    \<and> ds \<noteq> [] \<and> end_offset (last ds) = length body"
proof -
  let ?post = "\<lambda>body res. \<exists>ds. res = Inr ds \<and> list_all (chunk_wf body) ds
    \<and> covered ds (length body) \<and> ds \<noteq> [] \<and> end_offset (last ds) = length body"
  let ?pre = "\<lambda>body start cs. utf8_valid body \<and> start < length body \<and> is_char_boundary body start
    \<and> list_all (chunk_wf body) cs \<and> covered cs start"
  have "?pre body start cs \<longrightarrow> ?post body res"
  proof (rule chunk_loop.raw_induct [where P = "\<lambda>body start cs res. ?pre body start cs \<longrightarrow> ?post body res",
        OF _ ret], intro impI)
    fix f :: "string \<Rightarrow> nat \<Rightarrow> chunk list \<Rightarrow> chunk list rust option"
    fix body start cs res
    assume IH: "\<And>body start cs res. f body start cs = Some res \<Longrightarrow> ?pre body start cs \<longrightarrow> ?post body res"
    assume eq: "(if start < length body then
        (case chunk_step body start of Inl p \<Rightarrow> Some (Inl p)
         | Inr (c, nxt) \<Rightarrow> (case nxt of None \<Rightarrow> Some (Inr (cs @ [c]))
            | Some start' \<Rightarrow> f body start' (cs @ [c])))
      else Some (Inr cs)) = Some res"
    assume p: "?pre body start cs"
    then obtain c nxt where step: "chunk_step body start = Inr (c, nxt)"
      and turn: "turn_ok body start c nxt"
      using chunk_step_ok [of body start] by blast
    then have c: "start_offset c = start" "start < end_offset c"
      "end_offset c \<le> start + CHUNK_SIZE_CHARS" "is_char_boundary body (end_offset c)"
      by (simp_all add: turn_ok_def)
    have wf: "list_all (chunk_wf body) (cs @ [c])"
      using p c by (simp add: chunk_wf_def)
    have cov: "covered (cs @ [c]) (end_offset c)" using p c covered_snoc by simp
    show "?post body res"
    proof (cases nxt)
      case None
      then have "res = Inr (cs @ [c])" using eq step p by simp
      moreover have "end_offset c = length body" using None turn by (simp add: turn_ok_def)
      ultimately show ?thesis using wf cov by (intro exI [of _ "cs @ [c]"]) simp
    next
      case (Some n)
      with eq step p have r: "f body n (cs @ [c]) = Some res" by simp
      have n: "end_offset c < length body" "is_char_boundary body n" "n \<le> end_offset c"
        using turn Some by (simp_all add: turn_ok_def)
      then have "?pre body n (cs @ [c])"
        using p wf cov covered_mono [of "cs @ [c]" "end_offset c" n] by simp
      with IH [OF r] show ?thesis by blast
    qed
  qed
  with pre show ?thesis by blast
qed

section \<open>Where the char-budget loop returns\<close>

text \<open>Text without a space and without a blank line offers no separator to any slice.\<close>

definition separator_free :: "string \<Rightarrow> bool" where
  "separator_free body \<longleftrightarrow> rfind '' '' body = None \<and> rfind ''\<newline>\<newline>'' body = None"

lemma prefix_take_drop:
  "prefix pat (drop i (take n (drop a s))) \<Longrightarrow> prefix pat (drop (i + a) s)"
  by (metis drop_drop drop_take prefix_order.trans take_is_prefix)

lemma rfind_slice_None:
  assumes "rfind pat s = None"
  shows "rfind pat (take n (drop a s)) = None"
proof (rule ccontr)
  assume "rfind pat (take n (drop a s)) \<noteq> None"
  then obtain i where "i < length (take n (drop a s))" "prefix pat (drop i (take n (drop a s)))"
    using rfind_SomeD by blast
  then have "i + a < length s" "prefix pat (drop (i + a) s)"
    using prefix_take_drop by auto
  with rfind_NoneD [OF assms] show False by blast
qed

lemma rfind_no_space:
  assumes "rfind '' '' s = None"
  shows "rfind ''. '' s = None"
proof (rule ccontr)
  assume "rfind ''. '' s \<noteq> None"
  then obtain i where "i < length s" and p: "prefix ''. '' (drop i s)" using rfind_SomeD by blast
  then obtain r where r: "drop i s = ''. '' @ r" by (auto simp: prefix_def)
  then have d: "drop (Suc i) s = '' '' @ r" by (metis append_Cons append_Nil drop_Suc list.sel(3) tl_drop)
  then have "Suc i < length s" by (metis append_is_Nil_conv drop_eq_Nil linorder_not_le not_Cons_self2)
  with d rfind_NoneD [OF assms, of "Suc i"] show False by simp
qed

lemma find_split_boundary_free:
  assumes "separator_free body" and "a \<le> d" and "is_char_boundary body a" and "is_char_boundary body d"
  shows "find_split_boundary body a d = Inr d"
  using assms rfind_slice_None [of "''\<newline>\<newline>''" body] rfind_slice_None [of "'' ''" body] rfind_no_space
  by (simp add: separator_free_def find_split_boundary_def str_slice_ok)

text \<open>There a turn advances by more than the window minus the overlap.\<close>

lemma chunk_step_advances:
  assumes "utf8_valid body" and "separator_free body" and "start < length body"
    and "is_char_boundary body start" and "chunk_step body start = Inr (c, Some n)"
  shows "start < n"
proof -
  define d where "d = previous_char_boundary body (min (start + CHUNK_SIZE_CHARS) (length body))"
  note pr = previous_char_boundary_progress [OF assms(1,3), of CHUNK_SIZE_CHARS, folded d_def]
  have d: "start < d" "min (start + CHUNK_SIZE_CHARS) (length body) - 3 \<le> d"
    using pr by (simp_all add: chunk_consts)
  have fs: "(if d < length body then find_split_boundary body start d else Inr d) = Inr d"
    using find_split_boundary_free [OF assms(2), of start d] assms(4) d(1) by (simp add: d_def)
  have turn: "turn_ok body start c (Some n)"
    using chunk_step_ok [OF assms(1,3,4)] assms(5) by auto
  have "end_offset c = d"
    using assms(5) d(1) next_char_boundary_id [OF assms(4)]
      str_slice_ok [of start d body] assms(4)
    by (simp only: chunk_step_def Let_def d_def [symmetric] fs bind_rust_simps)
      (auto simp: d_def bind_rust_def split: if_splits sum.splits)
  with turn have dn: "d < length body" "n = next_char_boundary body (d - CHUNK_OVERLAP_CHARS)"
    by (simp_all add: turn_ok_def)
  have "d - CHUNK_OVERLAP_CHARS \<le> n" using dn next_char_boundary_ge by simp
  moreover have "start + CHUNK_SIZE_CHARS \<le> length body"
  proof (rule ccontr)
    assume "\<not> ?thesis"
    then have "d = length body" by (simp add: d_def min_def)
    with dn(1) show False by simp
  qed
  ultimately show ?thesis using d(2) by (simp add: chunk_consts)
qed

lemma chunk_loop_returns:
  assumes "utf8_valid body" and "separator_free body"
  shows "start < length body \<Longrightarrow> is_char_boundary body start \<Longrightarrow> \<exists>res. chunk_loop body start cs = Some res"
proof (induction "length body - start" arbitrary: start cs rule: less_induct)
  case less
  then obtain c nxt where step: "chunk_step body start = Inr (c, nxt)" and turn: "turn_ok body start c nxt"
    using chunk_step_ok [OF assms(1)] by blast
  show ?case
  proof (cases nxt)
    case None
    with step less.prems show ?thesis by (simp add: chunk_loop.simps)
  next
    case (Some n)
    then have "start < n" using chunk_step_advances [OF assms less.prems] step by simp
    moreover have "n < length body" "is_char_boundary body n"
      using turn Some by (simp_all add: turn_ok_def)
    ultimately have "\<exists>res. chunk_loop body n (cs @ [c]) = Some res"
      using less.hyps [of n "cs @ [c]"] less.prems by simp
    with step Some less.prems show ?thesis by (simp add: chunk_loop.simps [of body start])
  qed
qed

lemma utf8_valid_ascii: "list_all (byte_in 0 127) s \<Longrightarrow> utf8_valid s"
  by (induction s) (simp_all add: utf8_valid.simps(2))

text \<open>A run of one letter, the concrete input of the witnesses below.\<close>

lemma letters_no_prefix: "c \<noteq> x \<Longrightarrow> \<not> prefix (c # p) (replicate n x)"
  by (cases n) auto

lemma letters_free: "separator_free (replicate n CHR ''a'')"
  by (simp add: separator_free_def rfind_def find_None_iff' letters_no_prefix)

lemma letters_valid: "utf8_valid (replicate n CHR ''a'')"
  by (rule utf8_valid_ascii) (simp add: list_all_iff byte_in_def)

section \<open>Properties\<close>

text \<open>
  Claim C38. On well-formed text the char-budget chunker never panics, and whenever it
  returns, every chunk is a non-empty range of at most \<^const>\<open>CHUNK_SIZE_CHARS\<close> bytes between
  char boundaries, the chunks cover every byte of the body, and the last one ends it.
\<close>

theorem split_into_chunks_sound:
  assumes "utf8_valid body" and "needs_chunking body" and "split_into_chunks body = Some res"
  shows "\<exists>cs. res = Inr cs \<and> list_all (chunk_wf body) cs \<and> covered cs (length body)
    \<and> cs \<noteq> [] \<and> end_offset (last cs) = length body"
proof -
  have "chunk_loop body 0 [] = Some res" using assms by (simp add: split_into_chunks_def)
  moreover have "0 < length body" using assms(2) by (auto simp: needs_chunking_def)
  ultimately show ?thesis using chunk_loop_ok [of body 0 "[]" res] assms(1) by (simp add: covered_def)
qed

theorem split_into_chunks_sound_witness:
  "\<exists>cs. split_into_chunks (replicate 801 CHR ''a'') = Some (Inr cs)
    \<and> list_all (chunk_wf (replicate 801 CHR ''a'')) cs \<and> covered cs 801"
proof -
  let ?b = "replicate 801 CHR ''a''"
  have n: "needs_chunking ?b" by (simp add: needs_chunking_def chunk_consts)
  then obtain res where r: "split_into_chunks ?b = Some res"
    using chunk_loop_returns [OF letters_valid letters_free, of 0 801 "[]"]
    by (auto simp: split_into_chunks_def)
  from split_into_chunks_sound [OF letters_valid n r] r show ?thesis by auto
qed

text \<open>
  Claim C39. The char-budget chunker returns on every well-formed body that has no space and
  no blank line: without a separator each turn advances, so the loop ends.
\<close>

theorem split_into_chunks_terminates:
  assumes "utf8_valid body" and "separator_free body"
  shows "\<exists>res. split_into_chunks body = Some res"
proof (cases "needs_chunking body")
  case True
  then have "0 < length body" by (auto simp: needs_chunking_def)
  then show ?thesis using chunk_loop_returns [OF assms, of 0 "[]"] True
    by (simp add: split_into_chunks_def)
qed (simp add: split_into_chunks_def)

theorem split_into_chunks_terminates_witness:
  "\<exists>res. split_into_chunks (replicate 2000 CHR ''a'') = Some res"
  by (rule split_into_chunks_terminates [OF letters_valid letters_free])

text \<open>
  Claim C40. The char-budget chunker does not return when the last blank line within the first
  \<^const>\<open>CHUNK_SIZE_CHARS\<close> bytes of an oversized body ends inside the overlap: the first turn
  cuts there, steps back by the overlap to offset 0 and repeats the same turn forever.
\<close>

theorem split_into_chunks_diverges:
  assumes "utf8_valid body" and "needs_chunking body" and "is_char_boundary body CHUNK_SIZE_CHARS"
    and "rfind ''\<newline>\<newline>'' (take CHUNK_SIZE_CHARS body) = Some pos" and "pos + 2 \<le> CHUNK_OVERLAP_CHARS"
  shows "split_into_chunks body = None"
proof -
  have len: "CHUNK_SIZE_CHARS < length body" using assms(2) by (simp add: needs_chunking_def)
  have d: "previous_char_boundary body CHUNK_SIZE_CHARS = CHUNK_SIZE_CHARS"
    using previous_char_boundary_greatest [OF le_refl assms(3)]
      previous_char_boundary_le [of body CHUNK_SIZE_CHARS] by simp
  have "find_split_boundary body 0 CHUNK_SIZE_CHARS = Inr (pos + 2)"
    using assms(3,4) by (simp add: find_split_boundary_def str_slice_ok)
  moreover obtain c nxt where step: "chunk_step body 0 = Inr (c, nxt)" and turn: "turn_ok body 0 c nxt"
    using chunk_step_ok [OF assms(1) order.strict_trans1 [OF le0 len] is_char_boundary_0] by blast
  moreover have z: "next_char_boundary body 0 = 0" by (simp add: next_char_boundary_id)
  ultimately have e: "end_offset c = pos + 2"
    using len d
    by (simp only: chunk_step_def Let_def z add_0 min.absorb1 [OF less_imp_le [OF len]] d if_True
        bind_rust_simps)
      (auto simp: bind_rust_def split: if_splits sum.splits)
  with turn len assms(5) have "nxt = Some 0"
    by (cases nxt) (simp_all add: turn_ok_def z chunk_consts)
  with step have loop: "chunk_step body 0 = Inr (c, Some 0)" by simp
  have "chunk_loop body 0 [] = Some res \<Longrightarrow> False" for res
  proof -
    assume ret: "chunk_loop body 0 [] = Some res"
    have "\<not> (body = body \<and> (0::nat) = 0)"
    proof (rule chunk_loop.raw_induct [where P = "\<lambda>b s cs r. \<not> (b = body \<and> s = 0)", OF _ ret])
      fix f :: "string \<Rightarrow> nat \<Rightarrow> chunk list \<Rightarrow> chunk list rust option"
      fix b s cs r
      assume IH: "\<And>b s cs r. f b s cs = Some r \<Longrightarrow> \<not> (b = body \<and> s = 0)"
        and eq: "(if s < length b then
          (case chunk_step b s of Inl p \<Rightarrow> Some (Inl p)
           | Inr (c, nxt) \<Rightarrow> (case nxt of None \<Rightarrow> Some (Inr (cs @ [c]))
              | Some start' \<Rightarrow> f b start' (cs @ [c])))
          else Some (Inr cs)) = Some r"
      show "\<not> (b = body \<and> s = 0)"
      proof
        assume "b = body \<and> s = 0"
        then have "f body 0 (cs @ [c]) = Some r"
          using eq loop order.strict_trans1 [OF le0 len] by simp
        with IH show False by blast
      qed
    qed
    then show False by simp
  qed
  then show ?thesis using assms(2) by (cases "chunk_loop body 0 []") (auto simp: split_into_chunks_def)
qed

theorem split_into_chunks_diverges_witness:
  "split_into_chunks (CHR ''\<newline>'' # CHR ''\<newline>'' # replicate 799 CHR ''a'') = None"
proof -
  let ?b = "CHR ''\<newline>'' # CHR ''\<newline>'' # replicate 799 CHR ''a''"
  have v: "utf8_valid ?b" by (rule utf8_valid_ascii) (simp add: list_all_iff byte_in_def)
  have n: "needs_chunking ?b" by (simp add: needs_chunking_def chunk_consts)
  have b: "is_char_boundary ?b CHUNK_SIZE_CHARS"
    by (simp add: is_char_boundary_def chunk_consts is_cont_def)
  have no: "\<not> prefix ''\<newline>\<newline>'' (drop i (take 800 ?b))" if "0 < i" for i
  proof (cases "i = 1")
    case True
    then show ?thesis using letters_no_prefix [of "CHR ''\<newline>''" "CHR ''a''" "[]" 798] by simp
  next
    case False
    with that obtain j where "i = Suc (Suc j)" by (metis One_nat_def not0_implies_Suc not_gr_zero)
    then show ?thesis by (simp add: letters_no_prefix)
  qed
  have r: "rfind ''\<newline>\<newline>'' (take CHUNK_SIZE_CHARS ?b) = Some 0"
    by (rule rfind_SomeI) (use no in \<open>simp_all add: chunk_consts\<close>)
  from split_into_chunks_diverges [OF v n b r] show ?thesis by (simp add: chunk_consts)
qed

section \<open>The token-offset chunker\<close>

text \<open>
  Reference form: the \<open>k\<close>-th chunk holds the tokens from \<open>350 k\<close> up to \<open>350 k + 400\<close> or
  the end, and there are as many chunks as such windows reach past the overlap.
\<close>

definition token_window :: "string \<Rightarrow> (nat \<times> nat) list \<Rightarrow> nat \<Rightarrow> chunk" where
  "token_window body offs k =
     (let s = 350 * k; e = min (s + 400) (length offs)
      in \<lparr>start_offset = (if k = 0 then 0 else fst (offs ! s)),
          end_offset = (if e = length offs then length body else snd (offs ! (e - 1))),
          token_count_approx = e - s\<rparr>)"

lemma token_loop_windows:
  "350 * k + 50 < length offs \<Longrightarrow> token_loop body offs (350 * k) cs
     = Inr (cs @ map (token_window body offs) [k..<(length offs + 299) div 350])"
proof (induction "length offs - k" arbitrary: k cs rule: less_induct)
  case less
  let ?n = "length offs" and ?N = "(length offs + 299) div 350"
  have kN: "k < ?N" using less.prems by (simp add: less_eq_div_iff_mult_less_eq Suc_le_eq [symmetric])
  note unf = token_loop.simps [of body offs "350 * k" cs]
  have w: "token_window body offs k = \<lparr>start_offset = (if 350 * k = 0 then 0 else fst (offs ! (350 * k))),
      end_offset = (if min (350 * k + 400) ?n = ?n then length body
        else snd (offs ! (min (350 * k + 400) ?n - 1))),
      token_count_approx = min (350 * k + 400) ?n - 350 * k\<rparr>"
    by (simp add: token_window_def Let_def)
  show ?case
  proof (cases "?n \<le> 350 * k + 400")
    case True
    then have "?N = Suc k" using less.prems by (intro div_nat_eqI) auto
    moreover have "token_loop body offs (350 * k) cs = Inr (cs @ [token_window body offs k])"
      using True less.prems unfolding unf w
      by (simp add: Let_def offset_at_def min_def CHUNK_SIZE_TOKENS_def)
    ultimately show ?thesis by simp
  next
    case False
    then have nx: "350 * Suc k + 50 < ?n" by simp
    have "token_loop body offs (350 * k) cs
        = token_loop body offs (350 * Suc k) (cs @ [token_window body offs k])"
      using False less.prems unfolding unf w
      by (simp add: Let_def offset_at_def min_def CHUNK_SIZE_TOKENS_def CHUNK_OVERLAP_TOKENS_def add.commute)
    also have "\<dots> = Inr ((cs @ [token_window body offs k]) @ map (token_window body offs) [Suc k..<?N])"
      by (rule less.hyps) (use nx kN in simp_all)
    finally show ?thesis using kN by (simp add: upt_conv_Cons)
  qed
qed

text \<open>
  For more than \<^const>\<open>CHUNK_SIZE_TOKENS\<close> tokens the token-offset chunker never
  panics and returns exactly the windows of 400 tokens placed every 350 tokens, so that
  neighbours share 50 tokens, no chunk exceeds the limit and no token is left out.
\<close>

theorem split_by_token_offsets_windows:
  assumes "CHUNK_SIZE_TOKENS < length token_offsets"
  shows "split_into_chunks_by_token_offsets body token_offsets
    = Inr (map (token_window body token_offsets) [0..<(length token_offsets + 299) div 350])"
  using assms token_loop_windows [of 0 token_offsets body "[]"]
  by (simp add: split_into_chunks_by_token_offsets_def CHUNK_SIZE_TOKENS_def)

theorem split_by_token_offsets_windows_witness:
  "split_into_chunks_by_token_offsets ''ab'' (replicate 401 (0, 2))
    = Inr (map (token_window ''ab'' (replicate 401 (0, 2))) [0..<2])"
  using split_by_token_offsets_windows [of "replicate 401 (0, 2)" "''ab''"]
  by (simp add: CHUNK_SIZE_TOKENS_def)

end
