(* ===== verification/Store.thy ===== *)
theory Store
  imports Prelude Complex_Main
begin

text \<open>
  The database the storage layer works on, as the migrations leave it: one record per table
  row, one list of rows per table in rowid order, and one counter per
  \<^verbatim>\<open>AUTOINCREMENT\<close> key. Ids and Unix times are \<^typ>\<open>int\<close>, nullable columns are options,
  edge weights are reals that the code only compares and stores. The statements that touch
  several tables at once are defined here: the \<^verbatim>\<open>ON DELETE CASCADE\<close> clauses and the
  triggers of the schema. The invariant \<open>store_ok\<close> collects the keys, the uniqueness
  constraints and the foreign keys.
\<close>

section \<open>Rows\<close>

record memory_row =
  m_id :: int
  m_namespace :: string
  m_name :: string
  m_type :: string
  m_description :: string
  m_body :: string
  m_body_hash :: string
  m_session_id :: "string option"
  m_source :: string
  m_metadata :: string
  m_deleted_at :: "int option"
  m_created_at :: int
  m_updated_at :: int

record version_row =
  v_id :: int
  v_memory_id :: int
  v_version :: int
  v_name :: string
  v_type :: string
  v_description :: string
  v_body :: string
  v_metadata :: string
  v_changed_by :: "string option"
  v_change_reason :: string
  v_created_at :: int

record chunk_row =
  c_id :: int
  c_memory_id :: int
  c_chunk_idx :: int
  c_text :: string
  c_start :: int
  c_end :: int
  c_token_count :: int

record entity_row =
  e_id :: int
  e_namespace :: string
  e_name :: string
  e_type :: string
  e_description :: "string option"
  e_degree :: int
  e_created_at :: int
  e_updated_at :: int

record relationship_row =
  r_id :: int
  r_namespace :: string
  r_source_id :: int
  r_target_id :: int
  r_relation :: string
  r_weight :: real
  r_description :: "string option"
  r_created_at :: int
  r_updated_at :: int

record url_row =
  u_id :: int
  u_memory_id :: int
  u_url :: string
  u_offset :: "int option"
  u_created_at :: int

text \<open>A row of \<^verbatim>\<open>memory_embeddings\<close>, \<^verbatim>\<open>entity_embeddings\<close> or \<^verbatim>\<open>chunk_embeddings\<close>: the key
  column, the blob and the columns describing the backend.\<close>

record embedding_row =
  x_key :: int
  x_owner :: int
  x_namespace :: string
  x_embedding :: string
  x_source :: string
  x_model :: string
  x_dim :: int

record pending_row =
  p_id :: int
  p_memory_id :: int
  p_namespace :: string
  p_name :: string
  p_backend_chain :: string
  p_last_error :: "string option"
  p_last_exit_code :: "int option"
  p_last_stderr_tail :: "string option"
  p_attempt_count :: int
  p_status :: string
  p_created_at :: int
  p_updated_at :: int

record fts_row =
  f_rowid :: int
  f_name :: string
  f_description :: string
  f_body :: string

record seen_row =
  s_source_id :: int
  s_target_id :: int
  s_namespace :: string
  s_verdict :: string
  s_relation :: "string option"
  s_evaluated_at :: int

record db =
  memories :: "memory_row list"
  memory_versions :: "version_row list"
  memory_chunks :: "chunk_row list"
  entities :: "entity_row list"
  relationships :: "relationship_row list"
  memory_entities :: "(int \<times> int) list"
  memory_relationships :: "(int \<times> int) list"
  memory_urls :: "url_row list"
  memory_embeddings :: "embedding_row list"
  entity_embeddings :: "embedding_row list"
  chunk_embeddings :: "embedding_row list"
  pending_embeddings :: "pending_row list"
  entity_connect_seen :: "seen_row list"
  fts_memories :: "fts_row list"
  seq_memories :: int
  seq_versions :: int
  seq_chunks :: int
  seq_entities :: int
  seq_relationships :: int
  seq_urls :: int
  seq_pending :: int

definition empty_db :: db where
  "empty_db = \<lparr>memories = [], memory_versions = [], memory_chunks = [], entities = [],
     relationships = [], memory_entities = [], memory_relationships = [], memory_urls = [],
     memory_embeddings = [], entity_embeddings = [], chunk_embeddings = [],
     pending_embeddings = [], entity_connect_seen = [], fts_memories = [],
     seq_memories = 0, seq_versions = 0, seq_chunks = 0, seq_entities = 0,
     seq_relationships = 0, seq_urls = 0, seq_pending = 0\<rparr>"

section \<open>Triggers and cascades\<close>

text \<open>\<^verbatim>\<open>UPDATE memories\<close>: the trigger stamps \<^verbatim>\<open>updated_at\<close> of every updated row.\<close>

definition update_memories ::
  "int \<Rightarrow> (memory_row \<Rightarrow> bool) \<Rightarrow> (memory_row \<Rightarrow> memory_row) \<Rightarrow> db \<Rightarrow> db" where
  "update_memories now p f d =
     d\<lparr>memories := sql_update p (\<lambda>r. (f r)\<lparr>m_updated_at := now\<rparr>) (memories d)\<rparr>"

definition fts_of :: "memory_row \<Rightarrow> fts_row" where
  "fts_of r = \<lparr>f_rowid = m_id r, f_name = m_name r, f_description = m_description r, f_body = m_body r\<rparr>"

text \<open>The \<^verbatim>\<open>delete\<close> command of an external-content index drops the entry of the given texts.\<close>

definition fts_delete :: "fts_row \<Rightarrow> db \<Rightarrow> db" where
  "fts_delete f d = d\<lparr>fts_memories := sql_delete (\<lambda>x. x = f) (fts_memories d)\<rparr>"

definition fts_insert :: "fts_row \<Rightarrow> db \<Rightarrow> db" where
  "fts_insert f d = d\<lparr>fts_memories := fts_memories d @ [f]\<rparr>"

text \<open>\<^verbatim>\<open>DELETE FROM memory_chunks\<close>, \<^verbatim>\<open>memories\<close>, \<^verbatim>\<open>relationships\<close> and \<^verbatim>\<open>entities\<close> with their
  cascades. Deleting a memory also fires the trigger that drops its index entry.\<close>

definition delete_chunk_rows :: "(chunk_row \<Rightarrow> bool) \<Rightarrow> db \<Rightarrow> db" where
  "delete_chunk_rows p d =
     (let gone = map c_id (filter p (memory_chunks d)) in
      d\<lparr>memory_chunks := sql_delete p (memory_chunks d),
        chunk_embeddings := sql_delete (\<lambda>x. x_key x \<in> set gone) (chunk_embeddings d)\<rparr>)"

definition delete_memory_rows :: "(memory_row \<Rightarrow> bool) \<Rightarrow> db \<Rightarrow> db" where
  "delete_memory_rows p d =
     (let gone = filter p (memories d); ids = set (map m_id gone);
          d = delete_chunk_rows (\<lambda>c. c_memory_id c \<in> ids) d
      in d\<lparr>memories := sql_delete p (memories d),
           memory_versions := sql_delete (\<lambda>v. v_memory_id v \<in> ids) (memory_versions d),
           memory_entities := sql_delete (\<lambda>x. fst x \<in> ids) (memory_entities d),
           memory_relationships := sql_delete (\<lambda>x. fst x \<in> ids) (memory_relationships d),
           memory_urls := sql_delete (\<lambda>u. u_memory_id u \<in> ids) (memory_urls d),
           memory_embeddings := sql_delete (\<lambda>x. x_key x \<in> ids) (memory_embeddings d),
           chunk_embeddings := sql_delete (\<lambda>x. x_owner x \<in> ids) (chunk_embeddings d),
           pending_embeddings := sql_delete (\<lambda>x. p_memory_id x \<in> ids) (pending_embeddings d),
           fts_memories := sql_delete (\<lambda>f. f \<in> fts_of ` set gone) (fts_memories d)\<rparr>)"

definition delete_relationship_rows :: "(relationship_row \<Rightarrow> bool) \<Rightarrow> db \<Rightarrow> db" where
  "delete_relationship_rows p d =
     (let ids = set (map r_id (filter p (relationships d))) in
      d\<lparr>relationships := sql_delete p (relationships d),
        memory_relationships := sql_delete (\<lambda>x. snd x \<in> ids) (memory_relationships d)\<rparr>)"

definition delete_entity_rows :: "(entity_row \<Rightarrow> bool) \<Rightarrow> db \<Rightarrow> db" where
  "delete_entity_rows p d =
     (let ids = set (map e_id (filter p (entities d)));
          d = delete_relationship_rows (\<lambda>r. r_source_id r \<in> ids \<or> r_target_id r \<in> ids) d
      in d\<lparr>entities := sql_delete p (entities d),
           memory_entities := sql_delete (\<lambda>x. snd x \<in> ids) (memory_entities d),
           entity_embeddings := sql_delete (\<lambda>x. x_key x \<in> ids) (entity_embeddings d),
           entity_connect_seen := sql_delete (\<lambda>s. s_source_id s \<in> ids \<or> s_target_id s \<in> ids)
             (entity_connect_seen d)\<rparr>)"

section \<open>The schema invariant\<close>

text \<open>Primary keys with their counters, the uniqueness constraints, and the foreign keys.\<close>

definition keyed_by :: "('r \<Rightarrow> int) \<Rightarrow> int \<Rightarrow> 'r list \<Rightarrow> bool" where
  "keyed_by k s rows \<longleftrightarrow> distinct (map k rows) \<and> (\<forall>r \<in> set rows. k r \<le> s)"

definition memory_ids :: "db \<Rightarrow> int set" where "memory_ids d = m_id ` set (memories d)"
definition entity_ids :: "db \<Rightarrow> int set" where "entity_ids d = e_id ` set (entities d)"
definition chunk_ids :: "db \<Rightarrow> int set" where "chunk_ids d = c_id ` set (memory_chunks d)"
definition relationship_ids :: "db \<Rightarrow> int set" where "relationship_ids d = r_id ` set (relationships d)"

definition keys_ok :: "db \<Rightarrow> bool" where
  "keys_ok d \<longleftrightarrow>
     keyed_by m_id (seq_memories d) (memories d) \<and> keyed_by v_id (seq_versions d) (memory_versions d)
     \<and> keyed_by c_id (seq_chunks d) (memory_chunks d) \<and> keyed_by e_id (seq_entities d) (entities d)
     \<and> keyed_by r_id (seq_relationships d) (relationships d) \<and> keyed_by u_id (seq_urls d) (memory_urls d)
     \<and> keyed_by p_id (seq_pending d) (pending_embeddings d)"

definition uniques_ok :: "db \<Rightarrow> bool" where
  "uniques_ok d \<longleftrightarrow>
     distinct (map (\<lambda>m. (m_namespace m, m_name m)) (memories d))
     \<and> distinct (map (\<lambda>v. (v_memory_id v, v_version v)) (memory_versions d))
     \<and> distinct (map (\<lambda>c. (c_memory_id c, c_chunk_idx c)) (memory_chunks d))
     \<and> distinct (map (\<lambda>e. (e_namespace e, e_name e)) (entities d))
     \<and> distinct (map (\<lambda>r. (r_source_id r, r_target_id r, r_relation r)) (relationships d))
     \<and> distinct (memory_entities d) \<and> distinct (memory_relationships d)
     \<and> distinct (map (\<lambda>u. (u_memory_id u, u_url u)) (memory_urls d))
     \<and> distinct (map x_key (memory_embeddings d)) \<and> distinct (map x_key (entity_embeddings d))
     \<and> distinct (map x_key (chunk_embeddings d))"

definition foreign_keys_ok :: "db \<Rightarrow> bool" where
  "foreign_keys_ok d \<longleftrightarrow>
     v_memory_id ` set (memory_versions d) \<subseteq> memory_ids d
     \<and> c_memory_id ` set (memory_chunks d) \<subseteq> memory_ids d
     \<and> r_source_id ` set (relationships d) \<subseteq> entity_ids d
     \<and> r_target_id ` set (relationships d) \<subseteq> entity_ids d
     \<and> fst ` set (memory_entities d) \<subseteq> memory_ids d \<and> snd ` set (memory_entities d) \<subseteq> entity_ids d
     \<and> fst ` set (memory_relationships d) \<subseteq> memory_ids d
     \<and> snd ` set (memory_relationships d) \<subseteq> relationship_ids d
     \<and> u_memory_id ` set (memory_urls d) \<subseteq> memory_ids d
     \<and> x_key ` set (memory_embeddings d) \<subseteq> memory_ids d
     \<and> x_key ` set (entity_embeddings d) \<subseteq> entity_ids d
     \<and> x_key ` set (chunk_embeddings d) \<subseteq> chunk_ids d \<and> x_owner ` set (chunk_embeddings d) \<subseteq> memory_ids d
     \<and> p_memory_id ` set (pending_embeddings d) \<subseteq> memory_ids d
     \<and> s_source_id ` set (entity_connect_seen d) \<subseteq> entity_ids d
     \<and> s_target_id ` set (entity_connect_seen d) \<subseteq> entity_ids d"

definition store_ok :: "db \<Rightarrow> bool" where
  "store_ok d \<longleftrightarrow> keys_ok d \<and> uniques_ok d \<and> foreign_keys_ok d"

lemmas id_set_defs = memory_ids_def entity_ids_def chunk_ids_def relationship_ids_def

lemma store_ok_empty: "store_ok empty_db"
  by (simp add: store_ok_def keys_ok_def uniques_ok_def foreign_keys_ok_def keyed_by_def empty_db_def)

lemma keyed_by_delete: "keyed_by k s rows \<Longrightarrow> keyed_by k s (sql_delete p rows)"
  by (auto simp: keyed_by_def intro: distinct_map_sql_delete)

lemma distinct_sql_delete: "distinct rows \<Longrightarrow> distinct (sql_delete p rows)"
  by (simp add: sql_delete_def)

lemma keyed_by_update:
  "keyed_by k s rows \<Longrightarrow> (\<And>r. k (f r) = k r) \<Longrightarrow> keyed_by k s (sql_update p f rows)"
  by (auto simp: keyed_by_def map_sql_update_same set_sql_update)

lemma keyed_by_snoc: "keyed_by k s rows \<Longrightarrow> k r = s + 1 \<Longrightarrow> keyed_by k (s + 1) (rows @ [r])"
  by (fastforce simp: keyed_by_def)

lemma image_sql_update_same:
  assumes "\<And>r. g (f r) = g r"
  shows "g ` set (sql_update p f rows) = g ` set rows"
proof -
  have "map g (sql_update p f rows) = map g rows" using assms by (simp add: map_sql_update_same)
  then show ?thesis by (metis set_map)
qed

lemma kept_row_id:
  assumes "distinct (map k rows)" and "r \<in> set rows" and "k r \<in> k ` {x \<in> set rows. p x}"
  shows "p r"
  using assms by (auto simp: distinct_map inj_on_def)

end
