(* ===== verification/Walk.thy ===== *)
theory Walk
  imports Store "HOL-Library.Multiset" "HOL-Library.Product_Lexorder"
begin

text \<open>
  The bounded breadth-first search of \<^verbatim>\<open>src/graph/walk.rs\<close>, its two neighbour sources
  (the \<^verbatim>\<open>relationships\<close> table and a preloaded edge list), and the two consumers of
  \<^verbatim>\<open>src/graph/traverse.rs\<close> and \<^verbatim>\<open>src/graph/bfs.rs\<close>. The hash maps of the code are
  association lists with distinct keys; the callback of \<^verbatim>\<open>run_observed\<close> is the list of the
  calls it received. The driver is a \<^verbatim>\<open>while\<close> loop with a worklist, modelled as a partial
  function, so that the claim that it returns is a theorem. Hop counts stay below
  \<^verbatim>\<open>max_hops\<close>, a \<^verbatim>\<open>u32\<close>, so they are naturals.
\<close>

section \<open>Walk parameters\<close>

datatype walk_direction = Directed | Bidirectional

record edge_arrival =
  from_id :: int
  neighbor_id :: int
  source_name :: "string option"
  target_name :: "string option"
  relation :: string
  weight :: real
  inbound :: bool

record graph_walk =
  direction :: walk_direction
  weight_floor :: "real option"
  max_hops :: nat
  max_neighbors_per_hop :: "nat option"
  relation_filter :: "string option"

definition walk_directed :: "real \<Rightarrow> nat \<Rightarrow> graph_walk" where
  "walk_directed min_weight hops =
     \<lparr>direction = Directed, weight_floor = Some min_weight, max_hops = hops,
      max_neighbors_per_hop = None, relation_filter = None\<rparr>"

definition walk_bidirectional :: "real \<Rightarrow> nat \<Rightarrow> graph_walk" where
  "walk_bidirectional min_weight hops =
     \<lparr>direction = Bidirectional, weight_floor = Some min_weight, max_hops = hops,
      max_neighbors_per_hop = None, relation_filter = None\<rparr>"

definition with_neighbor_cap :: "graph_walk \<Rightarrow> nat option \<Rightarrow> graph_walk" where
  "with_neighbor_cap w cap = w\<lparr>max_neighbors_per_hop := cap\<rparr>"

definition with_relation_filter :: "graph_walk \<Rightarrow> string option \<Rightarrow> graph_walk" where
  "with_relation_filter w rel = w\<lparr>relation_filter := rel\<rparr>"

section \<open>The driver\<close>

record walk_state =
  depth :: "(int \<times> nat) list"
  arrival :: "(int \<times> edge_arrival) list"
  expanded :: "int list"
  queue :: "int list"
  observed :: "(edge_arrival \<times> nat) list"

definition walk_init :: "int list \<Rightarrow> walk_state" where
  "walk_init seeds =
     \<lparr>depth = map (\<lambda>s. (s, 0)) (remdups seeds), arrival = [], expanded = [], queue = seeds,
      observed = []\<rparr>"

definition depth_of :: "walk_state \<Rightarrow> int \<Rightarrow> nat" where
  "depth_of st v = (case map_of (depth st) v of None \<Rightarrow> 0 | Some d \<Rightarrow> d)"

definition admit :: "nat \<Rightarrow> edge_arrival \<Rightarrow> walk_state \<Rightarrow> walk_state" where
  "admit next_depth edge st =
     st\<lparr>depth := depth st @ [(neighbor_id edge, next_depth)],
        queue := queue st @ [neighbor_id edge],
        arrival := arrival st @ [(neighbor_id edge, edge)]\<rparr>"

definition over_cap :: "nat option \<Rightarrow> nat \<Rightarrow> bool" where
  "over_cap cap admitted = (case cap of None \<Rightarrow> False | Some k \<Rightarrow> k \<le> admitted)"

fun visit_edges ::
  "nat option \<Rightarrow> nat \<Rightarrow> edge_arrival list \<Rightarrow> nat \<Rightarrow> walk_state \<Rightarrow> walk_state" where
  "visit_edges cap next_depth [] admitted st = st"
| "visit_edges cap next_depth (edge # es) admitted st =
     (let st = st\<lparr>observed := observed st @ [(edge, next_depth)]\<rparr> in
      if neighbor_id edge \<in> fst ` set (depth st) then visit_edges cap next_depth es admitted st
      else if over_cap cap admitted then visit_edges cap next_depth es admitted st
      else visit_edges cap next_depth es (Suc admitted) (admit next_depth edge st))"

text \<open>One turn of the \<^verbatim>\<open>while let\<close> loop after \<^verbatim>\<open>pop_front\<close> returned \<open>current\<close>; the state
  passed in no longer holds it in its queue.\<close>

definition walk_turn ::
  "(int \<Rightarrow> graph_walk \<Rightarrow> 'e + edge_arrival list) \<Rightarrow> graph_walk \<Rightarrow> int \<Rightarrow> walk_state
     \<Rightarrow> 'e + walk_state" where
  "walk_turn neighbors w current st =
     (let current_depth = depth_of st current in
      if max_hops w \<le> current_depth \<or> current \<in> set (expanded st) then Inr st
      else bind_rust (neighbors current w)
        (\<lambda>es. Inr (visit_edges (max_neighbors_per_hop w) (Suc current_depth) es 0
                    (st\<lparr>expanded := current # expanded st\<rparr>))))"

partial_function (option) walk_loop ::
  "(int \<Rightarrow> graph_walk \<Rightarrow> 'e + edge_arrival list) \<Rightarrow> graph_walk \<Rightarrow> walk_state
     \<Rightarrow> ('e + walk_state) option" where
  "walk_loop neighbors w st =
     (case queue st of
        [] \<Rightarrow> Some (Inr st)
      | current # rest \<Rightarrow>
         (case walk_turn neighbors w current (st\<lparr>queue := rest\<rparr>) of
            Inl e \<Rightarrow> Some (Inl e)
          | Inr st' \<Rightarrow> walk_loop neighbors w st'))"

definition run_observed ::
  "graph_walk \<Rightarrow> (int \<Rightarrow> graph_walk \<Rightarrow> 'e + edge_arrival list) \<Rightarrow> int list
     \<Rightarrow> ('e + walk_state) option" where
  "run_observed w neighbors seeds = walk_loop neighbors w (walk_init seeds)"

text \<open>The outcome: the depth and arrival maps. \<^verbatim>\<open>run\<close> passes a callback that does nothing.\<close>

definition walk_run ::
  "graph_walk \<Rightarrow> (int \<Rightarrow> graph_walk \<Rightarrow> 'e + edge_arrival list) \<Rightarrow> int list
     \<Rightarrow> ('e + (int \<times> nat) list \<times> (int \<times> edge_arrival) list) option" where
  "walk_run w neighbors seeds =
     map_option (map_sum id (\<lambda>st. (depth st, arrival st))) (run_observed w neighbors seeds)"

section \<open>Neighbour sources\<close>

definition replace_byte :: "char \<Rightarrow> char \<Rightarrow> string \<Rightarrow> string" where
  "replace_byte a b s = map (\<lambda>c. if c = a then b else c) s"

definition alternate_relation_spelling :: "string \<Rightarrow> string" where
  "alternate_relation_spelling rel =
     (if CHR ''-'' \<in> set rel then replace_byte CHR ''-'' CHR ''_'' rel
      else replace_byte CHR ''_'' CHR ''-'' rel)"

definition above_floor :: "real option \<Rightarrow> real \<Rightarrow> bool" where
  "above_floor fl x = (case fl of None \<Rightarrow> True | Some f \<Rightarrow> f \<le> x)"

definition entity_name :: "db \<Rightarrow> int \<Rightarrow> string option" where
  "entity_name d i = map_option e_name (List.find (\<lambda>e. e_id e = i) (entities d))"

definition sql_query_row :: "db \<Rightarrow> bool \<Rightarrow> int \<Rightarrow> bool \<Rightarrow> relationship_row \<Rightarrow> edge_arrival list" where
  "sql_query_row d with_names i inb r =
     (let reached = if inb then r_source_id r else r_target_id r in
      if with_names then
        (case (entity_name d (r_source_id r), entity_name d (r_target_id r)) of
           (Some sn, Some tn) \<Rightarrow>
             [\<lparr>from_id = i, neighbor_id = reached, source_name = Some sn, target_name = Some tn,
               relation = r_relation r, weight = r_weight r, inbound = inb\<rparr>]
         | _ \<Rightarrow> [])
      else [\<lparr>from_id = i, neighbor_id = reached, source_name = None, target_name = None,
             relation = r_relation r, weight = r_weight r, inbound = inb\<rparr>])"

text \<open>Without \<^verbatim>\<open>ORDER BY\<close> the rows come in rowid order, the order of the index on the pivot
  column; \<^verbatim>\<open>ORDER BY weight DESC\<close> sorts them and keeps that order among equal weights.\<close>

definition sql_query ::
  "db \<Rightarrow> string \<Rightarrow> bool \<Rightarrow> int \<Rightarrow> graph_walk \<Rightarrow> bool \<Rightarrow> edge_arrival list" where
  "sql_query d ns with_names i w inb =
     (let pivot = (if inb then r_target_id else r_source_id);
          rows = filter (\<lambda>r. pivot r = i \<and> above_floor (weight_floor w) (r_weight r)
                     \<and> r_namespace r = ns
                     \<and> (case relation_filter w of None \<Rightarrow> True
                        | Some rel \<Rightarrow> r_relation r = rel
                            \<or> r_relation r = alternate_relation_spelling rel))
                   (relationships d);
          found = concat (map (sql_query_row d with_names i inb) rows)
      in if direction w = Directed then sort_key (\<lambda>e. - weight e) found else found)"

definition sql_neighbors ::
  "db \<Rightarrow> string \<Rightarrow> bool \<Rightarrow> int \<Rightarrow> graph_walk \<Rightarrow> 'e + edge_arrival list" where
  "sql_neighbors d ns with_names i w =
     Inr (sql_query d ns with_names i w False
        @ (if direction w = Bidirectional then sql_query d ns with_names i w True else []))"

record memory_edge =
  me_source_id :: int
  me_target_id :: int
  me_relation :: string
  me_weight :: real

definition in_memory_edge ::
  "(int \<Rightarrow> string option) \<Rightarrow> int \<Rightarrow> graph_walk \<Rightarrow> memory_edge \<Rightarrow> edge_arrival list" where
  "in_memory_edge id_to_name i w edge =
     (if \<not> above_floor (weight_floor w) (me_weight edge) then []
      else if (case relation_filter w of None \<Rightarrow> False | Some rel \<Rightarrow> me_relation edge \<noteq> rel) then []
      else
        (let pick =
           (if me_source_id edge = i then Some (me_target_id edge, False)
            else if me_target_id edge = i \<and> direction w = Bidirectional
            then Some (me_source_id edge, True)
            else None) in
         case pick of None \<Rightarrow> []
         | Some (nb, inb) \<Rightarrow>
            (case id_to_name nb of None \<Rightarrow> []
             | Some nb_name \<Rightarrow>
                [\<lparr>from_id = i, neighbor_id = nb,
                  source_name = (if inb then Some nb_name else id_to_name i),
                  target_name = (if inb then id_to_name i else Some nb_name),
                  relation = me_relation edge, weight = me_weight edge, inbound = inb\<rparr>])))"

definition in_memory_neighbors ::
  "memory_edge list \<Rightarrow> (int \<Rightarrow> string option) \<Rightarrow> int \<Rightarrow> graph_walk \<Rightarrow> 'e + edge_arrival list" where
  "in_memory_neighbors edges id_to_name i w =
     Inr (concat (map (in_memory_edge id_to_name i w) edges))"

section \<open>Consumers\<close>

definition seed_entities_of :: "db \<Rightarrow> int list \<Rightarrow> int list" where
  "seed_entities_of d mem_ids =
     remdups_adj (sort (concat (map (\<lambda>m. map snd (filter (\<lambda>p. fst p = m) (memory_entities d)))
                                    mem_ids)))"

definition memory_live :: "db \<Rightarrow> int \<Rightarrow> bool" where
  "memory_live d m = (\<exists>r \<in> set (memories d). m_id r = m \<and> m_deleted_at r = None)"

definition live_memories_of :: "db \<Rightarrow> int \<Rightarrow> int list" where
  "live_memories_of d entity =
     remdups (map fst (filter (\<lambda>p. snd p = entity \<and> memory_live d (fst p)) (memory_entities d)))"

fun collect_memories ::
  "db \<Rightarrow> int list \<Rightarrow> (int \<times> nat) list \<Rightarrow> int list \<Rightarrow> (int \<times> nat) list \<Rightarrow> (int \<times> nat) list" where
  "collect_memories d seeds [] seen result = result"
| "collect_memories d seeds ((entity, hop) # rest) seen result =
     (let ids = filter (\<lambda>m. m \<notin> set seeds \<and> m \<notin> set seen) (live_memories_of d entity) in
      collect_memories d seeds rest (seen @ ids) (result @ map (\<lambda>m. (m, hop)) ids))"

definition traverse_from_memories_with_hops_capped ::
  "db \<Rightarrow> int list \<Rightarrow> string \<Rightarrow> real \<Rightarrow> nat \<Rightarrow> nat option \<Rightarrow> ('e + (int \<times> nat) list) option" where
  "traverse_from_memories_with_hops_capped d mem_ids ns min_weight hops cap =
     (if mem_ids = [] \<or> hops = 0 then Some (Inr [])
      else
        (let seeds = seed_entities_of d mem_ids in
         if seeds = [] then Some (Inr [])
         else
           (let w = with_neighbor_cap (walk_directed min_weight hops) cap in
            map_option (map_sum id (\<lambda>(dep, _).
              (let discovered = sort_key (\<lambda>(i, hop). (hop, i))
                                  (filter (\<lambda>(i, _). i \<notin> set seeds) dep)
               in sort_key fst (collect_memories d mem_ids discovered [] []))))
              (walk_run w (sql_neighbors d ns False) seeds))))"

definition traverse_from_memories_with_hops ::
  "db \<Rightarrow> int list \<Rightarrow> string \<Rightarrow> real \<Rightarrow> nat \<Rightarrow> ('e + (int \<times> nat) list) option" where
  "traverse_from_memories_with_hops d mem_ids ns min_weight hops =
     traverse_from_memories_with_hops_capped d mem_ids ns min_weight hops None"

definition bfs_with_predecessors ::
  "db \<Rightarrow> int list \<Rightarrow> string \<Rightarrow> real \<Rightarrow> nat \<Rightarrow> nat option
     \<Rightarrow> ('e + (int \<times> nat) list \<times> (int \<times> (int \<times> string \<times> real)) list) option" where
  "bfs_with_predecessors d seeds ns min_weight hops cap =
     (let w = with_neighbor_cap (walk_directed min_weight hops) cap in
      map_option (map_sum id (\<lambda>(dep, arr).
          (dep, map (\<lambda>(i, e). (i, (from_id e, relation e, weight e))) arr)))
        (walk_run w (sql_neighbors d ns False) seeds))"

end
