(* ===== verification/Walk_Correct.thy ===== *)
theory Walk_Correct
  imports Walk
begin

text \<open>
  Correctness of the graph walk: the driver returns for every neighbour source, the depth it
  records is the minimum number of hops from the seeds, the arrival edges form a shortest-path
  tree, and a cap keeps the strongest unvisited neighbours. The driver's lemmas are proved in
  the locale \<open>neighbor_source\<close>, the contract of the trait \<^verbatim>\<open>NeighborSource\<close>, which both
  implementations of the trait interpret.
\<close>

section \<open>Distance\<close>

inductive hop_path :: "(int \<Rightarrow> int \<Rightarrow> bool) \<Rightarrow> int list \<Rightarrow> nat \<Rightarrow> int \<Rightarrow> bool"
  for adj :: "int \<Rightarrow> int \<Rightarrow> bool" and seeds :: "int list" where
  hop_seed: "s \<in> set seeds \<Longrightarrow> hop_path adj seeds 0 s"
| hop_edge: "hop_path adj seeds n u \<Longrightarrow> adj u v \<Longrightarrow> hop_path adj seeds (Suc n) v"

inductive_cases hop_path_0E [elim]: "hop_path adj seeds 0 v"
inductive_cases hop_path_SucE [elim]: "hop_path adj seeds (Suc n) v"

definition min_hops :: "(int \<Rightarrow> int \<Rightarrow> bool) \<Rightarrow> int list \<Rightarrow> nat \<Rightarrow> int \<Rightarrow> bool" where
  "min_hops adj seeds n v \<longleftrightarrow> hop_path adj seeds n v \<and> (\<forall>m < n. \<not> hop_path adj seeds m v)"

lemma min_hops_unique: "min_hops adj seeds n v \<Longrightarrow> min_hops adj seeds m v \<Longrightarrow> n = m"
  unfolding min_hops_def by (meson linorder_neqE_nat)

section \<open>One expansion\<close>

definition dom_depth :: "walk_state \<Rightarrow> int set" where
  "dom_depth st = fst ` set (depth st)"

lemma dom_depth_update [simp]:
  "dom_depth (st\<lparr>queue := q\<rparr>) = dom_depth st" "dom_depth (st\<lparr>expanded := x\<rparr>) = dom_depth st"
  by (simp_all add: dom_depth_def)

text \<open>The edges an expansion admits.\<close>

fun admitted_edges :: "nat option \<Rightarrow> edge_arrival list \<Rightarrow> nat \<Rightarrow> int set \<Rightarrow> edge_arrival list" where
  "admitted_edges cap [] n known = []"
| "admitted_edges cap (e # es) n known =
     (if neighbor_id e \<in> known \<or> over_cap cap n then admitted_edges cap es n known
      else e # admitted_edges cap es (Suc n) (insert (neighbor_id e) known))"

lemma visit_edges_eq:
  "visit_edges cap nd es n st =
     (let new = admitted_edges cap es n (dom_depth st) in
      st\<lparr>depth := depth st @ map (\<lambda>e. (neighbor_id e, nd)) new,
         queue := queue st @ map neighbor_id new,
         arrival := arrival st @ map (\<lambda>e. (neighbor_id e, e)) new,
         observed := observed st @ map (\<lambda>e. (e, nd)) es\<rparr>)"
  by (induction es arbitrary: n st) (auto simp: admit_def Let_def dom_depth_def)

lemma set_admitted_edges: "set (admitted_edges cap es n known) \<subseteq> set es"
proof (induction es arbitrary: n known)
  case (Cons a es)
  show ?case
    using Cons.IH [of n known] Cons.IH [of "Suc n" "insert (neighbor_id a) known"] by auto
qed simp

lemma admitted_edges_fresh:
  "e \<in> set (admitted_edges cap es n known) \<Longrightarrow> neighbor_id e \<notin> known"
  by (induction es arbitrary: n known) (force split: if_splits)+

lemma distinct_admitted_edges: "distinct (map neighbor_id (admitted_edges cap es n known))"
  by (induction es arbitrary: n known) (auto dest: admitted_edges_fresh)

lemma admitted_edges_cap:
  "length (admitted_edges (Some k) es n known) \<le> k - n"
proof (induction es arbitrary: n known)
  case (Cons e es)
  show ?case
    using Cons.IH [of n known] Cons.IH [of "Suc n" "insert (neighbor_id e) known"]
    by (auto simp: over_cap_def)
qed simp

lemma admitted_edges_complete:
  "e \<in> set es \<Longrightarrow> neighbor_id e \<in> known \<union> neighbor_id ` set (admitted_edges None es n known)"
proof (induction es arbitrary: n known)
  case (Cons a es)
  show ?case
    using Cons.prems Cons.IH [of known n] Cons.IH [of "insert (neighbor_id a) known" "Suc n"]
    by (auto simp: over_cap_def)
qed simp

text \<open>Under a cap, an edge that was not admitted is no stronger than any admitted one, when the
  edges come strongest first.\<close>

lemma admitted_edges_over: "over_cap cap n \<Longrightarrow> admitted_edges cap es n known = []"
  by (induction es) auto

lemma admitted_edges_strongest:
  assumes "sorted_wrt (\<lambda>a b. weight b \<le> weight a) es"
    and "e \<in> set es" and "neighbor_id e \<notin> known \<union> neighbor_id ` set (admitted_edges cap es n known)"
    and "e' \<in> set (admitted_edges cap es n known)"
  shows "weight e \<le> weight e'"
  using assms
proof (induction es arbitrary: n known)
  case (Cons a es)
  show ?case
  proof (cases "neighbor_id a \<in> known \<or> over_cap cap n")
    case True
    with Cons.prems have "e \<noteq> a" by (auto simp: admitted_edges_over)
    with True Cons.prems show ?thesis by (intro Cons.IH [of known n]) auto
  next
    case False
    with Cons.prems have ea: "e \<noteq> a" by auto
    show ?thesis
    proof (cases "e' = a")
      case True
      with ea Cons.prems show ?thesis by auto
    next
      case False
      with ea \<open>\<not> (neighbor_id a \<in> known \<or> over_cap cap n)\<close> Cons.prems show ?thesis
        by (intro Cons.IH [of "insert (neighbor_id a) known" "Suc n"]) auto
    qed
  qed
qed simp

lemma length_admitted_edges_full:
  assumes "e \<in> set es" "neighbor_id e \<notin> known \<union> neighbor_id ` set (admitted_edges cap es n known)"
  shows "\<exists>k. cap = Some k \<and> k \<le> n + length (admitted_edges cap es n known)"
  using assms
proof (induction es arbitrary: n known)
  case (Cons a es)
  show ?case
  proof (cases "over_cap cap n")
    case True
    then show ?thesis by (cases cap) (auto simp: over_cap_def)
  next
    case False
    show ?thesis
    proof (cases "neighbor_id a \<in> known")
      case True
      with Cons.prems have "e \<in> set es" by auto
      with True Cons.prems Cons.IH [of known n] show ?thesis by auto
    next
      case new: False
      with False Cons.prems have "e \<in> set es" by auto
      with new False Cons.prems Cons.IH [of "insert (neighbor_id a) known" "Suc n"]
      show ?thesis by auto
    qed
  qed
qed simp

section \<open>The loop returns\<close>

definition queue_known :: "walk_state \<Rightarrow> bool" where
  "queue_known st \<longleftrightarrow> set (queue st) \<subseteq> dom_depth st"

definition work_left :: "graph_walk \<Rightarrow> walk_state \<Rightarrow> nat multiset" where
  "work_left w st = mset (map (\<lambda>v. max_hops w - depth_of st v) (queue st))"

lemma depth_of_append_old:
  "v \<in> dom_depth st \<Longrightarrow> depth st' = depth st @ xs \<Longrightarrow> depth_of st' v = depth_of st v"
  by (auto simp: depth_of_def map_add_def map_of_eq_None_iff dom_depth_def split: option.splits)

lemma depth_of_append_new:
  "v \<notin> dom_depth st \<Longrightarrow> depth st' = depth st @ map (\<lambda>e. (neighbor_id e, d)) es
     \<Longrightarrow> v \<in> neighbor_id ` set es \<Longrightarrow> depth_of st' v = d"
proof -
  assume "v \<notin> dom_depth st" and st': "depth st' = depth st @ map (\<lambda>e. (neighbor_id e, d)) es"
    and v: "v \<in> neighbor_id ` set es"
  then have "map_of (depth st) v = None" by (simp add: map_of_eq_None_iff dom_depth_def)
  moreover have "map_of (map (\<lambda>e. (neighbor_id e, d)) es) v = Some d"
    using v by (induction es) auto
  ultimately show ?thesis by (simp add: depth_of_def st' map_add_def)
qed


text \<open>The state after an expansion of \<open>u\<close> that admitted the edges \<open>new\<close> among \<open>es\<close>.\<close>

definition after_visit ::
  "walk_state \<Rightarrow> int \<Rightarrow> edge_arrival list \<Rightarrow> edge_arrival list \<Rightarrow> walk_state" where
  "after_visit st u es new =
     st\<lparr>expanded := u # expanded st,
        depth := depth st @ map (\<lambda>e. (neighbor_id e, Suc (depth_of st u))) new,
        queue := queue st @ map neighbor_id new,
        arrival := arrival st @ map (\<lambda>e. (neighbor_id e, e)) new,
        observed := observed st @ map (\<lambda>e. (e, Suc (depth_of st u))) es\<rparr>"

lemma walk_turn_cases:
  assumes "walk_turn neighbors w u st = Inr st'"
  obtains (skip) "st' = st" "max_hops w \<le> depth_of st u \<or> u \<in> set (expanded st)"
  | (visit) es where "depth_of st u < max_hops w" "u \<notin> set (expanded st)"
      "neighbors u w = Inr es"
      "st' = after_visit st u es (admitted_edges (max_neighbors_per_hop w) es 0 (dom_depth st))"
proof (cases "max_hops w \<le> depth_of st u \<or> u \<in> set (expanded st)")
  case True
  with assms show ?thesis by (intro skip) (auto simp: walk_turn_def)
next
  case False
  with assms obtain es where "neighbors u w = Inr es"
    by (auto simp: walk_turn_def Let_def bind_rust_Inr_iff)
  with False assms show ?thesis
    by (intro visit [of es]) (auto simp: walk_turn_def visit_edges_eq Let_def after_visit_def)
qed

lemma walk_turn_work:
  assumes "queue_known st" and q: "queue st = u # rest"
    and turn: "walk_turn neighbors w u (st\<lparr>queue := rest\<rparr>) = Inr st'"
  shows "queue_known st' \<and> (work_left w st', work_left w st) \<in> mult less_than"
proof -
  let ?st = "st\<lparr>queue := rest\<rparr>"
  let ?f = "\<lambda>v. max_hops w - depth_of st v"
  have dep: "depth_of ?st v = depth_of st v" for v by (simp add: depth_of_def)
  have before: "work_left w st = mset (map ?f rest) + {#?f u#}"
    by (simp add: work_left_def q)
  from turn show ?thesis
  proof (cases rule: walk_turn_cases)
    case skip
    then have "work_left w st' = mset (map ?f rest)" by (simp add: work_left_def dep)
    with before have "(work_left w st', work_left w st) \<in> mult less_than"
      using one_step_implies_mult [of "{#?f u#}" "{#}" less_than "mset (map ?f rest)"] by simp
    with skip assms(1) q show ?thesis by (simp add: queue_known_def)
  next
    case (visit es)
    define new where "new = admitted_edges (max_neighbors_per_hop w) es 0 (dom_depth ?st)"
    have d': "depth st' = depth st @ map (\<lambda>e. (neighbor_id e, Suc (depth_of st u))) new"
      and q': "queue st' = rest @ map neighbor_id new"
      by (simp_all add: visit(4) after_visit_def new_def dep)
    have known: "set rest \<subseteq> dom_depth st" using assms(1) q by (simp add: queue_known_def)
    have old: "depth_of st' v = depth_of st v" if "v \<in> set rest" for v
      using that known depth_of_append_old [OF _ d'] by blast
    have fresh: "depth_of st' (neighbor_id e) = Suc (depth_of st u)" if "e \<in> set new" for e
      using that depth_of_append_new [OF _ d'] admitted_edges_fresh [of e]
      by (auto simp: new_def)
    have "work_left w st' = mset (map ?f rest) + mset (map (\<lambda>e. max_hops w - Suc (depth_of st u)) new)"
      by (simp add: work_left_def q' old fresh cong: map_cong)
    moreover have "\<forall>k \<in> set_mset (mset (map (\<lambda>e. max_hops w - Suc (depth_of st u)) new)).
        \<exists>j \<in> set_mset {#?f u#}. (k, j) \<in> less_than"
      using visit(1) by (auto simp: dep)
    ultimately have "(work_left w st', work_left w st) \<in> mult less_than"
      unfolding before by (metis one_step_implies_mult empty_not_add_mset)
    moreover have "queue_known st'"
      using known by (auto simp: queue_known_def dom_depth_def d' q' image_Un image_image)
    ultimately show ?thesis by blast
  qed
qed

lemma walk_loop_returns:
  "queue_known st \<Longrightarrow> \<exists>r. walk_loop neighbors w st = Some r"
proof (induction "work_left w st" arbitrary: st rule: wf_induct_rule [OF wf_mult [OF wf_less_than]])
  case 1
  show ?case
  proof (cases "queue st")
    case Nil
    then show ?thesis by (simp add: walk_loop.simps)
  next
    case (Cons u rest)
    show ?thesis
    proof (cases "walk_turn neighbors w u (st\<lparr>queue := rest\<rparr>)")
      case (Inl e)
      with Cons show ?thesis by (simp add: walk_loop.simps)
    next
      case (Inr st')
      with 1 Cons walk_turn_work [of st u rest neighbors w st'] have "\<exists>r. walk_loop neighbors w st' = Some r"
        by blast
      with Inr Cons show ?thesis by (simp add: walk_loop.simps [of _ _ st])
    qed
  qed
qed

lemma queue_known_init: "queue_known (walk_init seeds)"
  by (force simp: queue_known_def walk_init_def dom_depth_def)


lemma walk_loop_invariant:
  fixes neighbors :: "int \<Rightarrow> graph_walk \<Rightarrow> 'e + edge_arrival list"
  assumes run: "walk_loop neighbors w st = Some (Inr st')" and "P st"
    and keep: "\<And>st u rest st'. P st \<Longrightarrow> queue st = u # rest
      \<Longrightarrow> walk_turn neighbors w u (st\<lparr>queue := rest\<rparr>) = Inr st' \<Longrightarrow> P st'"
  shows "P st' \<and> queue st' = []"
proof -
  let ?Q = "\<lambda>n w' st (r :: 'e + walk_state).
    n = neighbors \<and> w' = w \<and> P st \<longrightarrow> (\<forall>st'. r = Inr st' \<longrightarrow> P st' \<and> queue st' = [])"
  have "?Q neighbors w st (Inr st')"
  proof (rule walk_loop.raw_induct [where P = ?Q, OF _ run], intro impI allI)
    fix loop :: "(int \<Rightarrow> graph_walk \<Rightarrow> 'e + edge_arrival list) \<Rightarrow> graph_walk \<Rightarrow> walk_state
      \<Rightarrow> ('e + walk_state) option"
    fix n w' st r st'
    assume IH: "\<And>n w' st r. loop n w' st = Some r \<Longrightarrow> ?Q n w' st r"
    assume eq: "(case queue st of [] \<Rightarrow> Some (Inr st)
      | current # rest \<Rightarrow>
         (case walk_turn n w' current (st\<lparr>queue := rest\<rparr>) of
            Inl e \<Rightarrow> Some (Inl e)
          | Inr st' \<Rightarrow> loop n w' st')) = Some r"
    assume pre: "n = neighbors \<and> w' = w \<and> P st" and r: "r = Inr st'"
    show "P st' \<and> queue st' = []"
    proof (cases "queue st")
      case Nil
      with eq pre r show ?thesis by simp
    next
      case (Cons u rest)
      with eq r obtain st1 where turn: "walk_turn n w' u (st\<lparr>queue := rest\<rparr>) = Inr st1"
        and rest: "loop n w' st1 = Some r"
        by (auto split: sum.splits)
      have "P st1" using keep [of st u rest st1] pre Cons turn by blast
      with IH [OF rest] pre r show ?thesis by blast
    qed
  qed
  with assms(2) show ?thesis by blast
qed

section \<open>The contract of a neighbour source\<close>

text \<open>
  \<open>tree_inv\<close> holds with and without a cap: every recorded depth is the length of a path, and
  the arrival edges form a tree rooted in the seeds. \<open>level_inv\<close> is the breadth-first
  invariant, which needs every neighbour admitted.
\<close>

definition tree_inv ::
  "(int \<Rightarrow> graph_walk \<Rightarrow> 'e + edge_arrival list) \<Rightarrow> (int \<Rightarrow> int \<Rightarrow> bool) \<Rightarrow> graph_walk
     \<Rightarrow> int list \<Rightarrow> walk_state \<Rightarrow> bool" where
  "tree_inv neighbors adj w seeds st \<longleftrightarrow>
     queue_known st \<and> set seeds \<subseteq> dom_depth st \<and> (\<forall>s \<in> set seeds. depth_of st s = 0)
     \<and> distinct (map fst (depth st))
     \<and> (\<forall>v \<in> dom_depth st. depth_of st v \<le> max_hops w \<and> hop_path adj seeds (depth_of st v) v)
     \<and> distinct (map fst (arrival st)) \<and> fst ` set (arrival st) = dom_depth st - set seeds
     \<and> (\<forall>(v, e) \<in> set (arrival st). neighbor_id e = v \<and> from_id e \<in> dom_depth st
           \<and> depth_of st v = Suc (depth_of st (from_id e))
           \<and> (\<exists>es. neighbors (from_id e) w = Inr es \<and> e \<in> set es))"

definition level_inv :: "(int \<Rightarrow> int \<Rightarrow> bool) \<Rightarrow> graph_walk \<Rightarrow> walk_state \<Rightarrow> bool" where
  "level_inv adj w st \<longleftrightarrow>
     sorted (map (depth_of st) (queue st))
     \<and> (\<forall>u \<in> set (queue st). \<forall>v \<in> dom_depth st. depth_of st v \<le> Suc (depth_of st u))
     \<and> (\<forall>u \<in> set (expanded st). \<forall>v. adj u v
           \<longrightarrow> v \<in> dom_depth st \<and> depth_of st v \<le> Suc (depth_of st u))
     \<and> set (expanded st) \<subseteq> dom_depth st
     \<and> (\<forall>u \<in> dom_depth st. u \<in> set (queue st) \<or> u \<in> set (expanded st) \<or> max_hops w \<le> depth_of st u)"


text \<open>What an expansion does to the depths, in one lemma the invariant proofs share.\<close>

lemma after_visit_depth:
  assumes "st' = after_visit st u es new"
    and "\<And>e. e \<in> set new \<Longrightarrow> neighbor_id e \<notin> dom_depth st"
  shows "dom_depth st' = dom_depth st \<union> neighbor_id ` set new"
    and "v \<in> dom_depth st \<Longrightarrow> depth_of st' v = depth_of st v"
    and "v \<in> neighbor_id ` set new \<Longrightarrow> depth_of st' v = Suc (depth_of st u)"
proof -
  have d': "depth st' = depth st @ map (\<lambda>e. (neighbor_id e, Suc (depth_of st u))) new"
    by (simp add: assms(1) after_visit_def)
  show "dom_depth st' = dom_depth st \<union> neighbor_id ` set new"
    by (simp add: dom_depth_def d' image_Un image_image)
  show "v \<in> dom_depth st \<Longrightarrow> depth_of st' v = depth_of st v"
    using depth_of_append_old [OF _ d'] by blast
  show "v \<in> neighbor_id ` set new \<Longrightarrow> depth_of st' v = Suc (depth_of st u)"
    using depth_of_append_new [OF _ d'] assms(2) by blast
qed

lemma depth_of_queue [simp]: "depth_of (st\<lparr>queue := q\<rparr>) = depth_of st"
  by (rule ext) (simp add: depth_of_def)

lemma tree_inv_pop: "tree_inv nb adj w seeds st \<Longrightarrow> queue st = u # rest
    \<Longrightarrow> tree_inv nb adj w seeds (st\<lparr>queue := rest\<rparr>) \<and> u \<in> dom_depth st"
  by (simp add: tree_inv_def queue_known_def)

lemma walk_init_simps [simp]:
  "dom_depth (walk_init seeds) = set seeds" "queue (walk_init seeds) = seeds"
  "expanded (walk_init seeds) = []" "arrival (walk_init seeds) = []"
  "map fst (depth (walk_init seeds)) = remdups seeds" "depth_of (walk_init seeds) v = 0"
  by (auto simp: walk_init_def dom_depth_def depth_of_def image_image comp_def
      split: option.splits dest!: map_of_SomeD)

lemma tree_inv_init: "tree_inv nb adj w seeds (walk_init seeds)"
  by (simp add: tree_inv_def queue_known_def hop_seed)

lemma level_inv_init: "level_inv adj w (walk_init seeds)"
proof -
  have "map (depth_of (walk_init seeds)) seeds = map (\<lambda>v. 0) seeds" by simp
  moreover have "sorted (map (\<lambda>v. 0 :: nat) xs)" for xs :: "int list" by (induction xs) auto
  ultimately have "sorted (map (depth_of (walk_init seeds)) seeds)" by metis
  then show ?thesis by (simp add: level_inv_def)
qed

locale neighbor_source =
  fixes neighbors :: "int \<Rightarrow> graph_walk \<Rightarrow> 'e + edge_arrival list"
    and adj :: "graph_walk \<Rightarrow> int \<Rightarrow> int \<Rightarrow> bool"
  assumes answers: "\<exists>es. neighbors u w = Inr es"
    and adj_iff: "neighbors u w = Inr es \<Longrightarrow> adj w u v \<longleftrightarrow> (\<exists>e \<in> set es. neighbor_id e = v)"
    and edge_from: "neighbors u w = Inr es \<Longrightarrow> e \<in> set es \<Longrightarrow> from_id e = u"
    and edge_floor: "neighbors u w = Inr es \<Longrightarrow> e \<in> set es \<Longrightarrow> above_floor (weight_floor w) (weight e)"
begin

lemma tree_inv_visit:
  assumes inv: "tree_inv neighbors (adj w) w seeds st" and u: "u \<in> dom_depth st"
    and lt: "depth_of st u < max_hops w" and nb: "neighbors u w = Inr es"
    and st': "st' = after_visit st u es (admitted_edges cap es 0 (dom_depth st))"
  shows "tree_inv neighbors (adj w) w seeds st'"
proof -
  define new where "new = admitted_edges cap es 0 (dom_depth st)"
  have fresh: "neighbor_id e \<notin> dom_depth st" if "e \<in> set new" for e
    using that admitted_edges_fresh unfolding new_def by blast
  note st' = st' [folded new_def]
  note d = after_visit_depth [OF st' fresh]
  have sub: "set new \<subseteq> set es" unfolding new_def by (rule set_admitted_edges)
  have hop: "hop_path (adj w) seeds (Suc (depth_of st u)) (neighbor_id e)" if "e \<in> set new" for e
    using that sub adj_iff [OF nb, of "neighbor_id e"] inv u
    by (intro hop_edge [of _ _ _ u]) (auto simp: tree_inv_def)
  have lists: "queue st' = queue st @ map neighbor_id new"
    "map fst (depth st') = map fst (depth st) @ map neighbor_id new"
    "arrival st' = arrival st @ map (\<lambda>e. (neighbor_id e, e)) new"
    by (simp_all add: st' after_visit_def comp_def)
  have dn: "distinct (map neighbor_id new)" unfolding new_def by (rule distinct_admitted_edges)
  have seeds: "set seeds \<subseteq> dom_depth st" using inv by (simp add: tree_inv_def)
  show ?thesis
    unfolding tree_inv_def
  proof (intro conjI)
    show "queue_known st'" using inv by (auto simp: tree_inv_def queue_known_def lists d(1))
    show "set seeds \<subseteq> dom_depth st'" using seeds d(1) by blast
    show "\<forall>s \<in> set seeds. depth_of st' s = 0" using inv seeds d(2) by (auto simp: tree_inv_def)
    show "distinct (map fst (depth st'))"
    proof -
      have "set (map fst (depth st)) = dom_depth st" by (simp add: dom_depth_def)
      moreover have "dom_depth st \<inter> set (map neighbor_id new) = {}" using fresh by auto
      ultimately show ?thesis
        using inv dn unfolding lists distinct_append tree_inv_def by metis
    qed
    show "\<forall>v \<in> dom_depth st'. depth_of st' v \<le> max_hops w \<and> hop_path (adj w) seeds (depth_of st' v) v"
      using inv hop lt d by (auto simp: tree_inv_def)
    have arr: "fst ` set (arrival st) = dom_depth st - set seeds" using inv by (simp add: tree_inv_def)
    show "distinct (map fst (arrival st'))"
      using inv dn fresh arr unfolding lists by (auto simp: tree_inv_def comp_def)
    show "fst ` set (arrival st') = dom_depth st' - set seeds"
      using arr seeds fresh by (auto simp: lists d(1) image_Un image_image)
    show "\<forall>(v, e) \<in> set (arrival st'). neighbor_id e = v \<and> from_id e \<in> dom_depth st'
           \<and> depth_of st' v = Suc (depth_of st' (from_id e))
           \<and> (\<exists>es. neighbors (from_id e) w = Inr es \<and> e \<in> set es)"
    proof (intro ballI, clarify)
      fix v e
      assume "(v, e) \<in> set (arrival st')"
      then consider "(v, e) \<in> set (arrival st)" | "e \<in> set new" "v = neighbor_id e"
        by (auto simp: lists)
      then show "neighbor_id e = v \<and> from_id e \<in> dom_depth st'
           \<and> depth_of st' v = Suc (depth_of st' (from_id e))
           \<and> (\<exists>es. neighbors (from_id e) w = Inr es \<and> e \<in> set es)"
      proof cases
        case 1
        then have "v \<in> dom_depth st" using arr by (metis DiffD1 fst_conv imageI)
        with 1 inv d show ?thesis by (auto simp: tree_inv_def)
      next
        case 2
        with edge_from [OF nb, of e] sub nb u d show ?thesis by auto
      qed
    qed
  qed
qed

lemma level_inv_visit:
  assumes inv: "level_inv (adj w) w st" "tree_inv neighbors (adj w) w seeds st"
    and q: "queue st = u # rest"
    and nb: "neighbors u w = Inr es"
    and st': "st' = after_visit (st\<lparr>queue := rest\<rparr>) u es (admitted_edges None es 0 (dom_depth st))"
  shows "level_inv (adj w) w st'"
proof -
  define new where "new = admitted_edges None es 0 (dom_depth st)"
  have fresh: "neighbor_id e \<notin> dom_depth st" if "e \<in> set new" for e
    using that admitted_edges_fresh unfolding new_def by blast
  note st' = st' [folded new_def]
  have d: "dom_depth st' = dom_depth st \<union> neighbor_id ` set new"
    "\<And>v. v \<in> dom_depth st \<Longrightarrow> depth_of st' v = depth_of st v"
    "\<And>v. v \<in> neighbor_id ` set new \<Longrightarrow> depth_of st' v = Suc (depth_of st u)"
    using after_visit_depth [OF st'] fresh by auto
  have known: "u \<in> dom_depth st" "set rest \<subseteq> dom_depth st"
    using inv(2) q by (auto simp: tree_inv_def queue_known_def)
  have lists: "queue st' = rest @ map neighbor_id new" "expanded st' = u # expanded st"
    by (simp_all add: st' after_visit_def)
  have near: "\<forall>v \<in> dom_depth st. depth_of st v \<le> Suc (depth_of st u)"
    and far: "\<forall>v \<in> set rest. depth_of st u \<le> depth_of st v"
    and srt: "sorted (map (depth_of st) rest)"
    using inv(1) q by (auto simp: level_inv_def)
  have adj_dom: "v \<in> dom_depth st'" if "adj w u v" for v
    using that adj_iff [OF nb, of v] admitted_edges_complete [of _ es "dom_depth st" 0]
    by (auto simp: d(1) new_def)
  have le: "depth_of st' v \<le> Suc (depth_of st u)" if "v \<in> dom_depth st'" for v
    using that near d by auto
  have near_rest: "\<forall>x \<in> set rest. depth_of st x \<le> Suc (depth_of st u)" using near known by blast
  have const: "sorted (map (\<lambda>_. k :: nat) xs)" for k and xs :: "edge_arrival list"
    by (induction xs) auto
  show ?thesis
    unfolding level_inv_def
  proof (intro conjI)
    have m1: "map (depth_of st') rest = map (depth_of st) rest"
      using known d(2) by (intro map_cong) auto
    have m2: "map (depth_of st') (map neighbor_id new) = map (\<lambda>_. Suc (depth_of st u)) new"
      using d(3) by simp
    show "sorted (map (depth_of st') (queue st'))"
      unfolding lists map_append m1 m2 sorted_append
      using srt const [of "Suc (depth_of st u)" new] near_rest by simp
    have "depth_of st u \<le> depth_of st' x" if "x \<in> set (queue st')" for x
      using that far known d(2) d(3) unfolding lists by fastforce
    with le show "\<forall>x \<in> set (queue st'). \<forall>v \<in> dom_depth st'. depth_of st' v \<le> Suc (depth_of st' x)"
      by (meson Suc_le_mono order_trans)
    show "\<forall>x \<in> set (expanded st'). \<forall>v. adj w x v \<longrightarrow> v \<in> dom_depth st' \<and> depth_of st' v \<le> Suc (depth_of st' x)"
    proof (intro ballI allI impI)
      fix x v
      assume x: "x \<in> set (expanded st')" and a: "adj w x v"
      show "v \<in> dom_depth st' \<and> depth_of st' v \<le> Suc (depth_of st' x)"
      proof (cases "x = u")
        case True
        with a adj_dom le d(2) known(1) show ?thesis by simp
      next
        case False
        with x have "x \<in> set (expanded st)" by (simp add: lists)
        with inv(1) a have "x \<in> dom_depth st" "v \<in> dom_depth st" "depth_of st v \<le> Suc (depth_of st x)"
          by (auto simp: level_inv_def)
        with d show ?thesis by simp
      qed
    qed
    show "set (expanded st') \<subseteq> dom_depth st'"
      using inv(1) known d(1) by (auto simp: lists level_inv_def)
    show "\<forall>x \<in> dom_depth st'. x \<in> set (queue st') \<or> x \<in> set (expanded st') \<or> max_hops w \<le> depth_of st' x"
    proof
      fix x
      assume "x \<in> dom_depth st'"
      then consider "x \<in> dom_depth st" | "x \<in> set (queue st')" by (auto simp: d(1) lists)
      then show "x \<in> set (queue st') \<or> x \<in> set (expanded st') \<or> max_hops w \<le> depth_of st' x"
      proof cases
        case 1
        with inv(1) have "x \<in> set (queue st) \<or> x \<in> set (expanded st) \<or> max_hops w \<le> depth_of st x"
          by (simp add: level_inv_def)
        with d(2) [OF 1] q show ?thesis by (auto simp: lists)
      qed simp
    qed
  qed
qed

lemma turn_keeps_tree:
  assumes "tree_inv neighbors (adj w) w seeds st" and q: "queue st = u # rest"
    and "walk_turn neighbors w u (st\<lparr>queue := rest\<rparr>) = Inr st'"
  shows "tree_inv neighbors (adj w) w seeds st'"
proof -
  note pop = tree_inv_pop [OF assms(1) q]
  from assms(3) show ?thesis
  proof (cases rule: walk_turn_cases)
    case skip
    with pop show ?thesis by simp
  next
    case (visit es)
    with pop show ?thesis
      by (intro tree_inv_visit [OF _ _ visit(1) visit(3) visit(4)]) simp_all
  qed
qed

lemma turn_keeps_level:
  assumes "tree_inv neighbors (adj w) w seeds st" and lev: "level_inv (adj w) w st"
    and q: "queue st = u # rest" and cap: "max_neighbors_per_hop w = None"
    and "walk_turn neighbors w u (st\<lparr>queue := rest\<rparr>) = Inr st'"
  shows "level_inv (adj w) w st'"
  using assms(5)
proof (cases rule: walk_turn_cases)
  case skip
  with lev q show ?thesis by (auto simp: level_inv_def)
next
  case (visit es)
  show ?thesis
    using level_inv_visit [OF lev assms(1) q visit(3)] visit(4) by (simp add: cap)
qed

lemma run_tree:
  assumes "run_observed w neighbors seeds = Some (Inr st)"
  shows "tree_inv neighbors (adj w) w seeds st"
  using walk_loop_invariant [OF assms [unfolded run_observed_def],
      where P = "tree_inv neighbors (adj w) w seeds"] tree_inv_init turn_keeps_tree by blast

lemma run_level:
  assumes "run_observed w neighbors seeds = Some (Inr st)" and "max_neighbors_per_hop w = None"
  shows "level_inv (adj w) w st \<and> queue st = []"
proof -
  let ?P = "\<lambda>st. tree_inv neighbors (adj w) w seeds st \<and> level_inv (adj w) w st"
  have "?P st \<and> queue st = []"
  proof (rule walk_loop_invariant [OF assms(1) [unfolded run_observed_def], where P = ?P])
    show "?P (walk_init seeds)" by (simp add: tree_inv_init level_inv_init)
  next
    fix st u rest st'
    assume "?P st" "queue st = u # rest" "walk_turn neighbors w u (st\<lparr>queue := rest\<rparr>) = Inr st'"
    with assms(2) show "?P st'" using turn_keeps_tree turn_keeps_level by blast
  qed
  then show ?thesis by blast
qed

lemma walk_turn_answers: "\<exists>st'. walk_turn neighbors w u st = Inr st'"
  using answers [of u w] by (auto simp: walk_turn_def Let_def)

lemma run_succeeds: "\<exists>st. run_observed w neighbors seeds = Some (Inr st)"
proof -
  have ok: "\<forall>e. r \<noteq> Inl e" if "walk_loop neighbors w st = Some r" for st r
  proof -
    have "w' = w \<and> n = neighbors \<longrightarrow> (\<forall>e. r \<noteq> Inl e)" if "walk_loop n w' st = Some r" for n w' st r
      using that
    proof (rule walk_loop.raw_induct
        [where P = "\<lambda>n w' st r. w' = w \<and> n = neighbors \<longrightarrow> (\<forall>e. r \<noteq> Inl e)", rotated], intro impI)
      fix loop :: "(int \<Rightarrow> graph_walk \<Rightarrow> 'e + edge_arrival list) \<Rightarrow> graph_walk \<Rightarrow> walk_state
        \<Rightarrow> ('e + walk_state) option"
      fix n w' st r
      assume IH: "\<And>n w' st r. loop n w' st = Some r
          \<Longrightarrow> w' = w \<and> n = neighbors \<longrightarrow> (\<forall>e. r \<noteq> Inl e)"
        and eq: "(case queue st of [] \<Rightarrow> Some (Inr st)
          | current # rest \<Rightarrow> (case walk_turn n w' current (st\<lparr>queue := rest\<rparr>) of
              Inl e \<Rightarrow> Some (Inl e) | Inr st' \<Rightarrow> loop n w' st')) = Some r"
        and "w' = w \<and> n = neighbors"
      then show "\<forall>e. r \<noteq> Inl e"
        using walk_turn_answers [of w] by (auto split: list.splits sum.splits) (metis Inl_Inr_False)
    qed
    with that show ?thesis by blast
  qed
  obtain r where r: "walk_loop neighbors w (walk_init seeds) = Some r"
    using walk_loop_returns [OF queue_known_init] by blast
  with ok [OF r] show ?thesis by (cases r) (auto simp: run_observed_def)
qed

lemma depth_lookup:
  assumes "tree_inv neighbors (adj w) w seeds st"
  shows "map_of (depth st) v = Some d \<longleftrightarrow> v \<in> dom_depth st \<and> d = depth_of st v"
proof (cases "map_of (depth st) v")
  case None
  then have "v \<notin> dom_depth st" by (simp add: dom_depth_def map_of_eq_None_iff)
  with None show ?thesis by simp
next
  case (Some d')
  then have "v \<in> dom_depth st" unfolding dom_depth_def by (metis fst_conv image_eqI map_of_SomeD)
  with Some show ?thesis by (auto simp: depth_of_def)
qed

lemma reached_within:
  assumes run: "run_observed w neighbors seeds = Some (Inr st)" and cap: "max_neighbors_per_hop w = None"
  shows "hop_path (adj w) seeds n v \<Longrightarrow> n \<le> max_hops w \<Longrightarrow> v \<in> dom_depth st \<and> depth_of st v \<le> n"
proof (induction n v rule: hop_path.induct)
  case (hop_seed s)
  with run_tree [OF run] show ?case by (auto simp: tree_inv_def)
next
  case (hop_edge n u v)
  with run_level [OF run cap] have "u \<in> set (expanded st)" by (fastforce simp: level_inv_def)
  with run_level [OF run cap] hop_edge show ?case by (fastforce simp: level_inv_def)
qed

lemma run_min_hops:
  assumes run: "run_observed w neighbors seeds = Some (Inr st)" and cap: "max_neighbors_per_hop w = None"
  shows "map_of (depth st) v = Some d \<longleftrightarrow> d \<le> max_hops w \<and> min_hops (adj w) seeds d v"
proof -
  note tree = run_tree [OF run]
  show ?thesis
  proof
    assume "map_of (depth st) v = Some d"
    then have v: "v \<in> dom_depth st" "d = depth_of st v" by (simp_all add: depth_lookup [OF tree])
    then have d: "d \<le> max_hops w" "hop_path (adj w) seeds d v" using tree by (auto simp: tree_inv_def)
    moreover have "\<not> hop_path (adj w) seeds m v" if "m < d" for m
      using reached_within [OF run cap, of m v] that v d by auto
    ultimately show "d \<le> max_hops w \<and> min_hops (adj w) seeds d v" by (simp add: min_hops_def)
  next
    assume d: "d \<le> max_hops w \<and> min_hops (adj w) seeds d v"
    then have "v \<in> dom_depth st" "depth_of st v \<le> d"
      using reached_within [OF run cap, of d v] by (auto simp: min_hops_def)
    moreover from this have "hop_path (adj w) seeds (depth_of st v) v" using tree by (auto simp: tree_inv_def)
    ultimately show "map_of (depth st) v = Some d"
      using d unfolding depth_lookup [OF tree] min_hops_def by (metis order_le_less)
  qed
qed

end

section \<open>The two sources\<close>

definition sql_row_ok :: "db \<Rightarrow> string \<Rightarrow> bool \<Rightarrow> graph_walk \<Rightarrow> relationship_row \<Rightarrow> bool" where
  "sql_row_ok d ns names w r \<longleftrightarrow>
     r_namespace r = ns \<and> above_floor (weight_floor w) (r_weight r)
     \<and> (\<forall>rel. relation_filter w = Some rel
           \<longrightarrow> r_relation r = rel \<or> r_relation r = alternate_relation_spelling rel)
     \<and> (names \<longrightarrow> entity_name d (r_source_id r) \<noteq> None \<and> entity_name d (r_target_id r) \<noteq> None)"

definition sql_adj :: "db \<Rightarrow> string \<Rightarrow> bool \<Rightarrow> graph_walk \<Rightarrow> int \<Rightarrow> int \<Rightarrow> bool" where
  "sql_adj d ns names w u v \<longleftrightarrow>
     (\<exists>r \<in> set (relationships d). sql_row_ok d ns names w r
        \<and> (r_source_id r = u \<and> r_target_id r = v
           \<or> direction w = Bidirectional \<and> r_target_id r = u \<and> r_source_id r = v))"

definition in_memory_adj ::
  "memory_edge list \<Rightarrow> (int \<Rightarrow> string option) \<Rightarrow> graph_walk \<Rightarrow> int \<Rightarrow> int \<Rightarrow> bool" where
  "in_memory_adj edges id_to_name w u v \<longleftrightarrow>
     (\<exists>r \<in> set edges. above_floor (weight_floor w) (me_weight r)
        \<and> (\<forall>rel. relation_filter w = Some rel \<longrightarrow> me_relation r = rel)
        \<and> id_to_name v \<noteq> None
        \<and> (me_source_id r = u \<and> me_target_id r = v
           \<or> direction w = Bidirectional \<and> me_target_id r = u \<and> me_source_id r = v))"

abbreviation both_named :: "db \<Rightarrow> relationship_row \<Rightarrow> bool" where
  "both_named d r \<equiv> entity_name d (r_source_id r) \<noteq> None \<and> entity_name d (r_target_id r) \<noteq> None"

lemma sql_query_row_empty: "names \<Longrightarrow> \<not> both_named d r \<Longrightarrow> sql_query_row d names i inb r = []"
  by (auto simp: sql_query_row_def Let_def split: option.splits)

lemma sql_query_row_single:
  assumes "names \<Longrightarrow> both_named d r"
  obtains e where "sql_query_row d names i inb r = [e]" "from_id e = i" "weight e = r_weight r"
    "neighbor_id e = (if inb then r_source_id r else r_target_id r)"
  using assms that by (cases names) (auto simp: sql_query_row_def Let_def)

lemma sql_query_set:
  "set (sql_query d ns names i w inb) =
     (\<Union>r \<in> {r \<in> set (relationships d). sql_row_ok d ns names w r
               \<and> (if inb then r_target_id r else r_source_id r) = i}.
        set (sql_query_row d names i inb r))"
proof -
  define p where "p = (\<lambda>r :: relationship_row. (if inb then r_target_id else r_source_id) r = i
      \<and> above_floor (weight_floor w) (r_weight r) \<and> r_namespace r = ns
      \<and> (case relation_filter w of None \<Rightarrow> True
         | Some rel \<Rightarrow> r_relation r = rel \<or> r_relation r = alternate_relation_spelling rel))"
  have "set (sql_query d ns names i w inb) =
      (\<Union>r \<in> {r \<in> set (relationships d). p r}. set (sql_query_row d names i inb r))"
    by (simp add: sql_query_def Let_def p_def)
  also have "\<dots> = (\<Union>r \<in> {r \<in> set (relationships d). p r \<and> (names \<longrightarrow> both_named d r)}.
      set (sql_query_row d names i inb r))"
  proof (intro equalityI subsetI)
    fix e
    assume "e \<in> (\<Union>r \<in> {r \<in> set (relationships d). p r}. set (sql_query_row d names i inb r))"
    then obtain r where r: "r \<in> set (relationships d)" "p r" "e \<in> set (sql_query_row d names i inb r)"
      by blast
    then have "names \<longrightarrow> both_named d r" using sql_query_row_empty [of names d r i inb] by fastforce
    with r show "e \<in> (\<Union>r \<in> {r \<in> set (relationships d). p r \<and> (names \<longrightarrow> both_named d r)}.
      set (sql_query_row d names i inb r))" by blast
  qed blast
  also have "{r \<in> set (relationships d). p r \<and> (names \<longrightarrow> both_named d r)} =
      {r \<in> set (relationships d). sql_row_ok d ns names w r
               \<and> (if inb then r_target_id r else r_source_id r) = i}"
    by (auto simp: p_def sql_row_ok_def split: option.splits)
  finally show ?thesis .
qed

lemma sql_query_reaches:
  "(\<exists>e \<in> set (sql_query d ns names u w inb). neighbor_id e = v) \<longleftrightarrow>
     (\<exists>r \<in> set (relationships d). sql_row_ok d ns names w r
        \<and> (if inb then r_target_id r = u \<and> r_source_id r = v else r_source_id r = u \<and> r_target_id r = v))"
proof -
  have "(\<exists>e \<in> set (sql_query_row d names u inb r). neighbor_id e = v) \<longleftrightarrow>
      (if inb then r_source_id r else r_target_id r) = v" if "sql_row_ok d ns names w r" for r
    using that sql_query_row_single [of names d r u inb] unfolding sql_row_ok_def
    by (metis list.set_intros(1) list.set(1) list.set(2) singletonD)
  then show ?thesis unfolding sql_query_set by (auto split: if_splits)
qed

lemma sql_query_edge_facts:
  assumes "e \<in> set (sql_query d ns names u w inb)"
  shows "from_id e = u \<and> above_floor (weight_floor w) (weight e)"
proof -
  from assms obtain r where "sql_row_ok d ns names w r" "e \<in> set (sql_query_row d names u inb r)"
    unfolding sql_query_set by auto
  then show ?thesis
    using sql_query_row_single [of names d r u inb] unfolding sql_row_ok_def
    by (metis list.set(1) list.set(2) singletonD)
qed

lemma sql_query_sorted:
  "direction w = Directed
     \<Longrightarrow> sorted_wrt (\<lambda>a b. weight b \<le> weight a) (sql_query d ns names i w inb)"
  using sorted_sort_key [of "\<lambda>e. - weight e"]
  by (auto simp: sql_query_def Let_def sorted_map)

interpretation sql: neighbor_source "sql_neighbors d ns names" "sql_adj d ns names"
proof
  show "\<exists>es. sql_neighbors d ns names u w = Inr es" for u w
    by (simp add: sql_neighbors_def)
next
  fix u w es v
  assume "sql_neighbors d ns names u w = Inr es"
  then have es: "set es = set (sql_query d ns names u w False)
      \<union> (if direction w = Bidirectional then set (sql_query d ns names u w True) else {})"
    by (auto simp: sql_neighbors_def)
  have "(\<exists>e \<in> set es. neighbor_id e = v) \<longleftrightarrow>
      (\<exists>e \<in> set (sql_query d ns names u w False). neighbor_id e = v)
      \<or> direction w = Bidirectional \<and> (\<exists>e \<in> set (sql_query d ns names u w True). neighbor_id e = v)"
    unfolding es by (cases "direction w") auto
  then show "sql_adj d ns names w u v \<longleftrightarrow> (\<exists>e \<in> set es. neighbor_id e = v)"
    unfolding sql_query_reaches sql_adj_def by auto
  show "from_id e = u" if "e \<in> set es" for e
    using that sql_query_edge_facts unfolding es by (auto split: if_splits)
  show "above_floor (weight_floor w) (weight e)" if "e \<in> set es" for e
    using that sql_query_edge_facts unfolding es by (auto split: if_splits)
qed

lemma in_memory_edge_facts:
  "e \<in> set (in_memory_edge id_to_name u w r)
     \<Longrightarrow> from_id e = u \<and> above_floor (weight_floor w) (weight e)"
  by (auto simp: in_memory_edge_def Let_def split: option.splits if_splits)

lemma in_memory_edge_reaches:
  "(\<exists>e \<in> set (in_memory_edge id_to_name u w r). neighbor_id e = v) \<longleftrightarrow>
     above_floor (weight_floor w) (me_weight r)
     \<and> (\<forall>rel. relation_filter w = Some rel \<longrightarrow> me_relation r = rel) \<and> id_to_name v \<noteq> None
     \<and> (me_source_id r = u \<and> me_target_id r = v
        \<or> direction w = Bidirectional \<and> me_target_id r = u \<and> me_source_id r = v)"
proof -
  let ?ok = "above_floor (weight_floor w) (me_weight r)
     \<and> (\<forall>rel. relation_filter w = Some rel \<longrightarrow> me_relation r = rel)"
  have "neighbor_id ` set (in_memory_edge id_to_name u w r) =
    (if ?ok \<and> me_source_id r = u \<and> id_to_name (me_target_id r) \<noteq> None then {me_target_id r}
     else if ?ok \<and> me_source_id r \<noteq> u \<and> me_target_id r = u \<and> direction w = Bidirectional
             \<and> id_to_name (me_source_id r) \<noteq> None then {me_source_id r} else {})"
    by (auto simp: in_memory_edge_def Let_def split: option.splits)
  then have "v \<in> neighbor_id ` set (in_memory_edge id_to_name u w r) \<longleftrightarrow>
     ?ok \<and> id_to_name v \<noteq> None \<and> (me_source_id r = u \<and> me_target_id r = v
        \<or> direction w = Bidirectional \<and> me_target_id r = u \<and> me_source_id r = v)"
    by (auto split: if_splits)
  then show ?thesis by (auto simp: image_iff)
qed

interpretation mem: neighbor_source "in_memory_neighbors edges id_to_name" "in_memory_adj edges id_to_name"
proof
  show "\<exists>es. in_memory_neighbors edges id_to_name u w = Inr es" for u w
    by (simp add: in_memory_neighbors_def)
next
  fix u w es v
  assume "in_memory_neighbors edges id_to_name u w = Inr es"
  then have es: "set es = (\<Union>r \<in> set edges. set (in_memory_edge id_to_name u w r))"
    by (auto simp: in_memory_neighbors_def)
  have "(\<exists>e \<in> set es. neighbor_id e = v)
      \<longleftrightarrow> (\<exists>r \<in> set edges. \<exists>e \<in> set (in_memory_edge id_to_name u w r). neighbor_id e = v)"
    unfolding es by blast
  then show "in_memory_adj edges id_to_name w u v \<longleftrightarrow> (\<exists>e \<in> set es. neighbor_id e = v)"
    unfolding in_memory_adj_def in_memory_edge_reaches by simp
  show "from_id e = u" if "e \<in> set es" for e
    using that in_memory_edge_facts unfolding es by fastforce
  show "above_floor (weight_floor w) (weight e)" if "e \<in> set es" for e
    using that in_memory_edge_facts unfolding es by fastforce
qed

section \<open>Properties of the walk\<close>

text \<open>Claim C28. The breadth-first driver returns for every neighbour source, every seed list
  and every parameter setting: the worklist cannot grow forever.\<close>

theorem run_observed_returns: "\<exists>r. run_observed w neighbors seeds = Some r"
  unfolding run_observed_def by (rule walk_loop_returns [OF queue_known_init])

text \<open>Claim C27. Without a neighbour cap, the walk over the \<^verbatim>\<open>relationships\<close> table records
  exactly the entities within \<^verbatim>\<open>max_hops\<close> of the seeds, each with its minimum hop count: the
  depth map is the distance function of the graph of admissible edges.\<close>

theorem sql_walk_min_hops:
  assumes "max_neighbors_per_hop w = None"
  shows "\<exists>st. run_observed w (sql_neighbors d ns names) seeds = Some (Inr st :: 'e + walk_state)
    \<and> (\<forall>v n. map_of (depth st) v = Some n \<longleftrightarrow>
          n \<le> max_hops w \<and> min_hops (sql_adj d ns names w) seeds n v)"
proof -
  obtain st where "run_observed w (sql_neighbors d ns names) seeds = Some (Inr st :: 'e + walk_state)"
    using sql.run_succeeds by blast
  then show ?thesis using sql.run_min_hops assms by blast
qed

definition demo_rel :: "int \<Rightarrow> int \<Rightarrow> int \<Rightarrow> real \<Rightarrow> relationship_row" where
  "demo_rel i a b x = \<lparr>r_id = i, r_namespace = ''global'', r_source_id = a, r_target_id = b,
     r_relation = ''uses'', r_weight = x, r_description = None, r_created_at = 0, r_updated_at = 0\<rparr>"

definition demo_graph :: db where
  "demo_graph = empty_db\<lparr>relationships := [demo_rel 1 10 11 1, demo_rel 2 11 12 (1/2), demo_rel 3 10 12 (1/4)]\<rparr>"

theorem sql_walk_min_hops_witness:
  "\<exists>st. run_observed (walk_directed (1/3) 2) (sql_neighbors demo_graph ''global'' False) [10]
      = Some (Inr st :: unit + walk_state)
    \<and> map_of (depth st) 10 = Some 0"
proof -
  let ?w = "walk_directed (1/3) 2"
  obtain st where st: "run_observed ?w (sql_neighbors demo_graph ''global'' False) [10] = Some (Inr st :: unit + walk_state)"
    "map_of (depth st) 10 = Some 0 \<longleftrightarrow>
          0 \<le> max_hops ?w \<and> min_hops (sql_adj demo_graph ''global'' False ?w) [10] 0 10"
    using sql_walk_min_hops [of ?w demo_graph "''global''" False "[10]"] by (auto simp: walk_directed_def)
  moreover have "min_hops (sql_adj demo_graph ''global'' False ?w) [10] 0 10"
    by (simp add: min_hops_def hop_seed)
  ultimately show ?thesis by auto
qed

text \<open>With or without a cap, the arrival map is a shortest-hop tree over the recorded
  entities: exactly the non-seed entities have an arrival edge; the edge is one of the
  neighbour rows of its origin, ends in the entity, respects the weight floor, and its origin
  was recorded one hop earlier. Seeds have depth zero and no depth exceeds the limit.\<close>

theorem sql_walk_arrival_tree:
  "\<exists>st. run_observed w (sql_neighbors d ns names) seeds = Some (Inr st :: 'e + walk_state)
    \<and> (\<forall>s \<in> set seeds. map_of (depth st) s = Some 0)
    \<and> (\<forall>v. map_of (arrival st) v \<noteq> None \<longleftrightarrow> map_of (depth st) v \<noteq> None \<and> v \<notin> set seeds)
    \<and> (\<forall>v n. map_of (depth st) v = Some n \<longrightarrow> n \<le> max_hops w)
    \<and> (\<forall>v e. map_of (arrival st) v = Some e \<longrightarrow>
          neighbor_id e = v \<and> above_floor (weight_floor w) (weight e)
          \<and> (\<exists>es. sql_neighbors d ns names (from_id e) w = (Inr es :: 'e + edge_arrival list) \<and> e \<in> set es)
          \<and> (\<exists>n. map_of (depth st) (from_id e) = Some n \<and> map_of (depth st) v = Some (Suc n)))"
proof -
  obtain st where run: "run_observed w (sql_neighbors d ns names) seeds = Some (Inr st :: 'e + walk_state)"
    using sql.run_succeeds by blast
  note tree = sql.run_tree [OF run]
  note look = sql.depth_lookup [OF tree]
  have dom: "map_of (depth st) v \<noteq> None \<longleftrightarrow> v \<in> dom_depth st" for v
    by (simp add: dom_depth_def map_of_eq_None_iff)
  have arr: "map_of (arrival st) v \<noteq> None \<longleftrightarrow> v \<in> dom_depth st \<and> v \<notin> set seeds" for v
    using tree unfolding tree_inv_def by (metis (no_types, lifting) DiffD1 DiffD2 DiffI map_of_eq_None_iff)
  have edge: "neighbor_id e = v \<and> above_floor (weight_floor w) (weight e)
      \<and> (\<exists>es. sql_neighbors d ns names (from_id e) w = (Inr es :: 'e + edge_arrival list) \<and> e \<in> set es)
      \<and> (\<exists>n. map_of (depth st) (from_id e) = Some n \<and> map_of (depth st) v = Some (Suc n))"
    if "map_of (arrival st) v = Some e" for v e
  proof -
    have v: "v \<in> dom_depth st" using arr [of v] that by simp
    have "(v, e) \<in> set (arrival st)" using that by (rule map_of_SomeD)
    with tree have e: "neighbor_id e = v" "from_id e \<in> dom_depth st"
        "depth_of st v = Suc (depth_of st (from_id e))"
        "\<exists>es. sql_neighbors d ns names (from_id e) w = (Inr es :: 'e + edge_arrival list) \<and> e \<in> set es"
      unfolding tree_inv_def by auto
    then have "above_floor (weight_floor w) (weight e)" using sql.edge_floor by blast
    with e v look show ?thesis by auto
  qed
  show ?thesis
  proof (intro exI [of _ st] conjI allI ballI impI)
    show "map_of (depth st) s = Some 0" if "s \<in> set seeds" for s
      using that tree look unfolding tree_inv_def by (metis subsetD)
    show "n \<le> max_hops w" if "map_of (depth st) v = Some n" for v n
      using that tree look unfolding tree_inv_def by metis
  qed (use run arr dom edge in blast)+
qed

theorem sql_walk_arrival_tree_witness:
  "\<exists>st. run_observed (walk_directed (1/3) 2) (sql_neighbors demo_graph ''global'' False) [10]
      = Some (Inr st :: unit + walk_state) \<and> map_of (depth st) 10 = Some 0 \<and> map_of (arrival st) 10 = None"
proof -
  obtain st where "run_observed (walk_directed (1/3) 2) (sql_neighbors demo_graph ''global'' False) [10]
      = Some (Inr st :: unit + walk_state)" "\<forall>s \<in> set [10]. map_of (depth st) s = Some 0"
    "\<forall>v. map_of (arrival st) v \<noteq> None \<longleftrightarrow> map_of (depth st) v \<noteq> None \<and> v \<notin> set [10]"
    using sql_walk_arrival_tree [of "walk_directed (1/3) 2" demo_graph "''global''" False "[10]"] by blast
  then show ?thesis by (intro exI [of _ st]) (metis list.set_intros(1))
qed

text \<open>The edge list \<^verbatim>\<open>graph\<close> commands load for a namespace.\<close>

definition loaded_edges :: "db \<Rightarrow> string \<Rightarrow> memory_edge list" where
  "loaded_edges d ns =
     map (\<lambda>r. \<lparr>me_source_id = r_source_id r, me_target_id = r_target_id r,
                me_relation = r_relation r, me_weight = r_weight r\<rparr>)
       (filter (\<lambda>r. r_namespace r = ns) (relationships d))"

text \<open>The SQL filter accepts a label under both spellings, the one in memory only under its own; a
  namespace is spelled as the filter asks when no edge has the alternate spelling only.\<close>

definition spelled_as_filter :: "db \<Rightarrow> string \<Rightarrow> graph_walk \<Rightarrow> bool" where
  "spelled_as_filter d ns w \<longleftrightarrow>
     (\<forall>rel. relation_filter w = Some rel \<longrightarrow> (\<forall>r \<in> set (relationships d). r_namespace r = ns
        \<and> r_relation r = alternate_relation_spelling rel \<longrightarrow> r_relation r = rel))"

lemma loaded_adj:
  assumes "\<forall>r \<in> set (relationships d). r_namespace r = ns \<longrightarrow>
      id_to_name (r_source_id r) \<noteq> None \<and> id_to_name (r_target_id r) \<noteq> None"
    and "spelled_as_filter d ns w"
  shows "in_memory_adj (loaded_edges d ns) id_to_name w = sql_adj d ns False w"
proof (intro ext)
  fix u v
  have "in_memory_adj (loaded_edges d ns) id_to_name w u v \<longleftrightarrow>
      (\<exists>r \<in> set (relationships d). r_namespace r = ns \<and> above_floor (weight_floor w) (r_weight r)
        \<and> (\<forall>rel. relation_filter w = Some rel \<longrightarrow> r_relation r = rel)
        \<and> id_to_name v \<noteq> None \<and> (r_source_id r = u \<and> r_target_id r = v
           \<or> direction w = Bidirectional \<and> r_target_id r = u \<and> r_source_id r = v))"
    unfolding in_memory_adj_def loaded_edges_def by auto
  also have "\<dots> \<longleftrightarrow> (\<exists>r \<in> set (relationships d). sql_row_ok d ns False w r
        \<and> (r_source_id r = u \<and> r_target_id r = v
           \<or> direction w = Bidirectional \<and> r_target_id r = u \<and> r_source_id r = v))"
    using assms unfolding sql_row_ok_def spelled_as_filter_def
    by (intro bex_cong refl) (auto split: option.splits)
  also have "\<dots> \<longleftrightarrow> sql_adj d ns False w u v"
    unfolding sql_adj_def by auto
  finally show "in_memory_adj (loaded_edges d ns) id_to_name w u v = sql_adj d ns False w u v" .
qed

text \<open>Claim C30. The two neighbour sources agree: a walk over the edge list that was loaded from
  the namespace's relationships, with an id-to-name index covering their endpoints, records the
  same depth for every entity as the walk that queries SQLite hop by hop, when no cap is set and
  either no relation filter is set or no edge of the namespace carries the filter's label in the
  other spelling (which the SQL filter accepts and the filter in memory does not).\<close>

theorem in_memory_walk_same_depth:
  assumes "\<forall>r \<in> set (relationships d). r_namespace r = ns \<longrightarrow>
      id_to_name (r_source_id r) \<noteq> None \<and> id_to_name (r_target_id r) \<noteq> None"
    and "spelled_as_filter d ns w" and "max_neighbors_per_hop w = None"
  shows "\<exists>st st'. run_observed w (in_memory_neighbors (loaded_edges d ns) id_to_name) seeds = Some (Inr st :: 'e + walk_state)
    \<and> run_observed w (sql_neighbors d ns False) seeds = Some (Inr st' :: 'e + walk_state)
    \<and> map_of (depth st) = map_of (depth st')"
proof -
  obtain st where st: "run_observed w (in_memory_neighbors (loaded_edges d ns) id_to_name) seeds = Some (Inr st :: 'e + walk_state)"
    using mem.run_succeeds by blast
  obtain st' where st': "run_observed w (sql_neighbors d ns False) seeds = Some (Inr st' :: 'e + walk_state)"
    using sql.run_succeeds by blast
  have "map_of (depth st) v = Some n \<longleftrightarrow> map_of (depth st') v = Some n" for v n
    using mem.run_min_hops [OF st assms(3)] sql.run_min_hops [OF st' assms(3)]
    unfolding loaded_adj [OF assms(1,2)] by simp
  then have "map_of (depth st) = map_of (depth st')" by (intro ext) (metis option.exhaust)
  with st st' show ?thesis by blast
qed

theorem in_memory_walk_same_depth_witness:
  "\<exists>st st'. run_observed (walk_bidirectional 0 3) (in_memory_neighbors (loaded_edges demo_graph ''global'') (\<lambda>_. Some ''x'')) [12]
      = Some (Inr st :: unit + walk_state)
    \<and> run_observed (walk_bidirectional 0 3) (sql_neighbors demo_graph ''global'' False) [12] = Some (Inr st' :: unit + walk_state)
    \<and> map_of (depth st) = map_of (depth st')"
  by (rule in_memory_walk_same_depth) (simp_all add: walk_bidirectional_def spelled_as_filter_def)

text \<open>Under a cap of \<open>k\<close>, one expansion of a directed walk admits at most \<open>k\<close> new
  entities, and it only turns a neighbour away when it has admitted \<open>k\<close> others whose edges are
  all at least as strong.\<close>

theorem capped_expansion_keeps_strongest:
  assumes "direction w = Directed" and "max_neighbors_per_hop w = Some k"
    and "sql_neighbors d ns names u w = (Inr es :: 'e + edge_arrival list)"
    and "st' = visit_edges (max_neighbors_per_hop w) nd es 0 st"
  shows "\<exists>new. arrival st' = arrival st @ new \<and> map fst new = drop (length (queue st)) (queue st')
    \<and> length new \<le> k
    \<and> (\<forall>e \<in> set es. neighbor_id e \<notin> fst ` set (depth st') \<longrightarrow>
          length new = k \<and> (\<forall>(v, e') \<in> set new. weight e \<le> weight e'))"
proof -
  define new where "new = admitted_edges (Some k) es 0 (dom_depth st)"
  have st': "arrival st' = arrival st @ map (\<lambda>e. (neighbor_id e, e)) new"
    "queue st' = queue st @ map neighbor_id new" "fst ` set (depth st') = dom_depth st \<union> neighbor_id ` set new"
    unfolding assms(4) visit_edges_eq assms(2) new_def
    by (simp_all add: Let_def dom_depth_def image_Un image_image)
  have sorted: "sorted_wrt (\<lambda>a b. weight b \<le> weight a) es"
    using assms(1,3) sql_query_sorted [of w d ns names u False] by (simp add: sql_neighbors_def)
  have cap: "length new \<le> k" using admitted_edges_cap [of k es 0 "dom_depth st"] by (simp add: new_def)
  have full: "length new = k \<and> (\<forall>e' \<in> set new. weight e \<le> weight e')"
    if "e \<in> set es" "neighbor_id e \<notin> dom_depth st \<union> neighbor_id ` set new" for e
    using that cap length_admitted_edges_full [of e es "dom_depth st" "Some k" 0]
      admitted_edges_strongest [OF sorted that(1), of "dom_depth st" "Some k" 0] unfolding new_def
    by auto
  show ?thesis
    by (intro exI [of _ "map (\<lambda>e. (neighbor_id e, e)) new"])
       (use full cap in \<open>auto simp: st' comp_def\<close>)
qed

theorem capped_expansion_keeps_strongest_witness:
  "\<exists>new. arrival (visit_edges (Some 1) 1 (sql_query demo_graph ''global'' False 10 (with_neighbor_cap (walk_directed 0 2) (Some 1)) False) 0 (walk_init [10]))
      = [] @ new \<and> length new \<le> 1"
proof -
  let ?w = "with_neighbor_cap (walk_directed 0 2) (Some 1)"
  have "\<exists>new. arrival (visit_edges (max_neighbors_per_hop ?w) 1 (sql_query demo_graph ''global'' False 10 ?w False) 0 (walk_init [10]))
      = arrival (walk_init [10]) @ new \<and> length new \<le> 1"
    using capped_expansion_keeps_strongest [of ?w 1 demo_graph "''global''" False 10
        "sql_query demo_graph ''global'' False 10 ?w False" _ 1 "walk_init [10]", OF _ _ _ refl]
    by (fastforce simp: with_neighbor_cap_def walk_directed_def sql_neighbors_def)
  then show ?thesis by (simp add: with_neighbor_cap_def)
qed

end
