(* ===== verification/Traverse_Correct.thy ===== *)
theory Traverse_Correct
  imports Walk_Correct
begin

text \<open>
  The memory-level traversal of \<^verbatim>\<open>src/graph/traverse.rs\<close>: which memories a search reaches and
  with which hop count, and the predecessor map of \<^verbatim>\<open>src/graph/bfs.rs\<close>.
\<close>

section \<open>Collecting the memories of the discovered entities\<close>

lemma set_live_memories_of:
  "m \<in> set (live_memories_of d e) \<longleftrightarrow> (m, e) \<in> set (memory_entities d) \<and> memory_live d m"
  by (auto simp: live_memories_of_def image_iff)

lemma distinct_live_memories_of: "distinct (live_memories_of d e)"
  by (simp add: live_memories_of_def)

lemma collect_memories_append:
  "collect_memories d seeds disc seen result = result @ collect_memories d seeds disc seen []"
proof (induction disc arbitrary: seen result)
  case (Cons p disc)
  obtain e h where p: "p = (e, h)" by force
  let ?ids = "filter (\<lambda>m. m \<notin> set seeds \<and> m \<notin> set seen) (live_memories_of d e)"
  show ?case
    using Cons.IH [of "seen @ ?ids" "result @ map (\<lambda>m. (m, h)) ?ids"]
      Cons.IH [of "seen @ ?ids" "map (\<lambda>m. (m, h)) ?ids"]
    by (simp add: p Let_def)
qed simp

text \<open>With the discovered entities sorted by hop count, a memory is reported once, at the smallest
  hop count of its discovered entities.\<close>

lemma collect_memories_iff:
  assumes "sorted (map snd disc)"
  shows "(m, h) \<in> set (collect_memories d seeds disc seen []) \<longleftrightarrow>
     m \<notin> set seeds \<and> m \<notin> set seen
     \<and> (\<exists>e. (e, h) \<in> set disc \<and> m \<in> set (live_memories_of d e))
     \<and> (\<forall>(e, h') \<in> set disc. m \<in> set (live_memories_of d e) \<longrightarrow> h \<le> h')"
  using assms
proof (induction disc arbitrary: seen)
  case (Cons p disc)
  obtain e k where p: "p = (e, k)" by force
  let ?ids = "filter (\<lambda>m. m \<notin> set seeds \<and> m \<notin> set seen) (live_memories_of d e)"
  have step: "collect_memories d seeds (p # disc) seen [] =
      map (\<lambda>m. (m, k)) ?ids @ collect_memories d seeds disc (seen @ ?ids) []"
    using collect_memories_append [of d seeds disc "seen @ ?ids" "map (\<lambda>m. (m, k)) ?ids"]
    by (simp add: p Let_def)
  have srt: "sorted (map snd disc)" and least: "\<And>e' h'. (e', h') \<in> set disc \<Longrightarrow> k \<le> h'"
    using Cons.prems by (auto simp: p)
  note IH = Cons.IH [OF srt, of "seen @ ?ids"]
  show ?case
  proof (cases "m \<in> set ?ids")
    case True
    then have "(m, h) \<in> set (collect_memories d seeds (p # disc) seen []) \<longleftrightarrow> h = k"
      unfolding step by (auto simp: IH)
    moreover from True have "m \<notin> set seeds" "m \<notin> set seen" "m \<in> set (live_memories_of d e)" by auto
    moreover from this least have "(\<exists>e'. (e', h) \<in> set (p # disc) \<and> m \<in> set (live_memories_of d e'))
        \<and> (\<forall>(e', h') \<in> set (p # disc). m \<in> set (live_memories_of d e') \<longrightarrow> h \<le> h') \<longleftrightarrow> h = k"
      by (fastforce simp: p)
    ultimately show ?thesis by blast
  next
    case False
    then have "(m, h) \<in> set (collect_memories d seeds (p # disc) seen [])
        \<longleftrightarrow> (m, h) \<in> set (collect_memories d seeds disc (seen @ ?ids) [])"
      unfolding step by auto
    with False show ?thesis unfolding IH by (auto simp: p)
  qed
qed simp

lemma distinct_collect_memories:
  "distinct (map fst (collect_memories d seeds disc seen []))
   \<and> fst ` set (collect_memories d seeds disc seen []) \<inter> set seen = {}"
proof (induction disc arbitrary: seen)
  case (Cons p disc)
  obtain e k where p: "p = (e, k)" by force
  let ?ids = "filter (\<lambda>m. m \<notin> set seeds \<and> m \<notin> set seen) (live_memories_of d e)"
  have step: "collect_memories d seeds (p # disc) seen [] =
      map (\<lambda>m. (m, k)) ?ids @ collect_memories d seeds disc (seen @ ?ids) []"
    using collect_memories_append [of d seeds disc "seen @ ?ids" "map (\<lambda>m. (m, k)) ?ids"]
    by (simp add: p Let_def)
  have ids: "distinct ?ids" using distinct_live_memories_of by (rule distinct_filter)
  have "map fst (map (\<lambda>m. (m, k)) ?ids) = ?ids" by (simp add: comp_def)
  with Cons.IH [of "seen @ ?ids"] ids show ?case unfolding step map_append distinct_append
    by (auto simp: image_Un)
qed simp

section \<open>Seeds\<close>

lemma set_seed_entities_of:
  "set (seed_entities_of d mem_ids) = {e. \<exists>m \<in> set mem_ids. (m, e) \<in> set (memory_entities d)}"
  by (force simp: seed_entities_of_def)

text \<open>The list of discovered entities, nearest first.\<close>

lemma sorted_hops_then_ids:
  "sorted (map snd (sort_key (\<lambda>(i :: int, hop :: nat). (hop, i)) xs))"
proof -
  have "sorted (map (\<lambda>(i, hop). (hop, i)) (sort_key (\<lambda>(i :: int, hop :: nat). (hop, i)) xs))"
    by (rule sorted_sort_key)
  then show ?thesis
    unfolding sorted_map by (rule sorted_wrt_mono_rel [rotated]) (auto simp: less_eq_prod_def)
qed

text \<open>A memory and the hop count at which one of its entities outside the seed entities lies.\<close>

definition reached_at :: "db \<Rightarrow> string \<Rightarrow> real \<Rightarrow> nat \<Rightarrow> int list \<Rightarrow> int \<Rightarrow> nat \<Rightarrow> bool" where
  "reached_at d ns min_weight hops mem_ids m h \<longleftrightarrow>
     (\<exists>e. (m, e) \<in> set (memory_entities d) \<and> e \<notin> set (seed_entities_of d mem_ids) \<and> h \<le> hops
        \<and> min_hops (sql_adj d ns False (walk_directed min_weight hops)) (seed_entities_of d mem_ids) h e)"

definition nearest_at :: "db \<Rightarrow> string \<Rightarrow> real \<Rightarrow> nat \<Rightarrow> int list \<Rightarrow> int \<Rightarrow> nat \<Rightarrow> bool" where
  "nearest_at d ns min_weight hops mem_ids m h \<longleftrightarrow>
     reached_at d ns min_weight hops mem_ids m h
     \<and> (\<forall>h' < h. \<not> reached_at d ns min_weight hops mem_ids m h')"

lemma traverse_cases:
  obtains (none) "mem_ids = [] \<or> hops = 0 \<or> seed_entities_of d mem_ids = []"
    "traverse_from_memories_with_hops d mem_ids ns mw hops = Some (Inr [] :: 'e + _)"
  | (walk) st :: walk_state where
    "run_observed (walk_directed mw hops) (sql_neighbors d ns False) (seed_entities_of d mem_ids)
       = Some (Inr st :: 'e + walk_state)"
    "traverse_from_memories_with_hops d mem_ids ns mw hops = Some (Inr (sort_key fst
       (collect_memories d mem_ids (sort_key (\<lambda>(i, hop). (hop, i))
          (filter (\<lambda>(i, _). i \<notin> set (seed_entities_of d mem_ids)) (depth st))) [] [])) :: 'e + _)"
proof (cases "mem_ids = [] \<or> hops = 0 \<or> seed_entities_of d mem_ids = []")
  case True
  then show ?thesis
    by (intro none) (auto simp: traverse_from_memories_with_hops_def
        traverse_from_memories_with_hops_capped_def Let_def)
next
  case False
  have w: "with_neighbor_cap (walk_directed mw hops) None = walk_directed mw hops"
    by (simp add: with_neighbor_cap_def walk_directed_def)
  obtain st where "run_observed (walk_directed mw hops) (sql_neighbors d ns False)
      (seed_entities_of d mem_ids) = Some (Inr st :: 'e + walk_state)"
    using sql.run_succeeds by blast
  with False show ?thesis
    by (intro walk [of st]) (simp_all add: traverse_from_memories_with_hops_def
        traverse_from_memories_with_hops_capped_def Let_def w walk_run_def)
qed

lemma reached_at_none:
  assumes "mem_ids = [] \<or> hops = 0 \<or> seed_entities_of d mem_ids = []"
  shows "\<not> reached_at d ns mw hops mem_ids m h"
proof -
  have "seed_entities_of d [] = []" by (simp add: seed_entities_of_def)
  with assms consider "hops = 0" | "seed_entities_of d mem_ids = []" by auto
  then show ?thesis
  proof cases
    case 1
    then show ?thesis by (auto simp: reached_at_def min_hops_def)
  next
    case 2
    have "\<not> hop_path adj [] n v" for adj n v
    proof
      assume "hop_path adj [] n v"
      then show False by induction simp_all
    qed
    with 2 show ?thesis by (simp add: reached_at_def min_hops_def)
  qed
qed

text \<open>Claim C29. \<^verbatim>\<open>traverse_from_memories_with_hops\<close> always succeeds. Its result lists each
  memory once, in id order; a memory is listed with hop count \<open>h\<close> exactly when it is live, is not
  a seed, and \<open>h\<close> is the smallest distance, within the hop limit, from the seeds' entities to one
  of its own entities (entities shared with a seed do not count).\<close>

theorem traverse_reports_minimum_hops:
  "\<exists>res. traverse_from_memories_with_hops d mem_ids ns mw hops = Some (Inr res :: 'e + (int \<times> nat) list)
    \<and> sorted (map fst res) \<and> distinct (map fst res)
    \<and> (\<forall>m h. (m, h) \<in> set res \<longleftrightarrow> m \<notin> set mem_ids \<and> memory_live d m
          \<and> nearest_at d ns mw hops mem_ids m h)"
proof (cases rule: traverse_cases [of mem_ids hops d ns mw, where 'e = 'e])
  case none
  with reached_at_none [OF none(1)] show ?thesis by (simp add: nearest_at_def)
next
  case (walk st)
  let ?seeds = "seed_entities_of d mem_ids"
  let ?disc = "sort_key (\<lambda>(i, hop). (hop, i)) (filter (\<lambda>(i, _). i \<notin> set ?seeds) (depth st))"
  let ?res = "collect_memories d mem_ids ?disc [] []"
  have uniq: "distinct (map fst (depth st))"
    using sql.run_tree [OF walk(1)] by (simp add: tree_inv_def)
  have disc: "(e, h) \<in> set ?disc \<longleftrightarrow> e \<notin> set ?seeds \<and> h \<le> hops
      \<and> min_hops (sql_adj d ns False (walk_directed mw hops)) ?seeds h e" for e h
    using sql.run_min_hops [OF walk(1), of e h] uniq by (auto simp: walk_directed_def)
  have reach: "(\<exists>e. (e, h) \<in> set ?disc \<and> m \<in> set (live_memories_of d e))
      \<longleftrightarrow> memory_live d m \<and> reached_at d ns mw hops mem_ids m h" for m h
    unfolding disc set_live_memories_of reached_at_def by blast
  have "(m, h) \<in> set ?res \<longleftrightarrow> m \<notin> set mem_ids \<and> memory_live d m
          \<and> nearest_at d ns mw hops mem_ids m h" for m h
    unfolding nearest_at_def collect_memories_iff [OF sorted_hops_then_ids] reach using reach
    by (auto simp: not_less [symmetric])
  moreover have "distinct (map fst ?res)" using distinct_collect_memories by blast
  then have "distinct (map fst (sort_key fst ?res))"
    by (metis mset_map mset_sort mset_eq_imp_distinct_iff)
  ultimately show ?thesis
    using walk(2) by (intro exI [of _ "sort_key fst ?res"]) simp
qed

section \<open>Predecessors\<close>

text \<open>The entity reached by following the predecessor map \<open>n\<close> times.\<close>

fun trace_back :: "(int \<times> (int \<times> string \<times> real)) list \<Rightarrow> nat \<Rightarrow> int \<Rightarrow> int option" where
  "trace_back pred 0 v = Some v"
| "trace_back pred (Suc n) v =
     (case map_of pred v of None \<Rightarrow> None | Some (u, _, _) \<Rightarrow> trace_back pred n u)"

lemma map_of_predecessors:
  "map_of (map (\<lambda>(i, e). (i, (from_id e, relation e, weight e))) arr) v =
     map_option (\<lambda>e. (from_id e, relation e, weight e)) (map_of arr v)"
  by (induction arr) auto

lemma tree_trace_back:
  assumes "tree_inv nb adj w seeds st"
    and "pred = map (\<lambda>(i, e). (i, (from_id e, relation e, weight e))) (arrival st)"
  shows "v \<in> dom_depth st \<Longrightarrow> n = depth_of st v \<Longrightarrow> \<exists>s \<in> set seeds. trace_back pred n v = Some s"
proof (induction n arbitrary: v)
  case 0
  have "v \<in> set seeds"
  proof (rule ccontr)
    assume "v \<notin> set seeds"
    with 0 assms(1) obtain e where "(v, e) \<in> set (arrival st)" unfolding tree_inv_def by force
    with assms(1) 0 show False unfolding tree_inv_def by auto
  qed
  then show ?case by simp
next
  case (Suc n)
  have "v \<notin> set seeds" using Suc.prems assms(1) unfolding tree_inv_def by auto
  with Suc.prems assms(1) have "v \<in> fst ` set (arrival st)" unfolding tree_inv_def by blast
  then obtain e where e: "map_of (arrival st) v = Some e"
    by (metis map_of_eq_None_iff option.exhaust)
  then have "from_id e \<in> dom_depth st" "Suc n = Suc (depth_of st (from_id e))"
    using assms(1) Suc.prems unfolding tree_inv_def by (auto dest!: map_of_SomeD)
  with Suc.IH [of "from_id e"] e show ?case by (simp add: assms(2) map_of_predecessors)
qed

text \<open>The predecessor map of \<^verbatim>\<open>bfs_with_predecessors\<close> reconstructs every evidence
  chain: the search always succeeds, and following the predecessors of an entity recorded at
  depth \<open>n\<close> for \<open>n\<close> steps ends in a seed, with any cap.\<close>

theorem bfs_predecessors_reach_seed:
  "\<exists>dep pred. bfs_with_predecessors d seeds ns mw hops cap = Some (Inr (dep, pred) :: 'e + _)
    \<and> (\<forall>v n. map_of dep v = Some n \<longrightarrow> n \<le> hops \<and> (\<exists>s. s \<in> set seeds \<and> trace_back pred n v = Some s))"
proof -
  let ?w = "with_neighbor_cap (walk_directed mw hops) cap"
  obtain st where run: "run_observed ?w (sql_neighbors d ns False) seeds = Some (Inr st :: 'e + walk_state)"
    using sql.run_succeeds by blast
  note tree = sql.run_tree [OF run]
  let ?pred = "map (\<lambda>(i, e). (i, (from_id e, relation e, weight e))) (arrival st)"
  have "bfs_with_predecessors d seeds ns mw hops cap = Some (Inr (depth st, ?pred) :: 'e + _)"
    by (simp add: bfs_with_predecessors_def Let_def walk_run_def run)
  moreover have "n \<le> hops \<and> (\<exists>s. s \<in> set seeds \<and> trace_back ?pred n v = Some s)"
    if "map_of (depth st) v = Some n" for v n
  proof -
    have v: "v \<in> dom_depth st" "n = depth_of st v" using that sql.depth_lookup [OF tree] by auto
    with tree have "n \<le> max_hops ?w" unfolding tree_inv_def by blast
    with tree_trace_back [OF tree refl v] show ?thesis
      by (auto simp: with_neighbor_cap_def walk_directed_def)
  qed
  ultimately show ?thesis by blast
qed

lemmas walk_eval = walk_loop.simps walk_turn_def depth_of_def admit_def over_cap_def Let_def
  walk_init_def run_observed_def walk_run_def with_neighbor_cap_def walk_directed_def
  sql_neighbors_def sql_query_def sql_query_row_def above_floor_def demo_graph_def demo_rel_def
  empty_db_def

lemma demo_walk:
  "bfs_with_predecessors demo_graph [10] ''global'' 0 2 (Some 1) =
     Some (Inr ([(10, 0), (11, 1), (12, 2)], [(11, (10, ''uses'', 1)), (12, (11, ''uses'', 1/2))]) :: unit + _)"
  by (simp add: bfs_with_predecessors_def walk_eval)

theorem bfs_predecessors_reach_seed_witness:
  "\<exists>dep pred. bfs_with_predecessors demo_graph [10] ''global'' 0 2 (Some 1) = Some (Inr (dep, pred) :: unit + _)
    \<and> map_of dep 12 = Some 2 \<and> trace_back pred 2 12 = Some 10"
  using bfs_predecessors_reach_seed [of demo_graph "[10]" "''global''" 0 2 "Some 1", where 'e = unit]
  unfolding demo_walk by auto

end
