(* ===== verification/Errors.thy ===== *)
theory Errors
  imports Prelude
begin

text \<open>
  The error type of the crate (\<^verbatim>\<open>src/errors.rs\<close>), its exit codes and its retry classification,
  and the outcome classifier of the enrichment queue (\<^verbatim>\<open>src/commands/enrich/queue_ops.rs\<close>).
  Of the driver's error type only what the code distinguishes is kept: the result code of a
  failed statement and the absence of a row.
\<close>

section \<open>Error values\<close>

datatype attempt_outcome = Transient | HardFailure | Success

datatype error_code = DatabaseBusy | DatabaseLocked | ConstraintViolation | OtherCode nat

datatype sqlite_error =
    SqliteFailure error_code
  | QueryReturnedNoRows
  | OtherSqlite string

datatype app_error =
    Validation string
  | Usage string "string list"
  | BinaryNotFound string
  | RateLimited string
  | Timeout string nat
  | Duplicate string
  | Conflict string
  | NotFound string
  | MemoryNotFound string string
  | MemoryNotFoundById int
  | EntityNotYetMaterialized string string
  | NamespaceError string
  | LimitExceeded string
  | BodyTooLarge nat nat
  | TooManyChunks nat nat
  | TooManyTokens nat nat
  | Database sqlite_error
  | Embedding string
  | EmbeddingClassified string attempt_outcome
  | VecExtension string
  | DbBusy string
  | BatchPartialFailure nat nat
  | Io string
  | Internal string
  | Json string
  | LockBusy string
  | AllSlotsFull nat nat
  | JobSingletonLocked string string
  | EmbeddingSingletonLocked string
  | LowMemory nat nat
  | Shutdown string
  | ProviderError string string

section \<open>Exit codes\<close>

definition BATCH_PARTIAL_FAILURE_EXIT_CODE :: int where "BATCH_PARTIAL_FAILURE_EXIT_CODE = 13"
definition DB_BUSY_EXIT_CODE :: int where "DB_BUSY_EXIT_CODE = 15"
definition CLI_LOCK_EXIT_CODE :: int where "CLI_LOCK_EXIT_CODE = 75"
definition LOW_MEMORY_EXIT_CODE :: int where "LOW_MEMORY_EXIT_CODE = 77"
definition DUPLICATE_EXIT_CODE :: int where "DUPLICATE_EXIT_CODE = 9"
definition USAGE_EXIT_CODE :: int where "USAGE_EXIT_CODE = 2"
definition SHUTDOWN_EXIT_CODE :: int where "SHUTDOWN_EXIT_CODE = 19"

lemmas exit_code_defs = BATCH_PARTIAL_FAILURE_EXIT_CODE_def DB_BUSY_EXIT_CODE_def
  CLI_LOCK_EXIT_CODE_def LOW_MEMORY_EXIT_CODE_def DUPLICATE_EXIT_CODE_def USAGE_EXIT_CODE_def
  SHUTDOWN_EXIT_CODE_def

fun exit_code :: "app_error \<Rightarrow> int" where
  "exit_code (Validation _) = 1"
| "exit_code (Usage _ _) = USAGE_EXIT_CODE"
| "exit_code (BinaryNotFound _) = 1"
| "exit_code (RateLimited _) = 1"
| "exit_code (Timeout _ _) = 1"
| "exit_code (Duplicate _) = DUPLICATE_EXIT_CODE"
| "exit_code (Conflict _) = 3"
| "exit_code (NotFound _) = 4"
| "exit_code (MemoryNotFound _ _) = 4"
| "exit_code (MemoryNotFoundById _) = 4"
| "exit_code (EntityNotYetMaterialized _ _) = 4"
| "exit_code (NamespaceError _) = 5"
| "exit_code (LimitExceeded _) = 6"
| "exit_code (BodyTooLarge _ _) = 6"
| "exit_code (TooManyChunks _ _) = 6"
| "exit_code (TooManyTokens _ _) = 6"
| "exit_code (Database _) = 10"
| "exit_code (Embedding _) = 11"
| "exit_code (EmbeddingClassified _ _) = 11"
| "exit_code (VecExtension _) = 12"
| "exit_code (BatchPartialFailure _ _) = BATCH_PARTIAL_FAILURE_EXIT_CODE"
| "exit_code (DbBusy _) = DB_BUSY_EXIT_CODE"
| "exit_code (Io _) = 14"
| "exit_code (Internal _) = 20"
| "exit_code (Json _) = 20"
| "exit_code (LockBusy _) = CLI_LOCK_EXIT_CODE"
| "exit_code (AllSlotsFull _ _) = CLI_LOCK_EXIT_CODE"
| "exit_code (JobSingletonLocked _ _) = CLI_LOCK_EXIT_CODE"
| "exit_code (EmbeddingSingletonLocked _) = CLI_LOCK_EXIT_CODE"
| "exit_code (LowMemory _ _) = LOW_MEMORY_EXIT_CODE"
| "exit_code (Shutdown _) = SHUTDOWN_EXIT_CODE"
| "exit_code (ProviderError _ _) = 1"

definition discarded_flags :: "app_error \<Rightarrow> string list" where
  "discarded_flags e = (case e of Usage _ flags \<Rightarrow> flags | _ \<Rightarrow> [])"

section \<open>Retry classification\<close>

definition is_retryable :: "app_error \<Rightarrow> bool" where
  "is_retryable e = (case e of
     DbBusy _ \<Rightarrow> True | LockBusy _ \<Rightarrow> True | AllSlotsFull _ _ \<Rightarrow> True
   | JobSingletonLocked _ _ \<Rightarrow> True | EmbeddingSingletonLocked _ \<Rightarrow> True | LowMemory _ _ \<Rightarrow> True
   | RateLimited _ \<Rightarrow> True | Timeout _ _ \<Rightarrow> True | EntityNotYetMaterialized _ _ \<Rightarrow> True
   | _ \<Rightarrow> False)"

definition is_shutdown :: "app_error \<Rightarrow> bool" where
  "is_shutdown e = (case e of Shutdown _ \<Rightarrow> True | _ \<Rightarrow> False)"

definition is_permanent :: "app_error \<Rightarrow> bool" where
  "is_permanent e = (case e of
     Validation _ \<Rightarrow> True | Usage _ _ \<Rightarrow> True | BinaryNotFound _ \<Rightarrow> True | Duplicate _ \<Rightarrow> True
   | NotFound _ \<Rightarrow> True | MemoryNotFound _ _ \<Rightarrow> True | MemoryNotFoundById _ \<Rightarrow> True
   | NamespaceError _ \<Rightarrow> True | LimitExceeded _ \<Rightarrow> True | BodyTooLarge _ _ \<Rightarrow> True
   | TooManyChunks _ _ \<Rightarrow> True | TooManyTokens _ _ \<Rightarrow> True | VecExtension _ \<Rightarrow> True
   | ProviderError _ _ \<Rightarrow> True | _ \<Rightarrow> False)"

definition error_class :: "app_error \<Rightarrow> string" where
  "error_class e = (if is_retryable e then ''transient''
     else if is_permanent e then ''permanent'' else ''ambiguous'')"

definition is_sqlite_busy :: "app_error \<Rightarrow> bool" where
  "is_sqlite_busy e = (case e of
     Database (SqliteFailure c) \<Rightarrow> c = DatabaseBusy \<or> c = DatabaseLocked | _ \<Rightarrow> False)"

fun classify_enrich_outcome :: "app_error \<Rightarrow> attempt_outcome" where
  "classify_enrich_outcome (RateLimited _) = Transient"
| "classify_enrich_outcome (Timeout _ _) = Transient"
| "classify_enrich_outcome (DbBusy _) = Transient"
| "classify_enrich_outcome (EntityNotYetMaterialized _ _) = Transient"
| "classify_enrich_outcome (ProviderError _ _) = HardFailure"
| "classify_enrich_outcome (NotFound _) = HardFailure"
| "classify_enrich_outcome (MemoryNotFound _ _) = HardFailure"
| "classify_enrich_outcome (MemoryNotFoundById _) = HardFailure"
| "classify_enrich_outcome (Database e) =
     (if is_sqlite_busy (Database e) then Transient else HardFailure)"
| "classify_enrich_outcome (EmbeddingClassified _ c) =
     (case c of HardFailure \<Rightarrow> HardFailure | _ \<Rightarrow> Transient)"
| "classify_enrich_outcome (Embedding _) = Transient"
| "classify_enrich_outcome _ = HardFailure"

text \<open>The classifications are coherent: no error is both retryable and permanent,
  a lock or slot conflict is the only cause of exit code 75, an exit code of zero is never
  produced, and an error the queue retries is never one the envelope calls permanent.\<close>

theorem error_classes_coherent:
  "\<not> (is_retryable e \<and> is_permanent e) \<and> exit_code e \<noteq> 0
   \<and> (exit_code e = CLI_LOCK_EXIT_CODE \<longleftrightarrow>
        (\<exists>a b n m. e = LockBusy a \<or> e = AllSlotsFull n m \<or> e = JobSingletonLocked a b
           \<or> e = EmbeddingSingletonLocked a))
   \<and> \<not> (classify_enrich_outcome e = Transient \<and> is_permanent e)"
  by (cases e) (auto simp: is_retryable_def is_permanent_def exit_code_defs)

end
