(* ===== verification/Retry.thy ===== *)
theory Retry
  imports Errors
begin

text \<open>
  Backoff delays and the circuit breaker (\<^verbatim>\<open>src/retry.rs\<close>) and the bounded retry around busy
  databases (\<^verbatim>\<open>src/storage/utils.rs\<close>). Unsigned 64-bit arithmetic saturates, as written in the
  source; the random draw \<^verbatim>\<open>fastrand::u64(0..n)\<close> is the parameter \<open>rng\<close>, of which the only
  assumption is that a draw below a positive bound lies below it.
\<close>

section \<open>Delays\<close>

definition U64_MAX :: nat where "U64_MAX = 2 ^ 64 - 1"

definition sat_u64 :: "nat \<Rightarrow> nat" where "sat_u64 x = min x U64_MAX"

datatype jitter_kind = NoJitter | Half | Full

record retry_config =
  initial_delay_ms :: nat
  max_delay_ms :: nat
  multiplier :: nat
  max_attempts :: nat
  max_elapsed_secs :: nat
  jitter :: jitter_kind

definition sqlite_busy_config :: retry_config where
  "sqlite_busy_config = \<lparr>initial_delay_ms = 300, max_delay_ms = 4800, multiplier = 2,
     max_attempts = 5, max_elapsed_secs = 30, jitter = Half\<rparr>"

definition llm_rate_limit :: retry_config where
  "llm_rate_limit = \<lparr>initial_delay_ms = 60000, max_delay_ms = 900000, multiplier = 2,
     max_attempts = 20, max_elapsed_secs = 3600, jitter = Half\<rparr>"

definition cold_start :: retry_config where
  "cold_start = \<lparr>initial_delay_ms = 2000, max_delay_ms = 4000, multiplier = 2,
     max_attempts = 2, max_elapsed_secs = 30, jitter = NoJitter\<rparr>"

definition delay_base :: "retry_config \<Rightarrow> nat \<Rightarrow> nat" where
  "delay_base config attempt =
     min (sat_u64 (initial_delay_ms config * sat_u64 (multiplier config ^ attempt)))
         (max_delay_ms config)"

definition compute_delay :: "(nat \<Rightarrow> nat) \<Rightarrow> retry_config \<Rightarrow> nat \<Rightarrow> nat" where
  "compute_delay rng config attempt =
     (let base = delay_base config attempt in
      case jitter config of
        NoJitter \<Rightarrow> base
      | Half \<Rightarrow> (let half = base div 2 in if half = 0 then base else half + rng half)
      | Full \<Rightarrow> (if base = 0 then 0 else rng base))"

definition rng_ok :: "(nat \<Rightarrow> nat) \<Rightarrow> bool" where
  "rng_ok rng \<longleftrightarrow> (\<forall>n > 0. rng n < n)"

lemma delay_base_le: "delay_base config attempt \<le> max_delay_ms config"
  by (simp add: delay_base_def)

lemma delay_base_mono:
  assumes "0 < multiplier config" and "a \<le> b"
  shows "delay_base config a \<le> delay_base config b"
proof -
  have "multiplier config ^ a \<le> multiplier config ^ b"
    using assms by (simp add: power_increasing)
  then have "initial_delay_ms config * sat_u64 (multiplier config ^ a)
      \<le> initial_delay_ms config * sat_u64 (multiplier config ^ b)"
    unfolding sat_u64_def by (intro mult_le_mono2) auto
  then show ?thesis unfolding delay_base_def sat_u64_def by linarith
qed

text \<open>A computed delay never exceeds the configured ceiling; with half jitter it is at
  least half of the exponential base and, for a base of two milliseconds or more, strictly below
  it; with full jitter it is below a positive base; without jitter it is the base. The base grows
  with the attempt until it saturates at the ceiling, and never overflows.\<close>

theorem compute_delay_bounds:
  assumes "rng_ok rng"
  shows "compute_delay rng config attempt \<le> max_delay_ms config
    \<and> (jitter config = Half \<longrightarrow> delay_base config attempt div 2 \<le> compute_delay rng config attempt
         \<and> (2 \<le> delay_base config attempt \<longrightarrow> compute_delay rng config attempt < delay_base config attempt))
    \<and> (jitter config = Full \<and> 0 < delay_base config attempt
         \<longrightarrow> compute_delay rng config attempt < delay_base config attempt)
    \<and> (jitter config = NoJitter \<longrightarrow> compute_delay rng config attempt = delay_base config attempt)
    \<and> (0 < multiplier config \<longrightarrow> delay_base config attempt \<le> delay_base config (Suc attempt))"
proof -
  let ?b = "delay_base config attempt"
  have half: "?b div 2 + rng (?b div 2) < ?b" if "?b div 2 \<noteq> 0"
    using assms that unfolding rng_ok_def by (metis add_less_cancel_left add_lessD1 bot_nat_0.not_eq_extremum
        div_mult_mod_eq less_add_same_cancel1 mult_2_right order_less_le_trans le_add1)
  have full: "rng ?b < ?b" if "?b \<noteq> 0"
    using assms that by (auto simp: rng_ok_def)
  have small: "?b div 2 = 0 \<longleftrightarrow> ?b < 2" by auto
  note cap = delay_base_le [of config attempt]
  show ?thesis
    using half full cap small delay_base_mono [of config attempt "Suc attempt"]
    by (cases "jitter config") (auto simp: compute_delay_def Let_def)
qed

theorem compute_delay_bounds_witness:
  "compute_delay (\<lambda>n. n div 2) llm_rate_limit 3 \<le> 900000"
proof -
  have "rng_ok (\<lambda>n. n div 2)" by (simp add: rng_ok_def)
  from compute_delay_bounds [OF this, of llm_rate_limit 3] show ?thesis
    by (simp add: llm_rate_limit_def)
qed

section \<open>Circuit breaker\<close>

text \<open>Times are a clock reading passed in; the counter is a saturating \<^verbatim>\<open>u32\<close>.\<close>

record circuit_breaker =
  threshold :: nat
  cooldown :: nat
  consecutive_failures :: nat
  open_until :: "nat option"

definition new_breaker :: "nat \<Rightarrow> nat \<Rightarrow> circuit_breaker" where
  "new_breaker t c = \<lparr>threshold = t, cooldown = c, consecutive_failures = 0, open_until = None\<rparr>"

definition sat_u32 :: "nat \<Rightarrow> nat" where "sat_u32 x = min x (2 ^ 32 - 1)"

definition breaker_record :: "nat \<Rightarrow> attempt_outcome \<Rightarrow> circuit_breaker \<Rightarrow> bool \<times> circuit_breaker" where
  "breaker_record now outcome cb =
     (case outcome of
        HardFailure \<Rightarrow>
          (let cb' = cb\<lparr>consecutive_failures := sat_u32 (consecutive_failures cb + 1)\<rparr> in
           if max (threshold cb) 1 \<le> consecutive_failures cb'
           then (True, cb'\<lparr>open_until := Some (now + cooldown cb)\<rparr>) else (False, cb'))
      | _ \<Rightarrow> (False, cb\<lparr>consecutive_failures := 0\<rparr>))"

definition is_open :: "nat \<Rightarrow> circuit_breaker \<Rightarrow> bool" where
  "is_open now cb = (case open_until cb of None \<Rightarrow> False | Some deadline \<Rightarrow> now < deadline)"

definition breaker_reset :: "circuit_breaker \<Rightarrow> circuit_breaker" where
  "breaker_reset cb = cb\<lparr>consecutive_failures := 0, open_until := None\<rparr>"

text \<open>The run of hard failures at the end of a history of outcomes.\<close>

definition trailing_failures :: "attempt_outcome list \<Rightarrow> nat" where
  "trailing_failures os = length (takeWhile (\<lambda>x. x = HardFailure) (rev os))"

fun record_all :: "nat \<Rightarrow> attempt_outcome list \<Rightarrow> circuit_breaker \<Rightarrow> bool \<times> circuit_breaker" where
  "record_all now [] cb = (False, cb)"
| "record_all now (x # xs) cb =
     (if xs = [] then breaker_record now x cb else record_all now xs (snd (breaker_record now x cb)))"

lemma record_all_snoc:
  "record_all now (xs @ [x]) cb = breaker_record now x (snd (record_all now xs cb))"
proof (induction xs arbitrary: cb)
  case (Cons a xs)
  show ?case using Cons.IH by (cases xs) auto
qed simp

lemma sat_u32_Suc: "sat_u32 (sat_u32 n + 1) = sat_u32 (Suc n)"
  by (simp add: sat_u32_def)

lemma breaker_counts:
  "consecutive_failures (snd (record_all now os (new_breaker t c))) = sat_u32 (trailing_failures os)
   \<and> threshold (snd (record_all now os (new_breaker t c))) = t"
proof (induction os rule: rev_induct)
  case Nil
  then show ?case by (simp add: new_breaker_def trailing_failures_def sat_u32_def)
next
  case (snoc x os)
  then show ?case
    by (cases x) (auto simp: record_all_snoc breaker_record_def Let_def trailing_failures_def
        sat_u32_Suc [symmetric] sat_u32_def)
qed

text \<open>Starting closed, the breaker asks the caller to abort after a history of outcomes
  exactly when the history ends with at least \<^verbatim>\<open>threshold\<close> hard failures in a row: a success or a
  transient failure in between always resets the count.\<close>

theorem breaker_trips_iff:
  assumes "t < 2 ^ 32"
  shows "fst (record_all now (os @ [x]) (new_breaker t c)) \<longleftrightarrow> max t 1 \<le> trailing_failures (os @ [x])"
proof -
  let ?cb = "snd (record_all now os (new_breaker t c))"
  have t: "threshold ?cb = t" and n: "consecutive_failures ?cb = sat_u32 (trailing_failures os)"
    using breaker_counts by blast+
  have "max t 1 \<le> sat_u32 (Suc k) \<longleftrightarrow> max t 1 \<le> Suc k" for k
    using assms unfolding sat_u32_def by (simp add: min_def max_def)
  then show ?thesis
    by (cases x) (simp_all add: record_all_snoc breaker_record_def Let_def t n trailing_failures_def
        sat_u32_Suc [simplified])
qed

theorem breaker_trips_iff_witness:
  "fst (record_all 0 ([HardFailure, Transient, HardFailure] @ [HardFailure]) (new_breaker 2 60))
   \<and> \<not> fst (record_all 0 ([HardFailure] @ [Transient]) (new_breaker 2 60))"
  using breaker_trips_iff [of 2 0 "[HardFailure, Transient, HardFailure]" HardFailure 60]
    breaker_trips_iff [of 2 0 "[HardFailure]" Transient 60]
  by (simp add: trailing_failures_def)

section \<open>Busy retry\<close>

text \<open>
  The operation is a state transformer that may fail; the sleeps are collected in call order.
  \<open>kill\<close> is the \<^verbatim>\<open>retry.disable\<close> switch and \<open>busy_message\<close> the localized text of the final error.
\<close>

definition MAX_SQLITE_BUSY_RETRIES :: nat where "MAX_SQLITE_BUSY_RETRIES = 5"
definition SQLITE_BUSY_BASE_DELAY_MS :: nat where "SQLITE_BUSY_BASE_DELAY_MS = 300"
definition SQLITE_BUSY_MAX_DELAY_MS :: nat where "SQLITE_BUSY_MAX_DELAY_MS = 5000"

definition busy_delay :: "(nat \<Rightarrow> nat) \<Rightarrow> nat \<Rightarrow> nat \<Rightarrow> nat" where
  "busy_delay rng base_delay_ms attempt =
     (let shift = min attempt 63;
          base_ms = min (sat_u64 (base_delay_ms * 2 ^ shift)) SQLITE_BUSY_MAX_DELAY_MS;
          half = base_ms div 2;
          jit = (if half = 0 then 0 else rng half)
      in half + jit)"

fun busy_loop ::
  "bool \<Rightarrow> (nat \<Rightarrow> nat) \<Rightarrow> string \<Rightarrow> nat \<Rightarrow> ('s \<Rightarrow> (app_error + 'a) \<times> 's) \<Rightarrow> nat \<Rightarrow> nat
     \<Rightarrow> 's \<Rightarrow> (app_error + 'a) \<times> 's \<times> nat list" where
  "busy_loop kill rng busy_message base_delay_ms op attempt 0 s = (Inl (DbBusy busy_message), s, [])"
| "busy_loop kill rng busy_message base_delay_ms op attempt (Suc left) s =
     (case op s of
        (Inr v, s') \<Rightarrow> (Inr v, s', [])
      | (Inl e, s') \<Rightarrow>
          if is_sqlite_busy e then
            (if kill then (Inl e, s', [])
             else
               (let (r, s'', ds) = busy_loop kill rng busy_message base_delay_ms op (Suc attempt) left s'
                in (r, s'', busy_delay rng base_delay_ms attempt # ds)))
          else (Inl e, s', []))"

definition with_busy_retry_policy ::
  "bool \<Rightarrow> (nat \<Rightarrow> nat) \<Rightarrow> string \<Rightarrow> nat \<Rightarrow> nat \<Rightarrow> ('s \<Rightarrow> (app_error + 'a) \<times> 's)
     \<Rightarrow> 's \<Rightarrow> (app_error + 'a) \<times> 's \<times> nat list" where
  "with_busy_retry_policy kill rng busy_message max_retries base_delay_ms op s =
     busy_loop kill rng busy_message (max base_delay_ms 1) op 0 (max max_retries 1) s"

text \<open>The state after \<open>n\<close> consecutive calls of the operation, and whether they all were busy.\<close>

fun busy_run :: "('s \<Rightarrow> (app_error + 'a) \<times> 's) \<Rightarrow> nat \<Rightarrow> 's \<Rightarrow> 's \<Rightarrow> bool" where
  "busy_run op 0 s s' \<longleftrightarrow> s' = s"
| "busy_run op (Suc n) s s' \<longleftrightarrow>
     (\<exists>e. fst (op s) = Inl e \<and> is_sqlite_busy e \<and> busy_run op n (snd (op s)) s')"

lemma busy_delay_le:
  assumes "rng_ok rng"
  shows "busy_delay rng base attempt \<le> SQLITE_BUSY_MAX_DELAY_MS"
proof -
  define b where "b = min (sat_u64 (base * 2 ^ min attempt 63)) SQLITE_BUSY_MAX_DELAY_MS"
  have "b div 2 + (if b div 2 = 0 then 0 else rng (b div 2)) \<le> b"
  proof (cases "b div 2 = 0")
    case False
    with assms have "rng (b div 2) < b div 2" unfolding rng_ok_def by blast
    then show ?thesis by auto
  qed simp
  moreover have "b \<le> SQLITE_BUSY_MAX_DELAY_MS" by (simp add: b_def)
  ultimately show ?thesis unfolding busy_delay_def Let_def b_def [symmetric] by linarith
qed

lemma busy_loop_spec:
  assumes "busy_loop False rng msg base op attempt left s = (r, s', ds)" and "rng_ok rng"
  shows "length ds \<le> left \<and> list_all (\<lambda>d. d \<le> SQLITE_BUSY_MAX_DELAY_MS) ds
    \<and> (\<exists>s1. busy_run op (length ds) s s1
        \<and> (if length ds = left then r = Inl (DbBusy msg) \<and> s' = s1
           else op s1 = (r, s') \<and> (case r of Inl e \<Rightarrow> \<not> is_sqlite_busy e | Inr _ \<Rightarrow> True)))"
  using assms
proof (induction left arbitrary: attempt s r s' ds)
  case (Suc left)
  obtain x s1 where op: "op s = (x, s1)" by force
  show ?case
  proof (cases "\<exists>e. x = Inl e \<and> is_sqlite_busy e")
    case True
    then obtain e ds' where e: "x = Inl e" "is_sqlite_busy e"
      and rest: "busy_loop False rng msg base op (Suc attempt) left s1 = (r, s', ds')"
      and ds: "ds = busy_delay rng base attempt # ds'"
      using Suc.prems op by (auto split: prod.splits)
    from Suc.IH [OF rest Suc.prems(2)] e op ds show ?thesis
      by (fastforce simp: busy_delay_le [OF Suc.prems(2)])
  next
    case False
    with Suc.prems op have "r = x" "s' = s1" "ds = []"
      by (auto split: sum.splits)
    with False op show ?thesis by (auto split: sum.splits)
  qed
qed simp

text \<open>Claim C36. With retries enabled, the busy-retry wrapper calls the operation at most
  \<^verbatim>\<open>max_retries\<close> times (at least once), sleeps at most the ceiling between calls, and returns
  what the first call that is not busy returned, leaving the state that call left; only when every
  allowed call was busy does it return \<^verbatim>\<open>DbBusy\<close>, whose exit code is 15. A raw busy error never
  escapes.\<close>

theorem busy_retry_correct:
  assumes "rng_ok rng"
    and "with_busy_retry_policy False rng msg max_retries base op s = (r, s', ds)"
  shows "length ds \<le> max max_retries 1 \<and> list_all (\<lambda>d. d \<le> SQLITE_BUSY_MAX_DELAY_MS) ds
    \<and> (\<exists>s1. busy_run op (length ds) s s1
         \<and> (if length ds = max max_retries 1 then r = Inl (DbBusy msg) \<and> s' = s1
            else op s1 = (r, s')))
    \<and> (\<forall>e. r = Inl e \<longrightarrow> \<not> is_sqlite_busy e) \<and> exit_code (DbBusy msg) = 15"
proof -
  note spec = busy_loop_spec [OF assms(2) [unfolded with_busy_retry_policy_def] assms(1)]
  then have "\<not> is_sqlite_busy e" if "r = Inl e" for e
    using that by (auto simp: is_sqlite_busy_def split: if_splits)
  with spec show ?thesis by (auto simp: exit_code_defs split: if_splits)
qed

text \<open>An operation that is busy twice and then succeeds.\<close>

definition demo_busy_op :: "nat \<Rightarrow> (app_error + nat) \<times> nat" where
  "demo_busy_op n = (if n < 2 then (Inl (Database (SqliteFailure DatabaseBusy)), n + 1) else (Inr 7, n))"

theorem busy_retry_correct_witness:
  "with_busy_retry_policy False (\<lambda>n. 0) ''busy'' 5 300 demo_busy_op 0 = (Inr 7, 2, [150, 300])
   \<and> length [150, 300 :: nat] \<le> max 5 1"
proof -
  have "with_busy_retry_policy False (\<lambda>n. 0) ''busy'' (Suc (Suc (Suc (Suc (Suc 0))))) 300 demo_busy_op 0 = (Inr 7, 2, [150, 300])"
    by (simp add: with_busy_retry_policy_def demo_busy_op_def is_sqlite_busy_def busy_delay_def Let_def
        sat_u64_def U64_MAX_def SQLITE_BUSY_MAX_DELAY_MS_def)
  then have run: "with_busy_retry_policy False (\<lambda>n. 0) ''busy'' 5 300 demo_busy_op 0 = (Inr 7, 2, [150, 300])"
    by (simp add: eval_nat_numeral)
  have "rng_ok (\<lambda>n. 0)" by (simp add: rng_ok_def)
  from busy_retry_correct [OF this run] run show ?thesis by simp
qed

end
