(* ===== verification/Names.thy ===== *)
theory Names
  imports Errors Utf8
begin

text \<open>
  The input parsers (\<^verbatim>\<open>src/parsers/mod.rs\<close>), the entity-type vocabulary
  (\<^verbatim>\<open>src/entity_type.rs\<close>) and the validation of entity names
  (\<^verbatim>\<open>src/storage/entities/mod.rs\<close>). Strings are UTF-8 byte lists. Two pieces of Unicode data
  are parameters, kept together in the record \<open>unicode\<close>: the NFKD decomposition of a third-party
  crate and the lower-case mapping; on ASCII text both are known, and \<open>unicode_ok\<close> says so. The
  texts of error messages are abbreviated to the name of the message.
\<close>

section \<open>Characters\<close>

definition lower_letter :: "char \<Rightarrow> bool" where
  "lower_letter c \<longleftrightarrow> byte_in 97 122 c"

definition upper_letter :: "char \<Rightarrow> bool" where
  "upper_letter c \<longleftrightarrow> byte_in 65 90 c"

definition is_ascii_digit :: "char \<Rightarrow> bool" where
  "is_ascii_digit c \<longleftrightarrow> byte_in 48 57 c"

definition is_ascii_char :: "char \<Rightarrow> bool" where
  "is_ascii_char c \<longleftrightarrow> byte_in 0 127 c"

definition slug_char :: "char \<Rightarrow> bool" where
  "slug_char c \<longleftrightarrow> lower_letter c \<or> byte_in 48 57 c"

definition is_alphanumeric :: "char \<Rightarrow> bool" where
  "is_alphanumeric c \<longleftrightarrow> slug_char c \<or> upper_letter c"

definition ascii_lowercase :: "char \<Rightarrow> char" where
  "ascii_lowercase c = (if upper_letter c then char_of (of_char c + 32 :: nat) else c)"

definition trim_hyphens :: "string \<Rightarrow> string" where
  "trim_hyphens s = rev (dropWhile (\<lambda>c. c = CHR ''-'') (rev (dropWhile (\<lambda>c. c = CHR ''-'') s)))"

definition replace_char :: "char \<Rightarrow> char \<Rightarrow> string \<Rightarrow> string" where
  "replace_char a b = map (\<lambda>c. if c = a then b else c)"

text \<open>\<^verbatim>\<open>str::trim\<close>: the encodings of the Unicode white-space characters have one, two or three
  bytes.\<close>

definition white1 :: "char \<Rightarrow> bool" where
  "white1 a \<longleftrightarrow> byte_in 9 13 a \<or> byte_in 32 32 a"

definition white2 :: "char \<Rightarrow> char \<Rightarrow> bool" where
  "white2 a b \<longleftrightarrow> byte_in 194 194 a \<and> (byte_in 133 133 b \<or> byte_in 160 160 b)"

definition white3 :: "char \<Rightarrow> char \<Rightarrow> char \<Rightarrow> bool" where
  "white3 a b c \<longleftrightarrow>
     (byte_in 225 225 a \<and> byte_in 154 154 b \<and> byte_in 128 128 c)
     \<or> (byte_in 226 226 a \<and> byte_in 128 128 b
        \<and> (byte_in 128 138 c \<or> byte_in 168 169 c \<or> byte_in 175 175 c))
     \<or> (byte_in 226 226 a \<and> byte_in 129 129 b \<and> byte_in 159 159 c)
     \<or> (byte_in 227 227 a \<and> byte_in 128 128 b \<and> byte_in 128 128 c)"

fun trim_front :: "(char \<Rightarrow> char \<Rightarrow> bool) \<Rightarrow> (char \<Rightarrow> char \<Rightarrow> char \<Rightarrow> bool) \<Rightarrow> string \<Rightarrow> string" where
  "trim_front w2 w3 [] = []"
| "trim_front w2 w3 [a] = (if white1 a then [] else [a])"
| "trim_front w2 w3 [a, b] =
     (if white1 a then trim_front w2 w3 [b] else if w2 a b then [] else [a, b])"
| "trim_front w2 w3 (a # b # c # s) =
     (if white1 a then trim_front w2 w3 (b # c # s)
      else if w2 a b then trim_front w2 w3 (c # s)
      else if w3 a b c then trim_front w2 w3 s
      else a # b # c # s)"

definition trim_start :: "string \<Rightarrow> string" where
  "trim_start s = trim_front white2 white3 s"

definition trim_end :: "string \<Rightarrow> string" where
  "trim_end s = rev (trim_front (\<lambda>a b. white2 b a) (\<lambda>a b c. white3 c b a) (rev s))"

definition str_trim :: "string \<Rightarrow> string" where
  "str_trim s = trim_end (trim_start s)"

record unicode =
  nfkd :: "string \<Rightarrow> nat list"
  to_lowercase :: "string \<Rightarrow> string"

definition is_ascii_str :: "string \<Rightarrow> bool" where
  "is_ascii_str s \<longleftrightarrow> list_all is_ascii_char s"

definition unicode_ok :: "unicode \<Rightarrow> bool" where
  "unicode_ok u \<longleftrightarrow> (\<forall>s. is_ascii_str s \<longrightarrow>
     nfkd u s = map of_char s \<and> to_lowercase u s = map ascii_lowercase s)"

section \<open>Numbers and booleans\<close>

definition K_QUERY_RANGE_MAX :: nat where "K_QUERY_RANGE_MAX = 4096"
definition K_LIST_LIMIT_MAX :: nat where "K_LIST_LIMIT_MAX = 1000000"
definition K_MAX_HOPS_CEILING :: nat where "K_MAX_HOPS_CEILING = 64"
definition K_MAX_SUB_QUERIES_CEILING :: nat where "K_MAX_SUB_QUERIES_CEILING = 64"

definition digits_value :: "string \<Rightarrow> int" where
  "digits_value s = foldl (\<lambda>n c. 10 * n + (of_char c - 48)) 0 s"

text \<open>\<^verbatim>\<open>str::parse\<close>: an optional sign, at least one ASCII digit, a value in range.\<close>

definition parse_i64 :: "string \<Rightarrow> int option" where
  "parse_i64 s =
     (let (neg, ds) = (case s of [] \<Rightarrow> (False, [])
                       | c # cs \<Rightarrow> if c = CHR ''-'' then (True, cs)
                                  else if c = CHR ''+'' then (False, cs) else (False, s));
          n = (if neg then - digits_value ds else digits_value ds)
      in if ds \<noteq> [] \<and> list_all is_ascii_digit ds \<and> - (2 ^ 63) \<le> n \<and> n < 2 ^ 63
         then Some n else None)"

definition parse_usize :: "string \<Rightarrow> nat option" where
  "parse_usize s =
     (let ds = (case s of [] \<Rightarrow> [] | c # cs \<Rightarrow> if c = CHR ''+'' then cs else s) in
      if ds \<noteq> [] \<and> list_all is_ascii_digit ds \<and> digits_value ds < 2 ^ 64
      then Some (nat (digits_value ds)) else None)"

text \<open>The RFC 3339 parser of the date crate is the parameter \<open>rfc3339\<close>.\<close>

definition parse_expected_updated_at :: "(string \<Rightarrow> int option) \<Rightarrow> string \<Rightarrow> string + int" where
  "parse_expected_updated_at rfc3339 s =
     (case parse_i64 s of
        Some secs \<Rightarrow>
          if 0 \<le> secs then Inr secs
          else (case rfc3339 s of Some t \<Rightarrow> Inr t | None \<Rightarrow> Inl ''value must be a Unix epoch or RFC 3339'')
      | None \<Rightarrow>
          (case rfc3339 s of Some t \<Rightarrow> Inr t | None \<Rightarrow> Inl ''value must be a Unix epoch or RFC 3339''))"

definition parse_usize_in_range :: "string \<Rightarrow> nat \<Rightarrow> nat \<Rightarrow> string + nat" where
  "parse_usize_in_range s lo hi =
     (case parse_usize s of
        None \<Rightarrow> Inl ''not a valid non-negative integer''
      | Some v \<Rightarrow> if lo \<le> v \<and> v \<le> hi then Inr v else Inl ''out of range'')"

definition parse_k_range :: "string \<Rightarrow> string + nat" where
  "parse_k_range s = parse_usize_in_range s 1 K_QUERY_RANGE_MAX"

definition parse_list_limit_range :: "string \<Rightarrow> string + nat" where
  "parse_list_limit_range s = parse_usize_in_range s 1 K_LIST_LIMIT_MAX"

definition parse_hops_range_usize :: "string \<Rightarrow> string + nat" where
  "parse_hops_range_usize s = parse_usize_in_range s 1 K_MAX_HOPS_CEILING"

definition parse_hops_range_u32 :: "string \<Rightarrow> string + nat" where
  "parse_hops_range_u32 s =
     bind_rust (parse_usize_in_range s 1 K_MAX_HOPS_CEILING) (\<lambda>v. Inr (v mod 2 ^ 32))"

definition parse_quality_sample_range :: "string \<Rightarrow> string + nat" where
  "parse_quality_sample_range s = parse_usize_in_range s 0 K_QUERY_RANGE_MAX"

definition parse_sub_queries_range :: "string \<Rightarrow> string + nat" where
  "parse_sub_queries_range s = parse_usize_in_range s 1 K_MAX_SUB_QUERIES_CEILING"

definition parse_bool_flexible :: "unicode \<Rightarrow> string \<Rightarrow> string + bool" where
  "parse_bool_flexible u s =
     (let l = to_lowercase u s in
      if l \<in> {''1'', ''true'', ''yes'', ''on''} then Inr True
      else if l \<in> {''0'', ''false'', ''no'', ''off'', ''''} then Inr False
      else Inl ''invalid boolean value'')"

section \<open>Relations\<close>

definition CANONICAL_RELATIONS :: "string list" where
  "CANONICAL_RELATIONS = [''applies-to'', ''uses'', ''depends-on'', ''causes'', ''fixes'',
     ''contradicts'', ''supports'', ''follows'', ''related'', ''mentions'', ''replaces'', ''tracked-in'']"

definition GENERIC_RELATION :: string where "GENERIC_RELATION = ''applies-to''"

definition is_canonical_relation :: "string \<Rightarrow> bool" where
  "is_canonical_relation s = List.member CANONICAL_RELATIONS s"

definition normalize_relation :: "unicode \<Rightarrow> string \<Rightarrow> string" where
  "normalize_relation u s = replace_char (CHR ''_'') (CHR ''-'') (to_lowercase u s)"

definition validate_relation_format :: "string \<Rightarrow> string + unit" where
  "validate_relation_format s =
     (if s = [] then Inl ''relation must not be empty''
      else if \<not> lower_letter (hd s) then Inl ''relation must start with a lowercase letter''
      else if \<not> list_all (\<lambda>b. lower_letter b \<or> is_ascii_digit b \<or> b = CHR ''-'') s then
        Inl ''relation must contain only lowercase letters, digits and hyphens''
      else Inr ())"

definition map_to_canonical_relation :: "unicode \<Rightarrow> string \<Rightarrow> string" where
  "map_to_canonical_relation u s =
     (let normalized = normalize_relation u s in
      if is_canonical_relation normalized then normalized
      else if normalized = ''adds'' \<or> normalized = ''creates'' then ''causes''
      else if normalized = ''implements'' then ''supports''
      else if normalized = ''blocks'' then ''contradicts''
      else if normalized = ''tested-by'' \<or> normalized = ''related-to'' then ''related''
      else if normalized = ''part-of'' then ''applies-to''
      else ''related'')"

definition parse_relation :: "unicode \<Rightarrow> string \<Rightarrow> string + string" where
  "parse_relation u s =
     (let normalized = normalize_relation u s in
      bind_rust (validate_relation_format normalized) (\<lambda>_. Inr normalized))"

section \<open>Entity names\<close>

fun collapse_hyphens :: "bool \<Rightarrow> string \<Rightarrow> string" where
  "collapse_hyphens prev [] = []"
| "collapse_hyphens prev (c # cs) =
     (if c = CHR ''-'' then
        (if prev then collapse_hyphens True cs else CHR ''-'' # collapse_hyphens True cs)
      else c # collapse_hyphens False cs)"

definition normalize_entity_name :: "unicode \<Rightarrow> string \<Rightarrow> string" where
  "normalize_entity_name u s =
     (let ascii = map char_of (filter (\<lambda>c. c < 128) (nfkd u s));
          hyphenated = map (\<lambda>c. if is_alphanumeric c then c else CHR ''-'') (map ascii_lowercase ascii)
      in trim_hyphens (collapse_hyphens False hyphenated))"

definition validate_entity_name :: "string \<Rightarrow> app_error + unit" where
  "validate_entity_name name =
     (if length name < 2 then Inl (Validation ''entity_name_too_short'')
      else if CHR 0x0A \<in> set name \<or> CHR 0x0D \<in> set name then
        Inl (Validation ''entity name must not contain newline characters'')
      else if list_all is_ascii_digit name then Inl (Validation ''entity_name_purely_numeric'')
      else if length name \<le> 4 \<and> list_all (\<lambda>c. upper_letter c \<or> c = CHR ''_'' \<or> c = CHR ''-'') name then
        Inl (Validation ''entity_name_all_caps_noise'')
      else Inr ())"

section \<open>Entity types\<close>

definition MAX_ENTITY_TYPE_LEN :: nat where "MAX_ENTITY_TYPE_LEN = 64"

definition CANONICAL_ENTITY_TYPES :: "string list" where
  "CANONICAL_ENTITY_TYPES = [''concept'', ''dashboard'', ''date'', ''decision'', ''file'', ''incident'',
     ''issue_tracker'', ''location'', ''memory'', ''organization'', ''person'', ''project'', ''tool'']"

definition DEFAULT_ENTITY_TYPE :: string where "DEFAULT_ENTITY_TYPE = ''concept''"

definition is_canonical_entity_type :: "string \<Rightarrow> bool" where
  "is_canonical_entity_type s = List.member CANONICAL_ENTITY_TYPES s"

definition normalize_entity_type :: "unicode \<Rightarrow> string \<Rightarrow> app_error + string" where
  "normalize_entity_type u s =
     (let normalized = replace_char (CHR ''-'') (CHR ''_'') (to_lowercase u (str_trim s)) in
      if normalized = [] then Inl (Validation ''entity_type_blank'')
      else if CHR 0x0A \<in> set normalized \<or> CHR 0x0D \<in> set normalized then
        Inl (Validation ''entity_type_has_newline'')
      else if list_all is_ascii_digit normalized then Inl (Validation ''entity_type_digits_only'')
      else if MAX_ENTITY_TYPE_LEN < char_count normalized then Inl (Validation ''entity_type_too_long'')
      else Inr normalized)"

definition normalize_entity_type_or_default :: "unicode \<Rightarrow> string \<Rightarrow> string" where
  "normalize_entity_type_or_default u s =
     (case normalize_entity_type u s of Inr t \<Rightarrow> t | Inl _ \<Rightarrow> DEFAULT_ENTITY_TYPE)"

end
