(* ===== verification/Casts.thy ===== *)
theory Casts
  imports Prelude "HOL-Library.Word"
begin

text \<open>
  Rust's numbers as the components use them: the cast of an unsigned 64-bit value to a signed one,
  and the decimal text of a number that \<^verbatim>\<open>format!\<close> prints.
\<close>

text \<open>The cast \<^verbatim>\<open>as i64\<close> of a \<^verbatim>\<open>u64\<close> or \<^verbatim>\<open>usize\<close>.\<close>

definition as_i64 :: "nat \<Rightarrow> int" where
  "as_i64 n = sint (word_of_nat n :: 64 word)"

lemma as_i64_small: "n < 2 ^ 63 \<Longrightarrow> as_i64 n = int n"
proof -
  assume "n < 2 ^ 63"
  then have "int n < 2 ^ 63" by (metis of_nat_less_iff of_nat_numeral of_nat_power)
  then show ?thesis unfolding as_i64_def
    by (simp add: signed_of_nat signed_take_bit_int_eq_self)
qed

text \<open>The decimal text of a number.\<close>

fun nat_str :: "nat \<Rightarrow> string" where
  "nat_str n = (if n < 10 then [char_of (48 + n)] else nat_str (n div 10) @ [char_of (48 + n mod 10)])"

declare nat_str.simps [simp del]

end
