(* ===== verification/Queue.thy ===== *)
theory Queue
  imports Store Retry Names Casts "HOL-Library.Product_Lexorder"
begin

text \<open>
  The enrichment queue: the sidecar table of \<^verbatim>\<open>src/commands/enrich/queue.rs\<close>, its claim and
  failure operations (\<^verbatim>\<open>queue_ops.rs\<close>), the preparation of a run (\<^verbatim>\<open>run/queue_prep.rs\<close>) and the
  maintenance commands of \<^verbatim>\<open>status.rs\<close>. Every operation is a function on the queue state; the
  clock is the argument \<open>now\<close> in seconds, used both for the integer and for the text timestamps.
  Statement failures other than the ones the code branches on are not modelled.
\<close>

section \<open>Rows\<close>

datatype queue_status = Pending | Processing | Done | Skipped | Dead | Failed

record queue_row =
  q_id :: int
  q_namespace :: string
  q_item_key :: string
  q_item_type :: string
  q_status :: queue_status
  q_memory_id :: "int option"
  q_entity_id :: "int option"
  q_entities :: int
  q_rels :: int
  q_error :: "string option"
  q_cost_usd :: real
  q_attempt :: int
  q_elapsed_ms :: "int option"
  q_created_at :: int
  q_done_at :: "int option"
  q_error_class :: "string option"
  q_next_retry_at :: "int option"
  q_operation :: "string option"
  q_finish_reason :: "string option"
  q_input_tokens :: "int option"
  q_output_tokens :: "int option"
  q_claimed_at :: "int option"
  q_priority :: int

record queue_db =
  q_rows :: "queue_row list"
  q_seq :: int

definition PRIORITY_HOT :: int where "PRIORITY_HOT = 100"
definition DEFAULT_ENRICH_SCAN_PAGE_SIZE :: nat where "DEFAULT_ENRICH_SCAN_PAGE_SIZE = 512"

definition q_update :: "(queue_row \<Rightarrow> bool) \<Rightarrow> (queue_row \<Rightarrow> queue_row) \<Rightarrow> queue_db \<Rightarrow> queue_db" where
  "q_update p f q = q\<lparr>q_rows := sql_update p f (q_rows q)\<rparr>"

definition q_delete :: "(queue_row \<Rightarrow> bool) \<Rightarrow> queue_db \<Rightarrow> queue_db" where
  "q_delete p q = q\<lparr>q_rows := sql_delete p (q_rows q)\<rparr>"

section \<open>Keys\<close>

definition strip_prefix :: "string \<Rightarrow> string \<Rightarrow> string option" where
  "strip_prefix pre s = (if prefix pre s then Some (drop (length pre) s) else None)"

datatype enrich_operation =
    MemoryBindings | AugmentBindings | EntityDescriptions | BodyEnrich | ReEmbed | WeightCalibrate
  | RelationReclassify | EntityConnect | EntityTypeValidate | DescriptionEnrich
  | CrossDomainBridges | DomainClassify | GraphAudit | DeepResearchSynth | BodyExtract

definition item_type_for :: "enrich_operation \<Rightarrow> string" where
  "item_type_for op =
     (case op of EntityDescriptions \<Rightarrow> ''entity'' | EntityTypeValidate \<Rightarrow> ''entity''
      | EntityConnect \<Rightarrow> ''entity_pair'' | CrossDomainBridges \<Rightarrow> ''entity_pair'' | _ \<Rightarrow> ''memory'')"

definition item_type_for_key :: "string \<Rightarrow> string \<Rightarrow> string" where
  "item_type_for_key key dflt =
     (if prefix ''pair:'' key then ''entity_pair''
      else if prefix ''entity:'' key then ''entity''
      else if prefix ''chunk:'' key then ''chunk'' else dflt)"

section \<open>Enqueue\<close>

definition live_memory_id :: "db \<Rightarrow> string \<Rightarrow> string \<Rightarrow> int option" where
  "live_memory_id d ns name = map_option m_id
     (List.find (\<lambda>m. m_namespace m = ns \<and> m_name m = name \<and> m_deleted_at m = None) (memories d))"

definition entity_id_of :: "db \<Rightarrow> string \<Rightarrow> string \<Rightarrow> int option" where
  "entity_id_of d ns name = map_option e_id
     (List.find (\<lambda>e. e_namespace e = ns \<and> e_name e = name) (entities d))"

definition chunk_in_namespace :: "db \<Rightarrow> string \<Rightarrow> int \<Rightarrow> bool" where
  "chunk_in_namespace d ns cid =
     (\<exists>c \<in> set (memory_chunks d). c_id c = cid
        \<and> (\<exists>m \<in> set (memories d). m_id m = c_memory_id c \<and> m_namespace m = ns \<and> m_deleted_at m = None))"

definition new_queue_row ::
  "int \<Rightarrow> int \<Rightarrow> string \<Rightarrow> string \<Rightarrow> string \<Rightarrow> string \<Rightarrow> int option \<Rightarrow> int \<Rightarrow> queue_row" where
  "new_queue_row now i ns key item_type op mem_id prio =
     \<lparr>q_id = i, q_namespace = ns, q_item_key = key, q_item_type = item_type, q_status = Pending,
      q_memory_id = mem_id, q_entity_id = None, q_entities = 0, q_rels = 0, q_error = None,
      q_cost_usd = 0, q_attempt = 0, q_elapsed_ms = None, q_created_at = now, q_done_at = None,
      q_error_class = None, q_next_retry_at = None, q_operation = Some op, q_finish_reason = None,
      q_input_tokens = None, q_output_tokens = None, q_claimed_at = None, q_priority = prio\<rparr>"

text \<open>\<^verbatim>\<open>INSERT OR IGNORE\<close> under the key \<^verbatim>\<open>(namespace, operation, item_key)\<close>; a NULL operation
  conflicts with nothing.\<close>

definition insert_or_ignore ::
  "int \<Rightarrow> string \<Rightarrow> string \<Rightarrow> string \<Rightarrow> string \<Rightarrow> int option \<Rightarrow> int \<Rightarrow> queue_db \<Rightarrow> queue_db" where
  "insert_or_ignore now ns key item_type op mem_id prio q =
     (if \<exists>r \<in> set (q_rows q). q_namespace r = ns \<and> q_operation r = Some op \<and> q_item_key r = key then q
      else q\<lparr>q_rows := q_rows q @ [new_queue_row now (q_seq q + 1) ns key item_type op mem_id prio],
             q_seq := q_seq q + 1\<rparr>)"

text \<open>The row's \<^verbatim>\<open>memory_id\<close>, or \<open>None\<close> when the candidate is refused.\<close>

definition enqueue_check :: "db \<Rightarrow> string \<Rightarrow> string \<Rightarrow> string \<Rightarrow> int option option" where
  "enqueue_check d ns key item_type =
     (if item_type = ''memory'' then
        (case live_memory_id d ns key of Some i \<Rightarrow> Some (Some i) | None \<Rightarrow> None)
      else if item_type = ''entity'' then
        (let name = (case strip_prefix ''entity:'' key of Some n \<Rightarrow> n | None \<Rightarrow> key) in
         case entity_id_of d ns name of Some _ \<Rightarrow> Some None | None \<Rightarrow> None)
      else if item_type = ''chunk'' then
        (let ck = (case strip_prefix ''chunk:'' key of Some n \<Rightarrow> n | None \<Rightarrow> key) in
         case parse_i64 ck of None \<Rightarrow> None
         | Some cid \<Rightarrow> if chunk_in_namespace d ns cid then Some None else None)
      else Some None)"

definition enqueue_candidate ::
  "int \<Rightarrow> db \<Rightarrow> string \<Rightarrow> string \<Rightarrow> string \<Rightarrow> string \<Rightarrow> queue_db \<Rightarrow> queue_db" where
  "enqueue_candidate now d ns key item_type op q =
     (case enqueue_check d ns key item_type of
        None \<Rightarrow> q
      | Some mem_id \<Rightarrow> insert_or_ignore now ns key item_type op mem_id 0 q)"

definition bump_priority :: "string \<Rightarrow> int \<Rightarrow> queue_db \<Rightarrow> queue_db" where
  "bump_priority key prio =
     q_update (\<lambda>r. q_item_key r = key \<and> q_priority r < prio)
       (\<lambda>r. r\<lparr>q_priority := max (q_priority r) prio,
              q_status := (if q_status r \<in> {Done, Skipped, Dead} then q_status r else Pending)\<rparr>)"

definition enqueue_candidate_with_priority ::
  "int \<Rightarrow> string \<Rightarrow> string \<Rightarrow> string \<Rightarrow> int \<Rightarrow> queue_db \<Rightarrow> queue_db" where
  "enqueue_candidate_with_priority now key item_type op prio q =
     bump_priority key prio (insert_or_ignore now '''' key item_type op None prio q)"

definition enqueue_priority_entity_descriptions ::
  "int \<Rightarrow> string list \<Rightarrow> queue_db \<Rightarrow> nat \<times> queue_db" where
  "enqueue_priority_entity_descriptions now names q =
     (length names,
      foldl (\<lambda>q name. enqueue_candidate_with_priority now name ''entity'' ''EntityDescriptions''
                        PRIORITY_HOT q) q names)"

definition enqueue_batch ::
  "int \<Rightarrow> db \<Rightarrow> string \<Rightarrow> string list \<Rightarrow> string \<Rightarrow> string \<Rightarrow> queue_db \<Rightarrow> queue_db" where
  "enqueue_batch now d ns keys item_type op q =
     foldl (\<lambda>q key. enqueue_candidate now d ns key (item_type_for_key key item_type) op q) q keys"

definition enqueue_page ::
  "int \<Rightarrow> db \<Rightarrow> string \<Rightarrow> string list \<Rightarrow> string \<Rightarrow> string \<Rightarrow> queue_db \<Rightarrow> queue_db" where
  "enqueue_page now d ns keys item_type op q =
     (if keys = [] then q else enqueue_batch now d ns keys item_type op q)"

section \<open>Sweeps, vetoes and cleanup\<close>

definition count_priority_pending :: "queue_db \<Rightarrow> string \<Rightarrow> string \<Rightarrow> int \<Rightarrow> nat" where
  "count_priority_pending q op ns min_priority =
     sql_count (\<lambda>r. q_status r = Pending \<and> q_operation r = Some op \<and> q_namespace r = ns
                   \<and> min_priority \<le> q_priority r) (q_rows q)"

definition reset_stale_processing_claims :: "int \<Rightarrow> nat \<Rightarrow> queue_db \<Rightarrow> nat \<times> queue_db" where
  "reset_stale_processing_claims now max_age_secs q =
     (let p = (\<lambda>r. q_status r = Processing
                \<and> (case q_claimed_at r of None \<Rightarrow> False | Some c \<Rightarrow> as_i64 max_age_secs < now - c))
      in (sql_changed p (q_rows q), q_update p (\<lambda>r. r\<lparr>q_status := Pending, q_claimed_at := None\<rparr>) q))"

definition heartbeat :: "int \<Rightarrow> int \<Rightarrow> queue_db \<Rightarrow> queue_db" where
  "heartbeat now queue_id = q_update (\<lambda>r. q_id r = queue_id) (\<lambda>r. r\<lparr>q_claimed_at := Some now\<rparr>)"

definition op_or_null :: "string \<Rightarrow> queue_row \<Rightarrow> bool" where
  "op_or_null op r = (q_operation r = Some op \<or> q_operation r = None)"

definition skipped_item_keys :: "queue_db \<Rightarrow> string \<Rightarrow> string set" where
  "skipped_item_keys q op =
     set (map q_item_key (filter (\<lambda>r. q_status r = Skipped \<and> op_or_null op r) (q_rows q)))"

definition retain_unskipped :: "queue_db \<Rightarrow> string \<Rightarrow> string list \<Rightarrow> string list" where
  "retain_unskipped q op keys =
     (if keys = [] then keys
      else
        (let vetoed = foldl (\<lambda>acc page. acc \<union> set (map q_item_key
               (filter (\<lambda>r. q_status r = Skipped \<and> op_or_null op r \<and> q_item_key r \<in> set page) (q_rows q))))
               {} (chunks_of DEFAULT_ENRICH_SCAN_PAGE_SIZE keys)
         in filter (\<lambda>k. k \<notin> vetoed) keys))"

definition cleanup_queue_entry :: "int \<Rightarrow> string \<Rightarrow> queue_db \<Rightarrow> queue_db" where
  "cleanup_queue_entry memory_id name =
     q_delete (\<lambda>r. q_memory_id r = Some memory_id \<or> q_item_key r = name)"

fun prune_loop :: "db \<Rightarrow> string \<Rightarrow> (int \<times> string) list \<Rightarrow> nat \<Rightarrow> queue_db \<Rightarrow> nat \<times> queue_db" where
  "prune_loop d ns [] pruned q = (pruned, q)"
| "prune_loop d ns ((i, name) # dead) pruned q =
     (if live_memory_id d ns name = None
      then prune_loop d ns dead (Suc pruned) (q_delete (\<lambda>r. q_id r = i) q)
      else prune_loop d ns dead pruned q)"

definition prune_dead_orphans :: "db \<Rightarrow> string \<Rightarrow> string \<Rightarrow> queue_db \<Rightarrow> nat \<times> queue_db" where
  "prune_dead_orphans d op ns q =
     prune_loop d ns
       (map (\<lambda>r. (q_id r, q_item_key r))
          (filter (\<lambda>r. q_status r = Dead \<and> q_item_type r = ''memory'' \<and> op_or_null op r
                     \<and> q_namespace r = ns) (q_rows q)))
       0 q"

definition prune_dead_entity_orphans :: "string \<Rightarrow> string \<Rightarrow> queue_db \<Rightarrow> nat \<times> queue_db" where
  "prune_dead_entity_orphans op ns q =
     (let p = (\<lambda>r. q_status r = Dead \<and> q_item_type r = ''entity'' \<and> op_or_null op r \<and> q_namespace r = ns)
      in (sql_changed p (q_rows q), q_delete p q))"

text \<open>The rebuild of a legacy table: the rows without a namespace column become rows of the empty
  namespace, an absent operation becomes \<^verbatim>\<open>LegacyUnscoped\<close>, and of two rows with the same new key
  the later one is ignored.\<close>

definition q_key :: "queue_row \<Rightarrow> string \<times> string option \<times> string" where
  "q_key r = (q_namespace r, q_operation r, q_item_key r)"

definition legacy_operation :: "string option \<Rightarrow> string" where
  "legacy_operation op = (case op of None \<Rightarrow> ''LegacyUnscoped''
     | Some s \<Rightarrow> if s = [] then ''LegacyUnscoped'' else s)"

fun migrate_rows :: "queue_row list \<Rightarrow> queue_row list \<Rightarrow> queue_row list" where
  "migrate_rows [] acc = acc"
| "migrate_rows (r # rs) acc =
     (let r' = r\<lparr>q_namespace := '''', q_operation := Some (legacy_operation (q_operation r))\<rparr> in
      if q_key r' \<in> set (map q_key acc) then migrate_rows rs acc else migrate_rows rs (acc @ [r']))"

definition migrate_queue_add_namespace :: "queue_db \<Rightarrow> queue_db" where
  "migrate_queue_add_namespace q = q\<lparr>q_rows := migrate_rows (q_rows q) []\<rparr>"

text \<open>Opening tags the rows of unknown operation; on a table that already has the composite key this
  update fails when two such rows share namespace and key, and on a legacy table (unique by
  \<^verbatim>\<open>item_key\<close>) the rebuild follows.\<close>

definition tag_legacy :: "queue_db \<Rightarrow> queue_db" where
  "tag_legacy = q_update (\<lambda>r. q_operation r = None \<or> q_operation r = Some [])
     (\<lambda>r. r\<lparr>q_operation := Some ''LegacyUnscoped''\<rparr>)"

definition open_queue_db :: "bool \<Rightarrow> queue_db \<Rightarrow> app_error + queue_db" where
  "open_queue_db has_namespace q =
     (let q = tag_legacy q in
      if has_namespace then
        (if distinct (map q_key (q_rows q)) then Inr q
         else Inl (Database (SqliteFailure ConstraintViolation)))
      else Inr (migrate_queue_add_namespace q))"

section \<open>Failures\<close>

definition outcome_label :: "attempt_outcome \<Rightarrow> string" where
  "outcome_label oc = (case oc of Transient \<Rightarrow> ''transient'' | HardFailure \<Rightarrow> ''permanent''
     | Success \<Rightarrow> ''success'')"

definition failure_is_terminal :: "attempt_outcome \<Rightarrow> int \<Rightarrow> nat \<Rightarrow> bool" where
  "failure_is_terminal oc attempt max_att = (oc = HardFailure \<or> int max_att \<le> attempt)"

definition retry_secs :: "(nat \<Rightarrow> nat) \<Rightarrow> int \<Rightarrow> nat" where
  "retry_secs rng attempt =
     max (compute_delay rng llm_rate_limit (nat (max attempt 0) mod 2 ^ 32) div 1000) 1"

definition record_item_failure_typed ::
  "(nat \<Rightarrow> nat) \<Rightarrow> int \<Rightarrow> int \<Rightarrow> int \<Rightarrow> nat \<Rightarrow> attempt_outcome \<Rightarrow> string \<Rightarrow> string option
     \<Rightarrow> int option \<Rightarrow> int option \<Rightarrow> queue_db \<Rightarrow> attempt_outcome \<times> queue_db" where
  "record_item_failure_typed rng now queue_id attempt max_att oc err finish itok otok q =
     (oc,
      if failure_is_terminal oc attempt max_att then
        q_update (\<lambda>r. q_id r = queue_id)
          (\<lambda>r. r\<lparr>q_status := Dead, q_error := Some err, q_error_class := Some (outcome_label oc),
                 q_done_at := Some now, q_finish_reason := finish, q_input_tokens := itok,
                 q_output_tokens := otok\<rparr>) q
      else
        q_update (\<lambda>r. q_id r = queue_id)
          (\<lambda>r. r\<lparr>q_status := Pending, q_error := Some err, q_error_class := Some (outcome_label oc),
                 q_next_retry_at := Some (now + int (retry_secs rng attempt)),
                 q_finish_reason := finish, q_input_tokens := itok, q_output_tokens := otok\<rparr>) q)"

definition record_item_failure ::
  "(app_error \<Rightarrow> string) \<Rightarrow> (nat \<Rightarrow> nat) \<Rightarrow> int \<Rightarrow> int \<Rightarrow> int \<Rightarrow> nat \<Rightarrow> app_error \<Rightarrow> queue_db
     \<Rightarrow> attempt_outcome \<times> queue_db" where
  "record_item_failure show_error rng now queue_id attempt max_att err q =
     record_item_failure_typed rng now queue_id attempt max_att (classify_enrich_outcome err)
       (show_error err) None None None q"

section \<open>Claims\<close>

record claimed_row =
  cl_id :: int
  cl_item_key :: string
  cl_item_type :: string
  cl_operation :: string
  cl_attempt :: int

datatype dequeue_outcome = Claimed claimed_row | Empty

datatype claim_check = ClaimOk | RequeueWrongOp | SkipWrongType string

definition is_non_memory_key_shape :: "string \<Rightarrow> bool" where
  "is_non_memory_key_shape key = (prefix ''pair:'' key \<or> prefix ''entity:'' key \<or> prefix ''chunk:'' key)"

definition wrong_type_reason :: "string \<Rightarrow> string \<Rightarrow> string" where
  "wrong_type_reason op item_type =
     ''wrong_item_type_for_operation:'' @ op @ '': got item_type='' @ item_type"

definition validate_claim :: "claimed_row \<Rightarrow> string \<Rightarrow> string \<Rightarrow> claim_check" where
  "validate_claim row current_op expected =
     (if cl_operation row \<noteq> current_op then RequeueWrongOp
      else if current_op = ''ReEmbed'' then ClaimOk
      else if expected = ''memory'' \<and> is_non_memory_key_shape (cl_item_key row) then
        SkipWrongType (''wrong_key_shape_for_operation:'' @ current_op @ '': key looks like ''
          @ takeWhile (\<lambda>c. c \<noteq> CHR '':'') (cl_item_key row))
      else if expected = ''memory'' \<and> cl_item_type row \<noteq> ''memory'' then
        SkipWrongType (wrong_type_reason current_op (cl_item_type row))
      else if expected = ''entity'' \<and> cl_item_type row \<noteq> ''entity''
              \<and> \<not> prefix ''entity:'' (cl_item_key row)
              \<and> (cl_item_type row = ''entity_pair'' \<or> is_non_memory_key_shape (cl_item_key row)) then
        SkipWrongType (wrong_type_reason current_op (cl_item_type row))
      else if expected = ''entity_pair'' \<and> cl_item_type row \<noteq> ''entity_pair''
              \<and> \<not> prefix ''pair:'' (cl_item_key row) then
        SkipWrongType (wrong_type_reason current_op (cl_item_type row))
      else ClaimOk)"

definition requeue_wrong_op :: "int \<Rightarrow> queue_db \<Rightarrow> queue_db" where
  "requeue_wrong_op queue_id =
     q_update (\<lambda>r. q_id r = queue_id)
       (\<lambda>r. r\<lparr>q_status := Pending, q_attempt := (if 0 < q_attempt r then q_attempt r - 1 else 0),
              q_claimed_at := None, q_error := None, q_error_class := None\<rparr>)"

definition skip_wrong_type :: "int \<Rightarrow> int \<Rightarrow> string \<Rightarrow> queue_db \<Rightarrow> queue_db" where
  "skip_wrong_type now queue_id reason =
     q_update (\<lambda>r. q_id r = queue_id)
       (\<lambda>r. r\<lparr>q_status := Skipped, q_error := Some reason, q_done_at := Some now, q_claimed_at := None\<rparr>)"

definition mark_done ::
  "int \<Rightarrow> int \<Rightarrow> int option \<Rightarrow> int option \<Rightarrow> nat \<Rightarrow> nat \<Rightarrow> real \<Rightarrow> int \<Rightarrow> queue_db \<Rightarrow> nat \<times> queue_db" where
  "mark_done now queue_id mem_id ent_id ents rels cost elapsed q =
     (sql_changed (\<lambda>r. q_id r = queue_id) (q_rows q),
      q_update (\<lambda>r. q_id r = queue_id)
        (\<lambda>r. r\<lparr>q_status := Done, q_memory_id := mem_id, q_entity_id := ent_id, q_entities := int ents,
               q_rels := int rels, q_cost_usd := cost, q_elapsed_ms := Some elapsed,
               q_done_at := Some now\<rparr>) q)"

definition mark_skipped :: "int \<Rightarrow> int \<Rightarrow> string \<Rightarrow> queue_db \<Rightarrow> nat \<times> queue_db" where
  "mark_skipped now queue_id reason q =
     (sql_changed (\<lambda>r. q_id r = queue_id) (q_rows q),
      q_update (\<lambda>r. q_id r = queue_id)
        (\<lambda>r. r\<lparr>q_status := Skipped, q_error := Some reason, q_done_at := Some now\<rparr>) q)"

definition requeue_rate_limited :: "int \<Rightarrow> queue_db \<Rightarrow> nat \<times> queue_db" where
  "requeue_rate_limited queue_id q =
     (sql_changed (\<lambda>r. q_id r = queue_id) (q_rows q),
      q_update (\<lambda>r. q_id r = queue_id) (\<lambda>r. r\<lparr>q_status := Pending\<rparr>) q)"

text \<open>The backoff fragment: empty, or a filter on \<^verbatim>\<open>next_retry_at\<close>.\<close>

definition backoff_ok :: "bool \<Rightarrow> int \<Rightarrow> queue_row \<Rightarrow> bool" where
  "backoff_ok backoff now r =
     (backoff \<longrightarrow> (case q_next_retry_at r of None \<Rightarrow> True | Some t \<Rightarrow> t \<le> now))"

definition eligible :: "string \<Rightarrow> string \<Rightarrow> bool \<Rightarrow> int \<Rightarrow> queue_row \<Rightarrow> bool" where
  "eligible op ns backoff now r =
     (q_status r = Pending \<and> q_operation r = Some op \<and> q_namespace r = ns \<and> backoff_ok backoff now r)"

definition claim_order :: "queue_row \<Rightarrow> int \<times> int" where
  "claim_order r = (- q_priority r, q_id r)"

definition claim_list :: "string \<Rightarrow> string \<Rightarrow> bool \<Rightarrow> int \<Rightarrow> queue_row list \<Rightarrow> queue_row list" where
  "claim_list op ns backoff now rows = sort_key claim_order (filter (eligible op ns backoff now) rows)"

definition claim :: "int \<Rightarrow> queue_row \<Rightarrow> queue_row" where
  "claim now r = r\<lparr>q_status := Processing, q_attempt := q_attempt r + 1, q_claimed_at := Some now\<rparr>"

definition claimed_of :: "queue_row \<Rightarrow> claimed_row" where
  "claimed_of r = \<lparr>cl_id = q_id r, cl_item_key = q_item_key r, cl_item_type = q_item_type r,
     cl_operation = (case q_operation r of None \<Rightarrow> '''' | Some s \<Rightarrow> s), cl_attempt = q_attempt r\<rparr>"

definition dequeue_next_pending ::
  "string \<Rightarrow> string \<Rightarrow> bool \<Rightarrow> int \<Rightarrow> queue_db \<Rightarrow> dequeue_outcome \<times> queue_db" where
  "dequeue_next_pending op ns backoff now q =
     (case claim_list op ns backoff now (q_rows q) of
        [] \<Rightarrow> (Empty, q)
      | r # _ \<Rightarrow> (Claimed (claimed_of (claim now r)), q_update (\<lambda>x. q_id x = q_id r) (claim now) q))"

text \<open>\<^verbatim>\<open>RETURNING\<close> lists the updated rows in table order.\<close>

definition dequeue_batch_pending ::
  "string \<Rightarrow> string \<Rightarrow> bool \<Rightarrow> int \<Rightarrow> nat \<Rightarrow> queue_db \<Rightarrow> claimed_row list \<times> queue_db" where
  "dequeue_batch_pending op ns backoff now batch_limit q =
     (if batch_limit = 0 then ([], q)
      else
        (let ids = map q_id (take batch_limit (claim_list op ns backoff now (q_rows q))) in
         (map (\<lambda>r. claimed_of (claim now r)) (filter (\<lambda>r. q_id r \<in> set ids) (q_rows q)),
          q_update (\<lambda>x. q_id x \<in> set ids) (claim now) q)))"

definition count_eligible_pending :: "string \<Rightarrow> string \<Rightarrow> bool \<Rightarrow> int \<Rightarrow> queue_db \<Rightarrow> nat" where
  "count_eligible_pending op ns backoff now q = sql_count (eligible op ns backoff now) (q_rows q)"

section \<open>Reopening and reconciliation\<close>

definition reopen_row :: "queue_row \<Rightarrow> queue_row" where
  "reopen_row r = r\<lparr>q_status := Pending, q_attempt := 0, q_next_retry_at := None, q_error := None,
     q_error_class := None, q_claimed_at := None, q_done_at := None\<rparr>"

definition reopenable :: "string \<Rightarrow> string \<Rightarrow> queue_row \<Rightarrow> bool" where
  "reopenable ns key r =
     (q_operation r = Some ''EntityDescriptions'' \<and> q_namespace r = ns \<and> q_item_key r = key
      \<and> q_status r \<in> {Skipped, Done})"

fun reopen_force_redescribe_candidates ::
  "string \<Rightarrow> string list \<Rightarrow> queue_db \<Rightarrow> nat \<times> queue_db" where
  "reopen_force_redescribe_candidates ns [] q = (0, q)"
| "reopen_force_redescribe_candidates ns (key # keys) q =
     (let n = sql_changed (reopenable ns key) (q_rows q);
          (m, q') = reopen_force_redescribe_candidates ns keys (q_update (reopenable ns key) reopen_row q)
      in (n + m, q'))"

definition reset_processing_for_op :: "string \<Rightarrow> string \<Rightarrow> queue_db \<Rightarrow> nat \<times> queue_db" where
  "reset_processing_for_op op ns q =
     (let p = (\<lambda>r. q_status r = Processing \<and> q_operation r = Some op \<and> q_namespace r = ns)
      in (sql_changed p (q_rows q), q_update p (\<lambda>r. r\<lparr>q_status := Pending, q_claimed_at := None\<rparr>) q))"

definition reset_failed_for_op :: "string \<Rightarrow> string \<Rightarrow> queue_db \<Rightarrow> nat \<times> queue_db" where
  "reset_failed_for_op op ns q =
     (let p = (\<lambda>r. q_status r = Failed \<and> q_operation r = Some op \<and> q_namespace r = ns)
      in (sql_changed p (q_rows q),
          q_update p (\<lambda>r. r\<lparr>q_status := Pending, q_attempt := 0, q_next_retry_at := None,
            q_error := None, q_error_class := None, q_claimed_at := None\<rparr>) q))"

definition has_live_embedding :: "embedding_row list \<Rightarrow> int \<Rightarrow> nat \<Rightarrow> bool" where
  "has_live_embedding rows key vdim =
     (\<exists>x \<in> set rows. x_key x = key \<and> length (x_embedding x) = vdim * 4)"

definition reembed_satisfied :: "db \<Rightarrow> nat \<Rightarrow> string \<Rightarrow> string \<Rightarrow> bool" where
  "reembed_satisfied d vdim ns key =
     (case strip_prefix ''entity:'' key of
        Some name \<Rightarrow> (case entity_id_of d ns name of None \<Rightarrow> False
           | Some i \<Rightarrow> has_live_embedding (entity_embeddings d) i vdim)
      | None \<Rightarrow>
         (case strip_prefix ''chunk:'' key of
            Some ck \<Rightarrow> (case parse_i64 ck of None \<Rightarrow> False
               | Some i \<Rightarrow> has_live_embedding (chunk_embeddings d) i vdim)
          | None \<Rightarrow> (case live_memory_id d ns key of None \<Rightarrow> False
               | Some i \<Rightarrow> has_live_embedding (memory_embeddings d) i vdim)))"

fun reconcile_loop ::
  "int \<Rightarrow> db \<Rightarrow> nat \<Rightarrow> string \<Rightarrow> (int \<times> string) list \<Rightarrow> nat \<Rightarrow> queue_db \<Rightarrow> nat \<times> queue_db" where
  "reconcile_loop now d vdim ns [] n q = (n, q)"
| "reconcile_loop now d vdim ns ((i, key) # rest) n q =
     (if reembed_satisfied d vdim ns key then
        (let p = (\<lambda>r. q_id r = i \<and> q_status r = Pending) in
         reconcile_loop now d vdim ns rest (n + sql_changed p (q_rows q))
           (q_update p (\<lambda>r. r\<lparr>q_status := Done, q_done_at := Some now, q_claimed_at := None,
              q_error := Some ''reconciled: live embedding already present''\<rparr>) q))
      else reconcile_loop now d vdim ns rest n q)"

definition reconcile_satisfied_reembed_pending ::
  "int \<Rightarrow> db \<Rightarrow> nat \<Rightarrow> string \<Rightarrow> queue_db \<Rightarrow> nat \<times> queue_db" where
  "reconcile_satisfied_reembed_pending now d vdim ns q =
     reconcile_loop now d vdim ns
       (map (\<lambda>r. (q_id r, q_item_key r))
          (filter (\<lambda>r. q_status r = Pending \<and> q_operation r = Some ''ReEmbed'' \<and> q_namespace r = ns)
             (q_rows q)))
       0 q"

section \<open>Run preparation and maintenance\<close>

record prepare_args =
  a_stale_claim_secs :: nat
  a_resume :: bool
  a_retry_failed :: bool
  a_until_empty :: bool
  a_force_redescribe :: bool
  a_operation :: enrich_operation

definition clear_for_run :: "string \<Rightarrow> string \<Rightarrow> queue_db \<Rightarrow> queue_db" where
  "clear_for_run op ns =
     q_delete (\<lambda>r. q_operation r = Some op \<and> (q_namespace r = ns \<or> q_namespace r = ''''))"

definition prepare_queue ::
  "int \<Rightarrow> db \<Rightarrow> nat \<Rightarrow> prepare_args \<Rightarrow> string \<Rightarrow> string \<Rightarrow> string list \<Rightarrow> queue_db \<Rightarrow> queue_db" where
  "prepare_queue now d vdim args ns op scan_keys q =
     (let q = snd (reset_stale_processing_claims now (a_stale_claim_secs args) q);
          q = (if a_resume args then snd (reset_processing_for_op op ns q) else q);
          q = (if a_retry_failed args then snd (reset_failed_for_op op ns q) else q);
          q = (if \<not> a_resume args \<and> \<not> a_retry_failed args \<and> \<not> a_until_empty args
               then clear_for_run op ns q else q);
          q = (if a_force_redescribe args \<and> a_operation args = EntityDescriptions
               then snd (reopen_force_redescribe_candidates ns scan_keys q) else q)
      in if a_operation args = ReEmbed
         then snd (reconcile_satisfied_reembed_pending now d vdim ns q) else q)"

definition requeue_row :: "queue_row \<Rightarrow> queue_row" where
  "requeue_row r = r\<lparr>q_status := Pending, q_attempt := 0, q_next_retry_at := None, q_error := None,
     q_error_class := None\<rparr>"

definition requeue_skipped :: "string \<Rightarrow> string \<Rightarrow> queue_db \<Rightarrow> nat \<times> queue_db" where
  "requeue_skipped op ns q =
     (let p = (\<lambda>r. q_status r = Skipped \<and> op_or_null op r \<and> q_namespace r = ns)
      in (sql_changed p (q_rows q), q_update p requeue_row q))"

definition requeue_dead :: "string \<Rightarrow> string \<Rightarrow> queue_db \<Rightarrow> nat \<times> queue_db" where
  "requeue_dead op ns q =
     (let p = (\<lambda>r. q_status r = Dead \<and> op_or_null op r \<and> q_namespace r = ns)
      in (sql_changed p (q_rows q), q_update p requeue_row q))"

section \<open>Operation order\<close>

definition is_gate_op :: "enrich_operation \<Rightarrow> bool" where
  "is_gate_op op = (op = MemoryBindings \<or> op = EntityDescriptions)"

definition gate_ops_order :: "enrich_operation list" where
  "gate_ops_order = [MemoryBindings, EntityDescriptions]"

definition gate_rank :: "enrich_operation \<Rightarrow> nat" where
  "gate_rank op = (case op of MemoryBindings \<Rightarrow> 0 | EntityDescriptions \<Rightarrow> 1 | _ \<Rightarrow> 2)"

definition rest_rank :: "enrich_operation \<Rightarrow> nat" where
  "rest_rank op = (case op of EntityConnect \<Rightarrow> 10 | CrossDomainBridges \<Rightarrow> 10 | ReEmbed \<Rightarrow> 5 | _ \<Rightarrow> 1)"

definition order_ops_gate_first :: "enrich_operation list \<Rightarrow> enrich_operation list" where
  "order_ops_gate_first ops =
     sort_key gate_rank (filter is_gate_op ops) @ sort_key rest_rank (filter (\<lambda>p. \<not> is_gate_op p) ops)"

definition should_preempt_for_hot_ed :: "bool \<Rightarrow> bool \<Rightarrow> bool" where
  "should_preempt_for_hot_ed has_hot_ed_pending current_is_ec = (has_hot_ed_pending \<and> current_is_ec)"

end
