(* ===== verification/Drain.thy ===== *)
theory Drain
  imports Queue
begin

text \<open>
  The serial drain of the enrichment queue: the loop of \<^verbatim>\<open>src/commands/enrich/drain_serial.rs\<close> and
  the batched re-embedding cycle it delegates to (\<^verbatim>\<open>reembed/batch/cycle.rs\<close>). The answers of the
  operation handlers (each a remote call followed by its own writes to the main database), the wall
  clock, the time a turn takes, shutdown requests, the kill switch, failures of the claim statement
  and random draws come from a script of turns, one record per iteration of the loop, over which
  every statement about the drain is quantified. The monotonic clock advances by the time the turn
  takes and by the sleeps of the code. Costs are real numbers, so the rounding of \<^verbatim>\<open>f64\<close> is not
  modelled; neither are log lines, the emitted JSON events and failing write-backs.
\<close>

section \<open>Answers of the handlers\<close>

datatype item_result =
    ItemDone "int option" "int option" nat nat "nat option" "nat option" real bool
  | ItemSkipped string real
  | ItemPreservationFailed real real nat nat
  | ItemRetyped int string string nat real bool

record failure_diagnostics =
  fd_retry_class :: attempt_outcome
  fd_finish_reason :: "string option"
  fd_prompt_tokens :: "int option"
  fd_completion_tokens :: "int option"

text \<open>One iteration as the world answers it: \<open>dt_claim_fails k\<close> is the failure of the \<open>k\<close>-th try
  of the claim statement, \<open>dt_now\<close> and \<open>dt_answered\<close> the wall clock of the claim and of the
  write-back, \<open>dt_work\<close> the nanoseconds until the handler has answered.\<close>

record drain_turn =
  dt_shutdown :: bool
  dt_kill :: bool
  dt_draw :: "nat \<Rightarrow> nat"
  dt_claim_fails :: "nat \<Rightarrow> app_error option"
  dt_now :: int
  dt_answered :: int
  dt_work :: nat
  dt_elapsed_ms :: int
  dt_reply :: "app_error + item_result"
  dt_diag :: "failure_diagnostics option"
  dt_batch :: "app_error + (string \<Rightarrow> item_result)"

section \<open>Parameters and state\<close>

definition DEFAULT_RATE_LIMIT_WAIT :: nat where "DEFAULT_RATE_LIMIT_WAIT = 60"
definition ENRICH_BACKOFF_CEILING_SECS :: nat where "ENRICH_BACKOFF_CEILING_SECS = 900"

text \<open>The arguments the loop reads, the clause and labels its caller passes, the resolved
  configuration of the busy retry and of the claim batch, and the texts of \<^verbatim>\<open>Display\<close>.\<close>

record drain_params =
  dp_operation :: enrich_operation
  dp_op_label :: string
  dp_namespace :: string
  dp_backoff :: bool
  dp_max_cost_usd :: "real option"
  dp_max_attempts :: nat
  dp_yield_every :: nat
  dp_claim_batch :: nat
  dp_rate_limit_deadline :: nat
  dp_busy_retries :: nat
  dp_busy_base_ms :: nat
  dp_busy_message :: string
  dp_show_error :: "app_error \<Rightarrow> string"
  dp_fixed3 :: "real \<Rightarrow> string"

record drain_counters =
  dc_completed :: nat
  dc_failed :: nat
  dc_skipped :: nat
  dc_cost_total :: real
  dc_oauth_detected :: bool
  dc_retyped :: nat

text \<open>The queue, the tally, the variables of the loop, the monotonic clock in nanoseconds and the
  sleeps of the rate-limit branch in seconds.\<close>

record drain_state =
  ds_queue :: queue_db
  ds_counters :: drain_counters
  ds_backoff_secs :: nat
  ds_items_since_yield :: nat
  ds_yield_count :: nat
  ds_preempted :: bool
  ds_clock :: nat
  ds_waits :: "nat list"

datatype drain_next = Continue | Break | Abort app_error

definition on_queue :: "(queue_db \<Rightarrow> queue_db) \<Rightarrow> drain_state \<Rightarrow> drain_state" where
  "on_queue f s = s\<lparr>ds_queue := f (ds_queue s)\<rparr>"

definition on_counters :: "(drain_counters \<Rightarrow> drain_counters) \<Rightarrow> drain_state \<Rightarrow> drain_state" where
  "on_counters f s = s\<lparr>ds_counters := f (ds_counters s)\<rparr>"

definition add_completed :: "drain_counters \<Rightarrow> drain_counters" where
  "add_completed c = c\<lparr>dc_completed := dc_completed c + 1\<rparr>"

definition add_failed :: "drain_counters \<Rightarrow> drain_counters" where
  "add_failed c = c\<lparr>dc_failed := dc_failed c + 1\<rparr>"

definition add_skipped :: "drain_counters \<Rightarrow> drain_counters" where
  "add_skipped c = c\<lparr>dc_skipped := dc_skipped c + 1\<rparr>"

definition add_cost :: "real \<Rightarrow> drain_counters \<Rightarrow> drain_counters" where
  "add_cost cost c = c\<lparr>dc_cost_total := dc_cost_total c + cost\<rparr>"

section \<open>The claim under busy retry\<close>

text \<open>The statement is tried again on the queue as it is; the first component counts the tries.\<close>

definition claim_attempt ::
  "(nat \<Rightarrow> app_error option) \<Rightarrow> (queue_db \<Rightarrow> 'a \<times> queue_db) \<Rightarrow> nat \<times> queue_db
     \<Rightarrow> (app_error + 'a) \<times> (nat \<times> queue_db)" where
  "claim_attempt fails stmt kq =
     (case kq of (k, q) \<Rightarrow>
       (case fails k of
          Some e \<Rightarrow> (Inl e, (Suc k, q))
        | None \<Rightarrow> (case stmt q of (a, q') \<Rightarrow> (Inr a, (Suc k, q')))))"

definition claim_with_retry ::
  "drain_params \<Rightarrow> drain_turn \<Rightarrow> (queue_db \<Rightarrow> 'a \<times> queue_db) \<Rightarrow> queue_db \<Rightarrow> (app_error + 'a) \<times> queue_db" where
  "claim_with_retry p t stmt q =
     (case with_busy_retry_policy (dt_kill t) (dt_draw t) (dp_busy_message p) (dp_busy_retries p)
             (dp_busy_base_ms p) (claim_attempt (dt_claim_fails t) stmt) (0, q)
      of (r, (_, q'), _) \<Rightarrow> (r, q'))"

section \<open>Re-embedding a claimed batch\<close>

datatype reembed_cycle_end = CycleEmpty | CycleProgressed | CycleDbBusy string

text \<open>The error loop: every claimed row fails with the one error of the shared call.\<close>

fun fail_claimed ::
  "drain_params \<Rightarrow> drain_turn \<Rightarrow> app_error \<Rightarrow> claimed_row list \<Rightarrow> drain_state \<Rightarrow> drain_state" where
  "fail_claimed p t e [] s = s"
| "fail_claimed p t e (c # cs) s =
     fail_claimed p t e cs
       (on_counters add_failed
         (on_queue (\<lambda>q. snd (record_item_failure (dp_show_error p) (dt_draw t) (dt_answered t) (cl_id c)
            (cl_attempt c) (dp_max_attempts p) e q)) s))"

definition batch_cost_per_item :: "(string \<Rightarrow> item_result) \<Rightarrow> claimed_row list \<Rightarrow> real" where
  "batch_cost_per_item out cs =
     (let costs = [cost. ItemDone _ _ _ _ _ _ cost _ \<leftarrow> map (\<lambda>c. out (cl_item_key c)) cs]
      in if length costs = 0 then 0 else sum_list costs / real (length costs))"

text \<open>The outcome loop of a cycle whose shared call answered.\<close>

fun settle_claimed ::
  "drain_turn \<Rightarrow> (string \<Rightarrow> item_result) \<Rightarrow> real \<Rightarrow> claimed_row list \<Rightarrow> drain_state \<Rightarrow> drain_state" where
  "settle_claimed t out cost [] s = s"
| "settle_claimed t out cost (c # cs) s =
     settle_claimed t out cost cs
       (case out (cl_item_key c) of
          ItemDone mem ent ents rels _ _ _ _ \<Rightarrow>
            on_counters add_completed
              (on_queue (\<lambda>q. snd (mark_done (dt_answered t) (cl_id c) mem ent ents rels cost (dt_elapsed_ms t) q)) s)
        | ItemSkipped reason _ \<Rightarrow>
            on_counters add_skipped (on_queue (\<lambda>q. snd (mark_skipped (dt_answered t) (cl_id c) reason q)) s)
        | _ \<Rightarrow>
            on_counters add_skipped
              (on_queue (\<lambda>q. snd (mark_skipped (dt_answered t) (cl_id c) ''preservation_failed'' q)) s))"

definition heartbeat_all :: "int \<Rightarrow> claimed_row list \<Rightarrow> queue_db \<Rightarrow> queue_db" where
  "heartbeat_all now cs q = foldl (\<lambda>q c. heartbeat now (cl_id c) q) q cs"

definition run_reembed_cycle ::
  "drain_params \<Rightarrow> drain_turn \<Rightarrow> drain_state \<Rightarrow> reembed_cycle_end \<times> drain_state" where
  "run_reembed_cycle p t s =
     (case claim_with_retry p t
             (dequeue_batch_pending (dp_op_label p) (dp_namespace p) (dp_backoff p) (dt_now t) (dp_claim_batch p))
             (ds_queue s)
      of (Inl (DbBusy msg), q) \<Rightarrow> (CycleDbBusy msg, s\<lparr>ds_queue := q\<rparr>)
       | (Inl _, q) \<Rightarrow> (CycleEmpty, s\<lparr>ds_queue := q\<rparr>)
       | (Inr claimed, q) \<Rightarrow>
           if claimed = [] then (CycleEmpty, s\<lparr>ds_queue := q\<rparr>)
           else
             (let s = s\<lparr>ds_queue := heartbeat_all (dt_now t) claimed q\<rparr>
              in (CycleProgressed,
                  case dt_batch t of
                    Inl e \<Rightarrow> fail_claimed p t e claimed s
                  | Inr out \<Rightarrow> settle_claimed t out (batch_cost_per_item out claimed) claimed s)))"

section \<open>One item\<close>

text \<open>A finished item: the row is done, the backoff is reset, and every \<open>dp_yield_every\<close> items the
  loop yields and may stop in favour of hot entity descriptions. The cost is added last.\<close>

definition preempts :: "drain_params \<Rightarrow> queue_db \<Rightarrow> bool" where
  "preempts p q =
     should_preempt_for_hot_ed
       (0 < count_priority_pending q ''EntityDescriptions'' (dp_namespace p) PRIORITY_HOT)
       (dp_operation p = EntityConnect \<or> dp_operation p = CrossDomainBridges)"

definition item_done ::
  "drain_params \<Rightarrow> drain_turn \<Rightarrow> claimed_row \<Rightarrow> int option \<Rightarrow> int option \<Rightarrow> nat \<Rightarrow> nat \<Rightarrow> real \<Rightarrow> bool
     \<Rightarrow> drain_state \<Rightarrow> drain_next \<times> drain_state" where
  "item_done p t c mem ent ents rels cost is_oauth s =
     (let s = on_counters (\<lambda>k. k\<lparr>dc_oauth_detected := dc_oauth_detected k \<or> is_oauth\<rparr>) s;
          s = s\<lparr>ds_backoff_secs := DEFAULT_RATE_LIMIT_WAIT\<rparr>;
          s = on_queue (\<lambda>q. snd (mark_done (dt_answered t) (cl_id c) mem ent ents rels cost (dt_elapsed_ms t) q)) s;
          s = on_counters add_completed s;
          s = s\<lparr>ds_items_since_yield := sat_u64 (ds_items_since_yield s + 1)\<rparr>;
          yields = (0 < dp_yield_every p \<and> dp_yield_every p \<le> ds_items_since_yield s);
          s = (if yields then s\<lparr>ds_yield_count := sat_u64 (ds_yield_count s + 1), ds_items_since_yield := 0\<rparr>
               else s)
      in if yields \<and> preempts p (ds_queue s) then (Break, s\<lparr>ds_preempted := True\<rparr>)
         else (Continue, if is_oauth then s else on_counters (add_cost cost) s))"

definition preservation_reason :: "drain_params \<Rightarrow> real \<Rightarrow> real \<Rightarrow> nat \<Rightarrow> nat \<Rightarrow> string" where
  "preservation_reason p score thr before after =
     ''preservation_failed: jaccard='' @ dp_fixed3 p score @ '' threshold='' @ dp_fixed3 p thr
       @ '' (orig='' @ nat_str before @ '' chars, new='' @ nat_str after @ '' chars)''"

text \<open>A handler error: a rate limit before the deadline gives the row back and sleeps half the
  backoff plus a random part; anything else is recorded on the row.\<close>

definition rate_limit_wait :: "drain_turn \<Rightarrow> nat \<Rightarrow> nat" where
  "rate_limit_wait t backoff_secs =
     (let half = backoff_secs div 2 in half + (if half = 0 then 0 else dt_draw t half))"

definition is_rate_limited :: "app_error \<Rightarrow> bool" where
  "is_rate_limited e = (case e of RateLimited _ \<Rightarrow> True | _ \<Rightarrow> False)"

definition item_failed ::
  "drain_params \<Rightarrow> drain_turn \<Rightarrow> claimed_row \<Rightarrow> app_error \<Rightarrow> drain_state \<Rightarrow> drain_next \<times> drain_state" where
  "item_failed p t c e s =
     (if is_rate_limited e \<and> \<not> dt_kill t \<and> \<not> dp_rate_limit_deadline p \<le> ds_clock s then
        (let wait = rate_limit_wait t (ds_backoff_secs s);
             s = on_queue (\<lambda>q. snd (requeue_rate_limited (cl_id c) q)) s
         in (Continue, s\<lparr>ds_clock := ds_clock s + wait * 10 ^ 9, ds_waits := ds_waits s @ [wait],
               ds_backoff_secs := min (ds_backoff_secs s * 2) ENRICH_BACKOFF_CEILING_SECS\<rparr>))
      else
        (Continue,
         on_queue (\<lambda>q. snd (case dt_diag t of
             Some d \<Rightarrow> record_item_failure_typed (dt_draw t) (dt_answered t) (cl_id c) (cl_attempt c)
               (dp_max_attempts p) (fd_retry_class d) (dp_show_error p e) (fd_finish_reason d)
               (fd_prompt_tokens d) (fd_completion_tokens d) q
           | None \<Rightarrow> record_item_failure (dp_show_error p) (dt_draw t) (dt_answered t) (cl_id c) (cl_attempt c)
               (dp_max_attempts p) e q))
           (on_counters add_failed s)))"

definition item_answered ::
  "drain_params \<Rightarrow> drain_turn \<Rightarrow> claimed_row \<Rightarrow> drain_state \<Rightarrow> drain_next \<times> drain_state" where
  "item_answered p t c s =
     (case dt_reply t of
        Inr (ItemDone mem ent ents rels _ _ cost is_oauth) \<Rightarrow> item_done p t c mem ent ents rels cost is_oauth s
      | Inr (ItemSkipped reason cost) \<Rightarrow>
          (Continue, on_queue (\<lambda>q. snd (mark_skipped (dt_answered t) (cl_id c) reason q))
             (on_counters (add_cost cost) (on_counters add_skipped s)))
      | Inr (ItemRetyped ent _ _ _ cost is_oauth) \<Rightarrow>
          (Continue,
           (let s = on_queue (\<lambda>q. snd (mark_done (dt_answered t) (cl_id c) None (Some ent) 1 0 cost (dt_elapsed_ms t) q)) s;
                s = on_counters (\<lambda>k. (add_completed k)\<lparr>dc_retyped := dc_retyped k + 1\<rparr>) s
            in if is_oauth then s else on_counters (add_cost cost) s))
      | Inr (ItemPreservationFailed score thr before after) \<Rightarrow>
          (Continue, on_queue (\<lambda>q. snd (mark_skipped (dt_answered t) (cl_id c) (preservation_reason p score thr before after) q))
             (on_counters add_skipped s))
      | Inl e \<Rightarrow> item_failed p t c e s)"

definition item_claimed ::
  "drain_params \<Rightarrow> drain_turn \<Rightarrow> claimed_row \<Rightarrow> drain_state \<Rightarrow> drain_next \<times> drain_state" where
  "item_claimed p t c s =
     (case validate_claim c (dp_op_label p) (item_type_for (dp_operation p)) of
        RequeueWrongOp \<Rightarrow> (Continue, on_queue (requeue_wrong_op (cl_id c)) s)
      | SkipWrongType reason \<Rightarrow>
          (Continue, on_counters add_skipped (on_queue (skip_wrong_type (dt_now t) (cl_id c) reason) s))
      | ClaimOk \<Rightarrow> item_answered p t c (on_queue (heartbeat (dt_now t) (cl_id c)) s))"

definition drain_item :: "drain_params \<Rightarrow> drain_turn \<Rightarrow> drain_state \<Rightarrow> drain_next \<times> drain_state" where
  "drain_item p t s =
     (case claim_with_retry p t (dequeue_next_pending (dp_op_label p) (dp_namespace p) (dp_backoff p) (dt_now t))
             (ds_queue s)
      of (Inr (Claimed c), q) \<Rightarrow> item_claimed p t c (s\<lparr>ds_queue := q\<rparr>)
       | (Inr Empty, q) \<Rightarrow> (Break, s\<lparr>ds_queue := q\<rparr>)
       | (Inl (DbBusy msg), q) \<Rightarrow> (Abort (DbBusy msg), s\<lparr>ds_queue := q\<rparr>)
       | (Inl _, q) \<Rightarrow> (Break, s\<lparr>ds_queue := q\<rparr>))"

section \<open>The loop\<close>

definition over_budget :: "drain_params \<Rightarrow> drain_counters \<Rightarrow> bool" where
  "over_budget p k =
     (case dp_max_cost_usd p of None \<Rightarrow> False
      | Some b \<Rightarrow> \<not> dc_oauth_detected k \<and> b \<le> dc_cost_total k)"

definition drain_once :: "drain_params \<Rightarrow> drain_turn \<Rightarrow> drain_state \<Rightarrow> drain_next \<times> drain_state" where
  "drain_once p t s =
     (if dt_shutdown t then (Break, s)
      else if over_budget p (ds_counters s) then (Break, s)
      else
        (let s = s\<lparr>ds_clock := ds_clock s + dt_work t\<rparr> in
         if dp_operation p = ReEmbed then
           (case run_reembed_cycle p t s of
              (CycleProgressed, s) \<Rightarrow> (Continue, s)
            | (CycleEmpty, s) \<Rightarrow> (Break, s)
            | (CycleDbBusy msg, s) \<Rightarrow> (Abort (DbBusy ''sqlite_busy_exhausted_on_reembed_claim''), s))
         else drain_item p t s))"

partial_function (option) drain_loop ::
  "drain_params \<Rightarrow> (nat \<Rightarrow> drain_turn) \<Rightarrow> nat \<Rightarrow> drain_state \<Rightarrow> (drain_next \<times> drain_state) option" where
  "drain_loop p world n s =
     (let (nxt, s') = drain_once p (world n) s in
      if nxt = Continue then drain_loop p world (Suc n) s' else Some (nxt, s'))"

text \<open>The tally is stored back only when the loop breaks.\<close>

definition drain_serial ::
  "drain_params \<Rightarrow> (nat \<Rightarrow> drain_turn) \<Rightarrow> drain_state \<Rightarrow> ((app_error + unit) \<times> drain_state) option" where
  "drain_serial p world s =
     (case drain_loop p world 0 s of
        None \<Rightarrow> None
      | Some (Abort e, s') \<Rightarrow> Some (Inl e, s'\<lparr>ds_counters := ds_counters s\<rparr>)
      | Some (_, s') \<Rightarrow> Some (Inr (), s'))"

end
