(* ===== verification/Queue_Correct.thy ===== *)
theory Queue_Correct
  imports Queue "HOL-Library.Multiset"
begin

text \<open>
  Correctness of the enrichment queue: the key and uniqueness invariant over every sequence of
  operations, what a claim returns and changes, batch claims as iterated single claims, the
  record of a failure, and the stability of the dead-letter rows.
\<close>

section \<open>The invariant\<close>

definition keyed :: "queue_row list \<Rightarrow> queue_row list" where
  "keyed rows = filter (\<lambda>r. q_operation r \<noteq> None) rows"

definition queue_ok :: "queue_db \<Rightarrow> bool" where
  "queue_ok q \<longleftrightarrow> distinct (map q_id (q_rows q)) \<and> (\<forall>r \<in> set (q_rows q). q_id r \<le> q_seq q)
     \<and> distinct (map q_key (keyed (q_rows q)))"

lemma queue_okD:
  assumes "queue_ok q"
  shows "distinct (map q_id (q_rows q))" "r \<in> set (q_rows q) \<Longrightarrow> q_id r \<le> q_seq q"
    "distinct (map q_key (keyed (q_rows q)))"
  using assms by (auto simp: queue_ok_def)

lemma q_update_none [simp]: "q_update (\<lambda>x. False) f q = q"
  by (simp add: q_update_def sql_update_none)

lemma keyed_sql_update:
  assumes "\<And>r. p r \<Longrightarrow> q_key (f r) = q_key r"
  shows "map q_key (keyed (sql_update p f rows)) = map q_key (keyed rows)"
proof (induction rows)
  case (Cons r rows)
  have "q_operation (f r) = q_operation r" if "p r" using assms [OF that] by (simp add: q_key_def)
  with Cons assms show ?case by (auto simp: keyed_def)
qed (simp add: keyed_def)

lemma queue_ok_update:
  assumes "queue_ok q" and "\<And>r. p r \<Longrightarrow> q_id (f r) = q_id r \<and> q_key (f r) = q_key r"
  shows "queue_ok (q_update p f q)"
proof -
  have "map q_id (sql_update p f (q_rows q)) = map q_id (q_rows q)"
    by (rule map_sql_update_same) (use assms(2) in blast)
  moreover have "map q_key (keyed (sql_update p f (q_rows q))) = map q_key (keyed (q_rows q))"
    by (rule keyed_sql_update) (use assms(2) in blast)
  moreover have "\<forall>r \<in> set (sql_update p f (q_rows q)). q_id r \<le> q_seq q"
    using queue_okD(2) [OF assms(1)] assms(2) by (auto simp: set_sql_update)
  ultimately show ?thesis
    using assms(1) by (simp add: queue_ok_def q_update_def)
qed

lemma queue_ok_delete: "queue_ok q \<Longrightarrow> queue_ok (q_delete p q)"
proof -
  assume q: "queue_ok q"
  have "keyed (sql_delete p (q_rows q)) = sql_delete p (keyed (q_rows q))"
    by (simp add: keyed_def sql_delete_def conj_commute)
  then show ?thesis
    using q by (auto simp: queue_ok_def q_delete_def intro: distinct_map_sql_delete)
qed

lemma queue_ok_insert: "queue_ok q \<Longrightarrow> queue_ok (insert_or_ignore now ns key ty op mem prio q)"
proof (cases "\<exists>r \<in> set (q_rows q). q_namespace r = ns \<and> q_operation r = Some op \<and> q_item_key r = key")
  case False
  assume q: "queue_ok q"
  have "(ns, Some op, key) \<notin> q_key ` set (keyed (q_rows q))"
    using False by (auto simp: q_key_def keyed_def)
  moreover have "q_seq q + 1 \<notin> q_id ` set (q_rows q)" using queue_okD(2) [OF q] by fastforce
  ultimately show ?thesis
    using q False by (fastforce simp: queue_ok_def insert_or_ignore_def new_queue_row_def keyed_def q_key_def)
qed (simp add: insert_or_ignore_def)

lemmas queue_ok_intros = queue_ok_update queue_ok_delete queue_ok_insert

lemma queue_ok_enqueue_candidate: "queue_ok q \<Longrightarrow> queue_ok (enqueue_candidate now d ns key ty op q)"
  by (simp add: enqueue_candidate_def queue_ok_insert split: option.split)

lemma queue_ok_enqueue_with_priority:
  "queue_ok q \<Longrightarrow> queue_ok (enqueue_candidate_with_priority now key ty op prio q)"
  unfolding enqueue_candidate_with_priority_def bump_priority_def
  by (intro queue_ok_intros) (simp_all add: q_key_def)

lemma queue_ok_prune_loop: "queue_ok q \<Longrightarrow> queue_ok (snd (prune_loop d ns dead n q))"
  by (induction d ns dead n q rule: prune_loop.induct) (simp_all add: queue_ok_delete)

lemma queue_ok_reopen: "queue_ok q \<Longrightarrow> queue_ok (snd (reopen_force_redescribe_candidates ns keys q))"
proof (induction ns keys q rule: reopen_force_redescribe_candidates.induct)
  case (2 ns key keys q)
  have "queue_ok (q_update (reopenable ns key) reopen_row q)"
    by (rule queue_ok_update [OF "2.prems"]) (simp add: reopen_row_def q_key_def)
  with "2.IH" show ?case by (simp add: Let_def case_prod_beta)
qed simp

lemma queue_ok_reconcile: "queue_ok q \<Longrightarrow> queue_ok (snd (reconcile_loop now d vd ns todo n q))"
proof (induction now d vd ns todo n q rule: reconcile_loop.induct)
  case (2 now d vd ns i key rest n q)
  then show ?case
    by (cases "reembed_satisfied d vd ns key") (simp_all add: Let_def queue_ok_update q_key_def)
qed simp

lemma queue_ok_dequeue: "queue_ok q \<Longrightarrow> queue_ok (snd (dequeue_next_pending op ns b now q))"
  by (simp add: dequeue_next_pending_def queue_ok_update claim_def q_key_def split: list.split)

lemma queue_ok_batch: "queue_ok q \<Longrightarrow> queue_ok (snd (dequeue_batch_pending op ns b now n q))"
  by (simp add: dequeue_batch_pending_def Let_def queue_ok_update claim_def q_key_def)

section \<open>Every operation as a step\<close>

inductive queue_step :: "queue_db \<Rightarrow> queue_db \<Rightarrow> bool" where
  st_enqueue: "queue_step q (enqueue_candidate now d ns key ty op q)"
| st_enqueue_priority: "queue_step q (enqueue_candidate_with_priority now key ty op prio q)"
| st_stale: "queue_step q (snd (reset_stale_processing_claims now age q))"
| st_heartbeat: "queue_step q (heartbeat now i q)"
| st_cleanup: "queue_step q (cleanup_queue_entry mem name q)"
| st_prune: "queue_step q (snd (prune_dead_orphans d op ns q))"
| st_prune_entity: "queue_step q (snd (prune_dead_entity_orphans op ns q))"
| st_failure: "queue_step q (snd (record_item_failure_typed rng now i att mx oc err fin it ot q))"
| st_requeue_wrong: "queue_step q (requeue_wrong_op i q)"
| st_skip_wrong: "queue_step q (skip_wrong_type now i reason q)"
| st_done: "queue_step q (snd (mark_done now i mem ent es rs cost ms q))"
| st_skipped: "queue_step q (snd (mark_skipped now i reason q))"
| st_rate_limited: "queue_step q (snd (requeue_rate_limited i q))"
| st_dequeue: "queue_step q (snd (dequeue_next_pending op ns b now q))"
| st_batch: "queue_step q (snd (dequeue_batch_pending op ns b now n q))"
| st_reopen: "queue_step q (snd (reopen_force_redescribe_candidates ns keys q))"
| st_reset_processing: "queue_step q (snd (reset_processing_for_op op ns q))"
| st_reset_failed: "queue_step q (snd (reset_failed_for_op op ns q))"
| st_reconcile: "queue_step q (snd (reconcile_satisfied_reembed_pending now d vd ns q))"
| st_clear: "queue_step q (clear_for_run op ns q)"
| st_requeue_skipped: "queue_step q (snd (requeue_skipped op ns q))"
| st_requeue_dead: "queue_step q (snd (requeue_dead op ns q))"

lemma queue_step_ok: "queue_step q q' \<Longrightarrow> queue_ok q \<Longrightarrow> queue_ok q'"
  by (induction rule: queue_step.induct)
     (simp_all add: queue_ok_enqueue_candidate queue_ok_enqueue_with_priority queue_ok_prune_loop
       queue_ok_reopen queue_ok_reconcile queue_ok_dequeue queue_ok_batch queue_ok_update
       queue_ok_delete reset_stale_processing_claims_def heartbeat_def cleanup_queue_entry_def
       prune_dead_orphans_def prune_dead_entity_orphans_def record_item_failure_typed_def
       requeue_wrong_op_def skip_wrong_type_def mark_done_def mark_skipped_def
       requeue_rate_limited_def reset_processing_for_op_def reset_failed_for_op_def
       reconcile_satisfied_reembed_pending_def clear_for_run_def requeue_skipped_def
       requeue_dead_def requeue_row_def Let_def q_key_def)

text \<open>Claim C32. Whatever sequence of queue operations runs, in whatever interleaving of
  workers, sweeps, enqueues and maintenance commands, the queue that started empty keeps unique
  row ids and at most one row per namespace, operation and item key.\<close>

theorem queue_always_ok:
  assumes "queue_step\<^sup>*\<^sup>* \<lparr>q_rows = [], q_seq = 0\<rparr> q"
  shows "distinct (map q_id (q_rows q))
    \<and> (\<forall>r \<in> set (q_rows q). \<forall>r' \<in> set (q_rows q).
         q_operation r \<noteq> None \<and> q_key r = q_key r' \<longrightarrow> r = r')"
proof -
  have "queue_ok q"
    using assms
  proof (induction rule: rtranclp_induct)
    case base
    show ?case by (simp add: queue_ok_def keyed_def)
  next
    case (step q q')
    then show ?case by (blast intro: queue_step_ok)
  qed
  then have ids: "distinct (map q_id (q_rows q))" and keys: "distinct (map q_key (keyed (q_rows q)))"
    by (simp_all add: queue_ok_def)
  have "r = r'" if "r \<in> set (q_rows q)" "r' \<in> set (q_rows q)" "q_operation r \<noteq> None" "q_key r = q_key r'"
    for r r'
  proof -
    have "q_operation r' \<noteq> None" using that(3,4) by (simp add: q_key_def)
    with that have "r \<in> set (keyed (q_rows q))" "r' \<in> set (keyed (q_rows q))"
      by (simp_all add: keyed_def)
    with keys that(4) show ?thesis by (metis distinct_map inj_onD)
  qed
  with ids show ?thesis by blast
qed

definition demo_queue :: queue_db where
  "demo_queue = \<lparr>q_rows = [new_queue_row 0 1 ''a'' ''k1'' ''memory'' ''BodyEnrich'' None 0,
      new_queue_row 0 2 ''a'' ''k2'' ''memory'' ''BodyEnrich'' None 5,
      new_queue_row 0 3 ''b'' ''k2'' ''memory'' ''BodyEnrich'' None 9], q_seq = 3\<rparr>"

theorem queue_always_ok_witness:
  "distinct (map q_id (q_rows (enqueue_candidate_with_priority 0 ''k'' ''entity'' ''EntityDescriptions'' 100
      \<lparr>q_rows = [], q_seq = 0\<rparr>)))"
proof -
  let ?q = "\<lparr>q_rows = [], q_seq = 0\<rparr>"
  have "queue_step ?q (enqueue_candidate_with_priority 0 ''k'' ''entity'' ''EntityDescriptions'' 100 ?q)"
    by (rule st_enqueue_priority)
  then have "queue_step\<^sup>*\<^sup>* ?q (enqueue_candidate_with_priority 0 ''k'' ''entity'' ''EntityDescriptions'' 100 ?q)"
    by simp
  from queue_always_ok [OF this] show ?thesis by blast
qed

section \<open>Claims\<close>

lemma set_claim_list: "set (claim_list op ns b now rows) = {r \<in> set rows. eligible op ns b now r}"
  by (auto simp: claim_list_def)

lemma claim_list_Nil: "claim_list op ns b now rows = [] \<longleftrightarrow> (\<forall>r \<in> set rows. \<not> eligible op ns b now r)"
  using set_claim_list [of op ns b now rows] by (metis (no_types, lifting) Collect_empty_eq set_empty)

lemma claim_list_sorted: "sorted (map claim_order (claim_list op ns b now rows))"
  by (simp add: claim_list_def)

lemma claim_list_distinct:
  assumes "distinct (map q_id rows)"
  shows "distinct (map q_id (claim_list op ns b now rows))"
proof -
  have "distinct (map q_id (filter (eligible op ns b now) rows))"
    using assms by (rule distinct_map_filter)
  then show ?thesis
    unfolding claim_list_def by (metis mset_map mset_sort mset_eq_imp_distinct_iff)
qed

lemma claim_not_eligible: "\<not> eligible op ns b now' (claim now r)"
  by (simp add: eligible_def claim_def)

text \<open>After claiming the first row, the rest of the list is the next claim list.\<close>

lemma claim_list_after_claim:
  assumes ids: "distinct (map q_id rows)" and cl: "claim_list op ns b now rows = r # rest"
  shows "claim_list op ns b now (sql_update (\<lambda>x. q_id x = q_id r) (claim now) rows) = rest"
proof -
  let ?e = "eligible op ns b now"
  let ?rows = "sql_update (\<lambda>x. q_id x = q_id r) (claim now) rows"
  have r: "r \<in> set rows" "?e r" using set_claim_list [of op ns b now rows] cl by auto
  have only: "x = r" if "x \<in> set rows" "q_id x = q_id r" for x
    using ids r(1) that by (metis distinct_map inj_onD)
  have filt: "filter ?e ?rows = filter (\<lambda>x. x \<noteq> r) (filter ?e rows)"
    using only
  proof (induction rows)
    case (Cons x rows)
    then show ?case by (auto simp: claim_not_eligible)
  qed simp
  have "r \<notin> set rest"
    using claim_list_distinct [OF ids, of op ns b now] cl by auto
  then have "rest = filter (\<lambda>x. x \<noteq> r) (r # rest)" by (auto intro: filter_id_iff [symmetric])
  also have "\<dots> = claim_list op ns b now ?rows"
    unfolding cl [symmetric] claim_list_def filt filter_sort ..
  finally show ?thesis by simp
qed

text \<open>The rows of a batch, claimed one at a time.\<close>

fun dequeue_n ::
  "string \<Rightarrow> string \<Rightarrow> bool \<Rightarrow> int \<Rightarrow> nat \<Rightarrow> queue_db \<Rightarrow> claimed_row list \<times> queue_db" where
  "dequeue_n op ns b now 0 q = ([], q)"
| "dequeue_n op ns b now (Suc n) q =
     (case dequeue_next_pending op ns b now q of
        (Empty, q') \<Rightarrow> ([], q')
      | (Claimed c, q') \<Rightarrow> (let (cs, q'') = dequeue_n op ns b now n q' in (c # cs, q'')))"

lemma q_update_q_update_claim:
  assumes "i \<notin> B"
  shows "q_update (\<lambda>x. q_id x \<in> B) (claim now) (q_update (\<lambda>x. q_id x = i) (claim now) q)
    = q_update (\<lambda>x. q_id x \<in> insert i B) (claim now) q"
  using assms by (auto simp: q_update_def sql_update_def claim_def)

lemma dequeue_n_eq:
  assumes "queue_ok q"
  shows "dequeue_n op ns b now n q =
    (let rs = take n (claim_list op ns b now (q_rows q)) in
     (map (\<lambda>r. claimed_of (claim now r)) rs,
      q_update (\<lambda>x. q_id x \<in> q_id ` set rs) (claim now) q))"
  using assms
proof (induction n arbitrary: q)
  case 0
  show ?case by (simp add: q_update_def sql_update_none)
next
  case (Suc n)
  show ?case
  proof (cases "claim_list op ns b now (q_rows q)")
    case Nil
    then show ?thesis by (simp add: dequeue_next_pending_def q_update_def sql_update_none)
  next
    case (Cons r rest)
    let ?q = "q_update (\<lambda>x. q_id x = q_id r) (claim now) q"
    have ids: "distinct (map q_id (q_rows q))" using Suc.prems by (rule queue_okD)
    have ok: "queue_ok ?q"
      using queue_ok_dequeue [OF Suc.prems, of op ns b now] Cons by (simp add: dequeue_next_pending_def)
    have next_list: "claim_list op ns b now (q_rows ?q) = rest"
      using claim_list_after_claim [OF ids Cons] by (simp add: q_update_def)
    have "q_id r \<notin> q_id ` set (take n rest)"
      using claim_list_distinct [OF ids, of op ns b now] Cons by (auto dest: in_set_takeD)
    then show ?thesis
      using Suc.IH [OF ok] Cons next_list q_update_q_update_claim
      by (simp add: dequeue_next_pending_def Let_def)
  qed
qed

text \<open>Claim C31. Claiming one row: the outcome is \<^verbatim>\<open>Empty\<close>, with the queue unchanged, exactly when
  the count of eligible rows that drives \<^verbatim>\<open>--until-empty\<close> is zero. Otherwise the claimed row was
  pending under the requested operation and namespace and out of backoff; no eligible row has a
  higher priority, and none of the same priority an earlier id; only that row changes: it becomes
  \<^verbatim>\<open>processing\<close>, with its attempt counted and the claim time stored.\<close>

theorem dequeue_claims_best:
  assumes "queue_ok q" and "dequeue_next_pending op ns backoff now q = (out, q')"
  shows "(out = Empty \<longleftrightarrow> count_eligible_pending op ns backoff now q = 0)
    \<and> (out = Empty \<longrightarrow> q' = q)
    \<and> (\<forall>c. out = Claimed c \<longrightarrow>
        (\<exists>r \<in> set (q_rows q). eligible op ns backoff now r \<and> c = claimed_of (claim now r)
           \<and> cl_operation c = op \<and> cl_attempt c = q_attempt r + 1
           \<and> (\<forall>x \<in> set (q_rows q). eligible op ns backoff now x \<longrightarrow>
                q_priority x < q_priority r \<or> q_priority x = q_priority r \<and> q_id r \<le> q_id x)
           \<and> q_rows q' = map (\<lambda>x. if x = r then claim now r else x) (q_rows q)))"
proof (cases "claim_list op ns backoff now (q_rows q)")
  case Nil
  then have "\<forall>r \<in> set (q_rows q). \<not> eligible op ns backoff now r" by (simp add: claim_list_Nil)
  with Nil assms(2) show ?thesis
    by (auto simp: dequeue_next_pending_def count_eligible_pending_def sql_count_eq_0)
next
  case (Cons r rest)
  have r: "r \<in> set (q_rows q)" "eligible op ns backoff now r"
    using set_claim_list [of op ns backoff now "q_rows q"] Cons by auto
  then have some: "count_eligible_pending op ns backoff now q \<noteq> 0"
    unfolding count_eligible_pending_def sql_count_eq_0 by blast
  have out: "out = Claimed (claimed_of (claim now r))"
    and q': "q' = q_update (\<lambda>x. q_id x = q_id r) (claim now) q"
    using assms(2) Cons by (simp_all add: dequeue_next_pending_def)
  have best: "q_priority x < q_priority r \<or> q_priority x = q_priority r \<and> q_id r \<le> q_id x"
    if "x \<in> set (q_rows q)" "eligible op ns backoff now x" for x
  proof -
    have "x \<in> set (r # rest)" using that set_claim_list [of op ns backoff now "q_rows q"] Cons by auto
    then have "claim_order r \<le> claim_order x"
      using claim_list_sorted [of op ns backoff now "q_rows q"] Cons by auto
    then show ?thesis by (auto simp: claim_order_def less_eq_prod_def)
  qed
  have "q_rows q' = map (\<lambda>x. if x = r then claim now r else x) (q_rows q)"
    using queue_okD(1) [OF assms(1)] r(1) unfolding q' q_update_def sql_update_def
    by (auto simp: distinct_map inj_on_def)
  with out some r best show ?thesis
    by (auto simp: claimed_of_def claim_def eligible_def intro!: bexI [of _ r])
qed

lemma demo_queue_ok: "queue_ok demo_queue"
  by (simp add: queue_ok_def demo_queue_def new_queue_row_def keyed_def q_key_def)

theorem dequeue_claims_best_witness:
  "\<exists>q'. dequeue_next_pending ''BodyEnrich'' ''a'' True 0 demo_queue =
     (Claimed \<lparr>cl_id = 2, cl_item_key = ''k2'', cl_item_type = ''memory'', cl_operation = ''BodyEnrich'',
        cl_attempt = 1\<rparr>, q') \<and> count_eligible_pending ''BodyEnrich'' ''a'' True 0 demo_queue \<noteq> 0"
proof -
  let ?out = "Claimed \<lparr>cl_id = 2, cl_item_key = ''k2'', cl_item_type = ''memory'', cl_operation = ''BodyEnrich'', cl_attempt = 1\<rparr>"
  obtain q' where run: "dequeue_next_pending ''BodyEnrich'' ''a'' True 0 demo_queue = (?out, q')"
    by (simp add: dequeue_next_pending_def claim_list_def demo_queue_def new_queue_row_def eligible_def
        backoff_ok_def claim_order_def claimed_of_def claim_def)
  from dequeue_claims_best [OF demo_queue_ok run] run show ?thesis by blast
qed

text \<open>Claim C34. The one-statement batch claim of \<^verbatim>\<open>re-embed\<close> is equivalent to that many single
  claims: it leaves the same queue and hands out the same rows (the batch lists them in table
  order, the single claims in claim order).\<close>

theorem dequeue_batch_is_iterated:
  assumes "queue_ok q"
  shows "snd (dequeue_batch_pending op ns backoff now n q) = snd (dequeue_n op ns backoff now n q)
    \<and> mset (fst (dequeue_batch_pending op ns backoff now n q)) = mset (fst (dequeue_n op ns backoff now n q))"
proof -
  let ?cl = "take n (claim_list op ns backoff now (q_rows q))"
  have ids: "distinct (map q_id (q_rows q))" using assms by (rule queue_okD)
  have dcl: "distinct ?cl"
    using claim_list_distinct [OF ids, of op ns backoff now] by (simp add: distinct_map)
  have "set (filter (\<lambda>r. q_id r \<in> q_id ` set ?cl) (q_rows q)) = set ?cl"
    using ids set_claim_list [of op ns backoff now "q_rows q"]
    by (auto simp: distinct_map inj_on_def dest: in_set_takeD)
  then have "mset (filter (\<lambda>r. q_id r \<in> q_id ` set ?cl) (q_rows q)) = mset ?cl"
    using ids dcl set_eq_iff_mset_eq_distinct [of "filter (\<lambda>r. q_id r \<in> q_id ` set ?cl) (q_rows q)" ?cl]
    by (metis distinct_filter distinct_map)
  then have "mset (map (\<lambda>r. claimed_of (claim now r)) (filter (\<lambda>r. q_id r \<in> q_id ` set ?cl) (q_rows q)))
      = mset (map (\<lambda>r. claimed_of (claim now r)) ?cl)" by simp
  then show ?thesis
    by (cases n) (simp_all add: dequeue_batch_pending_def Let_def dequeue_n_eq [OF assms])
qed

theorem dequeue_batch_is_iterated_witness:
  "mset (fst (dequeue_batch_pending ''BodyEnrich'' ''a'' True 0 2 demo_queue)) =
     mset (fst (dequeue_n ''BodyEnrich'' ''a'' True 0 2 demo_queue))"
  using dequeue_batch_is_iterated [OF demo_queue_ok] by blast

section \<open>Dead letters\<close>

text \<open>The operations that may run while an item is dead: everything but the explicit requeue, the
  deletions and the write-backs of the worker that holds the row.\<close>

inductive background_step :: "queue_db \<Rightarrow> queue_db \<Rightarrow> bool" where
  bg_enqueue: "background_step q (enqueue_candidate now d ns key ty op q)"
| bg_enqueue_priority: "background_step q (enqueue_candidate_with_priority now key ty op prio q)"
| bg_stale: "background_step q (snd (reset_stale_processing_claims now age q))"
| bg_dequeue: "background_step q (snd (dequeue_next_pending op ns b now q))"
| bg_batch: "background_step q (snd (dequeue_batch_pending op ns b now n q))"
| bg_reopen: "background_step q (snd (reopen_force_redescribe_candidates ns keys q))"
| bg_reset_processing: "background_step q (snd (reset_processing_for_op op ns q))"
| bg_reset_failed: "background_step q (snd (reset_failed_for_op op ns q))"
| bg_reconcile: "background_step q (snd (reconcile_satisfied_reembed_pending now d vd ns q))"
| bg_requeue_skipped: "background_step q (snd (requeue_skipped op ns q))"

definition dead_in :: "int \<Rightarrow> queue_db \<Rightarrow> bool" where
  "dead_in i q \<longleftrightarrow> (\<exists>r \<in> set (q_rows q). q_id r = i \<and> q_status r = Dead)"

lemma dead_in_update:
  assumes "dead_in i q" and "\<And>r. q_status r = Dead \<Longrightarrow> p r \<Longrightarrow> q_id (f r) = q_id r \<and> q_status (f r) = Dead"
  shows "dead_in i (q_update p f q)"
proof -
  from assms(1) obtain r where r: "r \<in> set (q_rows q)" "q_id r = i" "q_status r = Dead"
    by (auto simp: dead_in_def)
  then have "(if p r then f r else r) \<in> set (q_rows (q_update p f q))"
    by (auto simp: q_update_def sql_update_def)
  with r assms(2) [of r] show ?thesis unfolding dead_in_def by (metis (full_types))
qed

lemma dead_in_update_live:
  "dead_in i q \<Longrightarrow> (\<And>r. p r \<Longrightarrow> q_status r \<noteq> Dead) \<Longrightarrow> dead_in i (q_update p f q)"
  by (rule dead_in_update) blast+

lemma dead_in_insert: "dead_in i q \<Longrightarrow> dead_in i (insert_or_ignore now ns key ty op mem prio q)"
  by (auto simp: dead_in_def insert_or_ignore_def)

lemma dead_in_reopen: "dead_in i q \<Longrightarrow> dead_in i (snd (reopen_force_redescribe_candidates ns keys q))"
proof (induction ns keys q rule: reopen_force_redescribe_candidates.induct)
  case (2 ns key keys q)
  have "dead_in i (q_update (reopenable ns key) reopen_row q)"
    by (rule dead_in_update [OF "2.prems"]) (simp add: reopenable_def)
  with "2.IH" show ?case by (simp add: Let_def case_prod_beta)
qed simp

lemma dead_in_reconcile: "dead_in i q \<Longrightarrow> dead_in i (snd (reconcile_loop now d vd ns todo n q))"
proof (induction now d vd ns todo n q rule: reconcile_loop.induct)
  case (2 now d vd ns j key rest n q)
  show ?case
  proof (cases "reembed_satisfied d vd ns key")
    case True
    have "dead_in i (q_update (\<lambda>r. q_id r = j \<and> q_status r = Pending) (\<lambda>r. r\<lparr>q_status := Done,
        q_done_at := Some now, q_claimed_at := None,
        q_error := Some ''reconciled: live embedding already present''\<rparr>) q)"
      by (rule dead_in_update [OF "2.prems"]) simp
    with "2.IH"(1) [OF True refl] True show ?thesis by (simp add: Let_def)
  next
    case False
    with "2.IH"(2) "2.prems" show ?thesis by simp
  qed
qed simp

lemma dead_in_claim:
  assumes "dead_in i q" and "queue_ok q" and "\<And>r. r \<in> set rs \<Longrightarrow> r \<in> set (q_rows q) \<and> q_status r = Pending"
  shows "dead_in i (q_update (\<lambda>x. q_id x \<in> q_id ` set rs) (claim now) q)"
proof -
  from assms(1) obtain r where r: "r \<in> set (q_rows q)" "q_id r = i" "q_status r = Dead"
    by (auto simp: dead_in_def)
  have "q_id r \<notin> q_id ` set rs"
  proof
    assume "q_id r \<in> q_id ` set rs"
    then obtain r' where "r' \<in> set rs" "q_id r' = q_id r" by auto
    with assms(3) [of r'] r(1) queue_okD(1) [OF assms(2)] have "r' = r" by (metis distinct_map inj_onD)
    with assms(3) [of r'] \<open>r' \<in> set rs\<close> r(3) show False by simp
  qed
  then have "r \<in> set (q_rows (q_update (\<lambda>x. q_id x \<in> q_id ` set rs) (claim now) q))"
    using r(1) by (auto simp: q_update_def sql_update_def)
  with r show ?thesis by (auto simp: dead_in_def)
qed

lemma dequeue_as_n: "snd (dequeue_next_pending op ns b now q) = snd (dequeue_n op ns b now (Suc 0) q)"
  by (simp split: prod.split dequeue_outcome.split)

lemma dead_in_dequeue_n:
  assumes "dead_in i q" and "queue_ok q"
  shows "dead_in i (snd (dequeue_n op ns b now n q))"
proof -
  have "r \<in> set (q_rows q) \<and> q_status r = Pending" if "r \<in> set (take n (claim_list op ns b now (q_rows q)))" for r
    using that set_claim_list [of op ns b now "q_rows q"] by (auto simp: eligible_def dest: in_set_takeD)
  then show ?thesis
    using dead_in_claim [OF assms] by (simp add: dequeue_n_eq [OF assms(2)] Let_def)
qed

lemma batch_snd_as_n:
  "queue_ok q \<Longrightarrow> snd (dequeue_batch_pending op ns b now n q) = snd (dequeue_n op ns b now n q)"
  by (simp add: dequeue_batch_pending_def Let_def dequeue_n_eq)

lemma background_step_dead:
  assumes "background_step q q'" and "queue_ok q" and "dead_in i q"
  shows "dead_in i q'"
  using assms
proof (induction rule: background_step.induct)
  case (bg_enqueue q now d ns key ty op)
  then show ?case by (simp add: enqueue_candidate_def dead_in_insert split: option.split)
next
  case (bg_enqueue_priority q now key ty op prio)
  then show ?case
    unfolding enqueue_candidate_with_priority_def bump_priority_def
    by (intro dead_in_update dead_in_insert) simp_all
next
  case (bg_dequeue q op ns b now)
  then show ?case unfolding dequeue_as_n by (intro dead_in_dequeue_n)
next
  case (bg_batch q op ns b now n)
  then show ?case by (simp add: batch_snd_as_n dead_in_dequeue_n)
qed (auto simp: reset_stale_processing_claims_def reset_processing_for_op_def reset_failed_for_op_def
      reconcile_satisfied_reembed_pending_def requeue_skipped_def Let_def
      intro!: dead_in_update_live dead_in_reopen dead_in_reconcile)

lemma background_step_is_step: "background_step q q' \<Longrightarrow> queue_step q q'"
  by (induction rule: background_step.induct) (rule queue_step.intros)+

text \<open>Claim C35. A dead-letter row stays dead: no sequence of enqueues, claims, stale sweeps,
  resume and retry resets, force-redescribe reopenings and reconciliations makes it pending again
  or removes it. Only \<^verbatim>\<open>--requeue-dead\<close> revives it.\<close>

theorem dead_rows_stay_dead:
  assumes "background_step\<^sup>*\<^sup>* q q'" and "queue_ok q" and "dead_in i q"
  shows "dead_in i q'"
proof -
  from assms(1) have "queue_ok q' \<and> dead_in i q'"
  proof (induction rule: rtranclp_induct)
    case base
    show ?case using assms(2,3) ..
  next
    case (step y z)
    then show ?case using background_step_dead background_step_is_step queue_step_ok by blast
  qed
  then show ?thesis ..
qed

definition demo_dead :: queue_db where
  "demo_dead = \<lparr>q_rows = [(new_queue_row 0 1 ''a'' ''k1'' ''memory'' ''BodyEnrich'' None 0)\<lparr>q_status := Dead\<rparr>],
     q_seq = 1\<rparr>"

theorem dead_rows_stay_dead_witness:
  "dead_in 1 (enqueue_candidate_with_priority 5 ''k1'' ''memory'' ''BodyEnrich'' 100 demo_dead)"
proof -
  have "background_step demo_dead (enqueue_candidate_with_priority 5 ''k1'' ''memory'' ''BodyEnrich'' 100 demo_dead)"
    by (rule bg_enqueue_priority)
  then have "background_step\<^sup>*\<^sup>* demo_dead (enqueue_candidate_with_priority 5 ''k1'' ''memory'' ''BodyEnrich'' 100 demo_dead)"
    by simp
  then show ?thesis
    by (rule dead_rows_stay_dead)
       (simp_all add: demo_dead_def new_queue_row_def queue_ok_def keyed_def q_key_def dead_in_def)
qed

section \<open>Failures\<close>

lemma q_rows_update_one:
  assumes "queue_ok q" and "r \<in> set (q_rows q)"
  shows "q_rows (q_update (\<lambda>x. q_id x = q_id r) f q) = map (\<lambda>x. if x = r then f r else x) (q_rows q)"
  using queue_okD(1) [OF assms(1)] assms(2)
  by (auto simp: q_update_def sql_update_def distinct_map inj_on_def)

lemma half_jitter_secs:
  fixes b x :: nat
  assumes "60000 \<le> b" and "b \<le> 900000" and "x < b div 2"
  shows "30 \<le> max ((b div 2 + x) div 1000) 1 \<and> max ((b div 2 + x) div 1000) 1 \<le> 900"
proof -
  have "30000 \<le> b div 2 + x" "b div 2 + x \<le> 900000" using assms by linarith+
  then show ?thesis by auto
qed

lemma retry_secs_range:
  assumes "rng_ok rng"
  shows "30 \<le> retry_secs rng attempt \<and> retry_secs rng attempt \<le> 900"
proof -
  let ?a = "nat (max attempt 0) mod 2 ^ 32"
  let ?d = "compute_delay rng llm_rate_limit ?a"
  let ?b = "delay_base llm_rate_limit ?a"
  have "delay_base llm_rate_limit 0 = 60000"
    by (simp add: delay_base_def llm_rate_limit_def sat_u64_def U64_MAX_def)
  then have base: "60000 \<le> ?b"
    using delay_base_mono [of llm_rate_limit 0 ?a] by (simp add: llm_rate_limit_def)
  have cap: "?b \<le> 900000" using delay_base_le [of llm_rate_limit ?a] by (simp add: llm_rate_limit_def)
  have d: "?d = ?b div 2 + rng (?b div 2)"
  proof -
    have "jitter llm_rate_limit = Half" by (simp add: llm_rate_limit_def)
    moreover have "?b div 2 \<noteq> 0" using base by simp
    ultimately show ?thesis by (simp add: compute_delay_def Let_def)
  qed
  have "0 < ?b div 2" using base by simp
  then have "rng (?b div 2) < ?b div 2" using assms unfolding rng_ok_def by blast
  from half_jitter_secs [OF base cap this] show ?thesis unfolding retry_secs_def d .
qed

text \<open>Recording a failure: a permanent outcome, or a transient one whose attempt
  reached the cap, makes the row a dead letter; any other failure reschedules it between 30 and
  900 seconds ahead, so that a claim honouring backoff does not pick it up at once. Nothing else
  of the queue changes.\<close>

theorem record_failure_outcome:
  assumes "rng_ok rng" and "queue_ok q" and "r \<in> set (q_rows q)"
    and "record_item_failure_typed rng now (q_id r) attempt mx oc err fin itok otok q = (res, q')"
  shows "res = oc \<and> (\<exists>r'. q_rows q' = map (\<lambda>x. if x = r then r' else x) (q_rows q)
    \<and> q_id r' = q_id r \<and> q_key r' = q_key r \<and> q_attempt r' = q_attempt r
    \<and> (if oc = HardFailure \<or> int mx \<le> attempt then q_status r' = Dead
       else q_status r' = Pending
         \<and> (\<exists>t. q_next_retry_at r' = Some t \<and> now + 30 \<le> t \<and> t \<le> now + 900)
         \<and> \<not> eligible op ns True (now + 29) r'))"
proof -
  note range = retry_secs_range [OF assms(1), of attempt]
  have q': "q' = snd (record_item_failure_typed rng now (q_id r) attempt mx oc err fin itok otok q)"
    and res: "res = oc"
    using assms(4) by (auto simp: record_item_failure_typed_def split: if_splits)
  show ?thesis
    unfolding res q' record_item_failure_typed_def failure_is_terminal_def snd_conv
    by (cases "oc = HardFailure \<or> int mx \<le> attempt")
       (use range in \<open>simp_all only: if_True if_False q_rows_update_one [OF assms(2,3)], 
         auto simp: q_key_def eligible_def backoff_ok_def\<close>)
qed

theorem record_failure_outcome_witness:
  "\<exists>r'. q_rows (snd (record_item_failure_typed (\<lambda>n. 0) 100 2 1 8 Transient ''x'' None None None demo_queue))
       = map (\<lambda>x. if x = q_rows demo_queue ! 1 then r' else x) (q_rows demo_queue)
     \<and> (\<exists>t. q_next_retry_at r' = Some t \<and> 130 \<le> t \<and> t \<le> 1000)"
proof -
  let ?r = "q_rows demo_queue ! 1"
  have r: "?r \<in> set (q_rows demo_queue)" "q_id ?r = 2"
    by (simp_all add: demo_queue_def new_queue_row_def)
  have rng: "rng_ok (\<lambda>n. 0)" by (simp add: rng_ok_def)
  have "fst (record_item_failure_typed (\<lambda>n. 0) 100 (q_id ?r) 1 8 Transient ''x'' None None None demo_queue) = Transient
    \<and> (\<exists>r'. q_rows (snd (record_item_failure_typed (\<lambda>n. 0) 100 (q_id ?r) 1 8 Transient ''x'' None None None demo_queue))
       = map (\<lambda>x. if x = ?r then r' else x) (q_rows demo_queue)
     \<and> (\<exists>t. q_next_retry_at r' = Some t \<and> 130 \<le> t \<and> t \<le> 1000))"
    using record_failure_outcome [OF rng demo_queue_ok r(1) surjective_pairing,
        of 100 1 8 Transient "''x''" None None None "''o''" "''n''"] by simp blast
  with r(2) show ?thesis by auto
qed

section \<open>Vetoes and pruning\<close>

lemma foldl_union_set: "foldl (\<lambda>acc x. acc \<union> f x) A xs = A \<union> (\<Union>x \<in> set xs. f x)"
  by (induction xs arbitrary: A) auto

text \<open>The paged veto check is equivalent to loading the whole veto set: it keeps exactly
  the candidates that are not skipped for the operation, in order.\<close>

theorem retain_unskipped_is_filter:
  "retain_unskipped q op keys = filter (\<lambda>k. k \<notin> skipped_item_keys q op) keys"
proof (cases "keys = []")
  case False
  let ?pages = "chunks_of DEFAULT_ENRICH_SCAN_PAGE_SIZE keys"
  have "set (concat ?pages) = set keys" by (simp add: DEFAULT_ENRICH_SCAN_PAGE_SIZE_def)
  then have pages: "(\<Union>page \<in> set ?pages. set page) = set keys" by simp
  have "foldl (\<lambda>acc page. acc \<union> set (map q_item_key
      (filter (\<lambda>r. q_status r = Skipped \<and> op_or_null op r \<and> q_item_key r \<in> set page) (q_rows q)))) {} ?pages
    = (\<Union>page \<in> set ?pages. {k \<in> set page. k \<in> skipped_item_keys q op})"
    unfolding foldl_union_set by (auto simp: skipped_item_keys_def)
  also have "\<dots> = {k \<in> set keys. k \<in> skipped_item_keys q op}" using pages by auto
  finally show ?thesis using False by (auto simp: retain_unskipped_def intro: filter_cong)
qed (simp add: retain_unskipped_def)

lemma prune_loop_eq:
  "distinct (map fst dead) \<Longrightarrow> prune_loop d ns dead n q =
     (n + length (filter (\<lambda>(i, name). live_memory_id d ns name = None) dead),
      q_delete (\<lambda>r. \<exists>name. (q_id r, name) \<in> set dead \<and> live_memory_id d ns name = None) q)"
proof (induction d ns dead n q rule: prune_loop.induct)
  case (1 d ns n q)
  then show ?case by (simp add: q_delete_def sql_delete_def)
next
  case (2 d ns i name dead n q)
  then show ?case
    by (cases "live_memory_id d ns name = None")
       (auto simp: q_delete_def sql_delete_def intro!: filter_cong arg_cong [of _ _ "\<lambda>x. q\<lparr>q_rows := x\<rparr>"])
qed

text \<open>Pruning orphaned dead letters removes exactly the dead memory rows of the namespace
  and operation whose memory no longer exists there, and reports their number; no other row, and
  in particular no row of another namespace, is touched.\<close>

theorem prune_dead_orphans_exact:
  assumes "queue_ok q" and "prune_dead_orphans d op ns q = (n, q')"
    and "orphan = (\<lambda>r. q_status r = Dead \<and> q_item_type r = ''memory'' \<and> op_or_null op r
           \<and> q_namespace r = ns \<and> live_memory_id d ns (q_item_key r) = None)"
  shows "q_rows q' = filter (\<lambda>r. \<not> orphan r) (q_rows q) \<and> n = length (filter orphan (q_rows q))"
proof -
  let ?sel = "\<lambda>r. q_status r = Dead \<and> q_item_type r = ''memory'' \<and> op_or_null op r \<and> q_namespace r = ns"
  let ?dead = "map (\<lambda>r. (q_id r, q_item_key r)) (filter ?sel (q_rows q))"
  have ids: "distinct (map q_id (q_rows q))" using assms(1) by (rule queue_okD)
  then have dist: "distinct (map fst ?dead)" by (simp add: comp_def distinct_map_filter)
  have hit: "(\<exists>name. (q_id r, name) \<in> set ?dead \<and> live_memory_id d ns name = None) \<longleftrightarrow> orphan r"
    if "r \<in> set (q_rows q)" for r
    using that ids unfolding assms(3) by (auto simp: distinct_map inj_on_def)
  have "length (filter (\<lambda>(i, name). live_memory_id d ns name = None) ?dead) = length (filter orphan (q_rows q))"
    unfolding assms(3) by (simp add: filter_map comp_def case_prod_beta conj_commute conj_left_commute)
  moreover have "sql_delete (\<lambda>r. \<exists>name. (q_id r, name) \<in> set ?dead \<and> live_memory_id d ns name = None) (q_rows q)
      = filter (\<lambda>r. \<not> orphan r) (q_rows q)"
    unfolding sql_delete_def by (rule filter_cong) (use hit in auto)
  ultimately show ?thesis
    using assms(2) unfolding prune_dead_orphans_def prune_loop_eq [OF dist] by (auto simp: q_delete_def)
qed

theorem prune_dead_orphans_exact_witness:
  "\<exists>n q'. prune_dead_orphans empty_db ''BodyEnrich'' ''a'' demo_dead = (n, q') \<and> n = 1 \<and> q_rows q' = []"
proof -
  obtain n q' where run: "prune_dead_orphans empty_db ''BodyEnrich'' ''a'' demo_dead = (n, q')" by force
  have "queue_ok demo_dead" by (simp add: demo_dead_def new_queue_row_def queue_ok_def keyed_def q_key_def)
  from prune_dead_orphans_exact [OF this run refl] run show ?thesis
    by (simp add: demo_dead_def new_queue_row_def op_or_null_def live_memory_id_def empty_db_def)
qed

section \<open>Hot enqueues\<close>

text \<open>A hot-priority entity key that is not queued yet lands in the empty namespace, so no
  drain of a named namespace ever claims it, although it was enqueued to be claimed first.\<close>

theorem hot_enqueue_not_claimable:
  assumes "ns \<noteq> []" and "\<forall>r \<in> set (q_rows q). q_item_key r \<noteq> key"
    and "dequeue_next_pending op ns backoff now
           (enqueue_candidate_with_priority t key ty ''EntityDescriptions'' PRIORITY_HOT q) = (Claimed c, q')"
  shows "cl_item_key c \<noteq> key"
proof -
  let ?q = "enqueue_candidate_with_priority t key ty ''EntityDescriptions'' PRIORITY_HOT q"
  obtain r rest where cl: "claim_list op ns backoff now (q_rows ?q) = r # rest"
    using assms(3) by (cases "claim_list op ns backoff now (q_rows ?q)") (auto simp: dequeue_next_pending_def)
  then have "r \<in> set (q_rows ?q)" "eligible op ns backoff now r"
    using set_claim_list [of op ns backoff now "q_rows ?q"] by auto
  moreover have "cl_item_key c = q_item_key r"
    using assms(3) cl by (auto simp: dequeue_next_pending_def claimed_of_def claim_def)
  moreover have "q_namespace r = []" if "r \<in> set (q_rows ?q)" "q_item_key r = key" for r
  proof -
    from that(1) obtain x where x: "x \<in> set (q_rows (insert_or_ignore t [] key ty ''EntityDescriptions'' None PRIORITY_HOT q))"
        "q_item_key r = q_item_key x" "q_namespace r = q_namespace x"
      by (auto simp: enqueue_candidate_with_priority_def bump_priority_def q_update_def sql_update_def)
    from x(1) have "x \<in> set (q_rows q) \<or> q_namespace x = []"
      by (auto simp: insert_or_ignore_def new_queue_row_def split: if_splits)
    with x(2,3) that(2) assms(2) show ?thesis by auto
  qed
  ultimately show ?thesis using assms(1) by (auto simp: eligible_def)
qed

theorem hot_enqueue_not_claimable_witness:
  "\<exists>c q'. dequeue_next_pending ''BodyEnrich'' ''a'' True 0
      (enqueue_candidate_with_priority 0 ''hot'' ''entity'' ''EntityDescriptions'' PRIORITY_HOT demo_queue)
      = (Claimed c, q') \<and> cl_item_key c \<noteq> ''hot''"
proof -
  let ?q = "enqueue_candidate_with_priority 0 ''hot'' ''entity'' ''EntityDescriptions'' PRIORITY_HOT demo_queue"
  obtain c q' where run: "dequeue_next_pending ''BodyEnrich'' ''a'' True 0 ?q = (Claimed c, q')"
    by (simp add: dequeue_next_pending_def claim_list_def enqueue_candidate_with_priority_def bump_priority_def
        q_update_def insert_or_ignore_def demo_queue_def new_queue_row_def eligible_def backoff_ok_def
        claim_order_def PRIORITY_HOT_def)
  have "\<forall>r \<in> set (q_rows demo_queue). q_item_key r \<noteq> ''hot''"
    by (simp add: demo_queue_def new_queue_row_def)
  from hot_enqueue_not_claimable [OF _ this run] run show ?thesis by auto
qed

text \<open>The priority bump matches rows by item key alone: a row that a worker of another
  operation or namespace is processing under the same key goes back to pending and is claimable
  again while the first claim is still running.\<close>

theorem priority_bump_releases_foreign_claim:
  assumes "r \<in> set (q_rows q)" and "q_item_key r = key" and "q_status r = Processing"
    and "q_priority r < prio" and "q_operation r = Some op'" and "q_next_retry_at r = None"
  shows "\<exists>r' \<in> set (q_rows (enqueue_candidate_with_priority now key ty op prio q)).
    q_id r' = q_id r \<and> eligible op' (q_namespace r) backoff t r'"
proof -
  let ?f = "\<lambda>r. r\<lparr>q_priority := max (q_priority r) prio,
              q_status := (if q_status r \<in> {Done, Skipped, Dead} then q_status r else Pending)\<rparr>"
  have "r \<in> set (q_rows (insert_or_ignore now '''' key ty op None prio q))"
    using assms(1) by (simp add: insert_or_ignore_def)
  then have "?f r \<in> set (q_rows (enqueue_candidate_with_priority now key ty op prio q))"
    using assms(2,4) by (force simp: enqueue_candidate_with_priority_def bump_priority_def q_update_def sql_update_def)
  moreover have "eligible op' (q_namespace r) backoff t (?f r)"
    using assms(3,5,6) by (simp add: eligible_def backoff_ok_def)
  ultimately show ?thesis by (intro bexI [of _ "?f r"]) simp_all
qed

theorem priority_bump_releases_foreign_claim_witness:
  "\<exists>r' \<in> set (q_rows (enqueue_candidate_with_priority 0 ''k1'' ''entity'' ''EntityDescriptions'' 100
      (snd (dequeue_next_pending ''BodyEnrich'' ''a'' True 0
         \<lparr>q_rows = [new_queue_row 0 1 ''a'' ''k1'' ''memory'' ''BodyEnrich'' None 0], q_seq = 1\<rparr>)))).
    q_id r' = 1 \<and> eligible ''BodyEnrich'' ''a'' True 0 r'"
proof -
  let ?r = "claim 0 (new_queue_row 0 1 ''a'' ''k1'' ''memory'' ''BodyEnrich'' None 0)"
  have q: "snd (dequeue_next_pending ''BodyEnrich'' ''a'' True 0
      \<lparr>q_rows = [new_queue_row 0 1 ''a'' ''k1'' ''memory'' ''BodyEnrich'' None 0], q_seq = 1\<rparr>)
    = \<lparr>q_rows = [?r], q_seq = 1\<rparr>"
    by (simp add: dequeue_next_pending_def claim_list_def q_update_def new_queue_row_def eligible_def
        backoff_ok_def claim_order_def)
  have id: "q_id ?r = 1" "q_namespace ?r = ''a''" by (simp_all add: claim_def new_queue_row_def)
  show ?thesis
    unfolding q using priority_bump_releases_foreign_claim
      [of ?r "\<lparr>q_rows = [?r], q_seq = 1\<rparr>" "''k1''" 100 "''BodyEnrich''" 0 "''entity''" "''EntityDescriptions''" True 0,
       unfolded id]
    by (simp add: claim_def new_queue_row_def)
qed

end
