(* ===== verification/Drain_Correct.thy ===== *)
theory Drain_Correct
  imports Drain Queue_Correct
begin

text \<open>
  Correctness of the serial drain. A turn opens some rows (claims them) and closes each of them
  again, one update per row; \<open>turn_rel\<close> follows the rows through a turn. From it come the frame
  of a whole drain, the agreement of its tally with the table, and the measure that makes the loop
  return: every turn either uses up claims the rows are good for or sleeps towards the rate-limit
  deadline.
\<close>

section \<open>Rows during a turn\<close>

definition same_item :: "queue_row \<Rightarrow> queue_row \<Rightarrow> bool" where
  "same_item x x' \<longleftrightarrow> q_id x' = q_id x \<and> q_key x' = q_key x \<and> q_item_type x' = q_item_type x
     \<and> q_priority x' = q_priority x \<and> q_created_at x' = q_created_at x"

definition pending_of :: "string \<Rightarrow> string \<Rightarrow> queue_row \<Rightarrow> bool" where
  "pending_of op ns r \<longleftrightarrow> q_status r = Pending \<and> q_operation r = Some op \<and> q_namespace r = ns"

text \<open>\<open>all\<close> are the ids claimed in the turn, \<open>unsettled\<close> those whose row is not closed yet.\<close>

definition turn_rel ::
  "(queue_row \<Rightarrow> bool) \<Rightarrow> string \<Rightarrow> string \<Rightarrow> int set \<Rightarrow> int set \<Rightarrow> queue_db \<Rightarrow> queue_db \<Rightarrow> bool" where
  "turn_rel K op ns all unsettled q0 q \<longleftrightarrow>
     list_all2 (\<lambda>x x'. if q_id x \<notin> all then x' = x
       else pending_of op ns x \<and> same_item x x' \<and> q_attempt x' = q_attempt x + 1
         \<and> (if q_id x \<in> unsettled then q_status x' = Processing else K x'))
       (q_rows q0) (q_rows q)"

text \<open>How a turn may leave a row it claimed: with a verdict, or pending with attempts left.\<close>

definition closed :: "nat \<Rightarrow> queue_row \<Rightarrow> bool" where
  "closed mx r \<longleftrightarrow> q_status r \<in> {Done, Skipped, Dead} \<or> (q_status r = Pending \<and> q_attempt r < int mx)"

definition count_status :: "queue_status \<Rightarrow> queue_db \<Rightarrow> nat" where
  "count_status st q = sql_count (\<lambda>r. q_status r = st) (q_rows q)"

lemma turn_rel_ids: "turn_rel K op ns all unsettled q0 q \<Longrightarrow> map q_id (q_rows q) = map q_id (q_rows q0)"
  unfolding turn_rel_def
  by (rule sym, rule list.rel_eq [THEN fun_cong, THEN fun_cong, THEN iffD1], unfold list.rel_map,
      erule list.rel_mono_strong) (auto simp: same_item_def split: if_splits)

lemma turn_rel_row:
  assumes "turn_rel K op ns all unsettled q0 q" and "r \<in> set (q_rows q)"
  obtains x where "x \<in> set (q_rows q0)" "q_id r = q_id x"
    "q_id x \<in> all \<longrightarrow> q_attempt r = q_attempt x + 1 \<and> (q_id x \<in> unsettled \<longrightarrow> q_status r = Processing)"
proof -
  from assms(2) obtain j where j: "j < length (q_rows q)" "r = q_rows q ! j" by (metis in_set_conv_nth)
  have len: "length (q_rows q0) = length (q_rows q)"
    using assms(1) unfolding turn_rel_def by (rule list_all2_lengthD)
  let ?x = "q_rows q0 ! j"
  have x: "?x \<in> set (q_rows q0)" using j(1) len by simp
  have "if q_id ?x \<notin> all then r = ?x
       else pending_of op ns ?x \<and> same_item ?x r \<and> q_attempt r = q_attempt ?x + 1
         \<and> (if q_id ?x \<in> unsettled then q_status r = Processing else K r)"
    using list_all2_nthD2 [OF assms(1) [unfolded turn_rel_def] j(1)] j(2) by simp
  then have "q_id r = q_id ?x"
    "q_id ?x \<in> all \<longrightarrow> q_attempt r = q_attempt ?x + 1 \<and> (q_id ?x \<in> unsettled \<longrightarrow> q_status r = Processing)"
    by (auto simp: same_item_def split: if_splits)
  with x show ?thesis by (rule that)
qed

section \<open>Opening and closing\<close>

lemma count_status_update_none:
  assumes "\<And>r. r \<in> set (q_rows q) \<Longrightarrow> p r \<Longrightarrow> q_status r \<noteq> st \<and> q_status (f r) \<noteq> st"
  shows "count_status st (q_update p f q) = count_status st q"
proof -
  have "length (filter (\<lambda>r. q_status r = st) (map (\<lambda>r. if p r then f r else r) rs))
      = length (filter (\<lambda>r. q_status r = st) rs)" if "set rs \<subseteq> set (q_rows q)" for rs
    using that
  proof (induction rs)
    case (Cons a rs)
    then show ?case using assms [of a] by (cases "p a") simp_all
  qed simp
  then show ?thesis by (simp add: count_status_def sql_count_def q_update_def sql_update_def)
qed

text \<open>A row count after one row with a given key changed status.\<close>

lemma count_status_one:
  assumes "distinct (map q_id (q_rows q))" and "r \<in> set (q_rows q)" and "q_status r \<noteq> st"
  shows "count_status st (q_update (\<lambda>x. q_id x = q_id r) f q)
    = count_status st q + (if q_status (f r) = st then 1 else 0)"
proof -
  have "length (filter (\<lambda>r. q_status r = st) (map (\<lambda>x. if q_id x = q_id r then f x else x) rs))
      = length (filter (\<lambda>r. q_status r = st) rs) + (if r \<in> set rs \<and> q_status (f r) = st then 1 else 0)"
    if "distinct (map q_id rs)" "set rs \<subseteq> set (q_rows q)" for rs
    using that
  proof (induction rs)
    case (Cons a rs)
    have a: "a \<in> set (q_rows q)" using Cons.prems(2) by simp
    have IH: "length (filter (\<lambda>r. q_status r = st) (map (\<lambda>x. if q_id x = q_id r then f x else x) rs))
      = length (filter (\<lambda>r. q_status r = st) rs) + (if r \<in> set rs \<and> q_status (f r) = st then 1 else 0)"
      using Cons by simp
    show ?case
    proof (cases "q_id a = q_id r")
      case True
      then have "a = r" using a assms(1,2) by (metis distinct_map inj_onD)
      moreover from this have "r \<notin> set rs" using Cons.prems(1) by (force simp: image_iff)
      ultimately show ?thesis using IH assms(3) by simp
    next
      case False
      then have "a \<noteq> r" by auto
      with False IH show ?thesis by simp
    qed
  qed simp
  from this [OF assms(1) order_refl] show ?thesis
    using assms(2) by (simp add: count_status_def sql_count_def q_update_def sql_update_def)
qed

lemma turn_rel_open:
  assumes "\<And>x. x \<in> set (q_rows q) \<Longrightarrow> q_id x \<in> all \<Longrightarrow> pending_of op ns x"
  shows "turn_rel K op ns all all q (q_update (\<lambda>x. q_id x \<in> all) (claim now) q)"
  unfolding turn_rel_def q_update_def sql_update_def
  by (simp add: list_all2_map2 list_all2_same claim_def same_item_def q_key_def assms)

lemma turn_rel_heartbeat:
  assumes "turn_rel K op ns all unsettled q0 q" and "i \<in> unsettled" and "i \<in> all"
  shows "turn_rel K op ns all unsettled q0 (heartbeat now i q)"
  using assms(1) unfolding turn_rel_def heartbeat_def q_update_def sql_update_def
  by (simp add: list_all2_map2, elim list.rel_mono_strong)
     (use assms(2,3) in \<open>auto simp: same_item_def q_key_def split: if_splits\<close>)

lemma count_status_heartbeat: "count_status st (heartbeat now i q) = count_status st q"
  by (simp add: count_status_def heartbeat_def q_update_def sql_update_def sql_count_def filter_map comp_def
      if_distrib [of q_status] cong: if_cong)

lemma queue_ok_heartbeat: "queue_ok q \<Longrightarrow> queue_ok (heartbeat now i q)"
  unfolding heartbeat_def by (rule queue_ok_update) (simp_all add: q_key_def)

lemma turn_rel_close:
  assumes rel: "turn_rel K op ns all unsettled q0 q" and ok: "queue_ok q" and i: "i \<in> all" "i \<in> unsettled"
    and x: "x \<in> set (q_rows q0)" "q_id x = i"
    and f: "\<And>r. same_item r (f r) \<and> q_attempt (f r) = q_attempt r \<and> q_status (f r) = st"
    and K: "\<And>r. q_attempt r = q_attempt x + 1 \<Longrightarrow> q_status r = Processing \<Longrightarrow> K (f r)"
  shows "turn_rel K op ns all (unsettled - {i}) q0 (q_update (\<lambda>r. q_id r = i) f q)"
    and "queue_ok (q_update (\<lambda>r. q_id r = i) f q)"
    and "st' \<noteq> Processing \<Longrightarrow> count_status st' (q_update (\<lambda>r. q_id r = i) f q)
           = count_status st' q + (if st = st' then 1 else 0)"
proof -
  have ids: "map q_id (q_rows q) = map q_id (q_rows q0)" using rel by (rule turn_rel_ids)
  have dist0: "distinct (map q_id (q_rows q0))" using queue_okD(1) [OF ok] ids by simp
  have only: "y = x" if "y \<in> set (q_rows q0)" "q_id y = i" for y
    using that x dist0 by (metis distinct_map inj_onD)
  have "list_all2 (\<lambda>y y'. if q_id y \<notin> all then y' = y
       else pending_of op ns y \<and> same_item y y' \<and> q_attempt y' = q_attempt y + 1
         \<and> (if q_id y \<in> unsettled - {i} then q_status y' = Processing else K y'))
     (q_rows q0) (map (\<lambda>r. if q_id r = i then f r else r) (q_rows q))"
    unfolding list_all2_map2
  proof (rule list.rel_mono_strong [OF rel [unfolded turn_rel_def]])
    fix y y'
    assume y: "y \<in> set (q_rows q0)"
      and old: "if q_id y \<notin> all then y' = y
       else pending_of op ns y \<and> same_item y y' \<and> q_attempt y' = q_attempt y + 1
         \<and> (if q_id y \<in> unsettled then q_status y' = Processing else K y')"
    have id': "q_id y' = q_id y" using old by (auto simp: same_item_def split: if_splits)
    let ?y = "if q_id y' = i then f y' else y'"
    show "if q_id y \<notin> all then ?y = y
       else pending_of op ns y \<and> same_item y ?y \<and> q_attempt ?y = q_attempt y + 1
         \<and> (if q_id y \<in> unsettled - {i} then q_status ?y = Processing else K ?y)"
    proof (cases "q_id y = i")
      case True
      then have yx: "y = x" using only [OF y] by simp
      have y': "pending_of op ns y" "same_item y y'" "q_attempt y' = q_attempt x + 1" "q_status y' = Processing"
        using old True i yx by simp_all
      have "same_item y (f y')" using y'(2) f [of y'] unfolding same_item_def by simp
      then show ?thesis using True id' y' f [of y'] K [OF y'(3,4)] i yx by simp
    next
      case False
      then show ?thesis using old id' by simp
    qed
  qed
  then show "turn_rel K op ns all (unsettled - {i}) q0 (q_update (\<lambda>r. q_id r = i) f q)"
    by (simp add: turn_rel_def q_update_def sql_update_def)
  show "queue_ok (q_update (\<lambda>r. q_id r = i) f q)"
    using ok by (rule queue_ok_update) (use f in \<open>simp add: same_item_def\<close>)
  have "i \<in> set (map q_id (q_rows q))" unfolding ids using x by force
  then obtain r where r: "r \<in> set (q_rows q)" "q_id r = i" by auto
  obtain y where "y \<in> set (q_rows q0)" "q_id r = q_id y"
    "q_id y \<in> all \<longrightarrow> q_attempt r = q_attempt y + 1 \<and> (q_id y \<in> unsettled \<longrightarrow> q_status r = Processing)"
    by (rule turn_rel_row [OF rel r(1)])
  then have "q_status r = Processing" using r(2) i by auto
  then show "st' \<noteq> Processing \<Longrightarrow> count_status st' (q_update (\<lambda>r. q_id r = i) f q)
           = count_status st' q + (if st = st' then 1 else 0)"
    using count_status_one [OF queue_okD(1) [OF ok] r(1), of st' f] r(2) f [of r] by simp
qed

section \<open>The closing operations\<close>

text \<open>\<open>closes K i att st g\<close>: on the row \<open>i\<close>, held at attempt \<open>att\<close>, the update \<open>g\<close> sets the status \<open>st\<close>
  and establishes \<open>K\<close>, and changes neither the item nor its attempts.\<close>

definition closes :: "(queue_row \<Rightarrow> bool) \<Rightarrow> int \<Rightarrow> int \<Rightarrow> queue_status \<Rightarrow> (queue_db \<Rightarrow> queue_db) \<Rightarrow> bool" where
  "closes K i att st g \<longleftrightarrow> (\<exists>f. g = q_update (\<lambda>r. q_id r = i) f
     \<and> (\<forall>r. same_item r (f r) \<and> q_attempt (f r) = q_attempt r \<and> q_status (f r) = st)
     \<and> (\<forall>r. q_attempt r = att \<longrightarrow> K (f r)))"

lemma closesI:
  assumes "\<And>q. g q = q_update (\<lambda>r. q_id r = i) f q"
    and "\<And>r. same_item r (f r) \<and> q_attempt (f r) = q_attempt r \<and> q_status (f r) = st"
    and "\<And>r. q_attempt r = att \<Longrightarrow> K (f r)"
  shows "closes K i att st g"
  unfolding closes_def by (rule exI [of _ f]) (use assms in auto)

lemma closes_done:
  "closes (closed mx) i att Done (\<lambda>q. snd (mark_done now i mem ent ents rels cost ms q))"
  by (rule closesI) (auto simp: mark_done_def same_item_def q_key_def closed_def)

lemma closes_skipped: "closes (closed mx) i att Skipped (\<lambda>q. snd (mark_skipped now i reason q))"
  by (rule closesI) (auto simp: mark_skipped_def same_item_def q_key_def closed_def)

lemma closes_skip_wrong_type: "closes (closed mx) i att Skipped (skip_wrong_type now i reason)"
  by (rule closesI) (auto simp: skip_wrong_type_def same_item_def q_key_def closed_def)

lemma closes_rate_limited: "closes (\<lambda>r. q_status r = Pending) i att Pending (\<lambda>q. snd (requeue_rate_limited i q))"
  by (rule closesI) (auto simp: requeue_rate_limited_def same_item_def q_key_def)

lemma closes_failure:
  "closes (closed mx) i att (if failure_is_terminal oc att mx then Dead else Pending)
     (\<lambda>q. snd (record_item_failure_typed rng now i att mx oc err fin it ot q))"
proof (cases "failure_is_terminal oc att mx")
  case True
  then show ?thesis
    by (intro closesI) (auto simp: record_item_failure_typed_def same_item_def q_key_def closed_def)
next
  case False
  then have att: "att < int mx" by (auto simp: failure_is_terminal_def)
  with False show ?thesis
    by (intro closesI) (auto simp: record_item_failure_typed_def same_item_def q_key_def closed_def)
qed

lemma closes_failure_untyped:
  "closes (closed mx) i att (if failure_is_terminal (classify_enrich_outcome e) att mx then Dead else Pending)
     (\<lambda>q. snd (record_item_failure sh rng now i att mx e q))"
  unfolding record_item_failure_def by (rule closes_failure)

section \<open>The tally\<close>

text \<open>The counters moved with the table: as many rows were completed and skipped as the counters
  say, no more rows died than failures were counted, and retyped items are completed items.\<close>

definition tally_ok :: "queue_db \<Rightarrow> drain_counters \<Rightarrow> queue_db \<Rightarrow> drain_counters \<Rightarrow> bool" where
  "tally_ok q0 k0 q k \<longleftrightarrow>
     count_status Done q + dc_completed k0 = count_status Done q0 + dc_completed k
     \<and> count_status Skipped q + dc_skipped k0 = count_status Skipped q0 + dc_skipped k
     \<and> count_status Dead q0 \<le> count_status Dead q
     \<and> count_status Dead q + dc_failed k0 \<le> count_status Dead q0 + dc_failed k
     \<and> dc_retyped k0 \<le> dc_retyped k
     \<and> dc_retyped k + dc_completed k0 \<le> dc_retyped k0 + dc_completed k"

lemma tally_ok_refl: "tally_ok q k q k"
  by (simp add: tally_ok_def)

lemma tally_ok_trans: "tally_ok q0 k0 q1 k1 \<Longrightarrow> tally_ok q1 k1 q2 k2 \<Longrightarrow> tally_ok q0 k0 q2 k2"
  by (simp add: tally_ok_def)

definition well_claimed :: "queue_db \<Rightarrow> int set \<Rightarrow> claimed_row \<Rightarrow> bool" where
  "well_claimed q0 all c \<longleftrightarrow> cl_id c \<in> all
     \<and> (\<exists>x \<in> set (q_rows q0). q_id x = cl_id c \<and> cl_attempt c = q_attempt x + 1)"

text \<open>The middle of a turn that started in \<open>s0\<close>.\<close>

definition in_turn ::
  "(queue_row \<Rightarrow> bool) \<Rightarrow> drain_params \<Rightarrow> int set \<Rightarrow> int set \<Rightarrow> drain_state \<Rightarrow> drain_state \<Rightarrow> bool" where
  "in_turn K p all unsettled s0 s \<longleftrightarrow>
     turn_rel K (dp_op_label p) (dp_namespace p) all unsettled (ds_queue s0) (ds_queue s)
     \<and> queue_ok (ds_queue s) \<and> tally_ok (ds_queue s0) (ds_counters s0) (ds_queue s) (ds_counters s)"

lemma in_turn_close:
  assumes "in_turn K p all unsettled s0 s" and "closes K (cl_id c) (cl_attempt c) st g"
    and "well_claimed (ds_queue s0) all c" and "cl_id c \<in> unsettled" and "st \<noteq> Processing"
    and "\<And>q q'. count_status Done q' = count_status Done q + (if st = Done then 1 else 0)
           \<Longrightarrow> count_status Skipped q' = count_status Skipped q + (if st = Skipped then 1 else 0)
           \<Longrightarrow> count_status Dead q' = count_status Dead q + (if st = Dead then 1 else 0)
           \<Longrightarrow> tally_ok q (ds_counters s) q' k"
    and "ds_queue s' = g (ds_queue s)" and "ds_counters s' = k"
  shows "in_turn K p all (unsettled - {cl_id c}) s0 s'"
proof -
  note mid = assms(1) [unfolded in_turn_def]
  from assms(2) obtain f where g: "g = q_update (\<lambda>r. q_id r = cl_id c) f"
    and f: "\<And>r. same_item r (f r) \<and> q_attempt (f r) = q_attempt r \<and> q_status (f r) = st"
    and K: "\<And>r. q_attempt r = cl_attempt c \<Longrightarrow> K (f r)"
    unfolding closes_def by blast
  from assms(3) obtain x where x: "x \<in> set (q_rows (ds_queue s0))" "q_id x = cl_id c"
      "cl_attempt c = q_attempt x + 1" and all: "cl_id c \<in> all"
    unfolding well_claimed_def by blast
  note close = turn_rel_close [OF mid [THEN conjunct1] mid [THEN conjunct2, THEN conjunct1] all assms(4) x(1,2) f]
  have rel: "turn_rel K (dp_op_label p) (dp_namespace p) all (unsettled - {cl_id c}) (ds_queue s0) (g (ds_queue s))"
    unfolding g by (rule close(1)) (use K x(3) in simp)
  have ok: "queue_ok (g (ds_queue s))" unfolding g by (rule close(2)) (use K x(3) in simp)
  have cnt: "count_status st' (g (ds_queue s)) = count_status st' (ds_queue s) + (if st = st' then 1 else 0)"
    if "st' \<noteq> Processing" for st'
    unfolding g by (rule close(3)) (use K x(3) that in simp_all)
  have "tally_ok (ds_queue s) (ds_counters s) (g (ds_queue s)) k"
    by (rule assms(6)) (use cnt in simp_all)
  with mid rel ok show ?thesis unfolding in_turn_def assms(7,8) by (blast intro: tally_ok_trans)
qed

section \<open>Claims\<close>

lemma claim_attempt_simps:
  "fails k = Some e \<Longrightarrow> claim_attempt fails stmt (k, q) = (Inl e, (Suc k, q))"
  "fails k = None \<Longrightarrow> claim_attempt fails stmt (k, q) = (Inr (fst (stmt q)), (Suc k, snd (stmt q)))"
  by (simp_all add: claim_attempt_def case_prod_beta)

lemma busy_loop_claim:
  assumes "busy_loop kill rng msg base (claim_attempt fails stmt) a left (k, q) = (r, (k', q'), ds)"
  shows "(\<exists>e. r = Inl e \<and> q' = q) \<or> (\<exists>x. r = Inr x \<and> stmt q = (x, q'))"
  using assms
proof (induction left arbitrary: a k ds)
  case (Suc left)
  show ?case
  proof (cases "fails k")
    case None
    then show ?thesis using Suc.prems by (auto simp: claim_attempt_simps)
  next
    case (Some e)
    show ?thesis
    proof (cases "is_sqlite_busy e \<and> \<not> kill")
      case True
      obtain r1 k1 q1 ds1 where rec: "busy_loop kill rng msg base (claim_attempt fails stmt) (Suc a) left (Suc k, q)
          = (r1, (k1, q1), ds1)" by (metis prod.exhaust)
      from Suc.prems Some True rec have "r = r1" "k' = k1" "q' = q1" by (auto simp: claim_attempt_simps)
      with Suc.IH [of "Suc a" "Suc k" ds1] rec show ?thesis by simp
    next
      case False
      then show ?thesis using Suc.prems Some by (auto simp: claim_attempt_simps split: if_splits)
    qed
  qed
qed auto

lemma claim_with_retry_cases:
  assumes "claim_with_retry p t stmt q = (r, q')"
  shows "(\<exists>e. r = Inl e \<and> q' = q) \<or> (\<exists>x. r = Inr x \<and> stmt q = (x, q'))"
proof -
  obtain k' ds where "with_busy_retry_policy (dt_kill t) (dt_draw t) (dp_busy_message p) (dp_busy_retries p)
      (dp_busy_base_ms p) (claim_attempt (dt_claim_fails t) stmt) (0, q) = (r, (k', q'), ds)"
    using assms unfolding claim_with_retry_def by (auto split: prod.splits)
  then show ?thesis unfolding with_busy_retry_policy_def by (rule busy_loop_claim)
qed

text \<open>A claim statement that does not fail answers at once.\<close>

lemma claim_with_retry_ok:
  assumes "\<forall>k. dt_claim_fails t k = None"
  shows "claim_with_retry p t stmt q = (Inr (fst (stmt q)), snd (stmt q))"
proof -
  obtain left where "max (dp_busy_retries p) 1 = Suc left" by (metis Suc_pred max.strict_coboundedI2 zero_less_one)
  then show ?thesis
    using assms by (simp add: claim_with_retry_def with_busy_retry_policy_def claim_attempt_simps)
qed

lemma in_turn_open:
  assumes ok: "queue_ok (ds_queue s)"
    and pend: "\<And>x. x \<in> set (q_rows (ds_queue s)) \<Longrightarrow> q_id x \<in> all
      \<Longrightarrow> pending_of (dp_op_label p) (dp_namespace p) x"
    and q: "q = q_update (\<lambda>x. q_id x \<in> all) (claim now) (ds_queue s)"
  shows "in_turn K p all all s (s\<lparr>ds_queue := q\<rparr>)"
proof -
  have "queue_ok q" unfolding q using ok by (rule queue_ok_update) (simp add: claim_def q_key_def)
  moreover have "count_status st q = count_status st (ds_queue s)" if "st \<noteq> Pending" "st \<noteq> Processing" for st
    unfolding q by (rule count_status_update_none) (use pend that in \<open>auto simp: pending_of_def claim_def\<close>)
  ultimately show ?thesis
    using turn_rel_open [OF pend] by (simp add: in_turn_def q tally_ok_def)
qed

lemma eligible_pending_of: "eligible op ns b now r \<Longrightarrow> pending_of op ns r"
  by (simp add: eligible_def pending_of_def)

lemma same_id_same_queue_row: "queue_ok q \<Longrightarrow> x \<in> set (q_rows q) \<Longrightarrow> y \<in> set (q_rows q) \<Longrightarrow> q_id x = q_id y \<Longrightarrow> x = y"
  using queue_okD(1) by (metis distinct_map inj_onD)

lemma dequeue_opens:
  assumes ok: "queue_ok (ds_queue s)"
    and run: "dequeue_next_pending (dp_op_label p) (dp_namespace p) b now (ds_queue s) = (Claimed c, q)"
  shows "in_turn K p {cl_id c} {cl_id c} s (s\<lparr>ds_queue := q\<rparr>)" and "well_claimed (ds_queue s) {cl_id c} c"
    and "cl_operation c = dp_op_label p"
proof -
  obtain r rest where cl: "claim_list (dp_op_label p) (dp_namespace p) b now (q_rows (ds_queue s)) = r # rest"
    using run by (auto simp: dequeue_next_pending_def split: list.splits)
  then have r: "r \<in> set (q_rows (ds_queue s))" "eligible (dp_op_label p) (dp_namespace p) b now r"
    using set_claim_list [of "dp_op_label p" "dp_namespace p" b now "q_rows (ds_queue s)"] by auto
  have c: "c = claimed_of (claim now r)" and q: "q = q_update (\<lambda>x. q_id x = q_id r) (claim now) (ds_queue s)"
    using run cl by (simp_all add: dequeue_next_pending_def)
  have id: "cl_id c = q_id r" by (simp add: c claimed_of_def claim_def)
  show "well_claimed (ds_queue s) {cl_id c} c"
    using r(1) by (auto simp: well_claimed_def c claimed_of_def claim_def)
  show "cl_operation c = dp_op_label p" using r(2) by (simp add: c claimed_of_def claim_def eligible_def)
  show "in_turn K p {cl_id c} {cl_id c} s (s\<lparr>ds_queue := q\<rparr>)"
    using same_id_same_queue_row [OF ok _ r(1)] eligible_pending_of [OF r(2)] ok
    by (intro in_turn_open) (auto simp: id q)
qed

lemma batch_opens:
  assumes ok: "queue_ok (ds_queue s)"
    and run: "dequeue_batch_pending (dp_op_label p) (dp_namespace p) b now n (ds_queue s) = (cs, q)" and "cs \<noteq> []"
  shows "in_turn K p (cl_id ` set cs) (cl_id ` set cs) s (s\<lparr>ds_queue := q\<rparr>)"
    and "list_all (well_claimed (ds_queue s) (cl_id ` set cs)) cs" and "distinct (map cl_id cs)"
proof -
  let ?rows = "q_rows (ds_queue s)"
  define picked where "picked = take n (claim_list (dp_op_label p) (dp_namespace p) b now ?rows)"
  let ?sel = "filter (\<lambda>r. q_id r \<in> set (map q_id picked)) ?rows"
  have cs: "cs = map (\<lambda>r. claimed_of (claim now r)) ?sel"
    and q: "q = q_update (\<lambda>x. q_id x \<in> set (map q_id picked)) (claim now) (ds_queue s)"
    using run assms(3) by (auto simp: dequeue_batch_pending_def Let_def picked_def split: if_splits)
  have picked: "r \<in> set ?rows \<and> pending_of (dp_op_label p) (dp_namespace p) r" if "r \<in> set picked" for r
    using in_set_takeD [OF that [unfolded picked_def]] eligible_pending_of [of "dp_op_label p" "dp_namespace p" b now r]
    unfolding set_claim_list by blast
  have ids: "map cl_id cs = map q_id ?sel" unfolding cs by (simp add: comp_def claimed_of_def claim_def)
  then have "cl_id ` set cs = q_id ` set ?sel" by (metis set_map)
  also have "\<dots> = set (map q_id picked)" using picked by force
  finally have all: "cl_id ` set cs = set (map q_id picked)" .
  have "distinct (map q_id ?sel)" using queue_okD(1) [OF ok] by (rule distinct_map_filter)
  then show "distinct (map cl_id cs)" unfolding ids .
  show "list_all (well_claimed (ds_queue s) (cl_id ` set cs)) cs"
    unfolding all list_all_iff by (auto simp: well_claimed_def cs claimed_of_def claim_def)
  have "pending_of (dp_op_label p) (dp_namespace p) x" if "x \<in> set ?rows" "q_id x \<in> set (map q_id picked)" for x
  proof -
    from that(2) obtain r where "r \<in> set picked" "q_id x = q_id r" by auto
    then show ?thesis using picked [of r] same_id_same_queue_row [OF ok that(1)] by blast
  qed
  then show "in_turn K p (cl_id ` set cs) (cl_id ` set cs) s (s\<lparr>ds_queue := q\<rparr>)"
    unfolding all by (intro in_turn_open [OF ok _ q])
qed

lemma in_turn_heartbeat:
  assumes "in_turn K p all unsettled s0 s" and "i \<in> unsettled" and "i \<in> all"
  shows "in_turn K p all unsettled s0 (s\<lparr>ds_queue := heartbeat now i (ds_queue s)\<rparr>)"
  using assms(1) turn_rel_heartbeat [OF _ assms(2,3)]
  by (simp add: in_turn_def queue_ok_heartbeat tally_ok_def count_status_heartbeat)

lemma in_turn_heartbeat_all:
  assumes "in_turn K p all unsettled s0 s" and "cl_id ` set cs \<subseteq> unsettled" and "cl_id ` set cs \<subseteq> all"
  shows "in_turn K p all unsettled s0 (s\<lparr>ds_queue := heartbeat_all now cs (ds_queue s)\<rparr>)"
  using assms
proof (induction cs arbitrary: s)
  case (Cons c cs)
  have "in_turn K p all unsettled s0 (s\<lparr>ds_queue := heartbeat now (cl_id c) (ds_queue s)\<rparr>)"
    by (rule in_turn_heartbeat [OF Cons.prems(1)]) (use Cons.prems in auto)
  from Cons.IH [OF this] Cons.prems show ?case by (simp add: heartbeat_all_def)
qed (simp add: heartbeat_all_def)

section \<open>The re-embedding cycle\<close>

lemma fail_claimed_closes:
  assumes "in_turn (closed (dp_max_attempts p)) p all unsettled s0 s"
    and "list_all (well_claimed (ds_queue s0) all) cs" and "distinct (map cl_id cs)" and "cl_id ` set cs \<subseteq> unsettled"
  shows "in_turn (closed (dp_max_attempts p)) p all (unsettled - cl_id ` set cs) s0 (fail_claimed p t e cs s)"
  using assms
proof (induction cs arbitrary: s unsettled)
  case (Cons c cs)
  let ?s = "on_counters add_failed (on_queue (\<lambda>q. snd (record_item_failure (dp_show_error p) (dt_draw t)
      (dt_answered t) (cl_id c) (cl_attempt c) (dp_max_attempts p) e q)) s)"
  have "in_turn (closed (dp_max_attempts p)) p all (unsettled - {cl_id c}) s0 ?s"
    by (rule in_turn_close [where k = "add_failed (ds_counters s)", OF Cons.prems(1) closes_failure_untyped [where e = e]])
       (use Cons.prems in \<open>auto simp: tally_ok_def on_counters_def on_queue_def add_failed_def split: if_splits\<close>)
  from Cons.IH [OF this] Cons.prems show ?case
    by (simp add: image_iff subset_Diff_insert Diff_insert2 [symmetric] insert_commute)
qed simp

lemma settle_claimed_closes:
  assumes "in_turn (closed mx) p all unsettled s0 s"
    and "list_all (well_claimed (ds_queue s0) all) cs" and "distinct (map cl_id cs)" and "cl_id ` set cs \<subseteq> unsettled"
  shows "in_turn (closed mx) p all (unsettled - cl_id ` set cs) s0 (settle_claimed t out cost cs s)"
  using assms
proof (induction cs arbitrary: s unsettled)
  case (Cons c cs)
  define s1 where "s1 = (case out (cl_item_key c) of
          ItemDone mem ent ents rels _ _ _ _ \<Rightarrow>
            on_counters add_completed
              (on_queue (\<lambda>q. snd (mark_done (dt_answered t) (cl_id c) mem ent ents rels cost (dt_elapsed_ms t) q)) s)
        | ItemSkipped reason _ \<Rightarrow>
            on_counters add_skipped (on_queue (\<lambda>q. snd (mark_skipped (dt_answered t) (cl_id c) reason q)) s)
        | _ \<Rightarrow>
            on_counters add_skipped
              (on_queue (\<lambda>q. snd (mark_skipped (dt_answered t) (cl_id c) ''preservation_failed'' q)) s))"
  have skip: "in_turn (closed mx) p all (unsettled - {cl_id c}) s0
      (on_counters add_skipped (on_queue (\<lambda>q. snd (mark_skipped (dt_answered t) (cl_id c) reason q)) s))" for reason
    by (rule in_turn_close [where k = "add_skipped (ds_counters s)", OF Cons.prems(1) closes_skipped [where reason = reason]])
       (use Cons.prems in \<open>auto simp: tally_ok_def on_counters_def on_queue_def add_skipped_def\<close>)
  have done': "in_turn (closed mx) p all (unsettled - {cl_id c}) s0
      (on_counters add_completed
        (on_queue (\<lambda>q. snd (mark_done (dt_answered t) (cl_id c) mem ent ents rels cost (dt_elapsed_ms t) q)) s))"
    for mem ent ents rels
    by (rule in_turn_close [where k = "add_completed (ds_counters s)", OF Cons.prems(1) closes_done [where mem = mem and ent = ent
          and ents = ents and rels = rels and cost = cost and ms = "dt_elapsed_ms t"]])
       (use Cons.prems in \<open>auto simp: tally_ok_def on_counters_def on_queue_def add_completed_def\<close>)
  have "in_turn (closed mx) p all (unsettled - {cl_id c}) s0 s1"
    unfolding s1_def by (cases "out (cl_item_key c)") (simp_all add: skip done')
  from Cons.IH [OF this] Cons.prems show ?case
    by (simp add: s1_def [symmetric] image_iff subset_Diff_insert Diff_insert2 [symmetric] insert_commute)
qed simp

text \<open>The variables of the loop that a re-embedding cycle leaves alone.\<close>

definition same_clocks :: "drain_state \<Rightarrow> drain_state \<Rightarrow> bool" where
  "same_clocks s s' \<longleftrightarrow> ds_clock s' = ds_clock s \<and> ds_waits s' = ds_waits s
     \<and> (ds_backoff_secs s' = ds_backoff_secs s \<or> ds_backoff_secs s' = DEFAULT_RATE_LIMIT_WAIT)"

lemma same_clocks_simps [simp]:
  "same_clocks s (on_queue f s') = same_clocks s s'" "same_clocks s (on_counters g s') = same_clocks s s'"
  "same_clocks s (s'\<lparr>ds_queue := q\<rparr>) = same_clocks s s'" "same_clocks s s"
  by (simp_all add: same_clocks_def on_queue_def on_counters_def)

lemma fail_claimed_clocks: "same_clocks s0 s \<Longrightarrow> same_clocks s0 (fail_claimed p t e cs s)"
  by (induction cs arbitrary: s) simp_all

lemma settle_claimed_clocks: "same_clocks s0 s \<Longrightarrow> same_clocks s0 (settle_claimed t out cost cs s)"
  by (induction cs arbitrary: s) (simp_all split: item_result.split)

lemma run_reembed_cycle_turn:
  assumes "queue_ok (ds_queue s)" and "run_reembed_cycle p t s = (r, s')"
  shows "same_clocks s s' \<and>
    (if r = CycleProgressed
     then \<exists>all. in_turn (closed (dp_max_attempts p)) p all {} s s'
            \<and> (\<exists>x \<in> set (q_rows (ds_queue s)). q_id x \<in> all)
     else s' = s)"
proof -
  let ?stmt = "dequeue_batch_pending (dp_op_label p) (dp_namespace p) (dp_backoff p) (dt_now t) (dp_claim_batch p)"
  obtain a q where run: "claim_with_retry p t ?stmt (ds_queue s) = (a, q)" by force
  show ?thesis
  proof (cases a)
    case (Inl e)
    then have "q = ds_queue s" using claim_with_retry_cases [OF run] by auto
    then show ?thesis
      using assms(2) run Inl by (cases e) (auto simp: run_reembed_cycle_def)
  next
    case (Inr cs)
    then have stmt: "?stmt (ds_queue s) = (cs, q)" using claim_with_retry_cases [OF run] by auto
    show ?thesis
    proof (cases "cs = []")
      case True
      then have "q = ds_queue s" using stmt
        by (auto simp: dequeue_batch_pending_def Let_def filter_empty_conv q_update_def sql_update_def
            intro!: queue_db.equality map_idI split: if_splits)
      then show ?thesis using assms(2) run Inr True by (auto simp: run_reembed_cycle_def)
    next
      case False
      let ?all = "cl_id ` set cs" and ?K = "closed (dp_max_attempts p)"
      note opened = batch_opens [OF assms(1) stmt False]
      let ?s1 = "s\<lparr>ds_queue := heartbeat_all (dt_now t) cs q\<rparr>"
      have mid: "in_turn ?K p ?all ?all s ?s1"
        using in_turn_heartbeat_all [OF opened(1), of cs ?K "dt_now t"] by simp
      have s': "r = CycleProgressed" "s' = (case dt_batch t of Inl e \<Rightarrow> fail_claimed p t e cs ?s1
          | Inr out \<Rightarrow> settle_claimed t out (batch_cost_per_item out cs) cs ?s1)"
        using assms(2) run Inr False by (auto simp: run_reembed_cycle_def Let_def)
      have "in_turn ?K p ?all (?all - ?all) s s'"
        unfolding s'(2) using fail_claimed_closes [OF mid opened(2,3)] settle_claimed_closes [OF mid opened(2,3)]
        by (simp split: sum.split)
      moreover have "same_clocks s s'"
        unfolding s'(2) by (simp add: fail_claimed_clocks settle_claimed_clocks split: sum.split)
      moreover have "\<exists>x \<in> set (q_rows (ds_queue s)). q_id x \<in> ?all"
        using False opened(2) by (cases cs) (auto simp: well_claimed_def)
      ultimately show ?thesis using s'(1) by auto
    qed
  qed
qed

section \<open>One item\<close>

text \<open>How a turn that claimed one item ends: with the row closed, or with the row given back and a
  sleep towards the rate-limit deadline.\<close>

definition item_closed :: "drain_params \<Rightarrow> int \<Rightarrow> drain_state \<Rightarrow> drain_state \<Rightarrow> drain_state \<Rightarrow> bool" where
  "item_closed p i s0 s s' \<longleftrightarrow> in_turn (closed (dp_max_attempts p)) p {i} {} s0 s' \<and> same_clocks s s'"

definition item_returned ::
  "drain_params \<Rightarrow> drain_turn \<Rightarrow> int \<Rightarrow> drain_state \<Rightarrow> drain_state \<Rightarrow> drain_state \<Rightarrow> bool" where
  "item_returned p t i s0 s s' \<longleftrightarrow> in_turn (\<lambda>r. q_status r = Pending) p {i} {} s0 s'
     \<and> ds_clock s < dp_rate_limit_deadline p
     \<and> ds_clock s' = ds_clock s + rate_limit_wait t (ds_backoff_secs s) * 10 ^ 9
     \<and> ds_waits s' = ds_waits s @ [rate_limit_wait t (ds_backoff_secs s)]
     \<and> ds_backoff_secs s' = min (ds_backoff_secs s * 2) ENRICH_BACKOFF_CEILING_SECS"

lemmas state_ops = on_queue_def on_counters_def add_completed_def add_failed_def add_skipped_def add_cost_def

lemma close_item:
  assumes "in_turn K p {cl_id c} {cl_id c} s0 s" and "well_claimed (ds_queue s0) {cl_id c} c"
    and "closes K (cl_id c) (cl_attempt c) st g" and "st \<noteq> Processing" and "ds_queue s' = g (ds_queue s)"
    and "dc_completed (ds_counters s') = dc_completed (ds_counters s) + (if st = Done then 1 else 0)"
    and "dc_skipped (ds_counters s') = dc_skipped (ds_counters s) + (if st = Skipped then 1 else 0)"
    and "dc_failed (ds_counters s) + (if st = Dead then 1 else 0) \<le> dc_failed (ds_counters s')"
    and "dc_retyped (ds_counters s) \<le> dc_retyped (ds_counters s')"
    and "dc_retyped (ds_counters s') \<le> dc_retyped (ds_counters s) + (if st = Done then 1 else 0)"
  shows "in_turn K p {cl_id c} {} s0 s'"
proof -
  have "in_turn K p {cl_id c} ({cl_id c} - {cl_id c}) s0 s'"
    by (rule in_turn_close [OF assms(1,3,2) singletonI assms(4) _ assms(5) refl])
       (use assms(6-10) in \<open>simp add: tally_ok_def split: if_splits\<close>)
  then show ?thesis by simp
qed

lemma item_done_fields:
  assumes "item_done p t c mem ent ents rels cost oauth s = (nxt, s')"
  shows "ds_queue s' = snd (mark_done (dt_answered t) (cl_id c) mem ent ents rels cost (dt_elapsed_ms t) (ds_queue s))"
    and "dc_completed (ds_counters s') = dc_completed (ds_counters s) + 1"
    and "dc_skipped (ds_counters s') = dc_skipped (ds_counters s)"
    and "dc_failed (ds_counters s') = dc_failed (ds_counters s)"
    and "dc_retyped (ds_counters s') = dc_retyped (ds_counters s)" and "same_clocks s s'"
    and "\<forall>e. nxt \<noteq> Abort e"
  using assms by (auto simp: item_done_def state_ops same_clocks_def Let_def split: if_splits)

lemma item_failed_cases:
  assumes mid: "\<And>K. in_turn K p {cl_id c} {cl_id c} s0 s" and well: "well_claimed (ds_queue s0) {cl_id c} c"
    and run: "item_failed p t c e s = (nxt, s')"
  shows "nxt = Continue \<and> (item_closed p (cl_id c) s0 s s' \<or> item_returned p t (cl_id c) s0 s s')"
proof (cases "is_rate_limited e \<and> \<not> dt_kill t \<and> \<not> dp_rate_limit_deadline p \<le> ds_clock s")
  case True
  have "in_turn (\<lambda>r. q_status r = Pending) p {cl_id c} {} s0 s'"
    by (rule close_item [OF mid well closes_rate_limited])
       (use True run in \<open>auto simp: item_failed_def Let_def on_queue_def\<close>)
  then show ?thesis using True run by (auto simp: item_returned_def item_failed_def Let_def on_queue_def)
next
  case False
  let ?mx = "dp_max_attempts p"
  have s': "nxt = Continue" "same_clocks s s'" "ds_counters s' = add_failed (ds_counters s)"
    "ds_queue s' = snd (case dt_diag t of
             Some d \<Rightarrow> record_item_failure_typed (dt_draw t) (dt_answered t) (cl_id c) (cl_attempt c)
               ?mx (fd_retry_class d) (dp_show_error p e) (fd_finish_reason d)
               (fd_prompt_tokens d) (fd_completion_tokens d) (ds_queue s)
           | None \<Rightarrow> record_item_failure (dp_show_error p) (dt_draw t) (dt_answered t) (cl_id c) (cl_attempt c)
               ?mx e (ds_queue s))"
    using False run by (auto simp: item_failed_def on_queue_def on_counters_def same_clocks_def split: option.split)
  have "in_turn (closed ?mx) p {cl_id c} {} s0 s'"
  proof (cases "dt_diag t")
    case None
    show ?thesis
      by (rule close_item [OF mid well closes_failure_untyped [where e = e]])
         (use s' None in \<open>auto simp: add_failed_def split: if_splits\<close>)
  next
    case (Some d)
    show ?thesis
      by (rule close_item [OF mid well closes_failure [where oc = "fd_retry_class d" and err = "dp_show_error p e"
            and fin = "fd_finish_reason d" and it = "fd_prompt_tokens d" and ot = "fd_completion_tokens d"]])
         (use s' Some in \<open>auto simp: add_failed_def split: if_splits\<close>)
  qed
  with s' show ?thesis by (simp add: item_closed_def)
qed

lemma item_answered_cases:
  assumes mid: "\<And>K. in_turn K p {cl_id c} {cl_id c} s0 s" and well: "well_claimed (ds_queue s0) {cl_id c} c"
    and run: "item_answered p t c s = (nxt, s')"
  shows "(\<forall>e. nxt \<noteq> Abort e)
    \<and> (item_closed p (cl_id c) s0 s s' \<or> nxt = Continue \<and> item_returned p t (cl_id c) s0 s s')"
proof (cases "dt_reply t")
  case (Inl e)
  then show ?thesis using item_failed_cases [OF mid well, of t e nxt s'] run by (auto simp: item_answered_def)
next
  case (Inr res)
  have skip: "item_closed p (cl_id c) s0 s s1"
    if "ds_queue s1 = snd (mark_skipped (dt_answered t) (cl_id c) reason (ds_queue s))" "same_clocks s s1"
      "dc_completed (ds_counters s1) = dc_completed (ds_counters s)"
      "dc_skipped (ds_counters s1) = dc_skipped (ds_counters s) + 1"
      "dc_failed (ds_counters s1) = dc_failed (ds_counters s)" "dc_retyped (ds_counters s1) = dc_retyped (ds_counters s)"
    for s1 reason
    unfolding item_closed_def
    by (intro conjI that(2), rule close_item [OF mid well closes_skipped [where reason = reason]]) (use that in simp_all)
  have finish: "item_closed p (cl_id c) s0 s s1"
    if "ds_queue s1 = snd (mark_done (dt_answered t) (cl_id c) mem ent ents rels cost (dt_elapsed_ms t) (ds_queue s))"
      "same_clocks s s1" "dc_completed (ds_counters s1) = dc_completed (ds_counters s) + 1"
      "dc_skipped (ds_counters s1) = dc_skipped (ds_counters s)" "dc_failed (ds_counters s1) = dc_failed (ds_counters s)"
      "dc_retyped (ds_counters s) \<le> dc_retyped (ds_counters s1)"
      "dc_retyped (ds_counters s1) \<le> dc_retyped (ds_counters s) + 1"
    for s1 mem ent ents rels cost
    unfolding item_closed_def
    by (intro conjI that(2), rule close_item [OF mid well closes_done [where mem = mem and ent = ent and ents = ents
          and rels = rels and cost = cost and ms = "dt_elapsed_ms t"]]) (use that in simp_all)
  show ?thesis
  proof (cases res)
    case (ItemDone mem ent ents rels cb ca cost oauth)
    then have done': "item_done p t c mem ent ents rels cost oauth s = (nxt, s')"
      using run Inr by (simp add: item_answered_def)
    note fields = item_done_fields [OF done']
    have "item_closed p (cl_id c) s0 s s'" by (rule finish [OF fields(1,6,2,3,4)]) (simp_all add: fields(5))
    then show ?thesis using fields(7) by blast
  next
    case (ItemSkipped reason cost)
    then have "nxt = Continue" and s': "s' = on_queue (\<lambda>q. snd (mark_skipped (dt_answered t) (cl_id c) reason q))
        (on_counters (add_cost cost) (on_counters add_skipped s))"
      using run Inr by (simp_all add: item_answered_def)
    moreover have "item_closed p (cl_id c) s0 s s'"
      by (rule skip [of _ reason]) (simp_all add: s' state_ops same_clocks_def)
    ultimately show ?thesis by simp
  next
    case (ItemPreservationFailed score thr before after)
    then have "nxt = Continue" and s': "s' = on_queue (\<lambda>q. snd (mark_skipped (dt_answered t) (cl_id c)
        (preservation_reason p score thr before after) q)) (on_counters add_skipped s)"
      using run Inr by (simp_all add: item_answered_def)
    moreover have "item_closed p (cl_id c) s0 s s'"
      by (rule skip [of _ "preservation_reason p score thr before after"]) (simp_all add: s' state_ops same_clocks_def)
    ultimately show ?thesis by simp
  next
    case (ItemRetyped ent prev val ev cost oauth)
    then have "nxt = Continue" and s': "s' = (let s = on_queue (\<lambda>q. snd (mark_done (dt_answered t) (cl_id c)
          None (Some ent) 1 0 cost (dt_elapsed_ms t) q)) s;
          s = on_counters (\<lambda>k. (add_completed k)\<lparr>dc_retyped := dc_retyped k + 1\<rparr>) s
        in if oauth then s else on_counters (add_cost cost) s)"
      using run Inr by (simp_all add: item_answered_def)
    moreover have "item_closed p (cl_id c) s0 s s'"
      by (rule finish [of _ None "Some ent" 1 0 cost]) (simp_all add: s' Let_def state_ops same_clocks_def)
    ultimately show ?thesis by simp
  qed
qed

section \<open>One turn of the loop\<close>

definition turn_idle :: "drain_state \<Rightarrow> drain_state \<Rightarrow> bool" where
  "turn_idle s s' \<longleftrightarrow> ds_queue s' = ds_queue s \<and> ds_counters s' = ds_counters s
     \<and> ds_waits s' = ds_waits s \<and> ds_backoff_secs s' = ds_backoff_secs s"

definition turn_works :: "drain_params \<Rightarrow> drain_state \<Rightarrow> drain_state \<Rightarrow> bool" where
  "turn_works p s s' \<longleftrightarrow> ds_clock s \<le> ds_clock s' \<and> ds_waits s' = ds_waits s
     \<and> (ds_backoff_secs s' = ds_backoff_secs s \<or> ds_backoff_secs s' = DEFAULT_RATE_LIMIT_WAIT)
     \<and> (\<exists>all. in_turn (closed (dp_max_attempts p)) p all {} s s' \<and> (\<exists>x \<in> set (q_rows (ds_queue s)). q_id x \<in> all))"

definition turn_waits :: "drain_params \<Rightarrow> drain_turn \<Rightarrow> drain_state \<Rightarrow> drain_state \<Rightarrow> bool" where
  "turn_waits p t s s' \<longleftrightarrow> (\<exists>all. in_turn (\<lambda>r. q_status r = Pending) p all {} s s')
     \<and> ds_clock s < dp_rate_limit_deadline p
     \<and> ds_clock s + rate_limit_wait t (ds_backoff_secs s) * 10 ^ 9 \<le> ds_clock s'
     \<and> ds_waits s' = ds_waits s @ [rate_limit_wait t (ds_backoff_secs s)]
     \<and> ds_backoff_secs s' = min (ds_backoff_secs s * 2) ENRICH_BACKOFF_CEILING_SECS"

lemma in_turn_same_start:
  "ds_queue s1 = ds_queue s \<Longrightarrow> ds_counters s1 = ds_counters s
     \<Longrightarrow> in_turn K p all unsettled s1 s' = in_turn K p all unsettled s s'"
  by (simp add: in_turn_def)

lemma item_claimed_cases:
  assumes mid: "\<And>K. in_turn K p {cl_id c} {cl_id c} s0 s" and well: "well_claimed (ds_queue s0) {cl_id c} c"
    and op: "cl_operation c = dp_op_label p" and run: "item_claimed p t c s = (nxt, s')"
  shows "(\<forall>e. nxt \<noteq> Abort e)
    \<and> (item_closed p (cl_id c) s0 s s' \<or> nxt = Continue \<and> item_returned p t (cl_id c) s0 s s')"
proof (cases "validate_claim c (dp_op_label p) (item_type_for (dp_operation p))")
  case ClaimOk
  let ?s1 = "on_queue (heartbeat (dt_now t) (cl_id c)) s"
  have mid': "in_turn K p {cl_id c} {cl_id c} s0 ?s1" for K
    using in_turn_heartbeat [OF mid, of "cl_id c"] by (simp add: on_queue_def)
  have run': "item_answered p t c ?s1 = (nxt, s')" using run ClaimOk by (simp add: item_claimed_def)
  from item_answered_cases [OF mid' well run'] show ?thesis
    by (simp add: item_closed_def item_returned_def same_clocks_def on_queue_def)
next
  case RequeueWrongOp
  then show ?thesis using op by (simp add: validate_claim_def split: if_splits)
next
  case (SkipWrongType reason)
  then have nxt: "nxt = Continue" and s': "s' = on_counters add_skipped (on_queue (skip_wrong_type (dt_now t) (cl_id c) reason) s)"
    using run by (simp_all add: item_claimed_def)
  have "in_turn (closed (dp_max_attempts p)) p {cl_id c} {} s0 s'"
    by (rule close_item [OF mid well closes_skip_wrong_type [where now = "dt_now t" and reason = reason]])
       (simp_all add: s' state_ops)
  then show ?thesis using nxt by (simp add: item_closed_def s')
qed

lemma drain_item_turn:
  assumes ok: "queue_ok (ds_queue s)" and run: "drain_item p t s = (nxt, s')"
  shows "(nxt \<noteq> Continue \<and> s' = s) \<or> ((\<forall>e. nxt \<noteq> Abort e)
    \<and> (\<exists>i \<in> q_id ` set (q_rows (ds_queue s)). item_closed p i s s s' \<or> nxt = Continue \<and> item_returned p t i s s s'))"
proof -
  let ?stmt = "dequeue_next_pending (dp_op_label p) (dp_namespace p) (dp_backoff p) (dt_now t)"
  obtain a q where claim: "claim_with_retry p t ?stmt (ds_queue s) = (a, q)" by force
  show ?thesis
  proof (cases a)
    case (Inl e)
    then have "q = ds_queue s" using claim_with_retry_cases [OF claim] by auto
    then show ?thesis using run claim Inl by (cases e) (auto simp: drain_item_def)
  next
    case (Inr oc)
    then have stmt: "?stmt (ds_queue s) = (oc, q)" using claim_with_retry_cases [OF claim] by auto
    show ?thesis
    proof (cases oc)
      case Empty
      then have "q = ds_queue s" using stmt by (auto simp: dequeue_next_pending_def split: list.splits)
      then show ?thesis using run claim Inr Empty by (auto simp: drain_item_def)
    next
      case (Claimed c)
      note opened = dequeue_opens [OF ok stmt [unfolded Claimed]]
      have "item_claimed p t c (s\<lparr>ds_queue := q\<rparr>) = (nxt, s')"
        using run claim Inr Claimed by (simp add: drain_item_def)
      from item_claimed_cases [OF opened(1,2,3) this]
      have "(\<forall>e. nxt \<noteq> Abort e) \<and> (item_closed p (cl_id c) s s s' \<or> nxt = Continue \<and> item_returned p t (cl_id c) s s s')"
        by (simp add: item_closed_def item_returned_def same_clocks_def)
      moreover have "cl_id c \<in> q_id ` set (q_rows (ds_queue s))"
        using opened(2) by (force simp: well_claimed_def)
      ultimately show ?thesis by blast
    qed
  qed
qed

lemma drain_once_turn:
  assumes ok: "queue_ok (ds_queue s)" and run: "drain_once p t s = (nxt, s')"
  shows "(nxt \<noteq> Continue \<and> turn_idle s s') \<or> turn_works p s s' \<or> (nxt = Continue \<and> turn_waits p t s s')"
proof (cases "dt_shutdown t \<or> over_budget p (ds_counters s)")
  case True
  then have "nxt = Break \<and> s' = s" using run by (cases "dt_shutdown t") (simp_all add: drain_once_def)
  then show ?thesis by (simp add: turn_idle_def)
next
  case False
  let ?s = "s\<lparr>ds_clock := ds_clock s + dt_work t\<rparr>"
  have ok': "queue_ok (ds_queue ?s)" using ok by simp
  have start: "in_turn K p all unsettled ?s s' = in_turn K p all unsettled s s'" for K all unsettled
    by (rule in_turn_same_start) simp_all
  show ?thesis
  proof (cases "dp_operation p = ReEmbed")
    case True
    obtain r s1 where cyc: "run_reembed_cycle p t ?s = (r, s1)" by force
    have s1: "s' = s1" "nxt = Continue \<longleftrightarrow> r = CycleProgressed"
      using run False True cyc by (auto simp: drain_once_def split: reembed_cycle_end.splits)
    from run_reembed_cycle_turn [OF ok' cyc] show ?thesis
      unfolding s1(1) [symmetric] start
      by (auto simp: s1(2) same_clocks_def turn_idle_def turn_works_def split: if_splits)
  next
    case op: False
    then have "drain_item p t ?s = (nxt, s')" using run False by (simp add: drain_once_def)
    from drain_item_turn [OF ok' this] consider "nxt \<noteq> Continue" "s' = ?s"
      | i where "i \<in> q_id ` set (q_rows (ds_queue s))" "item_closed p i ?s ?s s'"
      | i where "nxt = Continue" "item_returned p t i ?s ?s s'"
      by auto
    then show ?thesis
    proof cases
      case 1
      then show ?thesis by (simp add: turn_idle_def)
    next
      case 2
      then have "turn_works p s s'"
        unfolding item_closed_def start by (auto simp: turn_works_def same_clocks_def)
      then show ?thesis by blast
    next
      case 3
      then have "turn_waits p t s s'"
        unfolding item_returned_def start by (auto simp: turn_waits_def)
      with 3(1) show ?thesis by blast
    qed
  qed
qed

section \<open>Frame and measure\<close>

text \<open>What a drain may have done to a row: nothing, or, for a pending row of its operation and
  namespace, one or more further attempts on the same item, ending pending or with a verdict.\<close>

definition drained :: "string \<Rightarrow> string \<Rightarrow> queue_row \<Rightarrow> queue_row \<Rightarrow> bool" where
  "drained op ns x x' \<longleftrightarrow> x' = x \<or> (pending_of op ns x \<and> same_item x x' \<and> q_attempt x < q_attempt x'
     \<and> q_status x' \<in> {Pending, Done, Skipped, Dead})"

lemma drained_trans: "drained op ns x y \<Longrightarrow> drained op ns y z \<Longrightarrow> drained op ns x z"
  by (auto simp: drained_def same_item_def)

lemma drained_rows_trans:
  "list_all2 (drained op ns) xs ys \<Longrightarrow> list_all2 (drained op ns) ys zs \<Longrightarrow> list_all2 (drained op ns) xs zs"
  by (rule list_all2_trans [of "drained op ns" "drained op ns"]) (blast intro: drained_trans)+

lemma in_turn_drained:
  assumes "in_turn K p all {} s s'" and "\<And>r. K r \<Longrightarrow> q_status r \<in> {Pending, Done, Skipped, Dead}"
  shows "list_all2 (drained (dp_op_label p) (dp_namespace p)) (q_rows (ds_queue s)) (q_rows (ds_queue s'))"
  using assms(1) unfolding in_turn_def turn_rel_def
  by (elim conjE list.rel_mono_strong) (use assms(2) in \<open>auto simp: drained_def split: if_splits\<close>)

text \<open>The claims an operation may still make, at most: each pending row is good for one claim more
  than the attempts it has left.\<close>

definition row_budget :: "string \<Rightarrow> string \<Rightarrow> nat \<Rightarrow> queue_row \<Rightarrow> nat" where
  "row_budget op ns mx r = (if pending_of op ns r then Suc (nat (int mx - q_attempt r)) else 0)"

definition budget :: "drain_params \<Rightarrow> queue_db \<Rightarrow> nat" where
  "budget p q = sum_list (map (row_budget (dp_op_label p) (dp_namespace p) (dp_max_attempts p)) (q_rows q))"

definition drain_measure :: "drain_params \<Rightarrow> drain_state \<Rightarrow> nat" where
  "drain_measure p s = budget p (ds_queue s) + (dp_rate_limit_deadline p - ds_clock s)"

lemma sum_list_all2_le:
  "list_all2 (\<lambda>x y. f y \<le> (f x :: nat)) xs ys \<Longrightarrow> sum_list (map f ys) \<le> sum_list (map f xs)"
  by (induction rule: list_all2_induct) auto

lemma sum_list_all2_less:
  "list_all2 (\<lambda>x y. f y \<le> (f x :: nat) \<and> (P x \<longrightarrow> f y < f x)) xs ys \<Longrightarrow> \<exists>x \<in> set xs. P x
     \<Longrightarrow> sum_list (map f ys) < sum_list (map f xs)"
proof (induction rule: list_all2_induct)
  case (Cons x xs y ys)
  have "list_all2 (\<lambda>x y. f y \<le> f x) xs ys" using Cons.hyps(2) by (rule list.rel_mono_strong) simp
  then have "sum_list (map f ys) \<le> sum_list (map f xs)" by (rule sum_list_all2_le)
  then show ?case using Cons by (cases "P x") (auto intro: add_less_le_mono add_le_less_mono)
qed simp

lemma budget_closed:
  assumes "in_turn (closed (dp_max_attempts p)) p all {} s s'" and "\<exists>x \<in> set (q_rows (ds_queue s)). q_id x \<in> all"
  shows "budget p (ds_queue s') < budget p (ds_queue s)"
  unfolding budget_def
proof (rule sum_list_all2_less [where P = "\<lambda>x. q_id x \<in> all", OF _ assms(2)])
  let ?f = "row_budget (dp_op_label p) (dp_namespace p) (dp_max_attempts p)"
  show "list_all2 (\<lambda>x y. ?f y \<le> ?f x \<and> (q_id x \<in> all \<longrightarrow> ?f y < ?f x)) (q_rows (ds_queue s)) (q_rows (ds_queue s'))"
    using assms(1) unfolding in_turn_def turn_rel_def
    by (elim conjE list.rel_mono_strong) (auto simp: row_budget_def closed_def pending_of_def split: if_splits)
qed

lemma budget_returned:
  assumes "in_turn K p all {} s s'"
  shows "budget p (ds_queue s') \<le> budget p (ds_queue s)"
  unfolding budget_def
proof (rule sum_list_all2_le)
  let ?f = "row_budget (dp_op_label p) (dp_namespace p) (dp_max_attempts p)"
  show "list_all2 (\<lambda>x y. ?f y \<le> ?f x) (q_rows (ds_queue s)) (q_rows (ds_queue s'))"
    using assms unfolding in_turn_def turn_rel_def
    by (elim conjE list.rel_mono_strong) (auto simp: row_budget_def split: if_splits)
qed

lemma rate_limit_wait_range:
  assumes "rng_ok (dt_draw t)" and "60 \<le> b" and "b \<le> 900"
  shows "30 \<le> rate_limit_wait t b \<and> rate_limit_wait t b < 900"
proof -
  have half: "30 \<le> b div 2" "b div 2 \<le> 450" using assms(2,3) by auto
  then have "dt_draw t (b div 2) < b div 2" using assms(1) unfolding rng_ok_def by simp
  with half show ?thesis unfolding rate_limit_wait_def Let_def by auto
qed

section \<open>The whole drain\<close>

text \<open>The sleeps of a drain: each between 30 and 900 seconds, and in total at most the time left to
  the rate-limit deadline plus one sleep.\<close>

definition waits_bounded :: "drain_params \<Rightarrow> nat \<Rightarrow> nat list \<Rightarrow> bool" where
  "waits_bounded p clock ws \<longleftrightarrow> (\<forall>w \<in> set ws. 30 \<le> w \<and> w < 900)
     \<and> sum_list ws * 10 ^ 9 \<le> (if clock < dp_rate_limit_deadline p
          then dp_rate_limit_deadline p - clock + 900 * 10 ^ 9 else 0)"

definition drain_progress :: "drain_params \<Rightarrow> drain_state \<Rightarrow> drain_state \<Rightarrow> bool" where
  "drain_progress p s s' \<longleftrightarrow> queue_ok (ds_queue s')
     \<and> list_all2 (drained (dp_op_label p) (dp_namespace p)) (q_rows (ds_queue s)) (q_rows (ds_queue s'))
     \<and> tally_ok (ds_queue s) (ds_counters s) (ds_queue s') (ds_counters s')
     \<and> (\<exists>ws. ds_waits s' = ds_waits s @ ws \<and> waits_bounded p (ds_clock s) ws)"

definition backoff_in_range :: "drain_state \<Rightarrow> bool" where
  "backoff_in_range s \<longleftrightarrow> 60 \<le> ds_backoff_secs s \<and> ds_backoff_secs s \<le> 900"

lemma drain_progress_idle: "queue_ok (ds_queue s) \<Longrightarrow> turn_idle s s' \<Longrightarrow> drain_progress p s s'"
  by (auto simp: drain_progress_def turn_idle_def tally_ok_refl waits_bounded_def drained_def
      intro: list.rel_refl_strong)

lemma drain_progress_works:
  assumes "turn_works p s s'" and "backoff_in_range s"
  shows "drain_progress p s s'" and "backoff_in_range s'" and "drain_measure p s' < drain_measure p s"
proof -
  from assms(1) obtain all where mid: "in_turn (closed (dp_max_attempts p)) p all {} s s'"
    and some: "\<exists>x \<in> set (q_rows (ds_queue s)). q_id x \<in> all" and clock: "ds_clock s \<le> ds_clock s'"
    and waits: "ds_waits s' = ds_waits s"
    unfolding turn_works_def by blast
  have "list_all2 (drained (dp_op_label p) (dp_namespace p)) (q_rows (ds_queue s)) (q_rows (ds_queue s'))"
    by (rule in_turn_drained [OF mid]) (auto simp: closed_def)
  with mid waits show "drain_progress p s s'" by (simp add: drain_progress_def in_turn_def waits_bounded_def)
  show "backoff_in_range s'"
    using assms by (auto simp: turn_works_def backoff_in_range_def DEFAULT_RATE_LIMIT_WAIT_def)
  show "drain_measure p s' < drain_measure p s"
    using budget_closed [OF mid some] clock unfolding drain_measure_def by linarith
qed

lemma drain_progress_waits:
  assumes "turn_waits p t s s'" and "backoff_in_range s" and "rng_ok (dt_draw t)"
  shows "drain_progress p s s'" and "backoff_in_range s'" and "drain_measure p s' < drain_measure p s"
proof -
  let ?w = "rate_limit_wait t (ds_backoff_secs s)"
  have w: "30 \<le> ?w" "?w < 900"
    using rate_limit_wait_range [OF assms(3)] assms(2) unfolding backoff_in_range_def by auto
  from assms(1) obtain all where mid: "in_turn (\<lambda>r. q_status r = Pending) p all {} s s'"
    and before: "ds_clock s < dp_rate_limit_deadline p" and clock: "ds_clock s + ?w * 10 ^ 9 \<le> ds_clock s'"
    and waits: "ds_waits s' = ds_waits s @ [?w]"
    unfolding turn_waits_def by blast
  have "list_all2 (drained (dp_op_label p) (dp_namespace p)) (q_rows (ds_queue s)) (q_rows (ds_queue s'))"
    by (rule in_turn_drained [OF mid]) simp
  moreover have "waits_bounded p (ds_clock s) [?w]" using w before by (simp add: waits_bounded_def)
  ultimately show "drain_progress p s s'" using mid waits by (simp add: drain_progress_def in_turn_def)
  show "backoff_in_range s'"
    using assms(1,2) by (auto simp: turn_waits_def backoff_in_range_def ENRICH_BACKOFF_CEILING_SECS_def)
  have "0 < ?w * 10 ^ 9" using w(1) by simp
  then have "ds_clock s < ds_clock s'" using clock by linarith
  then show "drain_measure p s' < drain_measure p s"
    using budget_returned [OF mid] before unfolding drain_measure_def by linarith
qed

lemma drain_progress_trans:
  assumes "drain_progress p s s1" and "drain_progress p s1 s2"
    and clock: "ds_clock s + sum_list (drop (length (ds_waits s)) (ds_waits s1)) * 10 ^ 9 \<le> ds_clock s1"
  shows "drain_progress p s s2"
proof -
  from assms(1) obtain ws where ws: "ds_waits s1 = ds_waits s @ ws" "waits_bounded p (ds_clock s) ws"
    unfolding drain_progress_def by blast
  from assms(2) obtain vs where vs: "ds_waits s2 = ds_waits s1 @ vs" "waits_bounded p (ds_clock s1) vs"
    unfolding drain_progress_def by blast
  let ?D = "dp_rate_limit_deadline p"
  have clk: "ds_clock s + sum_list ws * 10 ^ 9 \<le> ds_clock s1" using clock ws(1) by simp
  have sum: "sum_list (ws @ vs) * 10 ^ 9 = sum_list ws * 10 ^ 9 + sum_list vs * 10 ^ 9"
    by (simp add: add_mult_distrib)
  have "sum_list (ws @ vs) * 10 ^ 9 \<le> (if ds_clock s < ?D then ?D - ds_clock s + 900 * 10 ^ 9 else 0)"
  proof (cases "ds_clock s1 < ?D")
    case True
    then have "sum_list vs * 10 ^ 9 \<le> ?D - ds_clock s1 + 900 * 10 ^ 9" using vs(2) by (simp add: waits_bounded_def)
    moreover have "ds_clock s < ?D" using True clk by linarith
    ultimately show ?thesis using sum clk True by simp
  next
    case False
    then have "sum_list vs * 10 ^ 9 = 0" using vs(2) unfolding waits_bounded_def by simp
    then have eq: "sum_list (ws @ vs) * 10 ^ 9 = sum_list ws * 10 ^ 9" using sum by linarith
    show ?thesis unfolding eq using ws(2) unfolding waits_bounded_def by blast
  qed
  then have "waits_bounded p (ds_clock s) (ws @ vs)"
    using ws(2) vs(2) unfolding waits_bounded_def by auto
  with ws(1) vs(1) assms(1,2) show ?thesis
    unfolding drain_progress_def by (auto intro: drained_rows_trans tally_ok_trans)
qed

lemma turn_clock:
  "turn_works p s s' \<or> turn_waits p t s s'
     \<Longrightarrow> ds_clock s + sum_list (drop (length (ds_waits s)) (ds_waits s')) * 10 ^ 9 \<le> ds_clock s'"
  by (auto simp: turn_works_def turn_waits_def)

text \<open>The loop returns, its last turn being the one that stopped it.\<close>

lemma drain_loop_returns:
  assumes "queue_ok (ds_queue s)" and "backoff_in_range s" and "\<And>k. rng_ok (dt_draw (world k))"
  shows "\<exists>nxt s' k s1. drain_loop p world n s = Some (nxt, s') \<and> nxt \<noteq> Continue \<and> drain_progress p s s'
    \<and> drain_once p (world k) s1 = (nxt, s') \<and> queue_ok (ds_queue s1)"
  using assms(1,2)
proof (induction "drain_measure p s" arbitrary: n s rule: less_induct)
  case less
  obtain nxt s1 where once: "drain_once p (world n) s = (nxt, s1)" by force
  note turn = drain_once_turn [OF less.prems(1) once]
  note step = drain_loop.simps [of p world n s]
  show ?case
  proof (cases "nxt = Continue")
    case False
    then have "turn_idle s s1 \<or> turn_works p s s1" using turn by blast
    then have "drain_progress p s s1"
      using drain_progress_idle [OF less.prems(1)] drain_progress_works(1) [OF _ less.prems(2)] by blast
    moreover have "drain_loop p world n s = Some (nxt, s1)" using step once False by simp
    ultimately show ?thesis using False once less.prems(1) by blast
  next
    case True
    then have works: "turn_works p s s1 \<or> turn_waits p (world n) s s1" using turn by blast
    have prog: "drain_progress p s s1" "backoff_in_range s1" "drain_measure p s1 < drain_measure p s"
      using works drain_progress_works [OF _ less.prems(2)] drain_progress_waits [OF _ less.prems(2) assms(3)]
      by blast+
    have "queue_ok (ds_queue s1)" using prog(1) by (simp add: drain_progress_def)
    from less.hyps [OF prog(3) this prog(2), of "Suc n"]
    obtain nxt' s' k s2 where rest: "drain_loop p world (Suc n) s1 = Some (nxt', s')" "nxt' \<noteq> Continue"
      "drain_progress p s1 s'" "drain_once p (world k) s2 = (nxt', s')" "queue_ok (ds_queue s2)" by blast
    have "drain_loop p world n s = Some (nxt', s')" using step once True rest(1) by simp
    moreover have "drain_progress p s s'"
      by (rule drain_progress_trans [OF prog(1) rest(3)]) (use turn_clock works in blast)
    ultimately show ?thesis using rest by blast
  qed
qed

section \<open>Runs that nothing interrupts\<close>

text \<open>No shutdown, no cost limit, no failing claim, and no operation that yields to hot entity
  descriptions.\<close>

definition uninterrupted :: "drain_params \<Rightarrow> (nat \<Rightarrow> drain_turn) \<Rightarrow> bool" where
  "uninterrupted p world \<longleftrightarrow> dp_max_cost_usd p = None \<and> 0 < dp_claim_batch p
     \<and> dp_operation p \<noteq> EntityConnect \<and> dp_operation p \<noteq> CrossDomainBridges
     \<and> (\<forall>n. \<not> dt_shutdown (world n) \<and> (\<forall>k. dt_claim_fails (world n) k = None))"

lemma item_claimed_continues:
  assumes "dp_operation p \<noteq> EntityConnect" and "dp_operation p \<noteq> CrossDomainBridges"
  shows "fst (item_claimed p t c s) = Continue"
proof -
  have "\<not> preempts p q" for q using assms by (simp add: preempts_def should_preempt_for_hot_ed_def)
  then show ?thesis
    by (simp add: item_claimed_def item_answered_def item_failed_def item_done_def Let_def
        split: claim_check.split sum.split item_result.split)
qed

lemma uninterrupted_stop:
  assumes "uninterrupted p world" and "drain_once p (world k) s = (nxt, s')" and "nxt \<noteq> Continue"
  shows "nxt = Break \<and> (\<forall>r \<in> set (q_rows (ds_queue s')).
    \<not> eligible (dp_op_label p) (dp_namespace p) (dp_backoff p) (dt_now (world k)) r)"
proof -
  let ?t = "world k" and ?s = "s\<lparr>ds_clock := ds_clock s + dt_work (world k)\<rparr>"
  let ?el = "eligible (dp_op_label p) (dp_namespace p) (dp_backoff p) (dt_now ?t)"
  have go: "\<not> dt_shutdown ?t" "\<not> over_budget p (ds_counters s)" "\<forall>j. dt_claim_fails ?t j = None"
    using assms(1) by (simp_all add: uninterrupted_def over_budget_def)
  note claims = claim_with_retry_ok [OF go(3)]
  show ?thesis
  proof (cases "dp_operation p = ReEmbed")
    case True
    let ?b = "dequeue_batch_pending (dp_op_label p) (dp_namespace p) (dp_backoff p) (dt_now ?t) (dp_claim_batch p) (ds_queue s)"
    have empty: "fst ?b = []" and s': "nxt = Break" "ds_queue s' = snd ?b"
      using assms(2,3) go True
      by (auto simp: drain_once_def run_reembed_cycle_def claims Let_def split: if_splits)
    let ?ids = "set (map q_id (take (dp_claim_batch p) (claim_list (dp_op_label p) (dp_namespace p)
        (dp_backoff p) (dt_now ?t) (q_rows (ds_queue s)))))"
    have n: "0 < dp_claim_batch p" using assms(1) by (simp add: uninterrupted_def)
    then have none: "\<forall>r \<in> set (q_rows (ds_queue s)). q_id r \<notin> ?ids"
      using empty by (simp add: dequeue_batch_pending_def Let_def filter_empty_conv)
    have nil: "claim_list (dp_op_label p) (dp_namespace p) (dp_backoff p) (dt_now ?t) (q_rows (ds_queue s)) = []"
    proof (rule ccontr)
      assume "claim_list (dp_op_label p) (dp_namespace p) (dp_backoff p) (dt_now ?t) (q_rows (ds_queue s)) \<noteq> []"
      then obtain r rest where cl: "claim_list (dp_op_label p) (dp_namespace p) (dp_backoff p) (dt_now ?t)
          (q_rows (ds_queue s)) = r # rest" by (metis list.exhaust)
      then have "r \<in> set (q_rows (ds_queue s))"
        using set_claim_list [of "dp_op_label p" "dp_namespace p" "dp_backoff p" "dt_now ?t" "q_rows (ds_queue s)"] by auto
      moreover have "q_id r \<in> ?ids" using cl n by (cases "dp_claim_batch p") simp_all
      ultimately show False using none by blast
    qed
    then have "ds_queue s' = ds_queue s" using n by (simp add: s' dequeue_batch_pending_def Let_def)
    moreover have "\<forall>r \<in> set (q_rows (ds_queue s)). \<not> ?el r" using nil unfolding claim_list_Nil .
    ultimately show ?thesis using s'(1) by simp
  next
    case False
    let ?d = "dequeue_next_pending (dp_op_label p) (dp_namespace p) (dp_backoff p) (dt_now ?t) (ds_queue s)"
    have item: "drain_item p ?t ?s = (nxt, s')" using assms(2) go False by (simp add: drain_once_def)
    have "fst ?d = Empty"
    proof (cases "fst ?d")
      case (Claimed c)
      have "fst (item_claimed p ?t c u) = Continue" for u
        using assms(1) by (intro item_claimed_continues) (simp_all add: uninterrupted_def)
      then have "nxt = Continue" using item Claimed by (auto simp: drain_item_def claims dest: arg_cong [of _ _ fst])
      then show ?thesis using assms(3) by simp
    qed
    moreover from this have "nxt = Break" "ds_queue s' = snd ?d"
      using item by (auto simp: drain_item_def claims)
    moreover have "(\<forall>r \<in> set (q_rows (ds_queue s)). \<not> ?el r) \<and> snd ?d = ds_queue s" if "fst ?d = Empty"
    proof -
      have nil: "claim_list (dp_op_label p) (dp_namespace p) (dp_backoff p) (dt_now ?t) (q_rows (ds_queue s)) = []"
        using that by (auto simp: dequeue_next_pending_def split: list.splits)
      then have "snd ?d = ds_queue s" by (simp add: dequeue_next_pending_def)
      then show ?thesis using nil unfolding claim_list_Nil by blast
    qed
    ultimately show ?thesis by auto
  qed
qed

lemma drain_once_abort: "drain_once p t s = (Abort e, s') \<Longrightarrow> \<exists>m. e = DbBusy m"
proof -
  have claimed: "fst (item_claimed p t c u) \<noteq> Abort e" for c u
    by (simp add: item_claimed_def item_answered_def item_failed_def item_done_def Let_def
        split: claim_check.split sum.split item_result.split)
  have "\<exists>m. e = DbBusy m" if "drain_item p t u = (Abort e, s')" for u
    using that claimed by (auto simp: drain_item_def split: prod.splits sum.splits dequeue_outcome.splits app_error.splits)
       (metis fst_conv)+
  then show "drain_once p t s = (Abort e, s') \<Longrightarrow> \<exists>m. e = DbBusy m"
    by (auto simp: drain_once_def Let_def split: if_splits prod.splits reembed_cycle_end.splits)
qed

text \<open>Claim C33. The serial drain of every operation returns, whatever its handlers answer, whatever
  the clock reads and however often it is rate limited, provided only that a turn takes no negative
  time and random draws lie below their bound. It keeps the queue well formed; it changes pending
  rows of its own operation and namespace only, keeps their item, raises their attempts, and leaves
  none of them claimed; its tally counts exactly the rows that became done and skipped and at least
  those that died, unless the claim statement stays busy, in which case the tally is not stored and
  the drain fails with \<^verbatim>\<open>DbBusy\<close>; each rate-limit sleep takes 30 to 899 seconds and all of them
  together at most the time left to the deadline plus 900 seconds. A run that nothing interrupts
  succeeds and ends with no row left that was eligible at its last claim.\<close>

theorem drain_serial_returns:
  assumes "queue_ok (ds_queue s)" and "ds_backoff_secs s = DEFAULT_RATE_LIMIT_WAIT"
    and "\<And>n. rng_ok (dt_draw (world n))"
  shows "\<exists>r s'. drain_serial p world s = Some (r, s') \<and> queue_ok (ds_queue s')
    \<and> list_all2 (\<lambda>x x'. x' = x
         \<or> (pending_of (dp_op_label p) (dp_namespace p) x \<and> same_item x x' \<and> q_attempt x < q_attempt x'
            \<and> q_status x' \<in> {Pending, Done, Skipped, Dead}))
        (q_rows (ds_queue s)) (q_rows (ds_queue s'))
    \<and> (case r of Inr _ \<Rightarrow> tally_ok (ds_queue s) (ds_counters s) (ds_queue s') (ds_counters s')
       | Inl e \<Rightarrow> (\<exists>m. e = DbBusy m) \<and> ds_counters s' = ds_counters s)
    \<and> (\<exists>ws. ds_waits s' = ds_waits s @ ws \<and> waits_bounded p (ds_clock s) ws)
    \<and> (uninterrupted p world \<longrightarrow> r = Inr () \<and> (\<exists>n. \<forall>x \<in> set (q_rows (ds_queue s')).
         \<not> eligible (dp_op_label p) (dp_namespace p) (dp_backoff p) (dt_now (world n)) x))"
proof -
  have range: "backoff_in_range s" using assms(2) by (simp add: backoff_in_range_def DEFAULT_RATE_LIMIT_WAIT_def)
  obtain nxt s1 k s0 where loop: "drain_loop p world 0 s = Some (nxt, s1)" "nxt \<noteq> Continue"
    and prog: "drain_progress p s s1" and last: "drain_once p (world k) s0 = (nxt, s1)"
    using drain_loop_returns [where world = world, OF assms(1) range assms(3)] by blast
  note stop = uninterrupted_stop [where world = world, OF _ last loop(2)]
  have drained: "drained op ns = (\<lambda>x x'. x' = x \<or> (pending_of op ns x \<and> same_item x x'
      \<and> q_attempt x < q_attempt x' \<and> q_status x' \<in> {Pending, Done, Skipped, Dead}))" for op ns
    by (auto simp: drained_def fun_eq_iff)
  note prog' = prog [unfolded drain_progress_def drained]
  show ?thesis
  proof (cases nxt)
    case (Abort e)
    then have "drain_serial p world s = Some (Inl e, s1\<lparr>ds_counters := ds_counters s\<rparr>)"
      using loop(1) by (simp add: drain_serial_def)
    moreover have "\<not> uninterrupted p world" using stop Abort by auto
    moreover have "\<exists>m. e = DbBusy m" using drain_once_abort [OF last [unfolded Abort]] .
    ultimately show ?thesis using prog' by auto
  next
    case Break
    then have "drain_serial p world s = Some (Inr (), s1)" using loop(1) by (simp add: drain_serial_def)
    moreover note stop prog'
    ultimately show ?thesis by auto
  qed (use loop(2) in simp)
qed

definition demo_turn :: drain_turn where
  "demo_turn = \<lparr>dt_shutdown = False, dt_kill = False, dt_draw = (\<lambda>n. 0), dt_claim_fails = (\<lambda>k. None),
     dt_now = 100, dt_answered = 160, dt_work = 0, dt_elapsed_ms = 60000, dt_reply = Inl (RateLimited ''429''),
     dt_diag = None, dt_batch = Inl (Embedding ''down'')\<rparr>"

definition demo_params :: drain_params where
  "demo_params = \<lparr>dp_operation = BodyEnrich, dp_op_label = ''BodyEnrich'', dp_namespace = ''a'', dp_backoff = False,
     dp_max_cost_usd = None, dp_max_attempts = 5, dp_yield_every = 10, dp_claim_batch = 32,
     dp_rate_limit_deadline = 3600 * 10 ^ 9, dp_busy_retries = 5, dp_busy_base_ms = 300,
     dp_busy_message = ''busy'', dp_show_error = (\<lambda>e. ''error''), dp_fixed3 = (\<lambda>x. ''0.000'')\<rparr>"

definition demo_state :: drain_state where
  "demo_state = \<lparr>ds_queue = demo_queue, ds_counters = \<lparr>dc_completed = 0, dc_failed = 0, dc_skipped = 0,
       dc_cost_total = 0, dc_oauth_detected = False, dc_retyped = 0\<rparr>,
     ds_backoff_secs = DEFAULT_RATE_LIMIT_WAIT, ds_items_since_yield = 0, ds_yield_count = 0,
     ds_preempted = False, ds_clock = 0, ds_waits = []\<rparr>"

text \<open>A provider that rate-limits every call for ever: the drain still ends, after at most an hour and
  a quarter of sleep, with no pending row of the operation left.\<close>

theorem drain_serial_returns_witness:
  "\<exists>s'. drain_serial demo_params (\<lambda>n. demo_turn) demo_state = Some (Inr (), s')
     \<and> sum_list (ds_waits s') * 10 ^ 9 \<le> (4500 * 10 ^ 9 :: nat)
     \<and> (\<forall>x \<in> set (q_rows (ds_queue s')). \<not> eligible ''BodyEnrich'' ''a'' False 100 x)"
proof -
  have ok: "queue_ok (ds_queue demo_state)" by (simp add: demo_state_def demo_queue_ok)
  have start: "ds_backoff_secs demo_state = DEFAULT_RATE_LIMIT_WAIT" by (simp add: demo_state_def)
  have rng: "rng_ok (dt_draw demo_turn)" by (simp add: demo_turn_def rng_ok_def)
  have unint: "uninterrupted demo_params (\<lambda>n. demo_turn)"
    by (simp add: uninterrupted_def demo_params_def demo_turn_def)
  have facts: "ds_waits demo_state = []" "ds_clock demo_state = 0" "dp_rate_limit_deadline demo_params = 3600 * 10 ^ 9"
    "dp_op_label demo_params = ''BodyEnrich''" "dp_namespace demo_params = ''a''" "dp_backoff demo_params = False"
    "dt_now demo_turn = 100"
    by (simp_all add: demo_state_def demo_params_def demo_turn_def)
  from drain_serial_returns [where world = "\<lambda>n. demo_turn" and p = demo_params, OF ok start rng] unint
  show ?thesis unfolding facts waits_bounded_def by auto
qed

section \<open>Two consequences\<close>

text \<open>A drain preempted after an item stops before the item's cost is added to the tally, although the
  row records the cost.\<close>

theorem preempted_item_is_not_billed:
  assumes "item_done p t c mem ent ents rels cost False s = (Break, s')"
  shows "dc_completed (ds_counters s') = dc_completed (ds_counters s) + 1
    \<and> dc_cost_total (ds_counters s') = dc_cost_total (ds_counters s)
    \<and> ds_queue s' = snd (mark_done (dt_answered t) (cl_id c) mem ent ents rels cost (dt_elapsed_ms t) (ds_queue s))"
  using assms by (auto simp: item_done_def state_ops Let_def split: if_splits)

text \<open>Before the deadline a rate-limited item goes back to pending however many attempts it has used:
  \<^verbatim>\<open>--max-attempts\<close> is not consulted on this path.\<close>

theorem rate_limited_past_max_attempts:
  assumes "r \<in> set (q_rows (ds_queue s))" and "q_id r = cl_id c" and "int (dp_max_attempts p) \<le> q_attempt r"
    and "is_rate_limited e" and "\<not> dt_kill t" and "ds_clock s < dp_rate_limit_deadline p"
  shows "\<exists>r' \<in> set (q_rows (ds_queue (snd (item_failed p t c e s)))).
    q_id r' = q_id r \<and> q_status r' = Pending \<and> q_attempt r' = q_attempt r"
proof -
  have "ds_queue (snd (item_failed p t c e s)) = snd (requeue_rate_limited (cl_id c) (ds_queue s))"
    using assms(4-6) by (simp add: item_failed_def Let_def on_queue_def)
  moreover have "r\<lparr>q_status := Pending\<rparr> \<in> set (q_rows (snd (requeue_rate_limited (cl_id c) (ds_queue s))))"
    using assms(1,2) by (force simp: requeue_rate_limited_def q_update_def sql_update_def)
  ultimately show ?thesis by (intro bexI [of _ "r\<lparr>q_status := Pending\<rparr>"]) simp_all
qed

end
