(* ===== verification/Memories.thy ===== *)
theory Memories
  imports Store Errors Utf8 Casts
begin

text \<open>
  The storage functions of \<^verbatim>\<open>src/storage/memories/\<close>, \<^verbatim>\<open>versions.rs\<close>, \<^verbatim>\<open>urls.rs\<close> and
  \<^verbatim>\<open>chunks.rs\<close> and the source guard of \<^verbatim>\<open>src/memory_source.rs\<close>. Strings are the UTF-8 bytes of
  the Rust strings. The clock is the argument \<open>now\<close>; a message that the code looks up in its
  translation tables is represented by the name of the lookup function. A statement that breaks a
  constraint of the schema fails with the driver's constraint error and changes nothing. The
  metadata column holds the text the serializer produced, so its JSON check always holds. Rows
  that a query leaves in no particular order are taken in rowid order.
\<close>

section \<open>The source column\<close>

datatype memory_source = Agent | User | System | Import | Sync

definition source_str :: "memory_source \<Rightarrow> string" where
  "source_str s = (case s of Agent \<Rightarrow> ''agent'' | User \<Rightarrow> ''user'' | System \<Rightarrow> ''system''
     | Import \<Rightarrow> ''import'' | Sync \<Rightarrow> ''sync'')"

definition all_sources :: "memory_source list" where
  "all_sources = [Agent, User, System, Import, Sync]"

definition source_try_from :: "string \<Rightarrow> app_error + memory_source" where
  "source_try_from value =
     (if value = ''agent'' then Inr Agent
      else if value = ''user'' then Inr User
      else if value = ''system'' then Inr System
      else if value = ''import'' then Inr Import
      else if value = ''sync'' then Inr Sync
      else Inl (Validation ''invalid_memory_source''))"

definition validate_source :: "string \<Rightarrow> app_error + string" where
  "validate_source raw =
     (if raw = ''agent'' then Inr ''agent''
      else if raw = ''user'' then Inr ''user''
      else if raw = ''system'' then Inr ''system''
      else if raw = ''import'' then Inr ''import''
      else if raw = ''sync'' then Inr ''sync''
      else Inl (Validation ''invalid_memory_source''))"

section \<open>Constraints of the memories table\<close>

definition MAX_MEMORY_NAME_LEN :: nat where "MAX_MEMORY_NAME_LEN = 80"
definition MAX_MEMORY_DESCRIPTION_LEN :: nat where "MAX_MEMORY_DESCRIPTION_LEN = 500"
definition MAX_MEMORY_BODY_LEN :: nat where "MAX_MEMORY_BODY_LEN = 512000"

definition constraint_error :: app_error where
  "constraint_error = Database (SqliteFailure ConstraintViolation)"

text \<open>SQLite's \<^verbatim>\<open>LENGTH\<close> counts the characters before the first NUL.\<close>

definition sql_length :: "string \<Rightarrow> nat" where
  "sql_length s = char_count (takeWhile (\<lambda>c. of_char c \<noteq> (0::nat)) s)"

definition memory_types :: "string list" where
  "memory_types = [''user'', ''feedback'', ''project'', ''reference'', ''decision'', ''incident'',
     ''skill'', ''document'', ''note'']"

definition memory_checks :: "memory_row \<Rightarrow> bool" where
  "memory_checks m \<longleftrightarrow> m_type m \<in> set memory_types
     \<and> sql_length (m_description m) \<le> 500 \<and> length (m_body m) \<le> 512000
     \<and> m_source m \<in> set (map source_str all_sources)"

text \<open>\<^verbatim>\<open>UPDATE memories .. WHERE\<close> with its constraints: every updated row must pass the column checks
  and \<^verbatim>\<open>UNIQUE(namespace, name)\<close> must hold afterwards.\<close>

definition exec_update_memories ::
  "int \<Rightarrow> (memory_row \<Rightarrow> bool) \<Rightarrow> (memory_row \<Rightarrow> memory_row) \<Rightarrow> db \<Rightarrow> app_error + (nat \<times> db)" where
  "exec_update_memories now p f d =
     (let d' = update_memories now p f d in
      if (\<forall>m \<in> set (memories d). p m \<longrightarrow> memory_checks (f m))
         \<and> distinct (map (\<lambda>m. (m_namespace m, m_name m)) (memories d'))
      then Inr (sql_changed p (memories d), d')
      else Inl constraint_error)"

section \<open>Single rows\<close>

record new_memory =
  n_namespace :: string
  n_name :: string
  n_type :: string
  n_description :: string
  n_body :: string
  n_body_hash :: string
  n_session_id :: "string option"
  n_source :: string
  n_metadata :: string

definition named :: "string \<Rightarrow> string \<Rightarrow> memory_row \<Rightarrow> bool" where
  "named ns name m \<longleftrightarrow> m_namespace m = ns \<and> m_name m = name"

definition live :: "memory_row \<Rightarrow> bool" where
  "live m \<longleftrightarrow> m_deleted_at m = None"

definition coalesce :: "'a option \<Rightarrow> 'a option \<Rightarrow> 'a option" where
  "coalesce a b = (case a of None \<Rightarrow> b | Some x \<Rightarrow> Some x)"

definition max_or_zero :: "int list \<Rightarrow> int" where
  "max_or_zero vs = (if vs = [] then 0 else Max (set vs))"

definition versions_of :: "db \<Rightarrow> int \<Rightarrow> int list" where
  "versions_of d i = map v_version (filter (\<lambda>v. v_memory_id v = i) (memory_versions d))"

definition find_by_name :: "db \<Rightarrow> string \<Rightarrow> string \<Rightarrow> (int \<times> int \<times> int) option" where
  "find_by_name d ns name =
     (case List.find (\<lambda>m. named ns name m \<and> live m) (memories d) of
        None \<Rightarrow> None
      | Some m \<Rightarrow> Some (m_id m, m_updated_at m, max_or_zero (versions_of d (m_id m))))"

definition find_by_hash :: "db \<Rightarrow> string \<Rightarrow> string \<Rightarrow> int option" where
  "find_by_hash d ns h =
     map_option m_id (List.find (\<lambda>m. m_namespace m = ns \<and> m_body_hash m = h \<and> live m) (memories d))"

definition memory_of_new :: "int \<Rightarrow> int \<Rightarrow> string \<Rightarrow> new_memory \<Rightarrow> memory_row" where
  "memory_of_new now i src m =
     \<lparr>m_id = i, m_namespace = n_namespace m, m_name = n_name m, m_type = n_type m,
      m_description = n_description m, m_body = n_body m, m_body_hash = n_body_hash m,
      m_session_id = n_session_id m, m_source = src, m_metadata = n_metadata m,
      m_deleted_at = None, m_created_at = now, m_updated_at = now\<rparr>"

text \<open>An insert fires the trigger that indexes the new row.\<close>

definition insert_memory :: "int \<Rightarrow> new_memory \<Rightarrow> db \<Rightarrow> app_error + (int \<times> db)" where
  "insert_memory now m d =
     bind_rust (validate_source (n_source m)) (\<lambda>src.
       let row = memory_of_new now (seq_memories d + 1) src m in
       if memory_checks row \<and> \<not> (\<exists>r \<in> set (memories d). named (n_namespace m) (n_name m) r)
       then Inr (m_id row,
              fts_insert (fts_of row)
                (d\<lparr>memories := memories d @ [row], seq_memories := seq_memories d + 1\<rparr>))
       else Inl constraint_error)"

definition set_memory :: "string \<Rightarrow> new_memory \<Rightarrow> memory_row \<Rightarrow> memory_row" where
  "set_memory src m r =
     r\<lparr>m_type := n_type m, m_description := n_description m, m_body := n_body m,
       m_body_hash := n_body_hash m, m_session_id := n_session_id m, m_source := src,
       m_metadata := n_metadata m\<rparr>"

definition update_memory :: "int \<Rightarrow> int \<Rightarrow> new_memory \<Rightarrow> int option \<Rightarrow> db \<Rightarrow> app_error + (bool \<times> db)" where
  "update_memory now i m expected d =
     bind_rust (validate_source (n_source m)) (\<lambda>src.
       bind_rust
         (case expected of
            Some ts \<Rightarrow> exec_update_memories now (\<lambda>r. m_id r = i \<and> m_updated_at r = ts \<and> live r)
                         (set_memory src m) d
          | None \<Rightarrow> exec_update_memories now (\<lambda>r. m_id r = i \<and> live r) (set_memory src m) d)
         (\<lambda>(affected, d'). Inr (affected = 1, d')))"

definition read_by_name :: "db \<Rightarrow> string \<Rightarrow> string \<Rightarrow> memory_row option" where
  "read_by_name d ns name = List.find (\<lambda>m. named ns name m \<and> live m) (memories d)"

definition read_full :: "db \<Rightarrow> int \<Rightarrow> memory_row option" where
  "read_full d i = List.find (\<lambda>m. m_id m = i \<and> live m) (memories d)"

section \<open>Soft deletion\<close>

definition find_by_name_any_state :: "db \<Rightarrow> string \<Rightarrow> string \<Rightarrow> (int \<times> bool) option" where
  "find_by_name_any_state d ns name =
     map_option (\<lambda>m. (m_id m, m_deleted_at m \<noteq> None)) (List.find (named ns name) (memories d))"

definition clear_deleted_at :: "int \<Rightarrow> int \<Rightarrow> db \<Rightarrow> db" where
  "clear_deleted_at now i = update_memories now (\<lambda>m. m_id m = i) (\<lambda>m. m\<lparr>m_deleted_at := None\<rparr>)"

definition soft_delete :: "int \<Rightarrow> string \<Rightarrow> string \<Rightarrow> db \<Rightarrow> bool \<times> db" where
  "soft_delete now ns name d =
     (let p = (\<lambda>m. named ns name m \<and> live m) in
      (sql_changed p (memories d) = 1,
       update_memories now p (\<lambda>m. m\<lparr>m_deleted_at := Some now\<rparr>) d))"

definition list_deleted_before :: "db \<Rightarrow> string \<Rightarrow> int \<Rightarrow> int list" where
  "list_deleted_before d ns ts =
     map m_id (filter (\<lambda>m. m_namespace m = ns \<and> (case m_deleted_at m of None \<Rightarrow> False | Some t \<Rightarrow> t < ts))
       (memories d))"

section \<open>Listing\<close>

text \<open>\<^verbatim>\<open>LIMIT l OFFSET o\<close> with cast counts: a negative limit is no limit and a negative offset is
  zero.\<close>

definition page :: "nat \<Rightarrow> nat \<Rightarrow> 'a list \<Rightarrow> 'a list" where
  "page l off xs =
     (let ys = drop (nat (as_i64 off)) xs in if as_i64 l < 0 then ys else take (nat (as_i64 l)) ys)"

definition listed :: "string \<Rightarrow> string option \<Rightarrow> bool \<Rightarrow> memory_row \<Rightarrow> bool" where
  "listed ns mt include_deleted m \<longleftrightarrow>
     m_namespace m = ns \<and> (case mt of None \<Rightarrow> True | Some t \<Rightarrow> m_type m = t)
     \<and> (include_deleted \<or> live m)"

definition list_memories :: "db \<Rightarrow> string \<Rightarrow> string option \<Rightarrow> nat \<Rightarrow> nat \<Rightarrow> bool \<Rightarrow> memory_row list" where
  "list_memories d ns mt l off include_deleted =
     page l off (sort_key (\<lambda>m. - m_updated_at m) (filter (listed ns mt include_deleted) (memories d)))"

definition count_memories :: "db \<Rightarrow> string \<Rightarrow> string option \<Rightarrow> bool \<Rightarrow> nat" where
  "count_memories d ns mt include_deleted = sql_count (listed ns mt include_deleted) (memories d)"

section \<open>The full-text index\<close>

definition sync_fts_after_update ::
  "int \<Rightarrow> string \<Rightarrow> string \<Rightarrow> string \<Rightarrow> string \<Rightarrow> string \<Rightarrow> string \<Rightarrow> db \<Rightarrow> db" where
  "sync_fts_after_update i old_name old_desc old_body new_name new_desc new_body d =
     fts_insert \<lparr>f_rowid = i, f_name = new_name, f_description = new_desc, f_body = new_body\<rparr>
       (fts_delete \<lparr>f_rowid = i, f_name = old_name, f_description = old_desc, f_body = old_body\<rparr> d)"

text \<open>A search query is the list of its Unicode scalar values.\<close>

type_synonym scalars = "nat list"

definition ascii :: "string \<Rightarrow> scalars" where "ascii s = map of_char s"

definition is_whitespace :: "nat \<Rightarrow> bool" where
  "is_whitespace c \<longleftrightarrow> (9 \<le> c \<and> c \<le> 13) \<or> c = 32 \<or> c = 133 \<or> c = 160 \<or> c = 5760
     \<or> (8192 \<le> c \<and> c \<le> 8202) \<or> c = 8232 \<or> c = 8233 \<or> c = 8239 \<or> c = 8287 \<or> c = 12288"

definition SEPARATORS :: scalars where "SEPARATORS = ascii ''-._/''"
definition FTS5_SYNTAX :: scalars where "FTS5_SYNTAX = [34, 42, 40, 41, 94, 58]"
definition FTS5_KEYWORDS :: "scalars list" where
  "FTS5_KEYWORDS = map ascii [''OR'', ''AND'', ''NOT'', ''NEAR'']"

definition ascii_lower :: "nat \<Rightarrow> nat" where
  "ascii_lower c = (if 65 \<le> c \<and> c \<le> 90 then c + 32 else c)"

definition eq_ignore_ascii_case :: "scalars \<Rightarrow> scalars \<Rightarrow> bool" where
  "eq_ignore_ascii_case a b = (map ascii_lower a = map ascii_lower b)"

definition is_fts_keyword :: "scalars \<Rightarrow> bool" where
  "is_fts_keyword t = list_ex (\<lambda>kw. eq_ignore_ascii_case kw t) FTS5_KEYWORDS"

text \<open>\<^verbatim>\<open>str::split\<close> at every scalar that satisfies the predicate, empty pieces included.\<close>

fun split_at_scalars :: "(nat \<Rightarrow> bool) \<Rightarrow> scalars \<Rightarrow> scalars list" where
  "split_at_scalars p [] = [[]]"
| "split_at_scalars p (c # cs) =
     (if p c then [] # split_at_scalars p cs
      else (case split_at_scalars p cs of [] \<Rightarrow> [[c]] | t # ts \<Rightarrow> (c # t) # ts))"

definition split_whitespace :: "scalars \<Rightarrow> scalars list" where
  "split_whitespace s = filter (\<lambda>t. t \<noteq> []) (split_at_scalars is_whitespace s)"

definition trim_scalars :: "scalars \<Rightarrow> scalars" where
  "trim_scalars s = rev (dropWhile is_whitespace (rev (dropWhile is_whitespace s)))"

fun join_scalars :: "scalars \<Rightarrow> scalars list \<Rightarrow> scalars" where
  "join_scalars sep [] = []"
| "join_scalars sep [t] = t"
| "join_scalars sep (t # ts) = t @ sep @ join_scalars sep ts"

definition prefix_term :: "scalars \<Rightarrow> scalars" where "prefix_term t = t @ [42]"

definition preprocess_fts_query :: "scalars \<Rightarrow> scalars" where
  "preprocess_fts_query raw =
     (let sanitized = filter (\<lambda>c. c \<notin> set FTS5_SYNTAX) raw;
          trimmed = trim_scalars sanitized
      in if trimmed = [] then []
         else if \<not> list_ex (\<lambda>c. c \<in> set SEPARATORS) trimmed then
           join_scalars (ascii '' '')
             (map prefix_term (filter (\<lambda>t. \<not> is_fts_keyword t) (split_whitespace trimmed)))
         else
           (let tokens = filter (\<lambda>t. t \<noteq> [] \<and> \<not> is_fts_keyword t)
                  (split_at_scalars (\<lambda>c. c \<in> set SEPARATORS \<or> is_whitespace c) trimmed)
            in if tokens = [] then []
               else [34] @ join_scalars (ascii '' '') tokens @ [34] @ ascii '' OR ''
                    @ join_scalars (ascii '' OR '') (map prefix_term tokens)))"

text \<open>The engine's \<^verbatim>\<open>MATCH\<close> is the parameter \<open>fts_match\<close>: the rowids of the matching index
  entries, best rank first, or the engine's error.\<close>

definition fts_search ::
  "(scalars \<Rightarrow> fts_row list \<Rightarrow> app_error + int list) \<Rightarrow> db \<Rightarrow> scalars \<Rightarrow> string \<Rightarrow> string option \<Rightarrow> nat
     \<Rightarrow> app_error + memory_row list" where
  "fts_search fts_match d query ns mt l =
     bind_rust (fts_match (preprocess_fts_query query) (fts_memories d)) (\<lambda>ids.
       Inr (page l 0
         (concat (map (\<lambda>i. filter (\<lambda>m. m_id m = i \<and> listed ns mt False m) (memories d)) ids))))"

section \<open>Embeddings\<close>

text \<open>An \<^verbatim>\<open>f32\<close> is its bit pattern; \<^verbatim>\<open>to_le_bytes\<close> and \<^verbatim>\<open>from_le_bytes\<close> as on the machine.\<close>

type_synonym f32 = "32 word"

definition byte_of :: "f32 \<Rightarrow> nat \<Rightarrow> char" where
  "byte_of f k = char_of (unat f div 256 ^ k)"

definition to_le_bytes :: "f32 \<Rightarrow> string" where
  "to_le_bytes f = [byte_of f 0, byte_of f 1, byte_of f 2, byte_of f 3]"

definition f32_to_bytes :: "f32 list \<Rightarrow> string" where
  "f32_to_bytes v = concat (map to_le_bytes v)"

fun bytes_to_f32 :: "string \<Rightarrow> f32 list" where
  "bytes_to_f32 (a # b # c # d # bs) =
     word_of_nat (of_char a + 256 * of_char b + 256 ^ 2 * of_char c + 256 ^ 3 * of_char d) # bytes_to_f32 bs"
| "bytes_to_f32 _ = []"

text \<open>The crate version and the configured dimension that every embedding row records.\<close>

record embed_config =
  cfg_version :: string
  cfg_dim :: int

definition upsert_vec :: "embed_config \<Rightarrow> int \<Rightarrow> string \<Rightarrow> f32 list \<Rightarrow> db \<Rightarrow> app_error + db" where
  "upsert_vec cfg i ns embedding d =
     (if embedding = [] then Inr d
      else if i \<in> memory_ids d then
        Inr (d\<lparr>memory_embeddings := sql_delete (\<lambda>x. x_key x = i) (memory_embeddings d) @
               [\<lparr>x_key = i, x_owner = i, x_namespace = ns, x_embedding = f32_to_bytes embedding,
                 x_source = ''llm-headless'', x_model = cfg_version cfg, x_dim = cfg_dim cfg\<rparr>]\<rparr>)
      else Inl constraint_error)"

definition delete_vec :: "int \<Rightarrow> db \<Rightarrow> db" where
  "delete_vec i d = d\<lparr>memory_embeddings := sql_delete (\<lambda>x. x_key x = i) (memory_embeddings d)\<rparr>"

section \<open>Versions\<close>

definition change_reasons :: "string list" where
  "change_reasons = [''create'', ''edit'', ''rename'', ''dedup_merge'', ''restore'', ''import_merge'']"

definition insert_version ::
  "int \<Rightarrow> int \<Rightarrow> int \<Rightarrow> string \<Rightarrow> string \<Rightarrow> string \<Rightarrow> string \<Rightarrow> string \<Rightarrow> string option \<Rightarrow> string \<Rightarrow> db
     \<Rightarrow> app_error + db" where
  "insert_version now i version name ty description body metadata changed_by reason d =
     (if i \<in> memory_ids d \<and> version \<notin> set (versions_of d i) \<and> reason \<in> set change_reasons then
        Inr (d\<lparr>memory_versions := memory_versions d @
               [\<lparr>v_id = seq_versions d + 1, v_memory_id = i, v_version = version, v_name = name,
                 v_type = ty, v_description = description, v_body = body, v_metadata = metadata,
                 v_changed_by = changed_by, v_change_reason = reason, v_created_at = now\<rparr>],
               seq_versions := seq_versions d + 1\<rparr>)
      else Inl constraint_error)"

definition next_version :: "db \<Rightarrow> int \<Rightarrow> int" where
  "next_version d i = max_or_zero (versions_of d i) + 1"

end
