(* ===== verification/Lifecycle.thy ===== *)
theory Lifecycle
  imports Memories Queue Chunking Names
begin

text \<open>
  The commands that change a stored memory: \<^verbatim>\<open>forget\<close>, \<^verbatim>\<open>restore\<close>, \<^verbatim>\<open>purge\<close>, \<^verbatim>\<open>rename\<close> and
  \<^verbatim>\<open>edit\<close> (\<^verbatim>\<open>src/commands/\<close>). A command takes the resolved namespace and its arguments, the clock,
  and the store; it returns its response with the new store, or the error. An error inside a
  transaction rolls the transaction back, so the commands that run in one return no store on
  the error branch. \<^verbatim>\<open>forget\<close> and \<^verbatim>\<open>purge\<close> also clean the queue file beside the database, absent
  or present with its schema generation. The hash, the embedding client, Unicode lower-casing and
  the token counter are parameters.
\<close>

section \<open>Shared pieces\<close>

text \<open>The queue file: whether its table has the namespace column, and its rows.\<close>

type_synonym sidecar = "(bool \<times> queue_db) option"

definition cleanup_sidecar :: "int \<Rightarrow> string \<Rightarrow> sidecar \<Rightarrow> sidecar" where
  "cleanup_sidecar i name s =
     (case s of
        None \<Rightarrow> None
      | Some (has_ns, q) \<Rightarrow>
          (case open_queue_db has_ns q of
             Inl _ \<Rightarrow> Some (has_ns, q)
           | Inr q' \<Rightarrow> Some (True, cleanup_queue_entry i name q')))"

definition or_else :: "'a option \<Rightarrow> 'a option \<Rightarrow> 'a option" where
  "or_else a b = (case a of Some x \<Rightarrow> Some x | None \<Rightarrow> b)"

text \<open>What the commands do with the answer of the embedding client: payload rejections always fail,
  other errors only without \<^verbatim>\<open>--skip-embedding-on-failure\<close>.\<close>

definition accept_embedding :: "bool \<Rightarrow> app_error + 'v \<Rightarrow> app_error + 'v option" where
  "accept_embedding skip_embed answer =
     (case answer of
        Inr emb \<Rightarrow> Inr (Some emb)
      | Inl e \<Rightarrow>
          (case e of
             Validation _ \<Rightarrow> Inl e
           | BodyTooLarge _ _ \<Rightarrow> Inl e
           | TooManyTokens _ _ \<Rightarrow> Inl e
           | _ \<Rightarrow> if skip_embed then Inr None else Inl e))"

text \<open>The optimistic lock on the row as read.\<close>

definition check_expected :: "int option \<Rightarrow> int \<Rightarrow> app_error + unit" where
  "check_expected expected current =
     (case expected of
        None \<Rightarrow> Inr ()
      | Some e \<Rightarrow> if e \<noteq> current then Inl (Conflict ''optimistic_lock_conflict'') else Inr ())"

section \<open>Forget\<close>

record forget_response =
  fr_action :: string
  fr_forgotten :: bool
  fr_name :: string
  fr_namespace :: string
  fr_deleted_at :: "int option"

definition deleted_at_of :: "db \<Rightarrow> int \<Rightarrow> int option" where
  "deleted_at_of d i = (case List.find (\<lambda>m. m_id m = i) (memories d) of None \<Rightarrow> None | Some m \<Rightarrow> m_deleted_at m)"

definition forget ::
  "int \<Rightarrow> string \<Rightarrow> string option \<Rightarrow> string option \<Rightarrow> db \<Rightarrow> sidecar
     \<Rightarrow> (app_error + forget_response) \<times> db \<times> sidecar" where
  "forget now ns name_positional name_flag d s =
     (case or_else name_positional name_flag of
        None \<Rightarrow> (Inl (Validation ''name_required_positional_or_flag''), d, s)
      | Some name \<Rightarrow>
          (let (action, forgotten, deleted_at, memory_id, d') =
             (case List.find (named ns name) (memories d) of
                None \<Rightarrow> (''not_found'', False, None, None, d)
              | Some m \<Rightarrow>
                  (case m_deleted_at m of
                     Some existing \<Rightarrow> (''already_deleted'', False, Some existing, Some (m_id m), d)
                   | None \<Rightarrow>
                       (let (ok, d2) = soft_delete now ns name (delete_vec (m_id m) d)
                        in if \<not> ok then (''already_deleted'', False, deleted_at_of d2 (m_id m), Some (m_id m), d2)
                           else (''soft_deleted'', True, deleted_at_of d2 (m_id m), Some (m_id m), d2))));
               s' = (if forgotten then (case memory_id of Some i \<Rightarrow> cleanup_sidecar i name s | None \<Rightarrow> s) else s)
           in if action = ''not_found'' then (Inl (NotFound ''memory_not_found''), d', s')
              else (Inr \<lparr>fr_action = action, fr_forgotten = forgotten, fr_name = name,
                         fr_namespace = ns, fr_deleted_at = deleted_at\<rparr>, d', s')))"

section \<open>Restore\<close>

record restore_args =
  ra_positional :: "string option"
  ra_name :: "string option"
  ra_version :: "int option"
  ra_expected :: "int option"

record restore_response =
  rr_memory_id :: int
  rr_name :: string
  rr_version :: int
  rr_restored_from :: int

text \<open>Without \<^verbatim>\<open>--version\<close> the highest version that no restore wrote.\<close>

definition restore_target :: "restore_args \<Rightarrow> db \<Rightarrow> int \<Rightarrow> app_error + int" where
  "restore_target args d i =
     (case ra_version args of
        Some v \<Rightarrow> Inr v
      | None \<Rightarrow>
          (let vs = map v_version (filter (\<lambda>v. v_memory_id v = i \<and> v_change_reason v \<noteq> ''restore'')
                      (memory_versions d))
           in if vs = [] then Inl (NotFound ''memory_not_found'') else Inr (Max (set vs))))"

definition restore_tx ::
  "embed_config \<Rightarrow> (string \<Rightarrow> string) \<Rightarrow> int \<Rightarrow> string \<Rightarrow> int option \<Rightarrow> memory_row \<Rightarrow> version_row
     \<Rightarrow> f32 list option \<Rightarrow> db \<Rightarrow> app_error + (int \<times> db)" where
  "restore_tx cfg blake3 now ns expected cur v embedding d =
     bind_rust
       (exec_update_memories now
          (case expected of
             Some ts \<Rightarrow> (\<lambda>m. m_id m = m_id cur \<and> m_updated_at m = ts)
           | None \<Rightarrow> (\<lambda>m. m_id m = m_id cur))
          (\<lambda>m. m\<lparr>m_type := v_type v, m_description := v_description v, m_body := v_body v,
                 m_body_hash := blake3 (v_body v), m_deleted_at := None\<rparr>) d)
       (\<lambda>(affected, d1).
          if affected = 0 then Inl (Conflict ''concurrent_process_conflict'')
          else
            (let next_v = next_version d1 (m_id cur) in
             bind_rust
               (insert_version now (m_id cur) next_v (m_name cur) (v_type v) (v_description v) (v_body v)
                  (v_metadata v) None ''restore'' d1)
               (\<lambda>d2. bind_rust
                 (case embedding of None \<Rightarrow> Inr d2 | Some emb \<Rightarrow> upsert_vec cfg (m_id cur) ns emb d2)
                 (\<lambda>d3. Inr (next_v,
                    sync_fts_after_update (m_id cur) (m_name cur) (m_description cur) (m_body cur)
                      (m_name cur) (v_description v) (v_body v) d3)))))"

definition restore ::
  "embed_config \<Rightarrow> (string \<Rightarrow> string) \<Rightarrow> (string \<Rightarrow> app_error + f32 list) \<Rightarrow> bool \<Rightarrow> int \<Rightarrow> string
     \<Rightarrow> restore_args \<Rightarrow> db \<Rightarrow> app_error + (restore_response \<times> db)" where
  "restore cfg blake3 embedder skip_embed now ns args d =
     (case or_else (ra_positional args) (ra_name args) of
        None \<Rightarrow> Inl (Validation ''name required: pass as positional argument or via --name'')
      | Some name \<Rightarrow>
          (case List.find (named ns name) (memories d) of
             None \<Rightarrow> Inl (NotFound ''memory_not_found'')
           | Some cur \<Rightarrow>
               bind_rust (check_expected (ra_expected args) (m_updated_at cur)) (\<lambda>_.
               bind_rust (restore_target args d (m_id cur)) (\<lambda>target.
                 (case List.find (\<lambda>v. v_memory_id v = m_id cur \<and> v_version v = target) (memory_versions d) of
                    None \<Rightarrow> Inl (NotFound ''version_not_found'')
                  | Some v \<Rightarrow>
                      bind_rust (accept_embedding skip_embed (embedder (v_body v))) (\<lambda>embedding.
                      bind_rust (restore_tx cfg blake3 now ns (ra_expected args) cur v embedding d)
                        (\<lambda>(next_v, d'). Inr (\<lparr>rr_memory_id = m_id cur, rr_name = m_name cur,
                           rr_version = next_v, rr_restored_from = target\<rparr>, d'))))))))"

section \<open>Purge\<close>

record purge_args =
  pa_positional :: "string option"
  pa_name :: "string option"
  pa_retention_days :: nat
  pa_older_than_seconds :: "nat option"
  pa_dry_run :: bool
  pa_yes :: bool
  pa_now :: bool

record purge_response =
  pr_action :: string
  pr_purged_count :: nat
  pr_bytes_freed :: int
  pr_oldest_deleted_at :: "int option"
  pr_retention_days_used :: nat
  pr_cutoff_epoch :: int
  pr_warnings :: "string list"
  pr_message :: "string option"

text \<open>The release build wraps \<^verbatim>\<open>i64\<close> arithmetic.\<close>

definition wrap_i64 :: "int \<Rightarrow> int" where
  "wrap_i64 x = sint (word_of_int x :: 64 word)"

definition retention_days_used :: "purge_args \<Rightarrow> nat" where
  "retention_days_used args = (if pa_now args then 0 else pa_retention_days args)"

definition purge_cutoff :: "purge_args \<Rightarrow> int \<Rightarrow> int" where
  "purge_cutoff args now =
     (case pa_older_than_seconds args of
        Some secs \<Rightarrow> wrap_i64 (now - as_i64 secs)
      | None \<Rightarrow> wrap_i64 (now - int (retention_days_used args) * 86400))"

definition purgeable :: "string \<Rightarrow> string option \<Rightarrow> int \<Rightarrow> memory_row \<Rightarrow> bool" where
  "purgeable ns name cutoff m \<longleftrightarrow>
     (case m_deleted_at m of None \<Rightarrow> False | Some t \<Rightarrow> t \<le> cutoff) \<and> m_namespace m = ns
     \<and> (case name of None \<Rightarrow> True | Some n \<Rightarrow> m_name m = n)"

definition deleted_epoch :: "memory_row \<Rightarrow> int" where
  "deleted_epoch m = (case m_deleted_at m of None \<Rightarrow> 0 | Some t \<Rightarrow> t)"

definition compute_metrics :: "db \<Rightarrow> int \<Rightarrow> string \<Rightarrow> string option \<Rightarrow> int \<times> int option \<times> nat" where
  "compute_metrics d cutoff ns name =
     (let rows = filter (purgeable ns name cutoff) (memories d) in
      (sum_list (map (\<lambda>m. int (sql_length (m_body m)) + int (sql_length (m_description m))
                     + int (sql_length (m_name m))) rows),
       if rows = [] then None else Some (Min (set (map deleted_epoch rows))),
       sql_count (purgeable ns name cutoff) (memories d)))"

definition select_candidates :: "db \<Rightarrow> string \<Rightarrow> string option \<Rightarrow> int \<Rightarrow> (int \<times> string) list" where
  "select_candidates d ns name cutoff =
     map (\<lambda>m. (m_id m, m_name m))
       (sort_key deleted_epoch (filter (purgeable ns name cutoff) (memories d)))"

text \<open>\<^verbatim>\<open>DELETE FROM vec_chunks\<close> and \<^verbatim>\<open>DELETE FROM vec_memories\<close>: migration V013 dropped these tables
  and no later one creates them, so the statement cannot be prepared.\<close>

definition exec_delete_vec_table :: "string \<Rightarrow> int \<Rightarrow> db \<Rightarrow> app_error + db" where
  "exec_delete_vec_table table i d = Inl (Database (OtherSqlite (''no such table: '' @ table)))"

text \<open>A failed statement on a vector table leaves a warning (its memory id and the engine's text are
  left out).\<close>

definition try_delete_vec_table :: "string \<Rightarrow> int \<Rightarrow> string list \<times> db \<Rightarrow> string list \<times> db" where
  "try_delete_vec_table table i wd =
     (case exec_delete_vec_table table i (snd wd) of
        Inl _ \<Rightarrow> (fst wd @ [''failed to clean '' @ table], snd wd)
      | Inr d' \<Rightarrow> (fst wd, d'))"

fun purge_loop :: "string \<Rightarrow> (int \<times> string) list \<Rightarrow> string list \<Rightarrow> db \<Rightarrow> sidecar \<Rightarrow> string list \<times> db \<times> sidecar" where
  "purge_loop ns [] warnings d s = (warnings, d, s)"
| "purge_loop ns ((i, name) # rest) warnings d s =
     (let s' = cleanup_sidecar i name s;
          (warnings', d') = try_delete_vec_table ''vec_memories'' i (try_delete_vec_table ''vec_chunks'' i (warnings, d))
      in purge_loop ns rest warnings'
           (delete_memory_rows (\<lambda>m. m_id m = i \<and> m_namespace m = ns \<and> m_deleted_at m \<noteq> None) d') s')"

definition execute_purge ::
  "string \<Rightarrow> string option \<Rightarrow> int \<Rightarrow> string list \<Rightarrow> db \<Rightarrow> sidecar \<Rightarrow> string list \<times> db \<times> sidecar" where
  "execute_purge ns name cutoff warnings d s =
     purge_loop ns (select_candidates d ns name cutoff) warnings d s"

definition purge ::
  "int \<Rightarrow> string \<Rightarrow> purge_args \<Rightarrow> db \<Rightarrow> sidecar \<Rightarrow> (app_error + purge_response) \<times> db \<times> sidecar" where
  "purge now ns args d s =
     (let name = or_else (pa_positional args) (pa_name args);
          cutoff = purge_cutoff args now;
          warnings = (if pa_older_than_seconds args = None then []
                      else [''--older-than-seconds is deprecated; use --retention-days in v2.0.0+'']);
          (freed, oldest, candidates) = compute_metrics d cutoff ns name
      in if candidates = 0 \<and> name \<noteq> None then (Inl (NotFound ''soft_deleted_memory_not_found''), d, s)
         else if \<not> pa_dry_run args \<and> \<not> pa_yes args then
           (Inl (Validation ''destructive operation: pass --yes to confirm purge (use --dry-run to preview)''), d, s)
         else
           (let (warnings', d', s') =
              (if pa_dry_run args then (warnings, d, s) else execute_purge ns name cutoff warnings d s)
            in (Inr \<lparr>pr_action = (if pa_dry_run args then ''dry_run'' else ''purged''),
                     pr_purged_count = candidates, pr_bytes_freed = freed,
                     pr_oldest_deleted_at = oldest, pr_retention_days_used = retention_days_used args,
                     pr_cutoff_epoch = cutoff, pr_warnings = warnings',
                     pr_message = (if candidates = 0 then Some ''no soft-deleted memories older than'' else None)\<rparr>,
                d', s')))"

section \<open>Rename\<close>

record rename_args =
  na_positional :: "string option"
  na_name :: "string option"
  na_new_positional :: "string option"
  na_new_name :: "string option"
  na_expected :: "int option"

record rename_response =
  nr_memory_id :: int
  nr_name :: string
  nr_version :: int
  nr_ghost_purged :: "bool option"

definition normalize_new_name :: "(string \<Rightarrow> string) \<Rightarrow> string \<Rightarrow> string" where
  "normalize_new_name lowercase raw =
     trim_hyphens (map (\<lambda>c. if c = CHR ''_'' \<or> c = CHR '' '' then CHR ''-'' else c) (lowercase raw))"

text \<open>The pattern \<^verbatim>\<open>NAME_SLUG_REGEX\<close>: one letter or digit, or a letter, up to 78 letters, digits
  or hyphens, and a letter or digit.\<close>

definition name_slug_matches :: "string \<Rightarrow> bool" where
  "name_slug_matches s \<longleftrightarrow>
     (length s = 1 \<and> slug_char (hd s))
     \<or> (2 \<le> length s \<and> length s \<le> 80 \<and> lower_letter (hd s) \<and> slug_char (last s)
        \<and> list_all (\<lambda>c. slug_char c \<or> c = CHR ''-'') s)"

definition starts_with :: "string \<Rightarrow> string \<Rightarrow> bool" where
  "starts_with s p \<longleftrightarrow> take (length p) s = p"

definition check_new_name :: "string \<Rightarrow> string \<Rightarrow> app_error + unit" where
  "check_new_name name new_name =
     (if new_name = name then Inl (Validation ''source and target names are identical'')
      else if starts_with new_name ''__'' then Inl (Validation ''reserved_name'')
      else if new_name = [] \<or> MAX_MEMORY_NAME_LEN < length new_name then Inl (Validation ''new_name_length'')
      else if \<not> name_slug_matches new_name then Inl (Validation ''new_name_kebab'')
      else Inr ())"

text \<open>The deletions of a soft-deleted holder of the target name; the fourth names a table that the
  schema no longer has, so the transaction fails there.\<close>

definition purge_ghost :: "int \<Rightarrow> db \<Rightarrow> app_error + db" where
  "purge_ghost i d =
     (let d = d\<lparr>memory_versions := sql_delete (\<lambda>v. v_memory_id v = i) (memory_versions d)\<rparr>;
          d = delete_chunk_rows (\<lambda>c. c_memory_id c = i) d;
          d = d\<lparr>memory_entities := sql_delete (\<lambda>x. fst x = i) (memory_entities d)\<rparr>
      in bind_rust (exec_delete_vec_table ''vec_memories'' i d)
           (\<lambda>d. Inr (delete_memory_rows (\<lambda>m. m_id m = i) d)))"

definition rename_target :: "string \<Rightarrow> string \<Rightarrow> int \<Rightarrow> db \<Rightarrow> app_error + (bool option \<times> db)" where
  "rename_target ns new_name i d =
     (case find_by_name_any_state d ns new_name of
        None \<Rightarrow> Inr (None, d)
      | Some (ghost, is_deleted) \<Rightarrow>
          if is_deleted then bind_rust (purge_ghost ghost d) (\<lambda>d'. Inr (Some True, d'))
          else if ghost \<noteq> i then Inl (Duplicate ''rename_target_occupied'')
          else Inr (None, d))"

definition rename_tx ::
  "int \<Rightarrow> string \<Rightarrow> string \<Rightarrow> string \<Rightarrow> int option \<Rightarrow> int \<Rightarrow> memory_row \<Rightarrow> db \<Rightarrow> app_error + (rename_response \<times> db)" where
  "rename_tx now ns name new_name expected i row d =
     bind_rust (rename_target ns new_name i d) (\<lambda>(ghost_purged, d0).
     bind_rust
       (exec_update_memories now
          (case expected of
             Some ts \<Rightarrow> (\<lambda>m. m_id m = i \<and> m_updated_at m = ts \<and> live m)
           | None \<Rightarrow> (\<lambda>m. m_id m = i \<and> live m))
          (\<lambda>m. m\<lparr>m_name := new_name\<rparr>) d0)
       (\<lambda>(affected, d1).
          if affected = 0 then
            Inl (Conflict ''optimistic lock conflict: memory was modified by another process'')
          else
            (let next_v = next_version d1 i in
             bind_rust
               (insert_version now i next_v new_name (m_type row) (m_description row)
                  (m_body row) (m_metadata row) None ''rename'' d1)
               (\<lambda>d2. Inr (\<lparr>nr_memory_id = i, nr_name = new_name, nr_version = next_v,
                            nr_ghost_purged = ghost_purged\<rparr>,
                  sync_fts_after_update i name (m_description row) (m_body row)
                    new_name (m_description row) (m_body row) d2)))))"

definition rename ::
  "(string \<Rightarrow> string) \<Rightarrow> int \<Rightarrow> string \<Rightarrow> rename_args \<Rightarrow> db \<Rightarrow> app_error + (rename_response \<times> db)" where
  "rename lowercase now ns args d =
     (case or_else (na_positional args) (na_name args) of
        None \<Rightarrow> Inl (Validation ''name_required_positional_or_flag'')
      | Some name \<Rightarrow>
     (case or_else (na_new_name args) (na_new_positional args) of
        None \<Rightarrow> Inl (Validation ''new name required: pass as positional <NEW> or via --new-name/--new/--to'')
      | Some raw \<Rightarrow>
          (let new_name = normalize_new_name lowercase raw in
           bind_rust (check_new_name name new_name) (\<lambda>_.
           (case find_by_name d ns name of
              None \<Rightarrow> Inl (NotFound ''memory_not_found'')
            | Some (i, current, _) \<Rightarrow>
                bind_rust (check_expected (na_expected args) current) (\<lambda>_.
                (case read_by_name d ns name of
                   None \<Rightarrow> Inl (Internal ''memory not found before rename'')
                 | Some row \<Rightarrow> rename_tx now ns name new_name (na_expected args) i row d)))))))"

section \<open>Edit\<close>

datatype body_input = InlineBody string | BodyFile "app_error + nat" "app_error + string" | StdinBody "app_error + string"

record edit_args =
  ea_positional :: "string option"
  ea_name :: "string option"
  ea_body :: "body_input option"
  ea_description :: "string option"
  ea_type :: "string option"
  ea_expected :: "int option"
  ea_force_reembed :: bool

record edit_response =
  er_memory_id :: int
  er_name :: string
  er_version :: int
  er_backend_invoked :: "string option"

definition check_embedding_input_size :: "(string \<Rightarrow> nat) \<Rightarrow> string \<Rightarrow> app_error + unit" where
  "check_embedding_input_size count_tokens text =
     (if MAX_MEMORY_BODY_LEN < length text then Inl (BodyTooLarge (length text) MAX_MEMORY_BODY_LEN)
      else if EMBEDDING_REQUEST_MAX_TOKENS < count_tokens text
        then Inl (TooManyTokens (count_tokens text) EMBEDDING_REQUEST_MAX_TOKENS)
      else Inr ())"

text \<open>The body argument: inline, a file (its size and its content, or the I/O errors) or standard
  input; the three exclude each other on the command line.\<close>

definition raw_body :: "body_input \<Rightarrow> app_error + string" where
  "raw_body b =
     (case b of
        InlineBody s \<Rightarrow> Inr s
      | BodyFile file_size content \<Rightarrow>
          bind_rust file_size (\<lambda>n. if MAX_MEMORY_BODY_LEN < n then Inl (BodyTooLarge n MAX_MEMORY_BODY_LEN) else content)
      | StdinBody content \<Rightarrow> content)"

definition edit_body :: "(string \<Rightarrow> nat) \<Rightarrow> body_input option \<Rightarrow> app_error + string option" where
  "edit_body count_tokens body =
     (case body of
        None \<Rightarrow> Inr None
      | Some b \<Rightarrow> bind_rust (raw_body b) (\<lambda>s.
          bind_rust (check_embedding_input_size count_tokens s) (\<lambda>_. Inr (Some s))))"

definition check_description :: "string option \<Rightarrow> app_error + unit" where
  "check_description desc =
     (case desc of
        None \<Rightarrow> Inr ()
      | Some s \<Rightarrow> if MAX_MEMORY_DESCRIPTION_LEN < length s then Inl (Validation ''description_exceeds'') else Inr ())"

definition unwrap_or :: "'a option \<Rightarrow> 'a \<Rightarrow> 'a" where
  "unwrap_or x y = (case x of Some v \<Rightarrow> v | None \<Rightarrow> y)"

definition edit_tx ::
  "embed_config \<Rightarrow> (string \<Rightarrow> string) \<Rightarrow> (string \<Rightarrow> app_error + f32 list \<times> string) \<Rightarrow> bool \<Rightarrow> int \<Rightarrow> string
     \<Rightarrow> string \<Rightarrow> edit_args \<Rightarrow> int \<Rightarrow> string option \<Rightarrow> memory_row \<Rightarrow> db \<Rightarrow> app_error + (edit_response \<times> db)" where
  "edit_tx cfg blake3 embedder skip_embed now ns name args i raw row d =
     (let new_body = unwrap_or raw (m_body row);
          new_description = unwrap_or (ea_description args) (m_description row);
          new_hash = blake3 new_body;
          body_changed = (raw \<noteq> None \<and> new_hash \<noteq> m_body_hash row);
          ty = unwrap_or (ea_type args) (m_type row);
          type_changed = (ty \<noteq> m_type row)
      in bind_rust
           (exec_update_memories now
              (case ea_expected args of
                 Some ts \<Rightarrow> (\<lambda>m. m_id m = i \<and> m_updated_at m = ts \<and> live m)
               | None \<Rightarrow> (\<lambda>m. m_id m = i \<and> live m))
              (\<lambda>m. m\<lparr>m_description := new_description, m_body := new_body, m_body_hash := new_hash,
                     m_type := ty\<rparr>) d)
           (\<lambda>(affected, d1).
              if affected = 0 then
                Inl (Conflict ''optimistic lock conflict: memory was modified by another process'')
              else
                bind_rust
                  (if body_changed \<or> type_changed \<or> ea_force_reembed args then
                     bind_rust (accept_embedding skip_embed (embedder new_body)) (\<lambda>embedding.
                       (case embedding of
                          None \<Rightarrow> Inr (None, d1)
                        | Some (emb, kind) \<Rightarrow>
                            bind_rust (upsert_vec cfg i ns emb d1) (\<lambda>d2. Inr (Some kind, d2))))
                   else Inr (None, d1))
                  (\<lambda>(backend, d2).
                     let next_v = next_version d2 i in
                     bind_rust
                       (insert_version now i next_v name ty new_description new_body (m_metadata row) None
                          ''edit'' d2)
                       (\<lambda>d3. Inr (\<lparr>er_memory_id = i, er_name = name, er_version = next_v,
                                    er_backend_invoked = backend\<rparr>,
                          sync_fts_after_update i (m_name row) (m_description row) (m_body row)
                            (m_name row) new_description new_body d3)))))"

definition edit ::
  "embed_config \<Rightarrow> (string \<Rightarrow> string) \<Rightarrow> (string \<Rightarrow> nat) \<Rightarrow> (string \<Rightarrow> app_error + f32 list \<times> string) \<Rightarrow> bool
     \<Rightarrow> int \<Rightarrow> string \<Rightarrow> edit_args \<Rightarrow> db \<Rightarrow> app_error + (edit_response \<times> db)" where
  "edit cfg blake3 count_tokens embedder skip_embed now ns args d =
     (case or_else (ea_positional args) (ea_name args) of
        None \<Rightarrow> Inl (Validation ''name_required_positional_or_flag'')
      | Some name \<Rightarrow>
          (case find_by_name d ns name of
             None \<Rightarrow> Inl (NotFound ''memory_not_found'')
           | Some (i, current, _) \<Rightarrow>
               bind_rust (check_expected (ea_expected args) current) (\<lambda>_.
               bind_rust (edit_body count_tokens (ea_body args)) (\<lambda>raw.
               bind_rust (check_description (ea_description args)) (\<lambda>_.
                 (case read_by_name d ns name of
                    None \<Rightarrow> Inl (Internal ''memory row not found after check'')
                  | Some row \<Rightarrow>
                      edit_tx cfg blake3 embedder skip_embed now ns name args i raw row d))))))"

end
