(* ===== verification/Store_Correct.thy ===== *)
theory Store_Correct
  imports Store
begin

text \<open>
  The cascades keep the schema invariant: deleting memories, chunks, relationships or entities
  leaves unique keys and no dangling reference.
\<close>

lemmas store_defs = store_ok_def keys_ok_def uniques_ok_def foreign_keys_ok_def

lemmas delete_intros = keyed_by_delete distinct_map_sql_delete distinct_sql_delete

lemma subset_sql_delete_child:
  "f ` set rows \<subseteq> A \<Longrightarrow> f ` set (sql_delete p rows) \<subseteq> A"
  by auto

text \<open>A child table keeps its references when the rows that refer to a deleted parent go too.\<close>

lemma subset_sql_delete_parent:
  assumes "f ` set rows \<subseteq> k ` set parents"
  shows "f ` set (sql_delete (\<lambda>r. f r \<in> k ` {x \<in> set parents. p x}) rows) \<subseteq> k ` set (sql_delete p parents)"
  using assms by fastforce

lemma subset_sql_delete_parent_or:
  assumes "f ` set rows \<subseteq> k ` set parents"
    and "\<And>r. f r \<in> k ` {x \<in> set parents. p x} \<Longrightarrow> q r"
  shows "f ` set (sql_delete q rows) \<subseteq> k ` set (sql_delete p parents)"
  using assms by fastforce

lemma subset_kept:
  assumes "f ` set rows \<subseteq> k ` set parents" and "\<forall>r \<in> set rows. f r \<notin> k ` {x \<in> set parents. p x}"
  shows "f ` set rows \<subseteq> k ` set (sql_delete p parents)"
  using assms by fastforce

lemma set_gone: "set (map k (filter p rows)) = k ` {x \<in> set rows. p x}"
  by auto

lemma delete_chunk_rows_ok:
  assumes "store_ok d"
  shows "store_ok (delete_chunk_rows p d)"
proof -
  have "x_key ` set (chunk_embeddings d) \<subseteq> c_id ` set (memory_chunks d)"
    using assms by (simp add: store_defs chunk_ids_def)
  from subset_sql_delete_parent [OF this, of p]
  show ?thesis
    using assms unfolding store_defs delete_chunk_rows_def Let_def set_gone
    by (auto simp: id_set_defs intro: delete_intros)
qed

lemma delete_relationship_rows_ok:
  assumes "store_ok d"
  shows "store_ok (delete_relationship_rows p d)"
proof -
  have "snd ` set (memory_relationships d) \<subseteq> r_id ` set (relationships d)"
    using assms by (simp add: store_defs relationship_ids_def)
  from subset_sql_delete_parent [OF this, of p]
  show ?thesis
    using assms unfolding store_defs delete_relationship_rows_def Let_def set_gone
    by (auto simp: id_set_defs intro: delete_intros)
qed

lemma store_okD:
  assumes "store_ok d"
  shows "keys_ok d" "uniques_ok d" "foreign_keys_ok d"
  using assms by (simp_all add: store_ok_def)

text \<open>The deletion without its chunk part, on a store whose chunks of the deleted memories are gone.\<close>

definition drop_memories :: "(memory_row \<Rightarrow> bool) \<Rightarrow> memory_row set \<Rightarrow> int set \<Rightarrow> db \<Rightarrow> db" where
  "drop_memories p gone ids d =
     d\<lparr>memories := sql_delete p (memories d),
       memory_versions := sql_delete (\<lambda>v. v_memory_id v \<in> ids) (memory_versions d),
       memory_entities := sql_delete (\<lambda>x. fst x \<in> ids) (memory_entities d),
       memory_relationships := sql_delete (\<lambda>x. fst x \<in> ids) (memory_relationships d),
       memory_urls := sql_delete (\<lambda>u. u_memory_id u \<in> ids) (memory_urls d),
       memory_embeddings := sql_delete (\<lambda>x. x_key x \<in> ids) (memory_embeddings d),
       chunk_embeddings := sql_delete (\<lambda>x. x_owner x \<in> ids) (chunk_embeddings d),
       pending_embeddings := sql_delete (\<lambda>x. p_memory_id x \<in> ids) (pending_embeddings d),
       fts_memories := sql_delete (\<lambda>f. f \<in> fts_of ` gone) (fts_memories d)\<rparr>"

lemma delete_memory_rows_eq:
  "delete_memory_rows p d =
     drop_memories p {m \<in> set (memories d). p m} (m_id ` {m \<in> set (memories d). p m})
       (delete_chunk_rows (\<lambda>c. c_memory_id c \<in> m_id ` {m \<in> set (memories d). p m}) d)"
  unfolding delete_memory_rows_def drop_memories_def Let_def set_gone set_filter
  by (simp add: delete_chunk_rows_def Let_def)

lemma drop_memories_sel [simp]:
  "memories (drop_memories p gone ids d) = sql_delete p (memories d)"
  "memory_versions (drop_memories p gone ids d) = sql_delete (\<lambda>v. v_memory_id v \<in> ids) (memory_versions d)"
  "memory_chunks (drop_memories p gone ids d) = memory_chunks d"
  "entities (drop_memories p gone ids d) = entities d"
  "relationships (drop_memories p gone ids d) = relationships d"
  "memory_entities (drop_memories p gone ids d) = sql_delete (\<lambda>x. fst x \<in> ids) (memory_entities d)"
  "memory_relationships (drop_memories p gone ids d) = sql_delete (\<lambda>x. fst x \<in> ids) (memory_relationships d)"
  "memory_urls (drop_memories p gone ids d) = sql_delete (\<lambda>u. u_memory_id u \<in> ids) (memory_urls d)"
  "memory_embeddings (drop_memories p gone ids d) = sql_delete (\<lambda>x. x_key x \<in> ids) (memory_embeddings d)"
  "entity_embeddings (drop_memories p gone ids d) = entity_embeddings d"
  "chunk_embeddings (drop_memories p gone ids d) = sql_delete (\<lambda>x. x_owner x \<in> ids) (chunk_embeddings d)"
  "pending_embeddings (drop_memories p gone ids d) = sql_delete (\<lambda>x. p_memory_id x \<in> ids) (pending_embeddings d)"
  "entity_connect_seen (drop_memories p gone ids d) = entity_connect_seen d"
  by (simp_all add: drop_memories_def)

lemma drop_memories_ok:
  assumes ok: "store_ok d" and ids: "ids = m_id ` {m \<in> set (memories d). p m}"
    and chunks: "\<forall>c \<in> set (memory_chunks d). c_memory_id c \<notin> ids"
  shows "store_ok (drop_memories p gone ids d)"
proof -
  have fk: "foreign_keys_ok d" using ok by (rule store_okD)
  have keys: "keys_ok (drop_memories p gone ids d)"
    using store_okD(1) [OF ok] by (simp add: keys_ok_def drop_memories_def keyed_by_delete)
  have uniq: "uniques_ok (drop_memories p gone ids d)"
    using store_okD(2) [OF ok] by (simp add: uniques_ok_def delete_intros)
  have kept: "c_memory_id ` set (memory_chunks d) \<subseteq> m_id ` set (sql_delete p (memories d))"
    by (rule subset_kept) (use fk chunks ids in \<open>simp_all add: foreign_keys_ok_def memory_ids_def\<close>)
  have "foreign_keys_ok (drop_memories p gone ids d)"
    using fk kept unfolding foreign_keys_ok_def id_set_defs drop_memories_sel
    by (simp add: ids subset_sql_delete_parent subset_sql_delete_child del: set_sql_delete)
  with keys uniq show ?thesis by (simp add: store_ok_def)
qed

lemma delete_memory_rows_ok:
  assumes "store_ok d"
  shows "store_ok (delete_memory_rows p d)"
  unfolding delete_memory_rows_eq
  by (rule drop_memories_ok [OF delete_chunk_rows_ok [OF assms]])
     (auto simp: delete_chunk_rows_def Let_def)

definition drop_entities :: "(entity_row \<Rightarrow> bool) \<Rightarrow> int set \<Rightarrow> db \<Rightarrow> db" where
  "drop_entities p ids d =
     d\<lparr>entities := sql_delete p (entities d),
       memory_entities := sql_delete (\<lambda>x. snd x \<in> ids) (memory_entities d),
       entity_embeddings := sql_delete (\<lambda>x. x_key x \<in> ids) (entity_embeddings d),
       entity_connect_seen := sql_delete (\<lambda>s. s_source_id s \<in> ids \<or> s_target_id s \<in> ids)
         (entity_connect_seen d)\<rparr>"

lemma delete_entity_rows_eq:
  "delete_entity_rows p d =
     drop_entities p (e_id ` {e \<in> set (entities d). p e})
       (delete_relationship_rows (\<lambda>r. r_source_id r \<in> e_id ` {e \<in> set (entities d). p e}
            \<or> r_target_id r \<in> e_id ` {e \<in> set (entities d). p e}) d)"
  unfolding delete_entity_rows_def drop_entities_def Let_def set_gone
  by (simp add: delete_relationship_rows_def Let_def)

lemma drop_entities_sel [simp]:
  "memories (drop_entities p ids d) = memories d"
  "memory_versions (drop_entities p ids d) = memory_versions d"
  "memory_chunks (drop_entities p ids d) = memory_chunks d"
  "entities (drop_entities p ids d) = sql_delete p (entities d)"
  "relationships (drop_entities p ids d) = relationships d"
  "memory_entities (drop_entities p ids d) = sql_delete (\<lambda>x. snd x \<in> ids) (memory_entities d)"
  "memory_relationships (drop_entities p ids d) = memory_relationships d"
  "memory_urls (drop_entities p ids d) = memory_urls d"
  "memory_embeddings (drop_entities p ids d) = memory_embeddings d"
  "entity_embeddings (drop_entities p ids d) = sql_delete (\<lambda>x. x_key x \<in> ids) (entity_embeddings d)"
  "chunk_embeddings (drop_entities p ids d) = chunk_embeddings d"
  "pending_embeddings (drop_entities p ids d) = pending_embeddings d"
  "entity_connect_seen (drop_entities p ids d) =
     sql_delete (\<lambda>s. s_source_id s \<in> ids \<or> s_target_id s \<in> ids) (entity_connect_seen d)"
  by (simp_all add: drop_entities_def)

lemma drop_entities_ok:
  assumes ok: "store_ok d" and ids: "ids = e_id ` {e \<in> set (entities d). p e}"
    and rels: "\<forall>r \<in> set (relationships d). r_source_id r \<notin> ids \<and> r_target_id r \<notin> ids"
  shows "store_ok (drop_entities p ids d)"
proof -
  have fk: "foreign_keys_ok d" using ok by (rule store_okD)
  have keys: "keys_ok (drop_entities p ids d)"
    using store_okD(1) [OF ok] by (simp add: keys_ok_def drop_entities_def keyed_by_delete)
  have uniq: "uniques_ok (drop_entities p ids d)"
    using store_okD(2) [OF ok] by (simp add: uniques_ok_def delete_intros)
  have kept: "r_source_id ` set (relationships d) \<subseteq> e_id ` set (sql_delete p (entities d))"
    "r_target_id ` set (relationships d) \<subseteq> e_id ` set (sql_delete p (entities d))"
    by (rule subset_kept; use fk rels ids in \<open>simp add: foreign_keys_ok_def entity_ids_def\<close>)+
  have "s_source_id ` set (entity_connect_seen d) \<subseteq> e_id ` set (entities d)"
    "s_target_id ` set (entity_connect_seen d) \<subseteq> e_id ` set (entities d)"
    using fk by (simp_all add: foreign_keys_ok_def entity_ids_def)
  then have seen: "s_source_id ` set (entity_connect_seen (drop_entities p ids d)) \<subseteq> e_id ` set (sql_delete p (entities d))"
    "s_target_id ` set (entity_connect_seen (drop_entities p ids d)) \<subseteq> e_id ` set (sql_delete p (entities d))"
    unfolding drop_entities_sel ids
    by - (rule subset_sql_delete_parent_or, assumption, blast)+
  have "foreign_keys_ok (drop_entities p ids d)"
    using fk kept seen unfolding foreign_keys_ok_def id_set_defs drop_entities_sel
    by (simp add: ids subset_sql_delete_parent subset_sql_delete_child del: set_sql_delete)
  with keys uniq show ?thesis by (simp add: store_ok_def)
qed

lemma delete_entity_rows_ok:
  assumes "store_ok d"
  shows "store_ok (delete_entity_rows p d)"
  unfolding delete_entity_rows_eq
  by (rule drop_entities_ok [OF delete_relationship_rows_ok [OF assms]])
     (auto simp: delete_relationship_rows_def Let_def)

end
