(* ===== verification/Memories_Correct.thy ===== *)
theory Memories_Correct
  imports Memories Store_Correct
begin

text \<open>
  Correctness of the memory storage functions. The invariant \<open>store_inv\<close> adds to the schema
  invariant that every row passes the column checks and that the full-text index holds exactly
  one entry per memory row, with the row's current texts. The lemmas show that each function
  keeps it, what a lookup returns after an insert, an update or a soft deletion, that version
  numbers are fresh, that pages partition the listing, and that a sanitised search query is
  free of query syntax.
\<close>

section \<open>The invariant\<close>

definition fts_ok :: "db \<Rightarrow> bool" where
  "fts_ok d \<longleftrightarrow> set (fts_memories d) = fts_of ` set (memories d) \<and> distinct (map f_rowid (fts_memories d))"

definition store_inv :: "db \<Rightarrow> bool" where
  "store_inv d \<longleftrightarrow> store_ok d \<and> fts_ok d \<and> (\<forall>m \<in> set (memories d). memory_checks m)"

lemma store_inv_empty: "store_inv empty_db"
  using store_ok_empty by (simp add: store_inv_def fts_ok_def empty_db_def)

lemma store_invD:
  assumes "store_inv d"
  shows "store_ok d" "fts_ok d" "\<And>m. m \<in> set (memories d) \<Longrightarrow> memory_checks m"
  using assms by (simp_all add: store_inv_def)

lemma store_ok_fts [simp]: "store_ok (d\<lparr>fts_memories := x\<rparr>) = store_ok d"
  by (simp add: store_defs id_set_defs)

lemma fts_of_rowid [simp]: "f_rowid (fts_of m) = m_id m"
  by (simp add: fts_of_def)

text \<open>Changes of the tables that the index does not mirror.\<close>

lemma fts_ok_same:
  "memories d' = memories d \<Longrightarrow> fts_memories d' = fts_memories d \<Longrightarrow> fts_ok d' = fts_ok d"
  by (simp add: fts_ok_def)

lemma store_inv_same:
  "store_inv d \<Longrightarrow> store_ok d' \<Longrightarrow> memories d' = memories d \<Longrightarrow> fts_memories d' = fts_memories d
   \<Longrightarrow> store_inv d'"
  by (simp add: store_inv_def fts_ok_def)

lemma store_ok_ids: "store_ok d \<Longrightarrow> distinct (map m_id (memories d))"
  by (simp add: store_defs keyed_by_def)

lemma store_ok_names: "store_ok d \<Longrightarrow> distinct (map (\<lambda>m. (m_namespace m, m_name m)) (memories d))"
  by (simp add: store_defs)

lemma same_id_same_row:
  "store_ok d \<Longrightarrow> m \<in> set (memories d) \<Longrightarrow> m' \<in> set (memories d) \<Longrightarrow> m_id m = m_id m' \<Longrightarrow> m = m'"
  using store_ok_ids by (auto simp: distinct_map inj_on_def)

lemma same_name_same_row:
  "store_ok d \<Longrightarrow> m \<in> set (memories d) \<Longrightarrow> m' \<in> set (memories d) \<Longrightarrow> named ns name m \<Longrightarrow> named ns name m'
   \<Longrightarrow> m = m'"
  using store_ok_names by (auto simp: distinct_map inj_on_def named_def)

section \<open>Updates of memory rows\<close>

lemma memory_ids_update:
  assumes "\<And>r. m_id (f r) = m_id r"
  shows "memory_ids (update_memories now p f d) = memory_ids d"
  unfolding memory_ids_def update_memories_def using assms by (simp add: image_sql_update_same)

lemma store_ok_update_memories:
  assumes ok: "store_ok d" and id: "\<And>r. m_id (f r) = m_id r"
    and uniq: "distinct (map (\<lambda>m. (m_namespace m, m_name m)) (memories (update_memories now p f d)))"
  shows "store_ok (update_memories now p f d)"
proof -
  let ?d = "update_memories now p f d"
  have rest: "memory_versions ?d = memory_versions d" "memory_chunks ?d = memory_chunks d"
    "entities ?d = entities d" "relationships ?d = relationships d"
    "memory_entities ?d = memory_entities d" "memory_relationships ?d = memory_relationships d"
    "memory_urls ?d = memory_urls d" "memory_embeddings ?d = memory_embeddings d"
    "entity_embeddings ?d = entity_embeddings d" "chunk_embeddings ?d = chunk_embeddings d"
    "pending_embeddings ?d = pending_embeddings d" "entity_connect_seen ?d = entity_connect_seen d"
    "seq_memories ?d = seq_memories d" "seq_versions ?d = seq_versions d" "seq_chunks ?d = seq_chunks d"
    "seq_entities ?d = seq_entities d" "seq_relationships ?d = seq_relationships d"
    "seq_urls ?d = seq_urls d" "seq_pending ?d = seq_pending d"
    by (simp_all add: update_memories_def)
  have "keyed_by m_id (seq_memories d) (memories ?d)"
    unfolding update_memories_def using ok id by (simp add: store_defs keyed_by_update)
  then have "keys_ok ?d" using ok by (simp add: store_defs rest)
  moreover have "uniques_ok ?d" using ok uniq by (simp add: store_defs rest)
  moreover have "foreign_keys_ok ?d"
    using ok by (simp add: store_defs rest memory_ids_update id entity_ids_def chunk_ids_def relationship_ids_def)
  ultimately show ?thesis by (simp add: store_ok_def)
qed

text \<open>An update that keeps the indexed texts keeps the index.\<close>

lemma fts_image_update:
  assumes "\<And>r. fts_of (f r) = fts_of r"
  shows "fts_of ` set (memories (update_memories now p f d)) = fts_of ` set (memories d)"
proof -
  have "fts_of ((f r)\<lparr>m_updated_at := now\<rparr>) = fts_of r" for r
    using assms [of r] by (simp add: fts_of_def)
  then show ?thesis by (simp add: update_memories_def image_sql_update_same)
qed

lemma memory_checks_time [simp]: "memory_checks (m\<lparr>m_updated_at := t\<rparr>) = memory_checks m"
  "memory_checks (m\<lparr>m_deleted_at := x\<rparr>) = memory_checks m"
  by (simp_all add: memory_checks_def)

lemma checks_update_memories:
  assumes "\<forall>m \<in> set (memories d). memory_checks m" and "\<forall>m \<in> set (memories d). p m \<longrightarrow> memory_checks (f m)"
  shows "\<forall>m \<in> set (memories (update_memories now p f d)). memory_checks m"
  using assms by (auto simp: update_memories_def set_sql_update)

text \<open>An update of state columns only.\<close>

lemma store_inv_update_state:
  assumes inv: "store_inv d" and f: "\<And>r. f r = r\<lparr>m_deleted_at := m_deleted_at (f r), m_metadata := m_metadata (f r)\<rparr>"
  shows "store_inv (update_memories now p f d)"
proof -
  have sel: "m_id (f r) = m_id r" "m_namespace (f r) = m_namespace r" "m_name (f r) = m_name r"
    "fts_of (f r) = fts_of r" "memory_checks (f r) = memory_checks r" for r
    by (subst f, simp add: fts_of_def memory_checks_def)+
  have "map (\<lambda>m. (m_namespace m, m_name m)) (memories (update_memories now p f d))
      = map (\<lambda>m. (m_namespace m, m_name m)) (memories d)"
    by (simp add: update_memories_def map_sql_update_same sel)
  then have ok: "store_ok (update_memories now p f d)"
    using store_ok_names [OF store_invD(1) [OF inv]]
    by - (rule store_ok_update_memories [OF store_invD(1) [OF inv] sel(1)], simp)
  have "fts_ok (update_memories now p f d)"
    using store_invD(2) [OF inv] fts_image_update [of f now p d, OF sel(4)]
    by (simp add: fts_ok_def) (simp add: update_memories_def)
  moreover have "\<forall>m \<in> set (memories (update_memories now p f d)). memory_checks m"
    by (rule checks_update_memories) (use inv in \<open>simp_all add: store_inv_def sel(5)\<close>)
  ultimately show ?thesis using ok by (simp add: store_inv_def)
qed

lemma soft_delete_inv: "store_inv d \<Longrightarrow> store_inv (snd (soft_delete now ns name d))"
  unfolding soft_delete_def Let_def snd_conv by (rule store_inv_update_state) simp_all

lemma clear_deleted_at_inv: "store_inv d \<Longrightarrow> store_inv (clear_deleted_at now i d)"
  unfolding clear_deleted_at_def by (rule store_inv_update_state) simp_all

section \<open>Insertion\<close>

lemma validate_source_iff: "validate_source s = Inr t \<longleftrightarrow> t = s \<and> s \<in> set (map source_str all_sources)"
  by (auto simp: validate_source_def source_str_def all_sources_def)

lemma insert_memoryE:
  assumes "insert_memory now m d = Inr (i, d')"
  obtains row where "row = memory_of_new now (seq_memories d + 1) (n_source m) m" and "i = m_id row"
    and "memory_checks row" and "\<forall>r \<in> set (memories d). \<not> named (n_namespace m) (n_name m) r"
    and "d' = d\<lparr>memories := memories d @ [row], seq_memories := seq_memories d + 1,
                fts_memories := fts_memories d @ [fts_of row]\<rparr>"
  using assms unfolding insert_memory_def bind_rust_Inr_iff
  by (auto simp: validate_source_iff Let_def fts_insert_def split: if_splits)

lemma store_ok_insert_memory:
  assumes ok: "store_ok d" and i: "m_id row = seq_memories d + 1"
    and fresh: "\<forall>r \<in> set (memories d). \<not> named (m_namespace row) (m_name row) r"
  shows "store_ok (d\<lparr>memories := memories d @ [row], seq_memories := seq_memories d + 1\<rparr>)"
proof -
  let ?d = "d\<lparr>memories := memories d @ [row], seq_memories := seq_memories d + 1\<rparr>"
  have "keys_ok ?d" using ok i by (simp add: store_defs keyed_by_snoc)
  moreover have "uniques_ok ?d" using ok fresh by (auto simp: store_defs named_def)
  moreover have ids: "memory_ids ?d = insert (m_id row) (memory_ids d)" by (auto simp: memory_ids_def)
  have "foreign_keys_ok ?d"
    using store_okD(3) [OF ok] unfolding foreign_keys_ok_def ids
    by (simp add: entity_ids_def chunk_ids_def relationship_ids_def subset_insertI2)
  ultimately show ?thesis by (simp add: store_ok_def)
qed

lemma store_ok_id_bound: "store_ok d \<Longrightarrow> m \<in> set (memories d) \<Longrightarrow> m_id m \<le> seq_memories d"
  by (simp add: store_defs keyed_by_def)

lemma insert_memory_inv:
  assumes inv: "store_inv d" and run: "insert_memory now m d = Inr (i, d')"
  shows "store_inv d'"
proof -
  obtain row where row: "row = memory_of_new now (seq_memories d + 1) (n_source m) m"
    and checks: "memory_checks row" and fresh: "\<forall>r \<in> set (memories d). \<not> named (n_namespace m) (n_name m) r"
    and d': "d' = d\<lparr>memories := memories d @ [row], seq_memories := seq_memories d + 1,
                fts_memories := fts_memories d @ [fts_of row]\<rparr>"
    using run by (rule insert_memoryE)
  have id: "m_id row = seq_memories d + 1" "m_namespace row = n_namespace m" "m_name row = n_name m"
    by (simp_all add: row memory_of_new_def)
  note ok = store_invD(1) [OF inv]
  have "store_ok (d\<lparr>memories := memories d @ [row], seq_memories := seq_memories d + 1\<rparr>)"
    by (rule store_ok_insert_memory [OF ok id(1)]) (simp add: id fresh)
  then have "store_ok d'"
    using store_ok_fts [where d = "d\<lparr>memories := memories d @ [row], seq_memories := seq_memories d + 1\<rparr>"
        and x = "fts_memories d @ [fts_of row]"]
    by (simp add: d')
  moreover have new: "m_id row \<notin> m_id ` set (memories d)"
    using store_ok_id_bound [OF ok] by (fastforce simp: id)
  have "f_rowid ` set (fts_memories d) = m_id ` set (memories d)"
    using store_invD(2) [OF inv] by (simp add: fts_ok_def image_image)
  with new have "m_id row \<notin> f_rowid ` set (fts_memories d)" by simp
  then have "fts_ok d'" using store_invD(2) [OF inv] by (simp add: fts_ok_def d')
  moreover have "\<forall>m \<in> set (memories d'). memory_checks m"
    using inv checks by (simp add: store_inv_def d')
  ultimately show ?thesis by (simp add: store_inv_def)
qed

section \<open>Versions and vectors\<close>

lemma le_max_or_zero: "v \<in> set vs \<Longrightarrow> v \<le> max_or_zero vs"
  by (auto simp: max_or_zero_def)

lemma next_version_fresh: "next_version d i \<notin> set (versions_of d i)"
  unfolding next_version_def using le_max_or_zero by fastforce

definition new_version_row ::
  "int \<Rightarrow> int \<Rightarrow> int \<Rightarrow> string \<Rightarrow> string \<Rightarrow> string \<Rightarrow> string \<Rightarrow> string \<Rightarrow> string option \<Rightarrow> string \<Rightarrow> db \<Rightarrow> version_row" where
  "new_version_row now i version name ty description body metadata changed_by reason d =
     \<lparr>v_id = seq_versions d + 1, v_memory_id = i, v_version = version, v_name = name, v_type = ty,
      v_description = description, v_body = body, v_metadata = metadata, v_changed_by = changed_by,
      v_change_reason = reason, v_created_at = now\<rparr>"

lemma insert_version_next:
  assumes "i \<in> memory_ids d" and "reason \<in> set change_reasons"
  shows "insert_version now i (next_version d i) name ty description body metadata changed_by reason d
    = Inr (d\<lparr>memory_versions := memory_versions d @ [new_version_row now i (next_version d i) name ty
               description body metadata changed_by reason d], seq_versions := seq_versions d + 1\<rparr>)"
  using assms next_version_fresh by (simp add: insert_version_def new_version_row_def)

lemma insert_versionE:
  assumes "insert_version now i version name ty description body metadata changed_by reason d = Inr d'"
  obtains v where "d' = d\<lparr>memory_versions := memory_versions d @ [v], seq_versions := seq_versions d + 1\<rparr>"
    and "v = new_version_row now i version name ty description body metadata changed_by reason d"
    and "i \<in> memory_ids d" and "version \<notin> set (versions_of d i)"
  using assms by (auto simp: insert_version_def new_version_row_def split: if_splits)

lemma insert_version_ok:
  assumes ok: "store_ok d"
    and run: "insert_version now i version name ty description body metadata changed_by reason d = Inr d'"
  shows "store_ok d'"
proof -
  obtain v where d': "d' = d\<lparr>memory_versions := memory_versions d @ [v], seq_versions := seq_versions d + 1\<rparr>"
    and v: "v = new_version_row now i version name ty description body metadata changed_by reason d"
    and i: "i \<in> memory_ids d" and fresh: "version \<notin> set (versions_of d i)"
    using run by (rule insert_versionE)
  have sel: "v_id v = seq_versions d + 1" "v_memory_id v = i" "v_version v = version"
    by (simp_all add: v new_version_row_def)
  have "keys_ok d'" using ok sel by (simp add: store_defs d' keyed_by_snoc)
  moreover have "(i, version) \<notin> (\<lambda>v. (v_memory_id v, v_version v)) ` set (memory_versions d)"
    using fresh by (auto simp: versions_of_def)
  then have "uniques_ok d'" using ok sel by (simp add: store_defs d')
  moreover have "foreign_keys_ok d'"
    using store_okD(3) [OF ok] i sel by (simp add: foreign_keys_ok_def id_set_defs d')
  ultimately show ?thesis by (simp add: store_ok_def)
qed

lemma insert_version_keeps:
  assumes "insert_version now i version name ty description body metadata changed_by reason d = Inr d'"
  shows "memories d' = memories d" "fts_memories d' = fts_memories d" "memory_ids d' = memory_ids d"
    "memory_embeddings d' = memory_embeddings d"
  using assms by (auto simp: insert_version_def memory_ids_def split: if_splits)

lemma store_ok_embeddings:
  assumes "store_ok d" and "distinct (map x_key xs)" and "x_key ` set xs \<subseteq> memory_ids d"
  shows "store_ok (d\<lparr>memory_embeddings := xs\<rparr>)"
  using assms by (simp add: store_defs id_set_defs)

lemma upsert_vec_ok:
  assumes ok: "store_ok d" and run: "upsert_vec cfg i ns emb d = Inr d'"
  shows "store_ok d'"
proof (cases "emb = []")
  case False
  let ?row = "\<lparr>x_key = i, x_owner = i, x_namespace = ns, x_embedding = f32_to_bytes emb,
                 x_source = ''llm-headless'', x_model = cfg_version cfg, x_dim = cfg_dim cfg\<rparr>"
  let ?xs = "sql_delete (\<lambda>x. x_key x = i) (memory_embeddings d) @ [?row]"
  from False run have i: "i \<in> memory_ids d" and d': "d' = d\<lparr>memory_embeddings := ?xs\<rparr>"
    by (auto simp: upsert_vec_def split: if_splits)
  have "distinct (map x_key (sql_delete (\<lambda>x. x_key x = i) (memory_embeddings d)))"
    using ok by (simp add: store_defs distinct_map_sql_delete)
  then have "distinct (map x_key ?xs)" by auto
  moreover have "x_key ` set ?xs \<subseteq> memory_ids d"
    using ok i by (auto simp: store_defs)
  ultimately show ?thesis unfolding d' by (rule store_ok_embeddings [OF ok])
qed (use ok run in \<open>simp add: upsert_vec_def\<close>)

lemma upsert_vec_keeps:
  assumes "upsert_vec cfg i ns emb d = Inr d'"
  shows "memories d' = memories d" "fts_memories d' = fts_memories d" "memory_versions d' = memory_versions d"
  using assms by (auto simp: upsert_vec_def split: if_splits)

lemma delete_vec_ok: "store_ok d \<Longrightarrow> store_ok (delete_vec i d)"
  unfolding delete_vec_def by (rule store_ok_embeddings) (auto simp: store_defs distinct_map_sql_delete)

lemma delete_vec_inv: "store_inv d \<Longrightarrow> store_inv (delete_vec i d)"
  using store_inv_same [of d "delete_vec i d"] delete_vec_ok [OF store_invD(1)]
  by (simp add: delete_vec_def)

section \<open>Deletion\<close>

lemma fts_of_inj: "store_ok d \<Longrightarrow> m \<in> set (memories d) \<Longrightarrow> m' \<in> set (memories d) \<Longrightarrow> fts_of m = fts_of m' \<Longrightarrow> m = m'"
  by (rule same_id_same_row) (auto simp: fts_of_def)

lemma delete_memory_rows_memories: "memories (delete_memory_rows p d) = sql_delete p (memories d)"
  by (simp add: delete_memory_rows_def delete_chunk_rows_def Let_def)

lemma delete_memory_rows_fts:
  "fts_memories (delete_memory_rows p d) =
     sql_delete (\<lambda>f. f \<in> fts_of ` {m \<in> set (memories d). p m}) (fts_memories d)"
  by (simp add: delete_memory_rows_def delete_chunk_rows_def Let_def)

lemma delete_memory_rows_inv:
  assumes inv: "store_inv d"
  shows "store_inv (delete_memory_rows p d)"
proof -
  note ok = store_invD(1) [OF inv]
  have "fts_of m \<notin> fts_of ` {m \<in> set (memories d). p m}" if "m \<in> set (memories d)" "\<not> p m" for m
    using fts_of_inj [OF ok that(1)] that(2) by auto
  then have "{f \<in> fts_of ` set (memories d). f \<notin> fts_of ` {m \<in> set (memories d). p m}}
      = fts_of ` {m \<in> set (memories d). \<not> p m}"
    by auto
  then have "fts_ok (delete_memory_rows p d)"
    using store_invD(2) [OF inv] unfolding fts_ok_def delete_memory_rows_memories delete_memory_rows_fts
    by (simp add: distinct_map_sql_delete)
  then show ?thesis
    using delete_memory_rows_ok [OF ok] store_invD(3) [OF inv]
    by (simp add: store_inv_def delete_memory_rows_memories)
qed

section \<open>Updates of the indexed texts\<close>

text \<open>A statement that updates the one row of a key and the delete/insert pair on the index that the
  callers issue after it.\<close>

lemma exec_update_memoriesE:
  assumes "exec_update_memories now p f d = Inr (n, d')"
  obtains "d' = update_memories now p f d" and "n = sql_changed p (memories d)"
    and "\<forall>m \<in> set (memories d). p m \<longrightarrow> memory_checks (f m)"
    and "distinct (map (\<lambda>m. (m_namespace m, m_name m)) (memories d'))"
  using assms by (auto simp: exec_update_memories_def Let_def split: if_splits)

lemma exec_update_memories_ok:
  assumes "store_ok d" and "exec_update_memories now p f d = Inr (n, d')" and "\<And>r. m_id (f r) = m_id r"
  shows "store_ok d'"
  using assms(2)
proof (rule exec_update_memoriesE)
  assume "d' = update_memories now p f d"
    and "distinct (map (\<lambda>m. (m_namespace m, m_name m)) (memories d'))"
  with assms(1,3) show ?thesis by (simp add: store_ok_update_memories)
qed

definition one_row :: "(memory_row \<Rightarrow> bool) \<Rightarrow> memory_row \<Rightarrow> db \<Rightarrow> bool" where
  "one_row p m d \<longleftrightarrow> m \<in> set (memories d) \<and> p m \<and> (\<forall>m' \<in> set (memories d). p m' \<longrightarrow> m' = m)"

lemma update_one_row_set:
  assumes "one_row p m d"
  shows "set (memories (update_memories now p f d))
    = insert ((f m)\<lparr>m_updated_at := now\<rparr>) (set (memories d) - {m})"
proof -
  have "{r \<in> set (memories d). \<not> p r} = set (memories d) - {m}"
    and "{(f r)\<lparr>m_updated_at := now\<rparr> | r. r \<in> set (memories d) \<and> p r} = {(f m)\<lparr>m_updated_at := now\<rparr>}"
    using assms unfolding one_row_def by blast+
  then show ?thesis by (simp add: update_memories_def set_sql_update)
qed

lemma sync_one_row:
  assumes inv: "store_inv d" and run: "exec_update_memories now p f d = Inr (n, d1)"
    and id: "\<And>r. m_id (f r) = m_id r" and one: "one_row p m d"
    and ok2: "store_ok d2" and keep: "memories d2 = memories d1" "fts_memories d2 = fts_memories d1"
    and new: "fts_of (f m) = \<lparr>f_rowid = m_id m, f_name = nn, f_description = nd, f_body = nb\<rparr>"
  shows "store_inv (sync_fts_after_update (m_id m) (m_name m) (m_description m) (m_body m) nn nd nb d2)"
proof -
  let ?old = "fts_of m" and ?new = "fts_of (f m)"
  let ?d = "sync_fts_after_update (m_id m) (m_name m) (m_description m) (m_body m) nn nd nb d2"
  have d1: "d1 = update_memories now p f d" and checks: "\<forall>m \<in> set (memories d). p m \<longrightarrow> memory_checks (f m)"
    using run by (auto elim: exec_update_memoriesE)
  have fts1: "fts_memories d1 = fts_memories d" by (simp add: d1 update_memories_def)
  have fts: "fts_memories ?d = sql_delete (\<lambda>x. x = ?old) (fts_memories d) @ [?new]"
    unfolding new by (simp add: sync_fts_after_update_def fts_insert_def fts_delete_def keep fts1 fts_of_def)
  have mems: "set (memories ?d) = insert ((f m)\<lparr>m_updated_at := now\<rparr>) (set (memories d) - {m})"
    using update_one_row_set [OF one, of now f]
    by (simp add: sync_fts_after_update_def fts_insert_def fts_delete_def keep d1)
  note idx = store_invD(2) [OF inv, unfolded fts_ok_def] and ok = store_invD(1) [OF inv]
  have m: "m \<in> set (memories d)" using one by (simp add: one_row_def)
  have rest: "{x \<in> fts_of ` set (memories d). x \<noteq> ?old} = fts_of ` (set (memories d) - {m})"
    using fts_of_inj [OF ok _ m] by auto
  have "fts_of ((f m)\<lparr>m_updated_at := now\<rparr>) = ?new" by (simp add: fts_of_def)
  then have set: "set (fts_memories ?d) = fts_of ` set (memories ?d)"
    using idx rest by (auto simp: fts mems)
  have "f_rowid ` set (sql_delete (\<lambda>x. x = ?old) (fts_memories d)) = m_id ` (set (memories d) - {m})"
    using idx rest by (auto simp: image_iff)
  moreover have "m_id m \<notin> m_id ` (set (memories d) - {m})"
    using same_id_same_row [OF ok m] by auto
  ultimately have "distinct (map f_rowid (fts_memories ?d))"
    using idx by (simp add: fts id distinct_map_sql_delete del: set_sql_delete)
  with set have "fts_ok ?d" by (simp add: fts_ok_def)
  moreover have "\<forall>x \<in> set (memories ?d). memory_checks x"
    using store_invD(3) [OF inv] checks one by (auto simp: mems one_row_def)
  moreover have "store_ok ?d"
    using ok2 by (simp add: sync_fts_after_update_def fts_insert_def fts_delete_def)
  ultimately show ?thesis by (simp add: store_inv_def)
qed

lemma changed_one_row:
  assumes "store_ok d" and "0 < sql_changed p (memories d)" and "\<And>r. p r \<Longrightarrow> m_id r = i"
    and "m \<in> set (memories d)" and "m_id m = i"
  shows "one_row p m d"
proof -
  obtain r where r: "r \<in> set (memories d)" "p r"
    using assms(2) sql_count_eq_0 [of p "memories d"] by auto
  then have "r = m" using assms same_id_same_row by metis
  with r assms(1,3,4,5) show ?thesis
    unfolding one_row_def using same_id_same_row by metis
qed

section \<open>Lookups\<close>

lemma find_unique:
  assumes "x \<in> set xs" and "p x" and "\<And>y. y \<in> set xs \<Longrightarrow> p y \<Longrightarrow> y = x"
  shows "List.find p xs = Some x"
proof (cases "List.find p xs")
  case None
  with assms(1,2) show ?thesis by (simp add: find_None_iff')
next
  case (Some y)
  with find_in_set [OF Some] assms(3) show ?thesis by simp
qed

lemma read_by_name_iff:
  assumes "store_ok d"
  shows "read_by_name d ns name = Some m \<longleftrightarrow> m \<in> set (memories d) \<and> named ns name m \<and> live m"
proof
  assume "read_by_name d ns name = Some m"
  then show "m \<in> set (memories d) \<and> named ns name m \<and> live m"
    unfolding read_by_name_def using find_in_set by fastforce
next
  assume "m \<in> set (memories d) \<and> named ns name m \<and> live m"
  then show "read_by_name d ns name = Some m"
    unfolding read_by_name_def by (intro find_unique) (auto intro: same_name_same_row [OF assms])
qed

lemma read_full_iff:
  assumes "store_ok d"
  shows "read_full d i = Some m \<longleftrightarrow> m \<in> set (memories d) \<and> m_id m = i \<and> live m"
proof
  assume "read_full d i = Some m"
  then show "m \<in> set (memories d) \<and> m_id m = i \<and> live m"
    unfolding read_full_def using find_in_set by fastforce
next
  assume "m \<in> set (memories d) \<and> m_id m = i \<and> live m"
  then show "read_full d i = Some m"
    unfolding read_full_def by (intro find_unique) (auto intro: same_id_same_row [OF assms])
qed

lemma find_by_name_read:
  "find_by_name d ns name = map_option (\<lambda>m. (m_id m, m_updated_at m, max_or_zero (versions_of d (m_id m))))
     (read_by_name d ns name)"
  by (simp add: find_by_name_def read_by_name_def split: option.split)

lemma any_state_iff:
  assumes "store_ok d"
  shows "find_by_name_any_state d ns name = Some (i, del) \<longleftrightarrow>
    (\<exists>m \<in> set (memories d). named ns name m \<and> m_id m = i \<and> (del \<longleftrightarrow> \<not> live m))"
proof
  assume "find_by_name_any_state d ns name = Some (i, del)"
  then obtain m where "List.find (named ns name) (memories d) = Some m" "m_id m = i" "del \<longleftrightarrow> m_deleted_at m \<noteq> None"
    by (auto simp: find_by_name_any_state_def)
  then show "\<exists>m \<in> set (memories d). named ns name m \<and> m_id m = i \<and> (del \<longleftrightarrow> \<not> live m)"
    using find_in_set by (fastforce simp: live_def)
next
  assume "\<exists>m \<in> set (memories d). named ns name m \<and> m_id m = i \<and> (del \<longleftrightarrow> \<not> live m)"
  then obtain m where m: "m \<in> set (memories d)" "named ns name m" "m_id m = i" "del \<longleftrightarrow> \<not> live m" by blast
  then have "List.find (named ns name) (memories d) = Some m"
    by (intro find_unique) (auto intro: same_name_same_row [OF assms])
  with m show "find_by_name_any_state d ns name = Some (i, del)"
    by (simp add: find_by_name_any_state_def live_def)
qed

lemma no_versions_of_fresh:
  assumes "store_ok d" and "i \<notin> memory_ids d"
  shows "versions_of d i = []"
  using store_okD(3) [OF assms(1)] assms(2)
  by (auto simp: foreign_keys_ok_def versions_of_def filter_empty_conv)

text \<open>After a successful insert the new memory is found by name and by id with exactly the
  submitted fields, with creation and update time now and no version yet; every other name
  still reads what it read before.\<close>

theorem insert_memory_read:
  assumes "store_inv d" and "insert_memory now m d = Inr (i, d')"
  shows "read_by_name d' (n_namespace m) (n_name m) = Some (memory_of_new now i (n_source m) m)
    \<and> read_full d' i = Some (memory_of_new now i (n_source m) m)
    \<and> find_by_name d' (n_namespace m) (n_name m) = Some (i, now, 0)
    \<and> (\<forall>ns name. (ns, name) \<noteq> (n_namespace m, n_name m) \<longrightarrow> read_by_name d' ns name = read_by_name d ns name)"
proof (intro conjI allI impI)
  obtain row where row: "row = memory_of_new now (seq_memories d + 1) (n_source m) m" and i: "i = m_id row"
    and d': "d' = d\<lparr>memories := memories d @ [row], seq_memories := seq_memories d + 1,
                fts_memories := fts_memories d @ [fts_of row]\<rparr>"
    using assms(2) by (rule insert_memoryE)
  have ok': "store_ok d'" using insert_memory_inv [OF assms] by (rule store_invD(1))
  have row': "memory_of_new now i (n_source m) m = row" by (simp add: i row memory_of_new_def)
  have mem: "row \<in> set (memories d')" by (simp add: d')
  have sel: "named (n_namespace m) (n_name m) row" "live row" "m_updated_at row = now"
    by (simp_all add: row memory_of_new_def named_def live_def)
  show read: "read_by_name d' (n_namespace m) (n_name m) = Some (memory_of_new now i (n_source m) m)"
    unfolding row' using read_by_name_iff [OF ok'] mem sel by blast
  show "read_full d' i = Some (memory_of_new now i (n_source m) m)"
    unfolding row' using read_full_iff [OF ok'] mem sel i by blast
  have "i \<notin> memory_ids d"
    using store_ok_id_bound [OF store_invD(1) [OF assms(1)]]
    by (fastforce simp: i row memory_of_new_def memory_ids_def)
  then have "versions_of d' i = []"
    using no_versions_of_fresh [OF store_invD(1) [OF assms(1)]] by (simp add: versions_of_def d')
  then show "find_by_name d' (n_namespace m) (n_name m) = Some (i, now, 0)"
    by (simp add: find_by_name_read read max_or_zero_def memory_of_new_def)
  fix ns name
  assume "(ns, name) \<noteq> (n_namespace m, n_name m)"
  then show "read_by_name d' ns name = read_by_name d ns name"
    by (auto simp: read_by_name_def d' find_append row memory_of_new_def named_def split: option.splits)
qed

text \<open>Claim C6. A stale or dead target is never overwritten: when the row's update time differs from
  the expected one, or the row is soft-deleted or absent, a guarded update reports failure and
  leaves the store as it was.\<close>

theorem update_memory_lock:
  assumes "store_ok d" and "n_source m \<in> set (map source_str all_sources)"
    and "\<forall>r \<in> set (memories d). m_id r = i \<longrightarrow> m_updated_at r \<noteq> ts \<or> \<not> live r"
  shows "update_memory now i m (Some ts) d = Inr (False, d)"
proof -
  let ?p = "\<lambda>r. m_id r = i \<and> m_updated_at r = ts \<and> live r"
  have none: "\<not> ?p r" if "r \<in> set (memories d)" for r using assms(3) that by blast
  then have same: "update_memories now ?p (set_memory (n_source m) m) d = d"
    unfolding update_memories_def by (subst sql_update_none) auto
  have "sql_count ?p (memories d) = 0" using none unfolding sql_count_eq_0 by blast
  moreover have "\<forall>r \<in> set (memories d). ?p r \<longrightarrow> memory_checks (set_memory (n_source m) m r)"
    using none by blast
  ultimately have "exec_update_memories now ?p (set_memory (n_source m) m) d = Inr (0, d)"
    using store_ok_names [OF assms(1)] unfolding exec_update_memories_def Let_def same by simp
  moreover have "validate_source (n_source m) = Inr (n_source m)"
    using assms(2) by (simp add: validate_source_iff)
  ultimately show ?thesis by (simp add: update_memory_def)
qed


definition sample_memory :: new_memory where
  "sample_memory = \<lparr>n_namespace = ''global'', n_name = ''onboarding'', n_type = ''note'',
     n_description = ''d'', n_body = ''hello'', n_body_hash = ''h'', n_session_id = None,
     n_source = ''agent'', n_metadata = ''{}''\<rparr>"

definition sample_db :: db where
  "sample_db = empty_db\<lparr>memories := [memory_of_new 100 1 ''agent'' sample_memory],
     fts_memories := [fts_of (memory_of_new 100 1 ''agent'' sample_memory)], seq_memories := 1\<rparr>"

lemma sample_insert: "insert_memory 100 sample_memory empty_db = Inr (1, sample_db)"
  by (simp add: insert_memory_def sample_memory_def sample_db_def empty_db_def validate_source_def
      memory_checks_def memory_types_def source_str_def all_sources_def memory_of_new_def fts_insert_def
      fts_of_def sql_length_def char_count_def is_cont_def)

lemma sample_inv: "store_inv sample_db"
  using insert_memory_inv [OF store_inv_empty sample_insert] .

theorem insert_memory_read_witness:
  "store_inv empty_db \<and> insert_memory 100 sample_memory empty_db = Inr (1, sample_db)
   \<and> read_by_name sample_db ''global'' ''onboarding'' = Some (memory_of_new 100 1 ''agent'' sample_memory)"
  using insert_memory_read [OF store_inv_empty sample_insert] store_inv_empty sample_insert
  by (simp add: sample_memory_def)

theorem update_memory_lock_witness:
  "m_updated_at (hd (memories sample_db)) = 100 \<and> update_memory 200 1 sample_memory (Some 99) sample_db = Inr (False, sample_db)"
proof
  show "m_updated_at (hd (memories sample_db)) = 100" by (simp add: sample_db_def memory_of_new_def)
  show "update_memory 200 1 sample_memory (Some 99) sample_db = Inr (False, sample_db)"
    by (rule update_memory_lock [OF store_invD(1) [OF sample_inv]])
       (simp_all add: sample_memory_def all_sources_def source_str_def sample_db_def memory_of_new_def)
qed

section \<open>Soft deletion\<close>

lemma sql_count_update_out:
  assumes "\<And>r. p r \<Longrightarrow> q r" and "\<And>r. p r \<Longrightarrow> \<not> q (f r)"
  shows "sql_count q (sql_update p f rows) + sql_count p rows = sql_count q rows"
  using assms by (induction rows) auto

text \<open>A successful soft deletion removes the memory from every read: the name and the id no
  longer resolve, listings and searches omit it, the count drops by one, while the row is kept
  with its deletion time and still occupies its name.\<close>

theorem soft_delete_hides:
  assumes "store_inv d" and "soft_delete now ns name d = (True, d')"
  shows "\<exists>m. read_by_name d ns name = Some m
    \<and> read_by_name d' ns name = None \<and> read_full d' (m_id m) = None
    \<and> find_by_name_any_state d' ns name = Some (m_id m, True)
    \<and> (\<forall>mt l off. m_id m \<notin> m_id ` set (list_memories d' ns mt l off False))
    \<and> Suc (count_memories d' ns None False) = count_memories d ns None False"
proof -
  let ?p = "\<lambda>m. named ns name m \<and> live m" and ?f = "\<lambda>m. m\<lparr>m_deleted_at := Some now\<rparr>"
  note ok = store_invD(1) [OF assms(1)]
  have d': "d' = update_memories now ?p ?f d" and changed: "sql_changed ?p (memories d) = 1"
    using assms(2) by (simp_all add: soft_delete_def Let_def)
  have ok': "store_ok d'"
    using soft_delete_inv [OF assms(1), of now ns name] assms(2) by (simp add: store_invD(1))
  obtain m where m: "m \<in> set (memories d)" "?p m"
    using changed sql_count_eq_0 [of ?p "memories d"] by auto
  have one: "one_row ?p m d"
    unfolding one_row_def using m same_name_same_row [OF ok _ m(1)] by blast
  define m' where "m' = (?f m)\<lparr>m_updated_at := now\<rparr>"
  have mems: "set (memories d') = insert m' (set (memories d) - {m})"
    unfolding d' m'_def by (rule update_one_row_set [OF one])
  have m': "m_id m' = m_id m" "named ns name m'" "\<not> live m'"
    using m by (simp_all add: m'_def named_def live_def)
  have dead: "\<not> live x" if "x \<in> set (memories d')" "m_id x = m_id m \<or> named ns name x" for x
  proof -
    have "x = m' \<or> x \<in> set (memories d) \<and> x \<noteq> m" using that(1) by (simp add: mems)
    then show ?thesis
      using that(2) m' m(2) same_id_same_row [OF ok _ m(1)] same_name_same_row [OF ok _ m(1)] by metis
  qed
  have "read_by_name d' ns name = None" and "read_full d' (m_id m) = None"
    using dead by (auto simp: read_by_name_def read_full_def find_None_iff')
  moreover have "find_by_name_any_state d' ns name = Some (m_id m, True)"
    unfolding any_state_iff [OF ok'] mems using m' by blast
  moreover have "m_id m \<notin> m_id ` set (list_memories d' ns mt l off False)" for mt l off
  proof -
    have "set (list_memories d' ns mt l off False) \<subseteq> {x \<in> set (memories d'). live x}"
      by (auto simp: list_memories_def page_def Let_def listed_def dest!: in_set_takeD in_set_dropD split: if_splits)
    then show ?thesis using dead by fastforce
  qed
  moreover have "Suc (count_memories d' ns None False) = count_memories d ns None False"
    using sql_count_update_out [of ?p "listed ns None False" "\<lambda>r. (?f r)\<lparr>m_updated_at := now\<rparr>" "memories d"] changed
    by (simp add: count_memories_def d' update_memories_def listed_def named_def live_def)
  moreover have "read_by_name d ns name = Some m" using read_by_name_iff [OF ok] m by blast
  ultimately show ?thesis by blast
qed


theorem soft_delete_hides_witness:
  "\<exists>d'. soft_delete 200 ''global'' ''onboarding'' sample_db = (True, d') \<and> read_by_name d' ''global'' ''onboarding'' = None"
proof -
  have "fst (soft_delete 200 ''global'' ''onboarding'' sample_db)"
    by (simp add: soft_delete_def Let_def sample_db_def named_def live_def memory_of_new_def sample_memory_def)
  then obtain d' where run: "soft_delete 200 ''global'' ''onboarding'' sample_db = (True, d')"
    by (cases "soft_delete 200 ''global'' ''onboarding'' sample_db") simp
  from soft_delete_hides [OF sample_inv run] run show ?thesis by blast
qed

end
