(* ===== verification/Memory_Parts.thy ===== *)
theory Memory_Parts
  imports Memories Chunking
begin

text \<open>
  The rows that hang off a memory: its URLs (\<^verbatim>\<open>src/storage/urls.rs\<close>), its chunks with their
  embeddings (\<^verbatim>\<open>src/storage/chunks.rs\<close>) and its entries in the re-embedding list
  (\<^verbatim>\<open>src/storage/pending_embeddings.rs\<close>); and the judgement on foreign-key violations a migration
  leaves behind (\<^verbatim>\<open>src/storage/foreign_keys.rs\<close>). A loop of inserts that stops at an error
  leaves the rows inserted so far to the caller's transaction, so it returns the error and the
  store.
\<close>

section \<open>URLs\<close>

record memory_url =
  mu_url :: string
  mu_offset :: "int option"

text \<open>\<^verbatim>\<open>INSERT OR IGNORE\<close> skips a row that breaks a check or uniqueness; a missing parent is an error.
  The number is the change count of the statement.\<close>

definition insert_url :: "int \<Rightarrow> int \<Rightarrow> memory_url \<Rightarrow> db \<Rightarrow> app_error + (nat \<times> db)" where
  "insert_url now i entry d =
     (if \<not> (10 \<le> sql_length (mu_url entry) \<and> sql_length (mu_url entry) \<le> 4096)
         \<or> (\<exists>u \<in> set (memory_urls d). u_memory_id u = i \<and> u_url u = mu_url entry) then Inr (0, d)
      else if i \<in> memory_ids d then
        Inr (1, d\<lparr>memory_urls := memory_urls d @
                   [\<lparr>u_id = seq_urls d + 1, u_memory_id = i, u_url = mu_url entry,
                     u_offset = mu_offset entry, u_created_at = now\<rparr>],
                  seq_urls := seq_urls d + 1\<rparr>)
      else Inl constraint_error)"

fun insert_urls_loop :: "int \<Rightarrow> int \<Rightarrow> memory_url list \<Rightarrow> nat \<Rightarrow> db \<Rightarrow> nat \<times> db" where
  "insert_urls_loop now i [] inserted d = (inserted, d)"
| "insert_urls_loop now i (entry # urls) inserted d =
     (case insert_url now i entry d of
        Inr (changed, d') \<Rightarrow>
          insert_urls_loop now i urls (if 0 < changed then Suc inserted else inserted) d'
      | Inl _ \<Rightarrow> insert_urls_loop now i urls inserted d)"

definition insert_urls :: "int \<Rightarrow> int \<Rightarrow> memory_url list \<Rightarrow> db \<Rightarrow> nat \<times> db" where
  "insert_urls now i urls d = insert_urls_loop now i urls 0 d"

definition list_urls_by_memory :: "db \<Rightarrow> int \<Rightarrow> memory_url list" where
  "list_urls_by_memory d i =
     map (\<lambda>u. \<lparr>mu_url = u_url u, mu_offset = u_offset u\<rparr>)
       (sort_key u_id (filter (\<lambda>u. u_memory_id u = i) (memory_urls d)))"

definition delete_urls_by_memory :: "int \<Rightarrow> db \<Rightarrow> db" where
  "delete_urls_by_memory i d = d\<lparr>memory_urls := sql_delete (\<lambda>u. u_memory_id u = i) (memory_urls d)\<rparr>"

section \<open>Chunks\<close>

text \<open>The stored chunk; the offsets and counts are \<^verbatim>\<open>i32\<close>.\<close>

record stored_chunk =
  sc_memory_id :: int
  sc_chunk_idx :: int
  sc_text :: string
  sc_start :: int
  sc_end :: int
  sc_token_count :: int

definition as_i32 :: "nat \<Rightarrow> int" where
  "as_i32 n = sint (word_of_nat n :: 32 word)"

definition exec_insert_chunk :: "stored_chunk \<Rightarrow> db \<Rightarrow> app_error + db" where
  "exec_insert_chunk c d =
     (if sc_memory_id c \<in> memory_ids d
         \<and> \<not> (\<exists>x \<in> set (memory_chunks d). c_memory_id x = sc_memory_id c \<and> c_chunk_idx x = sc_chunk_idx c)
      then Inr (d\<lparr>memory_chunks := memory_chunks d @
                   [\<lparr>c_id = seq_chunks d + 1, c_memory_id = sc_memory_id c, c_chunk_idx = sc_chunk_idx c,
                     c_text = sc_text c, c_start = sc_start c, c_end = sc_end c,
                     c_token_count = sc_token_count c\<rparr>],
                  seq_chunks := seq_chunks d + 1\<rparr>)
      else Inl constraint_error)"

fun insert_chunks :: "stored_chunk list \<Rightarrow> db \<Rightarrow> app_error option \<times> db" where
  "insert_chunks [] d = (None, d)"
| "insert_chunks (c # cs) d =
     (case exec_insert_chunk c d of Inl e \<Rightarrow> (Some e, d) | Inr d' \<Rightarrow> insert_chunks cs d')"

text \<open>The slices of a body: the text of each is an indexing expression that may panic.\<close>

fun insert_slices_loop :: "int \<Rightarrow> string \<Rightarrow> nat \<Rightarrow> chunk list \<Rightarrow> db \<Rightarrow> (app_error option \<times> db) rust" where
  "insert_slices_loop i body idx [] d = Inr (None, d)"
| "insert_slices_loop i body idx (c # cs) d =
     bind_rust (chunk_text body c) (\<lambda>text.
       case exec_insert_chunk
              \<lparr>sc_memory_id = i, sc_chunk_idx = as_i32 idx, sc_text = text,
               sc_start = as_i32 (start_offset c), sc_end = as_i32 (end_offset c),
               sc_token_count = as_i32 (token_count_approx c)\<rparr> d of
         Inl e \<Rightarrow> Inr (Some e, d)
       | Inr d' \<Rightarrow> insert_slices_loop i body (Suc idx) cs d')"

definition insert_chunk_slices ::
  "int \<Rightarrow> string \<Rightarrow> chunk list \<Rightarrow> db \<Rightarrow> (app_error option \<times> db) rust" where
  "insert_chunk_slices i body chunks d = insert_slices_loop i body 0 chunks d"

text \<open>The key of the embedding is a subquery; when no chunk matches it is NULL, and a NULL integer
  primary key makes the engine assign the largest key plus one.\<close>

definition upsert_chunk_vec :: "embed_config \<Rightarrow> int \<Rightarrow> int \<Rightarrow> f32 list \<Rightarrow> db \<Rightarrow> app_error + db" where
  "upsert_chunk_vec cfg i idx embedding d =
     (if embedding = [] then Inr d
      else
        (let key = (case List.find (\<lambda>c. c_memory_id c = i \<and> c_chunk_idx c = idx) (memory_chunks d) of
                      Some c \<Rightarrow> c_id c
                    | None \<Rightarrow> max_or_zero (map x_key (chunk_embeddings d)) + 1)
         in if key \<in> chunk_ids d \<and> i \<in> memory_ids d then
              Inr (d\<lparr>chunk_embeddings := sql_delete (\<lambda>x. x_key x = key) (chunk_embeddings d) @
                     [\<lparr>x_key = key, x_owner = i, x_namespace = '''', x_embedding = f32_to_bytes embedding,
                       x_source = ''llm-headless'', x_model = cfg_version cfg, x_dim = cfg_dim cfg\<rparr>]\<rparr>)
            else Inl constraint_error))"

definition delete_chunks :: "int \<Rightarrow> db \<Rightarrow> db" where
  "delete_chunks i = delete_chunk_rows (\<lambda>c. c_memory_id c = i)"

definition count_for_memory :: "db \<Rightarrow> int \<Rightarrow> nat" where
  "count_for_memory d i = sql_count (\<lambda>c. c_memory_id c = i) (memory_chunks d)"

definition get_chunks_by_memory :: "db \<Rightarrow> int \<Rightarrow> stored_chunk list" where
  "get_chunks_by_memory d i =
     map (\<lambda>c. \<lparr>sc_memory_id = c_memory_id c, sc_chunk_idx = c_chunk_idx c, sc_text = c_text c,
               sc_start = c_start c, sc_end = c_end c, sc_token_count = c_token_count c\<rparr>)
       (sort_key c_chunk_idx (filter (\<lambda>c. c_memory_id c = i) (memory_chunks d)))"

section \<open>Memories waiting for an embedding\<close>

datatype pending_status = PePending | PeInProgress | PeDone | PeAbandoned

definition pending_status_str :: "pending_status \<Rightarrow> string" where
  "pending_status_str s = (case s of PePending \<Rightarrow> ''pending'' | PeInProgress \<Rightarrow> ''in_progress''
     | PeDone \<Rightarrow> ''done'' | PeAbandoned \<Rightarrow> ''abandoned'')"

definition parse_status :: "string \<Rightarrow> app_error + pending_status" where
  "parse_status s =
     (if s = ''pending'' then Inr PePending
      else if s = ''in_progress'' then Inr PeInProgress
      else if s = ''done'' then Inr PeDone
      else if s = ''abandoned'' then Inr PeAbandoned
      else Inl (Validation ''unknown_pending_embeddings_status''))"

definition insert_pending ::
  "int \<Rightarrow> int \<Rightarrow> string \<Rightarrow> string \<Rightarrow> string \<Rightarrow> string option \<Rightarrow> int option \<Rightarrow> string option \<Rightarrow> db
     \<Rightarrow> app_error + (int \<times> db)" where
  "insert_pending now i ns name chain err code tail d =
     (if i \<in> memory_ids d then
        Inr (seq_pending d + 1,
             d\<lparr>pending_embeddings := pending_embeddings d @
                 [\<lparr>p_id = seq_pending d + 1, p_memory_id = i, p_namespace = ns, p_name = name,
                   p_backend_chain = chain, p_last_error = err, p_last_exit_code = code,
                   p_last_stderr_tail = tail, p_attempt_count = 0, p_status = ''pending'',
                   p_created_at = now, p_updated_at = now\<rparr>],
               seq_pending := seq_pending d + 1\<rparr>)
      else Inl constraint_error)"

definition update_status ::
  "int \<Rightarrow> int \<Rightarrow> pending_status \<Rightarrow> string option \<Rightarrow> int option \<Rightarrow> string option \<Rightarrow> db \<Rightarrow> db" where
  "update_status now pid status err code tail d =
     d\<lparr>pending_embeddings := sql_update (\<lambda>p. p_id p = pid)
         (\<lambda>p. p\<lparr>p_status := pending_status_str status,
                p_last_error := coalesce err (p_last_error p),
                p_last_exit_code := coalesce code (p_last_exit_code p),
                p_last_stderr_tail := coalesce tail (p_last_stderr_tail p),
                p_attempt_count := p_attempt_count p + 1,
                p_updated_at := now\<rparr>) (pending_embeddings d)\<rparr>"

definition count_by_status :: "db \<Rightarrow> pending_status \<Rightarrow> nat" where
  "count_by_status d status = sql_count (\<lambda>p. p_status p = pending_status_str status) (pending_embeddings d)"

text \<open>Every selected row is converted; a status the parser rejects is a conversion error.\<close>

fun convert_rows :: "pending_row list \<Rightarrow> app_error + (pending_row \<times> pending_status) list" where
  "convert_rows [] = Inr []"
| "convert_rows (p # ps) =
     (case parse_status (p_status p) of
        Inl _ \<Rightarrow> Inl (Database (OtherSqlite ''FromSqlConversionFailure''))
      | Inr s \<Rightarrow> bind_rust (convert_rows ps) (\<lambda>out. Inr ((p, s) # out)))"

definition list_by_status :: "db \<Rightarrow> pending_status \<Rightarrow> nat \<Rightarrow> app_error + (pending_row \<times> pending_status) list" where
  "list_by_status d status l =
     convert_rows (page l 0 (sort_key p_updated_at
       (filter (\<lambda>p. p_status p = pending_status_str status) (pending_embeddings d))))"

definition abandon :: "int \<Rightarrow> int \<Rightarrow> db \<Rightarrow> db" where
  "abandon now pid = update_status now pid PeAbandoned None None None"

definition delete_pending :: "int \<Rightarrow> db \<Rightarrow> db" where
  "delete_pending pid d = d\<lparr>pending_embeddings := sql_delete (\<lambda>p. p_id p = pid) (pending_embeddings d)\<rparr>"

section \<open>Foreign-key violations\<close>

text \<open>The rows of \<^verbatim>\<open>PRAGMA foreign_key_check\<close> are the input; the counts are an association
  list from (child, parent) to the number of rows (the map's key order only decides which pair an
  error message names).\<close>

record violation =
  child_table :: string
  child_rowid :: "int option"
  parent_table :: string

type_synonym violation_counts = "((string \<times> string) \<times> nat) list"

definition count_of :: "violation_counts \<Rightarrow> string \<times> string \<Rightarrow> nat" where
  "count_of m pair = (case map_of m pair of None \<Rightarrow> 0 | Some n \<Rightarrow> n)"

fun bump_count :: "string \<times> string \<Rightarrow> violation_counts \<Rightarrow> violation_counts" where
  "bump_count p [] = [(p, 1)]"
| "bump_count p ((q, n) # m) = (if q = p then (q, Suc n) # m else (q, n) # bump_count p m)"

definition foreign_key_violation_counts :: "violation list \<Rightarrow> violation_counts" where
  "foreign_key_violation_counts rows =
     foldl (\<lambda>counts r. bump_count (child_table r, parent_table r) counts) [] rows"

fun assert_migration_orphaned_nothing :: "violation_counts \<Rightarrow> violation_counts \<Rightarrow> app_error + unit" where
  "assert_migration_orphaned_nothing before [] = Inr ()"
| "assert_migration_orphaned_nothing before ((pair, after_count) # rest) =
     (if count_of before pair < after_count then Inl (Internal ''migration orphaned rows'')
      else assert_migration_orphaned_nothing before rest)"

definition find_foreign_key_violations :: "violation list \<Rightarrow> (string \<times> int) list" where
  "find_foreign_key_violations rows =
     concat (map (\<lambda>r. case child_rowid r of None \<Rightarrow> [] | Some i \<Rightarrow> [(child_table r, i)]) rows)"

end
