(* ===== verification/Search_Correct.thy ===== *)
theory Search_Correct
  imports Memories_Correct Memory_Parts "HOL-Library.Multiset"
begin

text \<open>
  Reading back what the storage layer holds: pages of a listing partition it, embeddings survive
  their byte encoding, status strings parse back, and a search query reaches the engine without
  any of its query syntax except what the sanitiser puts there.
\<close>

section \<open>Pages\<close>

lemma page_small: "l < 2 ^ 63 \<Longrightarrow> off < 2 ^ 63 \<Longrightarrow> page l off xs = take l (drop off xs)"
  by (simp add: page_def as_i64_small)

lemma concat_pages: "concat (map (\<lambda>k. take l (drop (k * l) xs)) [0..<n]) = take (n * l) xs"
proof (induction n)
  case (Suc n)
  then show ?case using take_add [of "n * l" l xs] by (simp add: add.commute)
qed simp

text \<open>The pages of a listing are consecutive slices of one list: concatenating enough pages
  gives every matching memory exactly once, newest update first, and their number is what the
  count reports.\<close>

theorem list_memories_pages:
  assumes "n * l < 2 ^ 63" and "count_memories d ns mt incl \<le> n * l"
  defines "all \<equiv> concat (map (\<lambda>k. list_memories d ns mt l (k * l) incl) [0..<n])"
  shows "mset all = mset (filter (listed ns mt incl) (memories d))
    \<and> sorted (map (\<lambda>m. - m_updated_at m) all)
    \<and> length all = count_memories d ns mt incl"
proof -
  let ?xs = "sort_key (\<lambda>m. - m_updated_at m) (filter (listed ns mt incl) (memories d))"
  have "list_memories d ns mt l (k * l) incl = take l (drop (k * l) ?xs)" if "k < n" for k
  proof -
    have "k * l + l \<le> n * l" using that by (metis Suc_leI add.commute mult_Suc mult_le_mono1)
    then have "l < 2 ^ 63" "k * l < 2 ^ 63" using assms(1) by linarith+
    then show ?thesis by (simp add: list_memories_def page_small)
  qed
  then have "all = concat (map (\<lambda>k. take l (drop (k * l) ?xs)) [0..<n])"
    unfolding all_def by (intro arg_cong [where f = concat] map_cong) auto
  also have "\<dots> = take (n * l) ?xs" by (rule concat_pages)
  also have "\<dots> = ?xs" using assms(2) by (simp add: count_memories_def sql_count_def)
  finally show ?thesis by (simp add: count_memories_def sql_count_def)
qed

theorem list_memories_pages_witness:
  "mset (list_memories sample_db ''global'' None 1 0 False @ list_memories sample_db ''global'' None 1 1 False)
   = mset (filter (listed ''global'' None False) (memories sample_db))"
proof -
  have c: "count_memories sample_db ''global'' None False = 1"
    by (simp add: count_memories_def sample_db_def listed_def memory_of_new_def sample_memory_def live_def)
  show ?thesis
    using list_memories_pages [of 2 1 sample_db "''global''" None False] c by (simp add: upt_rec)
qed

section \<open>Embeddings as bytes\<close>

lemma base_256:
  assumes "(u::nat) < 256 ^ 4"
  shows "u mod 256 + 256 * (u div 256 mod 256) + 256 ^ 2 * (u div 256 ^ 2 mod 256)
    + 256 ^ 3 * (u div 256 ^ 3 mod 256) = u"
proof -
  define a b c where "a = u div 256" and "b = a div 256" and "c = b div 256"
  have c: "c < 256" using assms unfolding a_def b_def c_def by (simp add: less_mult_imp_div_less div_mult2_eq [symmetric])
  then have "u = u mod 256 + 256 * (a mod 256 + 256 * (b mod 256 + 256 * (c mod 256)))"
    by (simp add: a_def b_def c_def)
  moreover have "u div 256 ^ 2 = b" "u div 256 ^ 3 = c"
    by (simp_all add: a_def b_def c_def div_mult2_eq [symmetric])
  ultimately show ?thesis using c by (simp add: a_def [symmetric] power_def algebra_simps)
qed

text \<open>A stored embedding reads back bit for bit: decoding the little-endian bytes of a vector
  gives the vector, for every bit pattern, and the blob has four bytes per component.\<close>

theorem f32_bytes_roundtrip: "bytes_to_f32 (f32_to_bytes v) = v \<and> length (f32_to_bytes v) = 4 * length v"
proof (induction v)
  case (Cons f v)
  have "unat f < 256 ^ 4" using unsigned_less [of f] by simp
  note e = base_256 [OF this]
  have "bytes_to_f32 (to_le_bytes f @ bs) = f # bytes_to_f32 bs" for bs
    unfolding to_le_bytes_def byte_of_def append.simps bytes_to_f32.simps of_char_of power_0 div_by_1 power_one_right e
    by simp
  then show ?case using Cons by (simp add: f32_to_bytes_def) (simp add: to_le_bytes_def)
qed (simp add: f32_to_bytes_def)

section \<open>Status strings\<close>

lemma parse_status_str: "parse_status (pending_status_str s) = Inr s"
  by (cases s) (simp_all add: parse_status_def pending_status_str_def)

lemma parse_status_iff: "parse_status t = Inr s \<longleftrightarrow> t = pending_status_str s"
  by (cases s) (auto simp: parse_status_def pending_status_str_def)

lemma source_try_from_iff: "source_try_from t = Inr s \<longleftrightarrow> t = source_str s"
  by (cases s) (auto simp: source_try_from_def source_str_def)

lemma convert_rows_all:
  "\<forall>p \<in> set rows. p_status p = pending_status_str s \<Longrightarrow> convert_rows rows = Inr (map (\<lambda>p. (p, s)) rows)"
  by (induction rows) (simp_all add: parse_status_str)

section \<open>Search queries\<close>

definition query_token :: "scalars \<Rightarrow> bool" where
  "query_token t \<longleftrightarrow> t \<noteq> [] \<and> \<not> is_fts_keyword t
     \<and> list_all (\<lambda>c. c \<notin> set FTS5_SYNTAX \<and> \<not> is_whitespace c) t"

definition no_separator :: "scalars \<Rightarrow> bool" where
  "no_separator t \<longleftrightarrow> list_all (\<lambda>c. c \<notin> set SEPARATORS) t"

lemma split_at_scalars_parts:
  "t \<in> set (split_at_scalars p s) \<Longrightarrow> (\<forall>c \<in> set t. \<not> p c \<and> c \<in> set s)"
proof (induction s arbitrary: t)
  case (Cons c cs)
  show ?case
  proof (cases "p c")
    case True
    with Cons show ?thesis by fastforce
  next
    case False
    show ?thesis
    proof (cases "split_at_scalars p cs")
      case Nil
      with Cons.prems False show ?thesis by simp
    next
      case (Cons u us)
      with Cons.prems False have "t = c # u \<or> t \<in> set us" by simp
      with Cons.IH Cons False show ?thesis by fastforce
    qed
  qed
qed simp

lemma trim_scalars_subset: "set (trim_scalars s) \<subseteq> set s"
  unfolding trim_scalars_def by (auto dest!: set_dropWhileD)

text \<open>Claim C7. Whatever the user types, the query handed to the search engine is either the prefix
  terms of plain tokens, or a quoted phrase of tokens followed by their prefix terms joined with
  OR. A token is not empty, is no operator keyword in any case, and contains no syntax character
  and no white space; in the second form it contains no separator either.\<close>

theorem preprocess_fts_query_safe:
  "\<exists>tokens. list_all query_token tokens \<and>
     (preprocess_fts_query raw = join_scalars (ascii '' '') (map prefix_term tokens)
      \<or> tokens \<noteq> [] \<and> list_all no_separator tokens
        \<and> preprocess_fts_query raw = [34] @ join_scalars (ascii '' '') tokens @ [34] @ ascii '' OR ''
             @ join_scalars (ascii '' OR '') (map prefix_term tokens))"
proof -
  define tr where "tr = trim_scalars (filter (\<lambda>c. c \<notin> set FTS5_SYNTAX) raw)"
  define sep where "sep c \<longleftrightarrow> c \<in> set SEPARATORS \<or> is_whitespace c" for c
  define ws where "ws = filter (\<lambda>t. \<not> is_fts_keyword t) (split_whitespace tr)"
  define ts where "ts = filter (\<lambda>t. t \<noteq> [] \<and> \<not> is_fts_keyword t) (split_at_scalars sep tr)"
  have clean: "c \<notin> set FTS5_SYNTAX" if "c \<in> set tr" for c
    using that trim_scalars_subset unfolding tr_def by fastforce
  have ws: "list_all query_token ws"
    using split_at_scalars_parts [where s = tr and p = is_whitespace] clean
    by (auto simp: ws_def split_whitespace_def query_token_def list_all_iff)
  have "query_token t \<and> no_separator t" if t: "t \<in> set ts" for t
    using split_at_scalars_parts [of t sep tr] t clean
    by (simp add: ts_def query_token_def no_separator_def list_all_iff sep_def)
  then have ts: "list_all query_token ts" "list_all no_separator ts" by (simp_all add: list_all_iff)
  have q: "preprocess_fts_query raw =
    (if tr = [] then []
     else if \<not> list_ex (\<lambda>c. c \<in> set SEPARATORS) tr then join_scalars (ascii '' '') (map prefix_term ws)
     else if ts = [] then []
     else [34] @ join_scalars (ascii '' '') ts @ [34] @ ascii '' OR '' @ join_scalars (ascii '' OR '') (map prefix_term ts))"
    unfolding preprocess_fts_query_def Let_def tr_def ws_def ts_def sep_def by (rule refl)
  let ?sep = "list_ex (\<lambda>c. c \<in> set SEPARATORS) tr"
  consider (none) "tr = [] \<or> ?sep \<and> ts = []" | (plain) "tr \<noteq> []" "\<not> ?sep" | (phrase) "tr \<noteq> []" "?sep" "ts \<noteq> []"
    by blast
  then show ?thesis
  proof cases
    case none
    then have "preprocess_fts_query raw = []" by (auto simp: q)
    then show ?thesis by (intro exI [of _ "[]"]) simp
  next
    case plain
    then have "preprocess_fts_query raw = join_scalars (ascii '' '') (map prefix_term ws)" by (simp add: q)
    with ws show ?thesis by blast
  next
    case phrase
    then have "preprocess_fts_query raw = [34] @ join_scalars (ascii '' '') ts @ [34] @ ascii '' OR ''
         @ join_scalars (ascii '' OR '') (map prefix_term ts)" by (simp add: q)
    with ts phrase(3) show ?thesis by blast
  qed
qed

end
