(* ===== verification/Lifecycle_Correct.thy ===== *)
theory Lifecycle_Correct
  imports Lifecycle Search_Correct
begin

text \<open>
  The commands of a memory's life keep the store invariant, and what each of them does to the
  store: which name resolves to what afterwards, which version row is appended, which rows a purge
  removes. The locale \<open>store_command\<close> is the contract between a command and a session of
  commands; every command of \<^verbatim>\<open>Lifecycle\<close> is an instance.
\<close>

section \<open>The contract of a command\<close>

text \<open>A command maps the store to a result and a store; on an error the store it returns is the one the
  process leaves on disk.\<close>

locale store_command =
  fixes run :: "'a \<Rightarrow> db \<Rightarrow> (app_error + 'r) \<times> db"
  assumes keeps_inv: "store_inv d \<Longrightarrow> store_inv (snd (run a d))"
begin

fun run_all :: "'a list \<Rightarrow> db \<Rightarrow> db" where
  "run_all [] d = d"
| "run_all (a # as) d = run_all as (snd (run a d))"

lemma run_all_inv: "store_inv d \<Longrightarrow> store_inv (run_all as d)"
  by (induction as arbitrary: d) (simp_all add: keeps_inv)

end

text \<open>A transactional command returns no store on an error: the rollback keeps the old one.\<close>

definition committed :: "(db \<Rightarrow> app_error + ('r \<times> db)) \<Rightarrow> db \<Rightarrow> (app_error + 'r) \<times> db" where
  "committed tx d = (case tx d of Inl e \<Rightarrow> (Inl e, d) | Inr (r, d') \<Rightarrow> (Inr r, d'))"

locale transaction =
  fixes tx :: "'a \<Rightarrow> db \<Rightarrow> app_error + ('r \<times> db)"
  assumes tx_inv: "store_inv d \<Longrightarrow> tx a d = Inr (r, d') \<Longrightarrow> store_inv d'"

sublocale transaction \<subseteq> store_command "\<lambda>a. committed (tx a)"
  by unfold_locales (auto simp: committed_def tx_inv split: sum.split)

section \<open>Updates of one memory\<close>

text \<open>The common shape of \<^verbatim>\<open>edit\<close>, \<^verbatim>\<open>rename\<close> and \<^verbatim>\<open>restore\<close>: an update of one row that changed something,
  a store reached from it by statements on other tables, and the synchronisation of the index.\<close>

lemma update_row_inv:
  assumes inv: "store_inv d" and run: "exec_update_memories now p f d = Inr (n, d1)" and "n \<noteq> 0"
    and id: "\<And>r. m_id (f r) = m_id r" and p: "\<And>r. p r \<Longrightarrow> m_id r = m_id m" and m: "m \<in> set (memories d)"
    and ok2: "store_ok d2" and keep: "memories d2 = memories d1" "fts_memories d2 = fts_memories d1"
    and new: "fts_of (f m) = \<lparr>f_rowid = m_id m, f_name = nn, f_description = nd, f_body = nb\<rparr>"
  shows "store_inv (sync_fts_after_update (m_id m) (m_name m) (m_description m) (m_body m) nn nd nb d2)"
    and "set (memories d2) = insert ((f m)\<lparr>m_updated_at := now\<rparr>) (set (memories d) - {m})"
proof -
  have "0 < sql_changed p (memories d)" and d1: "d1 = update_memories now p f d"
    using run \<open>n \<noteq> 0\<close> by (auto elim: exec_update_memoriesE)
  then have one: "one_row p m d"
    by (intro changed_one_row [OF store_invD(1) [OF inv]]) (use p m in auto)
  show "store_inv (sync_fts_after_update (m_id m) (m_name m) (m_description m) (m_body m) nn nd nb d2)"
    by (rule sync_one_row [OF inv run id one ok2 keep new])
  show "set (memories d2) = insert ((f m)\<lparr>m_updated_at := now\<rparr>) (set (memories d) - {m})"
    unfolding keep d1 by (rule update_one_row_set [OF one])
qed

lemma memories_sync [simp]: "memories (sync_fts_after_update i a b c x y z d) = memories d"
  "memory_versions (sync_fts_after_update i a b c x y z d) = memory_versions d"
  "memory_embeddings (sync_fts_after_update i a b c x y z d) = memory_embeddings d"
  by (simp_all add: sync_fts_after_update_def fts_insert_def fts_delete_def)

section \<open>Restore\<close>

abbreviation restored :: "(string \<Rightarrow> string) \<Rightarrow> version_row \<Rightarrow> memory_row \<Rightarrow> memory_row" where
  "restored blake3 v m \<equiv> m\<lparr>m_type := v_type v, m_description := v_description v, m_body := v_body v,
     m_body_hash := blake3 (v_body v), m_deleted_at := None\<rparr>"

lemma restore_txE:
  assumes "restore_tx cfg blake3 now ns expected cur v embedding d = Inr (nv, d')"
  obtains p n d1 d2 d3 where "exec_update_memories now p (restored blake3 v) d = Inr (n, d1)"
    and "n \<noteq> 0" and "\<And>r. p r \<Longrightarrow> m_id r = m_id cur" and "nv = next_version d1 (m_id cur)"
    and "insert_version now (m_id cur) nv (m_name cur) (v_type v) (v_description v) (v_body v)
           (v_metadata v) None ''restore'' d1 = Inr d2"
    and "(case embedding of None \<Rightarrow> Inr d2 | Some emb \<Rightarrow> upsert_vec cfg (m_id cur) ns emb d2) = Inr d3"
    and "d' = sync_fts_after_update (m_id cur) (m_name cur) (m_description cur) (m_body cur)
           (m_name cur) (v_description v) (v_body v) d3"
proof -
  define p :: "memory_row \<Rightarrow> bool" where "p = (case expected of
             Some ts \<Rightarrow> (\<lambda>m. m_id m = m_id cur \<and> m_updated_at m = ts)
           | None \<Rightarrow> (\<lambda>m. m_id m = m_id cur))"
  have pid: "p r \<Longrightarrow> m_id r = m_id cur" for r by (simp add: p_def split: option.splits)
  from assms obtain n d1 where run: "exec_update_memories now p (restored blake3 v) d = Inr (n, d1)"
    and rest: "(if n = 0 then Inl (Conflict ''concurrent_process_conflict'')
          else
            (let next_v = next_version d1 (m_id cur) in
             bind_rust
               (insert_version now (m_id cur) next_v (m_name cur) (v_type v) (v_description v) (v_body v)
                  (v_metadata v) None ''restore'' d1)
               (\<lambda>d2. bind_rust
                 (case embedding of None \<Rightarrow> Inr d2 | Some emb \<Rightarrow> upsert_vec cfg (m_id cur) ns emb d2)
                 (\<lambda>d3. Inr (next_v,
                    sync_fts_after_update (m_id cur) (m_name cur) (m_description cur) (m_body cur)
                      (m_name cur) (v_description v) (v_body v) d3))))) = Inr (nv, d')"
    unfolding restore_tx_def p_def [symmetric] bind_rust_Inr_iff by auto
  from rest have "n \<noteq> 0" by (auto split: if_splits)
  with rest obtain d2 d3 where
      "insert_version now (m_id cur) (next_version d1 (m_id cur)) (m_name cur) (v_type v) (v_description v) (v_body v)
           (v_metadata v) None ''restore'' d1 = Inr d2"
    and "(case embedding of None \<Rightarrow> Inr d2 | Some emb \<Rightarrow> upsert_vec cfg (m_id cur) ns emb d2) = Inr d3"
    and "nv = next_version d1 (m_id cur)" and "d' = sync_fts_after_update (m_id cur) (m_name cur) (m_description cur) (m_body cur)
           (m_name cur) (v_description v) (v_body v) d3"
    by (simp add: Let_def bind_rust_Inr_iff) blast
  with run \<open>n \<noteq> 0\<close> pid show thesis by (intro that [of p n d1 d2 d3]) auto
qed

definition upsert_opt :: "embed_config \<Rightarrow> int \<Rightarrow> string \<Rightarrow> f32 list option \<Rightarrow> db \<Rightarrow> app_error + db" where
  "upsert_opt cfg i ns embedding d =
     (case embedding of None \<Rightarrow> Inr d | Some emb \<Rightarrow> upsert_vec cfg i ns emb d)"

lemma optional_vec:
  assumes "store_ok d" and "(case embedding of None \<Rightarrow> Inr d | Some emb \<Rightarrow> upsert_vec cfg i ns emb d) = Inr d'"
  shows "store_ok d' \<and> memories d' = memories d \<and> fts_memories d' = fts_memories d
    \<and> memory_versions d' = memory_versions d"
  using assms upsert_vec_ok upsert_vec_keeps by (cases embedding) auto

lemmas upsert_opt_keeps = optional_vec [folded upsert_opt_def]

lemma restore_tx_effect:
  assumes inv: "store_inv d" and cur: "cur \<in> set (memories d)"
    and run: "restore_tx cfg blake3 now ns expected cur v embedding d = Inr (nv, d')"
  shows "store_inv d'
    \<and> set (memories d') = insert ((restored blake3 v cur)\<lparr>m_updated_at := now\<rparr>) (set (memories d) - {cur})"
  using run
proof (rule restore_txE)
  fix p n d1 d2 d3
  assume u: "exec_update_memories now p (restored blake3 v) d = Inr (n, d1)" and n: "n \<noteq> 0"
    and p: "\<And>r. p r \<Longrightarrow> m_id r = m_id cur"
    and iv: "insert_version now (m_id cur) nv (m_name cur) (v_type v) (v_description v) (v_body v)
           (v_metadata v) None ''restore'' d1 = Inr d2"
    and ev: "(case embedding of None \<Rightarrow> Inr d2 | Some emb \<Rightarrow> upsert_vec cfg (m_id cur) ns emb d2) = Inr d3"
    and d': "d' = sync_fts_after_update (m_id cur) (m_name cur) (m_description cur) (m_body cur)
           (m_name cur) (v_description v) (v_body v) d3"
  have "store_ok d1" by (rule exec_update_memories_ok [OF store_invD(1) [OF inv] u]) simp
  then have "store_ok d2" by (rule insert_version_ok [OF _ iv])
  note ev' = optional_vec [OF this ev]
  have keep: "memories d3 = memories d1" "fts_memories d3 = fts_memories d1" and ok3: "store_ok d3"
    using ev' insert_version_keeps [OF iv] by simp_all
  have new: "fts_of (restored blake3 v cur) =
      \<lparr>f_rowid = m_id cur, f_name = m_name cur, f_description = v_description v, f_body = v_body v\<rparr>"
    by (simp add: fts_of_def)
  note eff = update_row_inv [OF inv u n _ p cur ok3 keep new]
  show ?thesis unfolding d' memories_sync using eff by simp
qed

lemma restoreE:
  assumes "restore cfg blake3 embedder skip now ns args d = Inr (r, d')"
  obtains name cur v embedding nv where "or_else (ra_positional args) (ra_name args) = Some name"
    and "List.find (named ns name) (memories d) = Some cur"
    and "check_expected (ra_expected args) (m_updated_at cur) = Inr ()"
    and "restore_target args d (m_id cur) = Inr (v_version v)"
    and "v \<in> set (memory_versions d)" and "v_memory_id v = m_id cur"
    and "accept_embedding skip (embedder (v_body v)) = Inr embedding"
    and "restore_tx cfg blake3 now ns (ra_expected args) cur v embedding d = Inr (nv, d')"
    and "r = \<lparr>rr_memory_id = m_id cur, rr_name = m_name cur, rr_version = nv, rr_restored_from = v_version v\<rparr>"
proof -
  obtain name cur where n: "or_else (ra_positional args) (ra_name args) = Some name"
    "List.find (named ns name) (memories d) = Some cur"
    using assms by (auto simp: restore_def split: option.splits)
  with assms obtain target v where l: "check_expected (ra_expected args) (m_updated_at cur) = Inr ()"
    "restore_target args d (m_id cur) = Inr target"
    "List.find (\<lambda>v. v_memory_id v = m_id cur \<and> v_version v = target) (memory_versions d) = Some v"
    by (auto simp: restore_def bind_rust_Inr_iff split: option.splits)
  from find_in_set [OF l(3)] have v: "v \<in> set (memory_versions d)" "v_memory_id v = m_id cur" "v_version v = target"
    by simp_all
  from assms n l obtain embedding nv where
    "accept_embedding skip (embedder (v_body v)) = Inr embedding"
    "restore_tx cfg blake3 now ns (ra_expected args) cur v embedding d = Inr (nv, d')"
    "r = \<lparr>rr_memory_id = m_id cur, rr_name = m_name cur, rr_version = nv, rr_restored_from = target\<rparr>"
    by (auto simp: restore_def bind_rust_Inr_iff)
  with n l v show thesis by (intro that [of name cur v embedding nv]) simp_all
qed

lemma restore_inv:
  assumes "store_inv d" and "restore cfg blake3 embedder skip now ns args d = Inr (r, d')"
  shows "store_inv d'"
  using assms(2)
proof (rule restoreE)
  fix name cur v embedding nv
  assume f: "List.find (named ns name) (memories d) = Some cur"
    and tx: "restore_tx cfg blake3 now ns (ra_expected args) cur v embedding d = Inr (nv, d')"
  from find_in_set [OF f] restore_tx_effect [OF assms(1) _ tx] show ?thesis by simp
qed

section \<open>Rename\<close>

lemma purge_ghost_fails: "purge_ghost i d = Inl (Database (OtherSqlite ''no such table: vec_memories''))"
  by (simp add: purge_ghost_def exec_delete_vec_table_def Let_def)

lemma rename_target_Inr: "rename_target ns new_name i d = Inr (g, d') \<Longrightarrow> g = None \<and> d' = d"
  by (auto simp: rename_target_def purge_ghost_fails split: option.splits if_splits)

lemma rename_txE:
  assumes "rename_tx now ns name new_name expected i row d = Inr (r, d')"
  obtains p n d1 d2 where "exec_update_memories now p (\<lambda>m. m\<lparr>m_name := new_name\<rparr>) d = Inr (n, d1)"
    and "n \<noteq> 0" and "\<And>m. p m \<Longrightarrow> m_id m = i"
    and "insert_version now i (next_version d1 i) new_name (m_type row) (m_description row)
           (m_body row) (m_metadata row) None ''rename'' d1 = Inr d2"
    and "r = \<lparr>nr_memory_id = i, nr_name = new_name, nr_version = next_version d1 i, nr_ghost_purged = None\<rparr>"
    and "d' = sync_fts_after_update i name (m_description row) (m_body row)
           new_name (m_description row) (m_body row) d2"
proof -
  define p :: "memory_row \<Rightarrow> bool" where "p = (case expected of
             Some ts \<Rightarrow> (\<lambda>m. m_id m = i \<and> m_updated_at m = ts \<and> live m)
           | None \<Rightarrow> (\<lambda>m. m_id m = i \<and> live m))"
  have pid: "p m \<Longrightarrow> m_id m = i" for m by (simp add: p_def split: option.splits)
  obtain g d0 where t: "rename_target ns new_name i d = Inr (g, d0)"
    using assms unfolding rename_tx_def bind_rust_Inr_iff by auto
  from rename_target_Inr [OF this] have t: "rename_target ns new_name i d = Inr (None, d)" using t by simp
  from assms obtain n d1 where u: "exec_update_memories now p (\<lambda>m. m\<lparr>m_name := new_name\<rparr>) d = Inr (n, d1)"
    unfolding rename_tx_def p_def [symmetric] t by (auto simp: bind_rust_Inr_iff)
  have "n \<noteq> 0" and rest: "bind_rust
               (insert_version now i (next_version d1 i) new_name (m_type row) (m_description row)
                  (m_body row) (m_metadata row) None ''rename'' d1)
               (\<lambda>d2. Inr (\<lparr>nr_memory_id = i, nr_name = new_name, nr_version = next_version d1 i,
                            nr_ghost_purged = None\<rparr>,
                  sync_fts_after_update i name (m_description row) (m_body row)
                    new_name (m_description row) (m_body row) d2)) = Inr (r, d')"
    using assms unfolding rename_tx_def p_def [symmetric] t
    by (auto simp: Let_def u split: if_splits)
  with u pid show thesis unfolding bind_rust_Inr_iff by (auto intro!: that [of p n d1])
qed

lemma rename_tx_effect:
  assumes inv: "store_inv d" and row: "row \<in> set (memories d)" "m_name row = name"
    and run: "rename_tx now ns name new_name expected (m_id row) row d = Inr (r, d')"
  shows "store_inv d'
    \<and> set (memories d') = insert (row\<lparr>m_name := new_name, m_updated_at := now\<rparr>) (set (memories d) - {row})"
  using run
proof (rule rename_txE)
  fix p n d1 d2
  assume u: "exec_update_memories now p (\<lambda>m. m\<lparr>m_name := new_name\<rparr>) d = Inr (n, d1)" and n: "n \<noteq> 0"
    and p: "\<And>m. p m \<Longrightarrow> m_id m = m_id row"
    and iv: "insert_version now (m_id row) (next_version d1 (m_id row)) new_name (m_type row) (m_description row)
           (m_body row) (m_metadata row) None ''rename'' d1 = Inr d2"
    and d': "d' = sync_fts_after_update (m_id row) name (m_description row) (m_body row)
           new_name (m_description row) (m_body row) d2"
  have "store_ok d1" by (rule exec_update_memories_ok [OF store_invD(1) [OF inv] u]) simp
  then have ok2: "store_ok d2" by (rule insert_version_ok [OF _ iv])
  note keep = insert_version_keeps(1,2) [OF iv]
  have new: "fts_of (row\<lparr>m_name := new_name\<rparr>) =
      \<lparr>f_rowid = m_id row, f_name = new_name, f_description = m_description row, f_body = m_body row\<rparr>"
    by (simp add: fts_of_def)
  note eff = update_row_inv [OF inv u n _ p row(1) ok2 keep new]
  show ?thesis unfolding d' memories_sync using eff by (simp add: row(2))
qed

lemma renameE:
  assumes "rename lowercase now ns args d = Inr (r, d')"
  obtains name raw row where "or_else (na_positional args) (na_name args) = Some name"
    and "or_else (na_new_name args) (na_new_positional args) = Some raw"
    and "check_new_name name (normalize_new_name lowercase raw) = Inr ()"
    and "read_by_name d ns name = Some row"
    and "check_expected (na_expected args) (m_updated_at row) = Inr ()"
    and "rename_tx now ns name (normalize_new_name lowercase raw) (na_expected args) (m_id row) row d = Inr (r, d')"
proof -
  obtain name raw where n: "or_else (na_positional args) (na_name args) = Some name"
    "or_else (na_new_name args) (na_new_positional args) = Some raw"
    using assms by (auto simp: rename_def split: option.splits)
  with assms obtain row where row: "read_by_name d ns name = Some row"
    by (auto simp: rename_def Let_def bind_rust_Inr_iff find_by_name_read split: option.splits)
  from assms n row show thesis
    by (intro that [of name raw row]) (auto simp: rename_def Let_def bind_rust_Inr_iff find_by_name_read)
qed

lemma rename_inv:
  assumes "store_inv d" and "rename lowercase now ns args d = Inr (r, d')"
  shows "store_inv d'"
  using assms(2)
proof (rule renameE)
  fix name raw row
  assume row: "read_by_name d ns name = Some row"
    and tx: "rename_tx now ns name (normalize_new_name lowercase raw) (na_expected args) (m_id row) row d = Inr (r, d')"
  from row have "row \<in> set (memories d)" "m_name row = name"
    using read_by_name_iff [OF store_invD(1) [OF assms(1)]] by (simp_all add: named_def)
  from rename_tx_effect [OF assms(1) this tx] show ?thesis by simp
qed

section \<open>Edit\<close>

abbreviation edited :: "(string \<Rightarrow> string) \<Rightarrow> edit_args \<Rightarrow> string option \<Rightarrow> memory_row \<Rightarrow> memory_row \<Rightarrow> memory_row" where
  "edited blake3 args raw row m \<equiv> m\<lparr>m_description := unwrap_or (ea_description args) (m_description row),
     m_body := unwrap_or raw (m_body row), m_body_hash := blake3 (unwrap_or raw (m_body row)),
     m_type := unwrap_or (ea_type args) (m_type row)\<rparr>"

definition reembeds :: "(string \<Rightarrow> string) \<Rightarrow> edit_args \<Rightarrow> string option \<Rightarrow> memory_row \<Rightarrow> bool" where
  "reembeds blake3 args raw row \<longleftrightarrow>
     raw \<noteq> None \<and> blake3 (unwrap_or raw (m_body row)) \<noteq> m_body_hash row
     \<or> unwrap_or (ea_type args) (m_type row) \<noteq> m_type row \<or> ea_force_reembed args"

lemma edit_txE:
  assumes "edit_tx cfg blake3 embedder skip now ns name args i raw row d = Inr (r, d')"
  obtains p n d1 d2 d3 where "exec_update_memories now p (edited blake3 args raw row) d = Inr (n, d1)"
    and "n \<noteq> 0" and "\<And>m. p m \<Longrightarrow> m_id m = i"
    and "if reembeds blake3 args raw row
         then \<exists>embedding. accept_embedding skip (embedder (unwrap_or raw (m_body row))) = Inr embedding
           \<and> upsert_opt cfg i ns (map_option fst embedding) d1 = Inr d2
           \<and> er_backend_invoked r = map_option snd embedding
         else d2 = d1 \<and> er_backend_invoked r = None"
    and "insert_version now i (next_version d2 i) name (unwrap_or (ea_type args) (m_type row))
           (unwrap_or (ea_description args) (m_description row)) (unwrap_or raw (m_body row))
           (m_metadata row) None ''edit'' d2 = Inr d3"
    and "er_memory_id r = i" and "er_name r = name" and "er_version r = next_version d2 i"
    and "d' = sync_fts_after_update i (m_name row) (m_description row) (m_body row) (m_name row)
           (unwrap_or (ea_description args) (m_description row)) (unwrap_or raw (m_body row)) d3"
proof -
  define p :: "memory_row \<Rightarrow> bool" where "p = (case ea_expected args of
                 Some ts \<Rightarrow> (\<lambda>m. m_id m = i \<and> m_updated_at m = ts \<and> live m)
               | None \<Rightarrow> (\<lambda>m. m_id m = i \<and> live m))"
  have pid: "p m \<Longrightarrow> m_id m = i" for m by (simp add: p_def split: option.splits)
  from assms obtain n d1 where u: "exec_update_memories now p (edited blake3 args raw row) d = Inr (n, d1)"
    unfolding edit_tx_def p_def [symmetric] Let_def by (auto simp: bind_rust_Inr_iff)
  from assms have n: "n \<noteq> 0"
    unfolding edit_tx_def p_def [symmetric] Let_def by (auto simp: u split: if_splits)
  from assms n obtain backend d2 where e: "(if reembeds blake3 args raw row
      then bind_rust (accept_embedding skip (embedder (unwrap_or raw (m_body row)))) (\<lambda>embedding.
                       (case embedding of
                          None \<Rightarrow> Inr (None, d1)
                        | Some (emb, kind) \<Rightarrow>
                            bind_rust (upsert_vec cfg i ns emb d1) (\<lambda>d2. Inr (Some kind, d2))))
                   else Inr (None, d1)) = Inr (backend, d2)"
    and f: "bind_rust
        (insert_version now i (next_version d2 i) name (unwrap_or (ea_type args) (m_type row))
           (unwrap_or (ea_description args) (m_description row)) (unwrap_or raw (m_body row))
           (m_metadata row) None ''edit'' d2)
        (\<lambda>d3. Inr (\<lparr>er_memory_id = i, er_name = name, er_version = next_version d2 i, er_backend_invoked = backend\<rparr>,
           sync_fts_after_update i (m_name row) (m_description row) (m_body row) (m_name row)
             (unwrap_or (ea_description args) (m_description row)) (unwrap_or raw (m_body row)) d3)) = Inr (r, d')"
    unfolding edit_tx_def p_def [symmetric] Let_def
    by (simp add: u reembeds_def bind_rust_Inr_iff disj_assoc) blast
  have b: "if reembeds blake3 args raw row
         then \<exists>embedding. accept_embedding skip (embedder (unwrap_or raw (m_body row))) = Inr embedding
           \<and> upsert_opt cfg i ns (map_option fst embedding) d1 = Inr d2
           \<and> backend = map_option snd embedding
         else d2 = d1 \<and> backend = None"
    using e by (auto simp: bind_rust_Inr_iff upsert_opt_def split: if_splits option.splits)
  from f obtain d3 where "insert_version now i (next_version d2 i) name (unwrap_or (ea_type args) (m_type row))
           (unwrap_or (ea_description args) (m_description row)) (unwrap_or raw (m_body row))
           (m_metadata row) None ''edit'' d2 = Inr d3"
     "r = \<lparr>er_memory_id = i, er_name = name, er_version = next_version d2 i, er_backend_invoked = backend\<rparr>"
     "d' = sync_fts_after_update i (m_name row) (m_description row) (m_body row) (m_name row)
             (unwrap_or (ea_description args) (m_description row)) (unwrap_or raw (m_body row)) d3"
    unfolding bind_rust_Inr_iff by auto
  with u n pid b show thesis by (intro that [of p n d1 d2 d3]) simp_all
qed

lemma edit_tx_effect:
  assumes inv: "store_inv d" and row: "row \<in> set (memories d)"
    and run: "edit_tx cfg blake3 embedder skip now ns name args (m_id row) raw row d = Inr (r, d')"
  shows "store_inv d'
    \<and> set (memories d') = insert ((edited blake3 args raw row row)\<lparr>m_updated_at := now\<rparr>) (set (memories d) - {row})"
  using run
proof (rule edit_txE)
  fix p n d1 d2 d3
  assume u: "exec_update_memories now p (edited blake3 args raw row) d = Inr (n, d1)" and n: "n \<noteq> 0"
    and p: "\<And>m. p m \<Longrightarrow> m_id m = m_id row"
    and e: "if reembeds blake3 args raw row
         then \<exists>embedding. accept_embedding skip (embedder (unwrap_or raw (m_body row))) = Inr embedding
           \<and> upsert_opt cfg (m_id row) ns (map_option fst embedding) d1 = Inr d2
           \<and> er_backend_invoked r = map_option snd embedding
         else d2 = d1 \<and> er_backend_invoked r = None"
    and iv: "insert_version now (m_id row) (next_version d2 (m_id row)) name (unwrap_or (ea_type args) (m_type row))
           (unwrap_or (ea_description args) (m_description row)) (unwrap_or raw (m_body row))
           (m_metadata row) None ''edit'' d2 = Inr d3"
    and d': "d' = sync_fts_after_update (m_id row) (m_name row) (m_description row) (m_body row) (m_name row)
           (unwrap_or (ea_description args) (m_description row)) (unwrap_or raw (m_body row)) d3"
  have ok1: "store_ok d1" by (rule exec_update_memories_ok [OF store_invD(1) [OF inv] u]) simp
  have "store_ok d2 \<and> memories d2 = memories d1 \<and> fts_memories d2 = fts_memories d1"
  proof (cases "reembeds blake3 args raw row")
    case True
    with e obtain embedding where "upsert_opt cfg (m_id row) ns embedding d1 = Inr d2" by auto
    from upsert_opt_keeps [OF ok1 this] show ?thesis by simp
  qed (use e ok1 in simp)
  then have ok2: "store_ok d2" and keep2: "memories d2 = memories d1" "fts_memories d2 = fts_memories d1" by simp_all
  have ok3: "store_ok d3" by (rule insert_version_ok [OF ok2 iv])
  have keep: "memories d3 = memories d1" "fts_memories d3 = fts_memories d1"
    using keep2 insert_version_keeps(1,2) [OF iv] by simp_all
  have new: "fts_of (edited blake3 args raw row row) = \<lparr>f_rowid = m_id row, f_name = m_name row,
      f_description = unwrap_or (ea_description args) (m_description row), f_body = unwrap_or raw (m_body row)\<rparr>"
    by (simp add: fts_of_def)
  note eff = update_row_inv [OF inv u n _ p row ok3 keep new]
  show ?thesis unfolding d' memories_sync using eff by simp
qed

lemma editE:
  assumes "edit cfg blake3 count_tokens embedder skip now ns args d = Inr (r, d')"
  obtains name raw row where "or_else (ea_positional args) (ea_name args) = Some name"
    and "read_by_name d ns name = Some row"
    and "check_expected (ea_expected args) (m_updated_at row) = Inr ()"
    and "edit_body count_tokens (ea_body args) = Inr raw" and "check_description (ea_description args) = Inr ()"
    and "edit_tx cfg blake3 embedder skip now ns name args (m_id row) raw row d = Inr (r, d')"
proof -
  obtain name row where n: "or_else (ea_positional args) (ea_name args) = Some name" "read_by_name d ns name = Some row"
    using assms by (auto simp: edit_def find_by_name_read split: option.splits)
  then obtain raw where "edit_body count_tokens (ea_body args) = Inr raw"
    using assms by (auto simp: edit_def find_by_name_read bind_rust_Inr_iff)
  with assms n show thesis
    by (intro that [of name row raw]) (auto simp: edit_def find_by_name_read bind_rust_Inr_iff)
qed

lemma edit_inv:
  assumes "store_inv d" and "edit cfg blake3 count_tokens embedder skip now ns args d = Inr (r, d')"
  shows "store_inv d'"
  using assms(2)
proof (rule editE)
  fix name raw row
  assume row: "read_by_name d ns name = Some row"
    and tx: "edit_tx cfg blake3 embedder skip now ns name args (m_id row) raw row d = Inr (r, d')"
  from row have "row \<in> set (memories d)" using read_by_name_iff [OF store_invD(1) [OF assms(1)]] by simp
  from edit_tx_effect [OF assms(1) this tx] show ?thesis by simp
qed

section \<open>Forget\<close>

lemma find_named_iff:
  assumes "store_ok d"
  shows "List.find (named ns name) (memories d) = Some m \<longleftrightarrow> m \<in> set (memories d) \<and> named ns name m"
proof
  assume "List.find (named ns name) (memories d) = Some m"
  then show "m \<in> set (memories d) \<and> named ns name m" by (rule find_in_set)
next
  assume "m \<in> set (memories d) \<and> named ns name m"
  then show "List.find (named ns name) (memories d) = Some m"
    by (intro find_unique) (auto intro: same_name_same_row [OF assms])
qed

lemma forget_unfold:
  assumes "or_else p n = Some name"
  shows "forget now ns p n d s =
    (case List.find (named ns name) (memories d) of
       None \<Rightarrow> (Inl (NotFound ''memory_not_found''), d, s)
     | Some m \<Rightarrow>
         (case m_deleted_at m of
            Some t \<Rightarrow> (Inr \<lparr>fr_action = ''already_deleted'', fr_forgotten = False, fr_name = name,
                            fr_namespace = ns, fr_deleted_at = Some t\<rparr>, d, s)
          | None \<Rightarrow>
              (let (ok, d2) = soft_delete now ns name (delete_vec (m_id m) d) in
               (Inr \<lparr>fr_action = (if ok then ''soft_deleted'' else ''already_deleted''), fr_forgotten = ok,
                     fr_name = name, fr_namespace = ns, fr_deleted_at = deleted_at_of d2 (m_id m)\<rparr>,
                d2, if ok then cleanup_sidecar (m_id m) name s else s))))"
  by (simp add: forget_def assms split: option.split prod.split)

lemma forget_inv:
  assumes "store_inv d"
  shows "store_inv (fst (snd (forget now ns p n d s)))"
proof (cases "or_else p n")
  case None
  with assms show ?thesis by (simp add: forget_def)
next
  case (Some name)
  have "store_inv (snd (soft_delete now ns name (delete_vec i d)))" for i
    by (intro soft_delete_inv delete_vec_inv assms)
  with assms show ?thesis
    by (auto simp: forget_unfold [OF Some] Let_def case_prod_beta split: option.split)
qed

lemma soft_delete_live:
  assumes ok: "store_ok d" and m: "m \<in> set (memories d)" "named ns name m" "live m"
  shows "fst (soft_delete now ns name d)"
    and "set (memories (snd (soft_delete now ns name d))) =
           insert (m\<lparr>m_deleted_at := Some now, m_updated_at := now\<rparr>) (set (memories d) - {m})"
proof -
  let ?p = "\<lambda>m. named ns name m \<and> live m"
  have one: "one_row ?p m d" unfolding one_row_def using m same_name_same_row [OF ok _ m(1)] by blast
  have "sql_count ?p (memories d) \<noteq> 0" unfolding sql_count_eq_0 using m by blast
  moreover have "sql_count (\<lambda>x. (m_namespace x, m_name x) = (ns, name) \<and> live x) (memories d) \<le> 1"
    by (rule sql_count_key [OF store_ok_names [OF ok]])
  ultimately show "fst (soft_delete now ns name d)"
    by (simp add: soft_delete_def Let_def named_def)
  show "set (memories (snd (soft_delete now ns name d))) =
      insert (m\<lparr>m_deleted_at := Some now, m_updated_at := now\<rparr>) (set (memories d) - {m})"
    using update_one_row_set [OF one] by (simp add: soft_delete_def Let_def)
qed

lemma delete_vec_same [simp]: "memories (delete_vec i d) = memories d" "fts_memories (delete_vec i d) = fts_memories d"
  "memory_versions (delete_vec i d) = memory_versions d"
  by (simp_all add: delete_vec_def)

section \<open>Purge\<close>

lemma try_delete_vec_table_eq [simp]: "try_delete_vec_table t i (w, d) = (w @ [''failed to clean '' @ t], d)"
  by (simp add: try_delete_vec_table_def exec_delete_vec_table_def)

lemma purge_loop_inv: "store_inv d \<Longrightarrow> store_inv (fst (snd (purge_loop ns cs w d s)))"
  by (induction ns cs w d s rule: purge_loop.induct) (simp_all add: Let_def delete_memory_rows_inv)

lemma purge_inv: "store_inv d \<Longrightarrow> store_inv (fst (snd (purge now ns args d s)))"
  using purge_loop_inv
  by (simp add: purge_def execute_purge_def Let_def case_prod_beta)

lemma purge_loop_memories:
  "memories (fst (snd (purge_loop ns cs w d s))) =
     sql_delete (\<lambda>m. m_id m \<in> fst ` set cs \<and> m_namespace m = ns \<and> m_deleted_at m \<noteq> None) (memories d)"
proof (induction ns cs w d s rule: purge_loop.induct)
  case (1 ns w d s)
  then show ?case by (simp add: sql_delete_def)
next
  case (2 ns i name rest w d s)
  then show ?case
    by (simp add: Let_def delete_memory_rows_memories sql_delete_sql_delete)
       (rule arg_cong [where f = "\<lambda>p. sql_delete p (memories d)"], auto)
qed

lemma purge_loop_warnings:
  "length (fst (purge_loop ns cs w d s)) = length w + 2 * length cs"
  by (induction ns cs w d s rule: purge_loop.induct) (simp_all add: Let_def)

lemma execute_purge_memories:
  assumes "store_ok d"
  shows "memories (fst (snd (execute_purge ns name cutoff w d s))) = sql_delete (purgeable ns name cutoff) (memories d)"
proof -
  let ?ids = "fst ` set (select_candidates d ns name cutoff)"
  have ids: "?ids = m_id ` {m \<in> set (memories d). purgeable ns name cutoff m}"
    by (auto simp: select_candidates_def image_iff)
  have eq: "(m_id m \<in> ?ids \<and> m_namespace m = ns \<and> m_deleted_at m \<noteq> None) = purgeable ns name cutoff m"
    if "m \<in> set (memories d)" for m
    using that same_id_same_row [OF assms] unfolding ids
    by (auto simp: purgeable_def split: option.splits)
  show ?thesis
    unfolding execute_purge_def purge_loop_memories sql_delete_def
    by (rule filter_cong [OF refl], rule arg_cong [where f = Not], erule eq)
qed

end
