(* ===== verification/Session.thy ===== *)
theory Session
  imports Lifecycle_Correct
begin

text \<open>
  Sessions of commands. The contract \<open>store_command\<close> is interpreted for every command, a session
  is a list of commands run one after the other on a store and its queue file, and the store is
  related to the specification a user sees: a map from namespace and name to the visible type,
  description and body.
\<close>

section \<open>The commands as instances of the contract\<close>

interpretation insert_cmd: transaction "\<lambda>(now, m). insert_memory now m"
  by unfold_locales (auto intro: insert_memory_inv)

interpretation edit_cmd: transaction
  "\<lambda>(cfg, blake3, count_tokens, embedder, skip, now, ns, args). edit cfg blake3 count_tokens embedder skip now ns args"
  by unfold_locales (auto intro: edit_inv)

interpretation rename_cmd: transaction "\<lambda>(lowercase, now, ns, args). rename lowercase now ns args"
  by unfold_locales (auto intro: rename_inv)

interpretation restore_cmd: transaction
  "\<lambda>(cfg, blake3, embedder, skip, now, ns, args). restore cfg blake3 embedder skip now ns args"
  by unfold_locales (auto intro: restore_inv)

interpretation forget_cmd: store_command
  "\<lambda>(now, ns, p, n, s) d. (fst (forget now ns p n d s), fst (snd (forget now ns p n d s)))"
  by unfold_locales (auto intro: forget_inv)

interpretation purge_cmd: store_command
  "\<lambda>(now, ns, args, s) d. (fst (purge now ns args d s), fst (snd (purge now ns args d s)))"
  by unfold_locales (auto intro: purge_inv)

section \<open>Sessions\<close>

record env =
  v_cfg :: embed_config
  v_blake3 :: "string \<Rightarrow> string"
  v_tokens :: "string \<Rightarrow> nat"
  v_embed :: "string \<Rightarrow> app_error + f32 list \<times> string"
  v_skip :: bool
  v_lower :: "string \<Rightarrow> string"

datatype command =
    Insert new_memory
  | Edit edit_args
  | Rename rename_args
  | Restore restore_args
  | Forget "string option" "string option"
  | Purge purge_args

definition answer_vec :: "app_error + f32 list \<times> string \<Rightarrow> app_error + f32 list" where
  "answer_vec a = (case a of Inl e \<Rightarrow> Inl e | Inr (emb, _) \<Rightarrow> Inr emb)"

fun run_command :: "env \<Rightarrow> int \<times> string \<times> command \<Rightarrow> db \<times> sidecar \<Rightarrow> db \<times> sidecar" where
  "run_command v (now, ns, Insert m) (d, s) = (snd (committed (insert_memory now m) d), s)"
| "run_command v (now, ns, Edit args) (d, s) =
     (snd (committed (edit (v_cfg v) (v_blake3 v) (v_tokens v) (v_embed v) (v_skip v) now ns args) d), s)"
| "run_command v (now, ns, Rename args) (d, s) = (snd (committed (rename (v_lower v) now ns args) d), s)"
| "run_command v (now, ns, Restore args) (d, s) =
     (snd (committed (restore (v_cfg v) (v_blake3 v) (\<lambda>b. answer_vec (v_embed v b)) (v_skip v) now ns args) d), s)"
| "run_command v (now, ns, Forget p n) (d, s) = snd (forget now ns p n d s)"
| "run_command v (now, ns, Purge args) (d, s) = snd (purge now ns args d s)"

definition run_session :: "env \<Rightarrow> (int \<times> string \<times> command) list \<Rightarrow> db \<times> sidecar \<Rightarrow> db \<times> sidecar" where
  "run_session v cmds st = fold (run_command v) cmds st"

lemma run_command_inv: "store_inv (fst st) \<Longrightarrow> store_inv (fst (run_command v cmd st))"
proof (induction v cmd st rule: run_command.induct)
  case (1 v now ns m d s)
  then show ?case using insert_cmd.keeps_inv [of d "(now, m)"] by simp
next
  case (2 v now ns args d s)
  then show ?case
    using edit_cmd.keeps_inv [of d "(v_cfg v, v_blake3 v, v_tokens v, v_embed v, v_skip v, now, ns, args)"] by simp
next
  case (3 v now ns args d s)
  then show ?case using rename_cmd.keeps_inv [of d "(v_lower v, now, ns, args)"] by simp
next
  case (4 v now ns args d s)
  then show ?case
    using restore_cmd.keeps_inv
      [of d "(v_cfg v, v_blake3 v, \<lambda>b. answer_vec (v_embed v b), v_skip v, now, ns, args)"] by simp
next
  case (5 v now ns p n d s)
  then show ?case using forget_cmd.keeps_inv [of d "(now, ns, p, n, s)"] by simp
next
  case (6 v now ns args d s)
  then show ?case using purge_cmd.keeps_inv [of d "(now, ns, args, s)"] by simp
qed

lemma run_session_inv: "store_inv (fst st) \<Longrightarrow> store_inv (fst (run_session v cmds st))"
  unfolding run_session_def by (induction cmds arbitrary: st) (simp_all add: run_command_inv)

text \<open>Claim C2. Whatever sequence of inserts, edits, renames, restores, forgets and purges runs on a new
  database, with any clock values, any embedding answers and any arguments, failing commands
  included, the store keeps unique keys, unique names, intact references, valid columns, and a
  full-text index with exactly one current entry per memory row.\<close>

theorem session_keeps_store: "store_inv (fst (run_session v cmds (empty_db, s)))"
  by (rule run_session_inv) (simp add: store_inv_empty)

section \<open>What the user sees\<close>

type_synonym content = "string \<times> string \<times> string"
type_synonym view = "string \<times> string \<rightharpoonup> content"

definition key :: "memory_row \<Rightarrow> string \<times> string" where
  "key m = (m_namespace m, m_name m)"

definition content :: "memory_row \<Rightarrow> content" where
  "content m = (m_type m, m_description m, m_body m)"

definition new_content :: "new_memory \<Rightarrow> content" where
  "new_content m = (n_type m, n_description m, n_body m)"

definition visible :: "memory_row \<Rightarrow> content option" where
  "visible m = (if live m then Some (content m) else None)"

definition view_of :: "db \<Rightarrow> view" where
  "view_of d = (\<lambda>(ns, name). map_option content (read_by_name d ns name))"

lemma named_key: "named ns name m \<longleftrightarrow> key m = (ns, name)"
  by (auto simp: named_def key_def)

lemma view_of_row:
  assumes ok: "store_ok d" and m: "m \<in> set (memories d)"
  shows "view_of d (key m) = visible m"
proof (cases "live m")
  case True
  then have "read_by_name d (m_namespace m) (m_name m) = Some m"
    using m by (simp add: read_by_name_iff [OF ok] named_def)
  with True show ?thesis by (simp add: view_of_def key_def visible_def)
next
  case False
  have "read_by_name d (m_namespace m) (m_name m) = None"
    unfolding read_by_name_def find_None_iff'
    using same_name_same_row [OF ok _ m] False m by (metis named_def)
  with False show ?thesis by (simp add: view_of_def key_def visible_def)
qed

lemma view_of_none: "k \<notin> key ` set (memories d) \<Longrightarrow> view_of d k = None"
  by (cases k) (auto simp: view_of_def read_by_name_def find_None_iff' named_key image_iff)

text \<open>Replacing one row changes the view at the old and at the new key.\<close>

lemma view_replace:
  assumes ok: "store_ok d" and ok': "store_ok d'" and m: "m \<in> set (memories d)"
    and mems: "set (memories d') = insert m' (set (memories d) - {m})"
  shows "view_of d' = (view_of d)(key m := None, key m' := visible m')"
proof
  fix k
  have keys: "x = y" if "x \<in> set (memories d)" "y \<in> set (memories d)" "key x = key y" for x y
    using that store_ok_names [OF ok] by (auto simp: distinct_map inj_on_def key_def)
  consider "k = key m'" | "k \<noteq> key m'" "k = key m" | "k \<noteq> key m'" "k \<noteq> key m" by blast
  then show "view_of d' k = ((view_of d)(key m := None, key m' := visible m')) k"
  proof cases
    case 1
    then show ?thesis using view_of_row [OF ok'] mems by simp
  next
    case 2
    then have "k \<notin> key ` set (memories d')" using keys [OF _ m] by (auto simp: mems)
    with 2 show ?thesis by (simp add: view_of_none)
  next
    case 3
    show ?thesis
    proof (cases "k \<in> key ` set (memories d)")
      case True
      then obtain x where x: "x \<in> set (memories d)" "k = key x" by blast
      with 3 have "x \<in> set (memories d')" by (auto simp: mems)
      with x 3 show ?thesis using view_of_row [OF ok] view_of_row [OF ok'] by simp
    next
      case False
      with 3 have "k \<notin> key ` set (memories d')" by (auto simp: mems)
      with 3 False show ?thesis by (simp add: view_of_none)
    qed
  qed
qed

lemma view_add:
  assumes ok': "store_ok d'" and fresh: "key m \<notin> key ` set (memories d)"
    and ok: "store_ok d" and mems: "set (memories d') = insert m (set (memories d))"
  shows "view_of d' = (view_of d)(key m := visible m)"
proof
  fix k
  consider "k = key m" | x where "k \<noteq> key m" "x \<in> set (memories d)" "k = key x"
    | "k \<noteq> key m" "k \<notin> key ` set (memories d)" by blast
  then show "view_of d' k = ((view_of d)(key m := visible m)) k"
  proof cases
    case 1
    then show ?thesis using view_of_row [OF ok'] mems by simp
  next
    case 2
    then show ?thesis using view_of_row [OF ok] view_of_row [OF ok', of x] mems by simp
  next
    case 3
    then show ?thesis by (simp add: view_of_none mems)
  qed
qed

lemma rename_target_free:
  assumes ok: "store_ok d" and t: "rename_target ns new i d = Inr (g, d')"
    and row: "row \<in> set (memories d)" "m_id row = i" "\<not> named ns new row"
  shows "(ns, new) \<notin> key ` set (memories d)"
proof
  assume "(ns, new) \<in> key ` set (memories d)"
  then obtain m where m: "m \<in> set (memories d)" "named ns new m" by (auto simp: named_key)
  then have "find_by_name_any_state d ns new = Some (m_id m, \<not> live m)"
    using any_state_iff [OF ok] by blast
  with t have "m_id m = i" by (auto simp: rename_target_def purge_ghost_fails split: if_splits)
  with m row same_id_same_row [OF ok] show False by blast
qed

lemma find_sql_delete: "(\<And>x. p x \<Longrightarrow> \<not> q x) \<Longrightarrow> List.find p (sql_delete q xs) = List.find p xs"
  by (induction xs) auto

lemma purge_view:
  assumes "store_inv d"
  shows "view_of (fst (snd (purge now ns args d s))) = view_of d"
proof -
  have "view_of (fst (snd (execute_purge ns name cutoff w d s))) = view_of d" for name cutoff w
  proof -
    have "read_by_name (fst (snd (execute_purge ns name cutoff w d s))) n1 n2 = read_by_name d n1 n2" for n1 n2
      unfolding read_by_name_def execute_purge_memories [OF store_invD(1) [OF assms]]
      by (rule find_sql_delete) (simp add: purgeable_def live_def split: option.splits)
    then show ?thesis by (simp add: view_of_def)
  qed
  then show ?thesis by (simp add: purge_def Let_def case_prod_beta)
qed

section \<open>A sample\<close>

definition sample_env :: env where
  "sample_env = \<lparr>v_cfg = \<lparr>cfg_version = ''1'', cfg_dim = 1\<rparr>, v_blake3 = (\<lambda>s. s), v_tokens = length,
     v_embed = (\<lambda>_. Inl (Embedding ''down'')), v_skip = True, v_lower = (\<lambda>s. s)\<rparr>"

end
