(* ===== verification/Lifecycle_Effects.thy ===== *)
theory Lifecycle_Effects
  imports Session
begin

text \<open>
  When the commands succeed and what they leave behind: an edit of a visible memory always goes
  through once its arguments pass the checks, forgetting and restoring is a round trip, a purge
  removes exactly the expired rows, and three behaviours that the code does not intend: a rename
  onto the name of a soft-deleted memory, an age filter beyond the range of \<^verbatim>\<open>i64\<close>, and the clean-up
  of the queue across namespaces.
\<close>

section \<open>Edit\<close>

lemma sql_length_le: "sql_length s \<le> length s"
proof -
  have "length (takeWhile (\<lambda>c. of_char c \<noteq> (0::nat)) s) \<le> length s" by (rule length_takeWhile_le)
  then show ?thesis
    using length_filter_le order_trans unfolding sql_length_def char_count_def by blast
qed

lemma edit_body_size:
  assumes "edit_body count_tokens body = Inr (Some s)"
  shows "length s \<le> MAX_MEMORY_BODY_LEN"
  using assms by (auto simp: edit_body_def bind_rust_Inr_iff check_embedding_input_size_def split: option.splits if_splits)

text \<open>A guarded update of one live row whose new value passes the checks.\<close>

lemma exec_update_succeeds:
  assumes ok: "store_ok d" and m: "m \<in> set (memories d)" "p m" and p: "\<And>r. p r \<Longrightarrow> m_id r = m_id m"
    and checks: "memory_checks (f m)" and f: "\<And>r. m_namespace (f r) = m_namespace r \<and> m_name (f r) = m_name r"
  shows "exec_update_memories now p f d = Inr (sql_changed p (memories d), update_memories now p f d)
    \<and> sql_changed p (memories d) \<noteq> 0"
proof -
  have only: "r = m" if "r \<in> set (memories d)" "p r" for r
    using same_id_same_row [OF ok that(1) m(1)] p [OF that(2)] by simp
  have "distinct (map (\<lambda>m. (m_namespace m, m_name m)) (memories (update_memories now p f d)))"
    using store_ok_names [OF ok] by (simp add: update_memories_def map_sql_update_same f)
  moreover have "\<forall>r \<in> set (memories d). p r \<longrightarrow> memory_checks (f r)" using only checks by blast
  moreover have "sql_changed p (memories d) \<noteq> 0" unfolding sql_count_eq_0 using m by blast
  ultimately show ?thesis by (simp add: exec_update_memories_def Let_def)
qed

lemma insert_version_after_update:
  assumes "i \<in> memory_ids d" and "memory_ids d' = memory_ids d" and "reason \<in> set change_reasons"
  shows "\<exists>d''. insert_version now i (next_version d' i) name ty desc body metadata by reason d' = Inr d''"
  using insert_version_next assms by simp

lemma upsert_vec_total: "i \<in> memory_ids d \<Longrightarrow> \<exists>d'. upsert_vec cfg i ns emb d = Inr d'"
  by (simp add: upsert_vec_def)

lemma memory_ids_keep: "memories d' = memories d \<Longrightarrow> memory_ids d' = memory_ids d"
  by (simp add: memory_ids_def)

lemma change_reason_edit: "''edit'' \<in> set change_reasons" and change_reason_restore: "''restore'' \<in> set change_reasons"
  by (simp_all add: change_reasons_def)

text \<open>The lock predicates of the commands.\<close>

lemma expected_holds:
  assumes "check_expected expected (m_updated_at row) = Inr ()" and "live row"
  shows "(case expected of Some ts \<Rightarrow> (\<lambda>m. m_id m = m_id row \<and> m_updated_at m = ts \<and> live m)
      | None \<Rightarrow> (\<lambda>m. m_id m = m_id row \<and> live m)) row"
  using assms by (auto simp: check_expected_def split: option.splits if_splits)

lemma edited_checks:
  assumes row: "memory_checks row" and body: "edit_body count_tokens (ea_body args) = Inr raw"
    and desc: "check_description (ea_description args) = Inr ()"
    and ty: "unwrap_or (ea_type args) (m_type row) \<in> set memory_types"
  shows "memory_checks (edited blake3 args raw row row)"
proof -
  have "sql_length (unwrap_or (ea_description args) (m_description row)) \<le> 500"
  proof (cases "ea_description args")
    case None
    then show ?thesis using row by (simp add: unwrap_or_def memory_checks_def)
  next
    case (Some s)
    then have "length s \<le> 500"
      using desc by (simp add: check_description_def MAX_MEMORY_DESCRIPTION_LEN_def split: if_splits)
    with Some sql_length_le [of s] show ?thesis by (simp add: unwrap_or_def)
  qed
  moreover have "length (unwrap_or raw (m_body row)) \<le> 512000"
    using row edit_body_size [of count_tokens "ea_body args"] body
    by (cases raw) (simp_all add: unwrap_or_def memory_checks_def MAX_MEMORY_BODY_LEN_def)
  ultimately show ?thesis using row ty by (simp add: memory_checks_def)
qed

lemma edit_tx_succeeds:
  assumes inv: "store_inv d" and row: "row \<in> set (memories d)" "live row"
    and lock: "check_expected (ea_expected args) (m_updated_at row) = Inr ()"
    and checks: "memory_checks (edited blake3 args raw row row)"
    and emb: "reembeds blake3 args raw row \<longrightarrow>
      (\<exists>e. accept_embedding skip (embedder (unwrap_or raw (m_body row))) = Inr e)"
  shows "\<exists>r d'. edit_tx cfg blake3 embedder skip now ns name args (m_id row) raw row d = Inr (r, d')
    \<and> er_version r = next_version d (m_id row)"
proof -
  define p :: "memory_row \<Rightarrow> bool" where "p = (case ea_expected args of
                 Some ts \<Rightarrow> (\<lambda>m. m_id m = m_id row \<and> m_updated_at m = ts \<and> live m)
               | None \<Rightarrow> (\<lambda>m. m_id m = m_id row \<and> live m))"
  let ?d1 = "update_memories now p (edited blake3 args raw row) d"
  have pid: "p m \<Longrightarrow> m_id m = m_id row" for m by (simp add: p_def split: option.splits)
  have prow: "p row" unfolding p_def by (rule expected_holds [OF lock row(2)])
  have "exec_update_memories now p (edited blake3 args raw row) d
      = Inr (sql_changed p (memories d), ?d1) \<and> sql_changed p (memories d) \<noteq> 0"
    by (rule exec_update_succeeds [where m = row]) (rule store_invD(1) [OF inv] row(1) prow pid checks | assumption | simp)+
  then have u: "exec_update_memories now p (edited blake3 args raw row) d
      = Inr (sql_changed p (memories d), ?d1)" and n: "sql_changed p (memories d) \<noteq> 0"
    by simp_all
  have ids1: "memory_ids ?d1 = memory_ids d" by (rule memory_ids_update) simp
  have i: "m_id row \<in> memory_ids d" using row(1) by (simp add: memory_ids_def)
  have step: "\<exists>backend d2. (if reembeds blake3 args raw row
      then bind_rust (accept_embedding skip (embedder (unwrap_or raw (m_body row)))) (\<lambda>embedding.
                       (case embedding of
                          None \<Rightarrow> Inr (None, ?d1)
                        | Some (emb, kind) \<Rightarrow>
                            bind_rust (upsert_vec cfg (m_id row) ns emb ?d1) (\<lambda>d2. Inr (Some kind, d2))))
                   else Inr (None, ?d1)) = Inr (backend, d2)
      \<and> memory_ids d2 = memory_ids d \<and> memory_versions d2 = memory_versions ?d1"
  proof (cases "reembeds blake3 args raw row")
    case True
    with emb obtain e where e: "accept_embedding skip (embedder (unwrap_or raw (m_body row))) = Inr e" by blast
    show ?thesis
    proof (cases e)
      case None
      with True e ids1 show ?thesis by simp
    next
      case (Some ek)
      obtain emb kind where ek: "ek = (emb, kind)" by fastforce
      obtain d2 where d2: "upsert_vec cfg (m_id row) ns emb ?d1 = Inr d2"
        using upsert_vec_total i ids1 by metis
      have k: "memory_ids d2 = memory_ids d"
        using memory_ids_keep [OF upsert_vec_keeps(1) [OF d2]] ids1 by simp
      show ?thesis
        by (intro exI [of _ "Some kind"] exI [of _ d2])
           (simp add: True e Some ek d2 k upsert_vec_keeps(3) [OF d2])
    qed
  qed (simp add: ids1)
  then obtain backend d2 where s: "(if reembeds blake3 args raw row
      then bind_rust (accept_embedding skip (embedder (unwrap_or raw (m_body row)))) (\<lambda>embedding.
                       (case embedding of
                          None \<Rightarrow> Inr (None, ?d1)
                        | Some (emb, kind) \<Rightarrow>
                            bind_rust (upsert_vec cfg (m_id row) ns emb ?d1) (\<lambda>d2. Inr (Some kind, d2))))
                   else Inr (None, ?d1)) = Inr (backend, d2)"
    and d2: "memory_ids d2 = memory_ids d" "memory_versions d2 = memory_versions ?d1" by blast
  have nv: "next_version d2 (m_id row) = next_version d (m_id row)"
    using d2(2) by (simp add: next_version_def versions_of_def update_memories_def)
  obtain d3 where d3: "insert_version now (m_id row) (next_version d2 (m_id row)) name
       (unwrap_or (ea_type args) (m_type row)) (unwrap_or (ea_description args) (m_description row))
       (unwrap_or raw (m_body row)) (m_metadata row) None ''edit'' d2 = Inr d3"
    using insert_version_after_update [OF i d2(1), of "''edit''"] change_reason_edit by blast
  show ?thesis
    unfolding edit_tx_def p_def [symmetric] Let_def u bind_rust_simps case_prod_conv if_not_P [OF n]
    using s [unfolded reembeds_def disj_assoc] d3 nv by (simp add: disj_assoc)
qed

text \<open>The tables an edit writes: the memory and its index entry, one version row, and the vector.\<close>

definition outside_edit :: "db \<Rightarrow> db \<Rightarrow> bool" where
  "outside_edit d d' \<longleftrightarrow> d'\<lparr>memories := memories d, fts_memories := fts_memories d, memory_versions := memory_versions d,
     seq_versions := seq_versions d, memory_embeddings := memory_embeddings d\<rparr> = d"

definition edit_version :: "int \<Rightarrow> string \<Rightarrow> edit_args \<Rightarrow> string option \<Rightarrow> memory_row \<Rightarrow> db \<Rightarrow> version_row" where
  "edit_version now name args raw row d =
     new_version_row now (m_id row) (next_version d (m_id row)) name (unwrap_or (ea_type args) (m_type row))
       (unwrap_or (ea_description args) (m_description row)) (unwrap_or raw (m_body row)) (m_metadata row) None ''edit'' d"

lemma upsert_opt_vector:
  assumes "upsert_opt cfg i ns emb d = Inr d'"
  shows "d'\<lparr>memory_embeddings := memory_embeddings d\<rparr> = d
    \<and> sql_delete (\<lambda>x. x_key x = i) (memory_embeddings d') = sql_delete (\<lambda>x. x_key x = i) (memory_embeddings d)
    \<and> (\<forall>e. emb = Some e \<and> e \<noteq> [] \<longrightarrow>
         (\<exists>x \<in> set (memory_embeddings d'). x_key x = i \<and> x_embedding x = f32_to_bytes e))"
  using assms by (cases emb) (auto simp: upsert_opt_def upsert_vec_def sql_delete_def split: if_splits)

lemma edit_tx_tables:
  assumes "edit_tx cfg blake3 embedder skip now ns name args (m_id row) raw row d = Inr (r, d')"
  shows "outside_edit d d' \<and> memory_versions d' = memory_versions d @ [edit_version now name args raw row d]
    \<and> sql_delete (\<lambda>x. x_key x = m_id row) (memory_embeddings d') = sql_delete (\<lambda>x. x_key x = m_id row) (memory_embeddings d)
    \<and> (if reembeds blake3 args raw row
       then (\<forall>emb kind. accept_embedding skip (embedder (unwrap_or raw (m_body row))) = Inr (Some (emb, kind)) \<and> emb \<noteq> []
         \<longrightarrow> (\<exists>x \<in> set (memory_embeddings d'). x_key x = m_id row \<and> x_embedding x = f32_to_bytes emb))
       else memory_embeddings d' = memory_embeddings d)"
  using assms
proof (rule edit_txE)
  fix p n d1 d2 d3
  assume u: "exec_update_memories now p (edited blake3 args raw row) d = Inr (n, d1)"
    and e: "if reembeds blake3 args raw row
         then \<exists>embedding. accept_embedding skip (embedder (unwrap_or raw (m_body row))) = Inr embedding
           \<and> upsert_opt cfg (m_id row) ns (map_option fst embedding) d1 = Inr d2
           \<and> er_backend_invoked r = map_option snd embedding
         else d2 = d1 \<and> er_backend_invoked r = None"
    and iv: "insert_version now (m_id row) (next_version d2 (m_id row)) name (unwrap_or (ea_type args) (m_type row))
           (unwrap_or (ea_description args) (m_description row)) (unwrap_or raw (m_body row))
           (m_metadata row) None ''edit'' d2 = Inr d3"
    and d': "d' = sync_fts_after_update (m_id row) (m_name row) (m_description row) (m_body row) (m_name row)
           (unwrap_or (ea_description args) (m_description row)) (unwrap_or raw (m_body row)) d3"
  have d1: "d1\<lparr>memories := memories d\<rparr> = d" "memory_embeddings d1 = memory_embeddings d"
    using u by (auto simp: exec_update_memories_def update_memories_def Let_def split: if_splits)
  have d2: "d2\<lparr>memory_embeddings := memory_embeddings d1\<rparr> = d1
      \<and> sql_delete (\<lambda>x. x_key x = m_id row) (memory_embeddings d2) = sql_delete (\<lambda>x. x_key x = m_id row) (memory_embeddings d1)
      \<and> (if reembeds blake3 args raw row
       then (\<forall>emb kind. accept_embedding skip (embedder (unwrap_or raw (m_body row))) = Inr (Some (emb, kind)) \<and> emb \<noteq> []
         \<longrightarrow> (\<exists>x \<in> set (memory_embeddings d2). x_key x = m_id row \<and> x_embedding x = f32_to_bytes emb))
       else memory_embeddings d2 = memory_embeddings d1)"
  proof (cases "reembeds blake3 args raw row")
    case True
    with e obtain embedding where emb: "accept_embedding skip (embedder (unwrap_or raw (m_body row))) = Inr embedding"
      "upsert_opt cfg (m_id row) ns (map_option fst embedding) d1 = Inr d2" by auto
    show ?thesis using upsert_opt_vector [OF emb(2)] emb(1) True by auto
  qed (use e in simp)
  have base: "d2\<lparr>memories := memories d, memory_embeddings := memory_embeddings d\<rparr> = d"
    using d1 d2 by (cases d, cases d1, cases d2) simp
  then have same: "memory_versions d2 = memory_versions d" "seq_versions d2 = seq_versions d"
    by (cases d, cases d2, simp)+
  have d3: "d3 = d2\<lparr>memory_versions := memory_versions d @ [edit_version now name args raw row d],
      seq_versions := seq_versions d + 1\<rparr>"
    using iv same by (auto simp: insert_version_def edit_version_def new_version_row_def next_version_def versions_of_def
        split: if_splits)
  have "outside_edit d d'"
    using base unfolding d'
    by (cases d, cases d2) (simp add: outside_edit_def sync_fts_after_update_def fts_insert_def fts_delete_def d3)
  moreover have "memory_versions d3 = memory_versions d @ [edit_version now name args raw row d]"
    "memory_embeddings d3 = memory_embeddings d2" by (simp_all add: d3)
  ultimately show ?thesis unfolding d' memories_sync using d2 d1(2) by simp
qed

lemma edit_runs:
  assumes "store_inv d" and "or_else (ea_positional args) (ea_name args) = Some name"
    and "read_by_name d ns name = Some row"
    and "check_expected (ea_expected args) (m_updated_at row) = Inr ()"
    and "edit_body count_tokens (ea_body args) = Inr raw"
    and "check_description (ea_description args) = Inr ()"
    and "unwrap_or (ea_type args) (m_type row) \<in> set memory_types"
    and "reembeds blake3 args raw row \<longrightarrow>
      (\<exists>e. accept_embedding skip (embedder (unwrap_or raw (m_body row))) = Inr e)"
  obtains r d' where "edit cfg blake3 count_tokens embedder skip now ns args d = Inr (r, d')"
    and "edit_tx cfg blake3 embedder skip now ns name args (m_id row) raw row d = Inr (r, d')"
    and "er_version r = next_version d (m_id row)"
    and "row \<in> set (memories d)" and "named ns name row" and "live row"
proof -
  note ok = store_invD(1) [OF assms(1)]
  from assms(3) have row: "row \<in> set (memories d)" "named ns name row" "live row"
    by (simp_all add: read_by_name_iff [OF ok])
  have checks: "memory_checks (edited blake3 args raw row row)"
    by (rule edited_checks [OF store_invD(3) [OF assms(1) row(1)] assms(5,6,7)])
  from edit_tx_succeeds [where ?blake3.0 = blake3 and raw = raw and embedder = embedder, OF assms(1) row(1,3) assms(4) checks assms(8)]
  obtain r d' where tx: "edit_tx cfg blake3 embedder skip now ns name args (m_id row) raw row d = Inr (r, d')"
    and v: "er_version r = next_version d (m_id row)" by blast
  have "edit cfg blake3 count_tokens embedder skip now ns args d = Inr (r, d')"
    using assms(2-6) tx by (simp add: edit_def find_by_name_read)
  with that tx v row show thesis by blast
qed

text \<open>Claim C5. An edit of a visible memory whose lock matches, whose body and description pass the size
  checks, whose type is in the vocabulary and whose new text the embedding client accepts when it
  is asked, always succeeds: no constraint of the schema fires. Afterwards the memory has exactly the
  given columns and every other memory is the row it was; one version row is appended, with the new
  contents, under the previous maximum plus one; the vector is replaced when text or type changed
  (or on demand) and otherwise untouched; no other memory's vector and no other table changes, and the
  full-text index has one current entry per memory.\<close>

theorem edit_effect:
  assumes "store_inv d" and "or_else (ea_positional args) (ea_name args) = Some name"
    and "read_by_name d ns name = Some row"
    and "check_expected (ea_expected args) (m_updated_at row) = Inr ()"
    and "edit_body count_tokens (ea_body args) = Inr raw"
    and "check_description (ea_description args) = Inr ()"
    and "unwrap_or (ea_type args) (m_type row) \<in> set memory_types"
    and "reembeds blake3 args raw row \<longrightarrow>
      (\<exists>e. accept_embedding skip (embedder (unwrap_or raw (m_body row))) = Inr e)"
  shows "\<exists>r d'. edit cfg blake3 count_tokens embedder skip now ns args d = Inr (r, d')
    \<and> er_version r = next_version d (m_id row)
    \<and> set (memories d') = insert ((edited blake3 args raw row row)\<lparr>m_updated_at := now\<rparr>) (set (memories d) - {row})
    \<and> memory_versions d' = memory_versions d @ [edit_version now name args raw row d]
    \<and> sql_delete (\<lambda>x. x_key x = m_id row) (memory_embeddings d') = sql_delete (\<lambda>x. x_key x = m_id row) (memory_embeddings d)
    \<and> (if reembeds blake3 args raw row
       then (\<forall>emb kind. accept_embedding skip (embedder (unwrap_or raw (m_body row))) = Inr (Some (emb, kind)) \<and> emb \<noteq> []
         \<longrightarrow> (\<exists>x \<in> set (memory_embeddings d'). x_key x = m_id row \<and> x_embedding x = f32_to_bytes emb))
       else memory_embeddings d' = memory_embeddings d)
    \<and> outside_edit d d' \<and> store_inv d'
    \<and> read_by_name d' ns name = Some ((edited blake3 args raw row row)\<lparr>m_updated_at := now\<rparr>)"
proof -
  obtain r d' where run: "edit cfg blake3 count_tokens embedder skip now ns args d = Inr (r, d')"
    and tx: "edit_tx cfg blake3 embedder skip now ns name args (m_id row) raw row d = Inr (r, d')"
    and v: "er_version r = next_version d (m_id row)"
    and row: "row \<in> set (memories d)" "named ns name row" "live row"
    by (rule edit_runs [where embedder = embedder, OF assms])
  note eff = edit_tx_effect [OF assms(1) row(1) tx]
  have "read_by_name d' ns name = Some ((edited blake3 args raw row row)\<lparr>m_updated_at := now\<rparr>)"
    using eff row by (simp add: read_by_name_iff [OF store_invD(1)] named_def live_def)
  with run v eff edit_tx_tables [OF tx] show ?thesis by blast
qed

definition describe_args :: edit_args where
  "describe_args = \<lparr>ea_positional = Some ''onboarding'', ea_name = None, ea_body = None,
     ea_description = Some ''new'', ea_type = None, ea_expected = Some 100, ea_force_reembed = False\<rparr>"

lemma sample_read: "read_by_name sample_db ''global'' ''onboarding'' = Some (memory_of_new 100 1 ''agent'' sample_memory)"
  by (simp add: read_by_name_def sample_db_def named_def live_def memory_of_new_def sample_memory_def)

theorem edit_effect_witness:
  "\<exists>r d'. edit \<lparr>cfg_version = ''1'', cfg_dim = 1\<rparr> (\<lambda>s. s) length (\<lambda>_. Inl (Embedding ''down'')) False 200
       ''global'' describe_args sample_db = Inr (r, d') \<and> er_version r = 1"
proof -
  have v: "next_version sample_db 1 = 1"
    by (simp add: next_version_def versions_of_def sample_db_def empty_db_def max_or_zero_def)
  show ?thesis
    using edit_effect [OF sample_inv _ sample_read, of describe_args length None "\<lambda>s. s" False
        "\<lambda>_. Inl (Embedding ''down'')" "\<lparr>cfg_version = ''1'', cfg_dim = 1\<rparr>" 200] v
    by (auto simp: describe_args_def or_else_def check_expected_def edit_body_def check_description_def
        unwrap_or_def memory_of_new_def sample_memory_def memory_types_def reembeds_def MAX_MEMORY_DESCRIPTION_LEN_def)
qed

section \<open>Forget and restore\<close>

lemma restore_tx_succeeds:
  assumes inv: "store_inv d" and cur: "cur \<in> set (memories d)" and checks: "memory_checks (restored blake3 v cur)"
  shows "\<exists>d'. restore_tx cfg blake3 now ns None cur v embedding d = Inr (next_version d (m_id cur), d')"
proof -
  let ?p = "\<lambda>m. m_id m = m_id cur"
  let ?d1 = "update_memories now ?p (restored blake3 v) d"
  have "exec_update_memories now ?p (restored blake3 v) d
      = Inr (sql_changed ?p (memories d), ?d1) \<and> sql_changed ?p (memories d) \<noteq> 0"
    by (rule exec_update_succeeds [where m = cur])
       (rule store_invD(1) [OF inv] cur checks | assumption | simp)+
  then have u: "exec_update_memories now ?p (restored blake3 v) d = Inr (sql_changed ?p (memories d), ?d1)"
    and n: "sql_changed ?p (memories d) \<noteq> 0" by simp_all
  have i: "m_id cur \<in> memory_ids d" using cur by (simp add: memory_ids_def)
  have ids1: "memory_ids ?d1 = memory_ids d" by (rule memory_ids_update) simp
  have nv: "next_version ?d1 (m_id cur) = next_version d (m_id cur)"
    by (simp add: next_version_def versions_of_def update_memories_def)
  obtain d2 where d2: "insert_version now (m_id cur) (next_version ?d1 (m_id cur)) (m_name cur) (v_type v)
      (v_description v) (v_body v) (v_metadata v) None ''restore'' ?d1 = Inr d2"
    using insert_version_after_update [OF i ids1, of "''restore''"] change_reason_restore by blast
  have "memory_ids d2 = memory_ids d" using insert_version_keeps(3) [OF d2] ids1 by simp
  then obtain d3 where d3: "(case embedding of None \<Rightarrow> Inr d2 | Some emb \<Rightarrow> upsert_vec cfg (m_id cur) ns emb d2) = Inr d3"
    using upsert_vec_total i by (cases embedding) fastforce+
  show ?thesis
    unfolding restore_tx_def option.case Let_def u bind_rust_simps case_prod_conv if_not_P [OF n] d2 d3
    by (simp add: nv)
qed

definition latest_content :: "db \<Rightarrow> memory_row \<Rightarrow> version_row \<Rightarrow> bool" where
  "latest_content d m v \<longleftrightarrow> v \<in> set (memory_versions d) \<and> v_memory_id v = m_id m \<and> v_change_reason v \<noteq> ''restore''
     \<and> (\<forall>w \<in> set (memory_versions d). v_memory_id w = m_id m \<and> v_change_reason w \<noteq> ''restore'' \<longrightarrow> v_version w \<le> v_version v)
     \<and> v_type v = m_type m \<and> v_description v = m_description m \<and> v_body v = m_body m"

lemma restore_target_latest:
  assumes "latest_content d m v" and "ra_version args = None" and "memory_versions d1 = memory_versions d"
  shows "restore_target args d1 (m_id m) = Inr (v_version v)"
proof -
  let ?vs = "map v_version (filter (\<lambda>v. v_memory_id v = m_id m \<and> v_change_reason v \<noteq> ''restore'') (memory_versions d1))"
  have v: "v_version v \<in> set ?vs" and le: "\<forall>x \<in> set ?vs. x \<le> v_version v"
    using assms(1,3) by (auto simp: latest_content_def)
  then have "Max (set ?vs) = v_version v" by (intro Max_eqI) auto
  moreover have "?vs \<noteq> []" using v by (metis empty_iff empty_set)
  ultimately show ?thesis unfolding restore_target_def assms(2) option.case Let_def by simp
qed

lemma version_lookup:
  assumes ok: "store_ok d" and v: "v \<in> set (memory_versions d)"
  shows "List.find (\<lambda>w. v_memory_id w = v_memory_id v \<and> v_version w = v_version v) (memory_versions d) = Some v"
proof (rule find_unique)
  fix w
  assume "w \<in> set (memory_versions d)" "v_memory_id w = v_memory_id v \<and> v_version w = v_version v"
  with ok v show "w = v" by (auto simp: store_defs distinct_map inj_on_def)
qed (use v in simp_all)

definition plain_restore :: "string \<Rightarrow> restore_args" where
  "plain_restore name = \<lparr>ra_positional = Some name, ra_name = None, ra_version = None, ra_expected = None\<rparr>"

text \<open>Claim C3. Forgetting a memory and restoring it is a round trip: if the highest version that no
  restore wrote records the current contents, and the embedding client accepts the body or is skipped,
  then after \<^verbatim>\<open>forget\<close> the name is gone, a plain \<^verbatim>\<open>restore\<close> succeeds from that version under the next
  version number, and every name shows what it showed
  before.\<close>

theorem forget_restore_roundtrip:
  assumes "store_inv d" and "read_by_name d ns name = Some row" and "latest_content d row v"
    and "accept_embedding skip (embedder (m_body row)) = Inr embedding"
    and "forget now ns (Some name) None d s = (res, d1, s1)"
  shows "view_of d1 (ns, name) = None \<and>
    (\<exists>r d2. restore cfg blake3 embedder skip now' ns (plain_restore name) d1 = Inr (r, d2)
       \<and> view_of d2 = view_of d \<and> rr_restored_from r = v_version v
       \<and> rr_version r = next_version d (m_id row))"
proof -
  note ok = store_invD(1) [OF assms(1)]
  from assms(2) have row: "row \<in> set (memories d)" "named ns name row" "live row"
    by (simp_all add: read_by_name_iff [OF ok])
  have f: "List.find (named ns name) (memories d) = Some row" using row by (simp add: find_named_iff [OF ok])
  let ?d0 = "delete_vec (m_id row) d"
  have d1: "d1 = snd (soft_delete now ns name ?d0)"
    using assms(5) row(3) f
    by (simp add: forget_unfold [of "Some name" None name] or_else_def live_def case_prod_beta Let_def)
  define m' where "m' = row\<lparr>m_deleted_at := Some now, m_updated_at := now\<rparr>"
  have inv1: "store_inv d1" unfolding d1 by (intro soft_delete_inv delete_vec_inv assms(1))
  note ok1 = store_invD(1) [OF inv1]
  have mems1: "set (memories d1) = insert m' (set (memories d) - {row})"
    using soft_delete_live(2) [OF delete_vec_ok [OF ok], of row "m_id row" ns name now] row by (simp add: d1 m'_def)
  have m': "m' \<in> set (memories d1)" "key m' = (ns, name)" "m_id m' = m_id row" "visible m' = None"
    using row(2) by (simp_all add: mems1 m'_def key_def named_def visible_def live_def)
  have vers: "memory_versions d1 = memory_versions d"
    by (simp add: d1 soft_delete_def Let_def update_memories_def)
  have view1: "view_of d1 = (view_of d)((ns, name) := None)"
    using view_replace [OF ok ok1 row(1) mems1] m' row(2) by (simp add: named_key)
  have f1: "List.find (named ns name) (memories d1) = Some m'"
    using m' by (simp add: find_named_iff [OF ok1] named_key)
  have v: "v \<in> set (memory_versions d1)" "v_memory_id v = m_id m'" "v_type v = m_type row"
    "v_description v = m_description row" "v_body v = m_body row"
    using assms(3) m'(3) vers by (simp_all add: latest_content_def)
  have target: "restore_target (plain_restore name) d1 (m_id m') = Inr (v_version v)"
    unfolding m'(3) by (rule restore_target_latest [OF assms(3) _ vers]) (simp add: plain_restore_def)
  have look: "List.find (\<lambda>w. v_memory_id w = m_id m' \<and> v_version w = v_version v) (memory_versions d1) = Some v"
    using version_lookup [OF ok1 v(1)] v(2) by simp
  have "memory_checks (restored blake3 v m')"
    using store_invD(3) [OF assms(1) row(1)] v by (simp add: memory_checks_def m'_def)
  from restore_tx_succeeds [where ?blake3.0 = blake3 and v = v, OF inv1 m'(1) this]
  obtain d2 where tx: "restore_tx cfg blake3 now' ns None m' v embedding d1 = Inr (next_version d1 (m_id m'), d2)"
    by blast
  define r where "r = \<lparr>rr_memory_id = m_id m', rr_name = m_name m', rr_version = next_version d1 (m_id m'),
    rr_restored_from = v_version v\<rparr>"
  have run: "restore cfg blake3 embedder skip now' ns (plain_restore name) d1 = Inr (r, d2)"
    using target look tx assms(4) v(5)
    unfolding restore_def plain_restore_def
    by (simp add: or_else_def f1 check_expected_def r_def)
  define m2 where "m2 = (restored blake3 v m')\<lparr>m_updated_at := now'\<rparr>"
  have mems2: "set (memories d2) = insert m2 (set (memories d1) - {m'})" and inv2: "store_inv d2"
    unfolding m2_def using restore_tx_effect [OF inv1 m'(1) tx] by simp_all
  have "view_of d2 = (view_of d1)(key m' := None, key m2 := visible m2)"
    by (rule view_replace [OF ok1 store_invD(1) [OF inv2] m'(1) mems2])
  moreover have "key m2 = (ns, name)" "visible m2 = Some (content row)"
    using m'(2) v by (simp_all add: m2_def m'_def key_def visible_def live_def content_def)
  moreover have "view_of d (ns, name) = Some (content row)" using assms(2) by (simp add: view_of_def)
  ultimately have "view_of d2 = view_of d" using m'(2) by (auto simp: view1)
  moreover have "next_version d1 (m_id m') = next_version d (m_id row)"
    by (simp add: next_version_def versions_of_def vers m'(3))
  ultimately show ?thesis using run by (auto simp: view1 r_def)
qed

definition sample_version :: version_row where
  "sample_version = new_version_row 100 1 1 ''onboarding'' ''note'' ''d'' ''hello'' ''{}'' None ''create'' sample_db"

definition sample_versioned :: db where
  "sample_versioned = sample_db\<lparr>memory_versions := [sample_version], seq_versions := 1\<rparr>"

lemma sample_versioned_inv: "store_inv sample_versioned"
proof -
  have run: "insert_version 100 1 1 ''onboarding'' ''note'' ''d'' ''hello'' ''{}'' None ''create'' sample_db = Inr sample_versioned"
    by (simp add: insert_version_def memory_ids_def sample_db_def empty_db_def memory_of_new_def versions_of_def
        change_reasons_def sample_versioned_def sample_version_def new_version_row_def)
  show ?thesis
    by (rule store_inv_same [OF sample_inv insert_version_ok [OF store_invD(1) [OF sample_inv] run]])
       (simp_all add: sample_versioned_def)
qed

theorem forget_restore_roundtrip_witness:
  "view_of sample_versioned (''global'', ''onboarding'') = Some (''note'', ''d'', ''hello'')
   \<and> (\<exists>r d2. restore \<lparr>cfg_version = ''1'', cfg_dim = 1\<rparr> (\<lambda>s. s) (\<lambda>_. Inl (Embedding ''down'')) True 300 ''global''
        (plain_restore ''onboarding'') (fst (snd (forget 200 ''global'' (Some ''onboarding'') None sample_versioned None)))
        = Inr (r, d2) \<and> view_of d2 = view_of sample_versioned \<and> rr_version r = 2)"
proof
  have read: "read_by_name sample_versioned ''global'' ''onboarding'' = Some (memory_of_new 100 1 ''agent'' sample_memory)"
    using sample_read by (simp add: read_by_name_def sample_versioned_def)
  then show "view_of sample_versioned (''global'', ''onboarding'') = Some (''note'', ''d'', ''hello'')"
    by (simp add: view_of_def content_def memory_of_new_def sample_memory_def)
  have latest: "latest_content sample_versioned (memory_of_new 100 1 ''agent'' sample_memory) sample_version"
    by (simp add: latest_content_def sample_versioned_def sample_version_def new_version_row_def memory_of_new_def
        sample_memory_def)
  have v: "next_version sample_versioned 1 = 2"
    by (simp add: next_version_def versions_of_def sample_versioned_def sample_version_def new_version_row_def max_or_zero_def)
  obtain res d1 s1 where fg: "forget 200 ''global'' (Some ''onboarding'') None sample_versioned None = (res, d1, s1)"
    using prod_cases3 by blast
  show "\<exists>r d2. restore \<lparr>cfg_version = ''1'', cfg_dim = 1\<rparr> (\<lambda>s. s) (\<lambda>_. Inl (Embedding ''down'')) True 300 ''global''
        (plain_restore ''onboarding'') (fst (snd (forget 200 ''global'' (Some ''onboarding'') None sample_versioned None)))
        = Inr (r, d2) \<and> view_of d2 = view_of sample_versioned \<and> rr_version r = 2"
    using forget_restore_roundtrip [OF sample_versioned_inv read latest _ fg, of True "\<lambda>_. Inl (Embedding ''down'')" None
        "\<lparr>cfg_version = ''1'', cfg_dim = 1\<rparr>" "\<lambda>s. s" 300] v fg
    by (auto simp: accept_embedding_def memory_of_new_def)
qed

section \<open>Purge\<close>

text \<open>Claim C4. A confirmed purge permanently removes exactly the memories of the namespace (of the given
  name, if any) that were soft-deleted at or before the cutoff, and nothing refers to a removed
  memory afterwards; it reports how many there were. A dry run reports the same number and changes
  neither the store nor the queue.\<close>

theorem purge_exact:
  assumes "store_inv d" and "pa_yes args \<or> pa_dry_run args"
    and "purge now ns args d s = (Inr r, d', s')"
  defines "gone \<equiv> purgeable ns (or_else (pa_positional args) (pa_name args)) (purge_cutoff args now)"
  shows "pr_purged_count r = length (filter gone (memories d))
    \<and> (if pa_dry_run args then d' = d \<and> s' = s
       else memories d' = filter (\<lambda>m. \<not> gone m) (memories d) \<and> store_inv d'
         \<and> (\<forall>m \<in> set (memories d). gone m \<longrightarrow> m_id m \<notin> memory_ids d'
              \<and> m_id m \<notin> v_memory_id ` set (memory_versions d') \<and> m_id m \<notin> c_memory_id ` set (memory_chunks d')
              \<and> m_id m \<notin> fst ` set (memory_entities d') \<and> m_id m \<notin> x_key ` set (memory_embeddings d')))"
proof (cases "pa_dry_run args")
  case True
  with assms(3) show ?thesis
    by (auto simp: purge_def Let_def compute_metrics_def sql_count_def gone_def split: if_splits)
next
  case False
  let ?name = "or_else (pa_positional args) (pa_name args)"
  define w where "w = (if pa_older_than_seconds args = None then []
                      else [''--older-than-seconds is deprecated; use --retention-days in v2.0.0+''])"
  have e: "snd (execute_purge ns ?name (purge_cutoff args now) w d s) = (d', s')"
    and c: "pr_purged_count r = length (filter gone (memories d))"
    using assms(2,3) False
    by (auto simp: purge_def Let_def compute_metrics_def sql_count_def gone_def w_def case_prod_beta split: if_splits)
  have mems: "memories d' = filter (\<lambda>m. \<not> gone m) (memories d)"
    using execute_purge_memories [OF store_invD(1) [OF assms(1)], of ns ?name "purge_cutoff args now" w s] e
    by (simp add: gone_def sql_delete_def)
  have inv: "store_inv d'"
    using purge_loop_inv [OF assms(1), of ns "select_candidates d ns ?name (purge_cutoff args now)" w s] e
    by (simp add: execute_purge_def)
  have ids: "m_id m \<notin> memory_ids d'" if "m \<in> set (memories d)" "gone m" for m
    using same_id_same_row [OF store_invD(1) [OF assms(1)] that(1)] that(2) by (auto simp: memory_ids_def mems)
  have fk: "v_memory_id ` set (memory_versions d') \<subseteq> memory_ids d'" "c_memory_id ` set (memory_chunks d') \<subseteq> memory_ids d'"
    "fst ` set (memory_entities d') \<subseteq> memory_ids d'" "x_key ` set (memory_embeddings d') \<subseteq> memory_ids d'"
    using store_okD(3) [OF store_invD(1) [OF inv]] by (simp_all add: foreign_keys_ok_def)
  have "\<forall>m \<in> set (memories d). gone m \<longrightarrow> m_id m \<notin> memory_ids d'
              \<and> m_id m \<notin> v_memory_id ` set (memory_versions d') \<and> m_id m \<notin> c_memory_id ` set (memory_chunks d')
              \<and> m_id m \<notin> fst ` set (memory_entities d') \<and> m_id m \<notin> x_key ` set (memory_embeddings d')"
    using ids fk by blast
  then show ?thesis using False c mems inv by simp
qed

definition purge_now_args :: purge_args where
  "purge_now_args = \<lparr>pa_positional = None, pa_name = None, pa_retention_days = 90, pa_older_than_seconds = None,
     pa_dry_run = False, pa_yes = True, pa_now = True\<rparr>"

definition sample_forgotten :: db where
  "sample_forgotten = fst (snd (forget 200 ''global'' (Some ''onboarding'') None sample_versioned None))"

lemma sample_forgotten_inv: "store_inv sample_forgotten"
  unfolding sample_forgotten_def by (rule forget_inv [OF sample_versioned_inv])

lemma sample_forgotten_memories:
  "memories sample_forgotten = [(memory_of_new 100 1 ''agent'' sample_memory)\<lparr>m_deleted_at := Some 200, m_updated_at := 200\<rparr>]"
  by (simp add: sample_forgotten_def forget_unfold or_else_def sample_versioned_def sample_db_def named_def live_def
      memory_of_new_def sample_memory_def soft_delete_def update_memories_def Let_def)

lemma wrap_i64_small: "- (2 ^ 63) \<le> x \<Longrightarrow> x < 2 ^ 63 \<Longrightarrow> wrap_i64 x = x"
  unfolding wrap_i64_def by (simp add: signed_of_int signed_take_bit_int_eq_self)

lemma sample_cutoff: "purge_cutoff purge_now_args 200 = 200"
  by (simp add: purge_cutoff_def purge_now_args_def retention_days_used_def wrap_i64_small)

theorem purge_exact_witness:
  "\<exists>r d' s'. purge 200 ''global'' purge_now_args sample_forgotten None = (Inr r, d', s')
     \<and> pr_purged_count r = 1 \<and> memories d' = []"
proof -
  let ?gone = "purgeable ''global'' None 200"
  have g: "filter ?gone (memories sample_forgotten) = memories sample_forgotten"
    by (simp add: sample_forgotten_memories purgeable_def memory_of_new_def sample_memory_def)
  have "fst (purge 200 ''global'' purge_now_args sample_forgotten None) \<noteq> Inl e" for e
    using g by (simp add: purge_def Let_def sample_cutoff compute_metrics_def case_prod_beta)
      (simp add: purge_now_args_def or_else_def)
  then obtain r d' s' where run: "purge 200 ''global'' purge_now_args sample_forgotten None = (Inr r, d', s')"
    by (metis fst_conv prod_cases3 sum.exhaust)
  have a: "pa_yes purge_now_args" "\<not> pa_dry_run purge_now_args"
    "or_else (pa_positional purge_now_args) (pa_name purge_now_args) = None"
    by (simp_all add: purge_now_args_def or_else_def)
  have "filter (\<lambda>m. \<not> ?gone m) (memories sample_forgotten) = []"
    using g by (simp add: filter_empty_conv filter_id_conv)
  then have "pr_purged_count r = 1 \<and> memories d' = []"
    using purge_exact [OF sample_forgotten_inv _ run] a g
    by (simp add: sample_cutoff) (simp add: sample_forgotten_memories)
  with run show ?thesis by blast
qed

text \<open>The age given in seconds is cast to a signed 64-bit integer: a value close to the top of
  the unsigned range, which asks to keep all but impossibly old memories, puts the cutoff into the
  future, so that even a memory soft-deleted this very second is purged.\<close>

theorem purge_age_wraps:
  assumes "secs < 2 ^ 64" and "0 \<le> now" and "now + int (2 ^ 64 - secs) < 2 ^ 63"
    and "pa_older_than_seconds args = Some secs"
  shows "purge_cutoff args now = now + int (2 ^ 64 - secs) \<and> now < purge_cutoff args now"
proof -
  have diff: "int (2 ^ 64 - secs) = 2 ^ 64 - int secs" using assms(1) by (simp add: of_nat_diff)
  then have lo: "- (2 ^ 63) \<le> int secs - 2 ^ 64" and hi: "int secs - 2 ^ 64 < 0"
    using assms by simp_all
  have "as_i64 secs = signed_take_bit 63 (int secs)" unfolding as_i64_def by (simp add: signed_of_nat)
  also have "\<dots> = signed_take_bit 63 (int secs - 2 ^ 64)"
    by (simp add: signed_take_bit_eq_iff_take_bit_eq take_bit_eq_mod)
  also have "\<dots> = int secs - 2 ^ 64"
    using lo hi by (intro signed_take_bit_int_eq_self) simp_all
  finally have "as_i64 secs = int secs - 2 ^ 64" .
  moreover have "wrap_i64 (now - (int secs - 2 ^ 64)) = now - (int secs - 2 ^ 64)"
    using assms(2,3) lo hi diff by (intro wrap_i64_small) simp_all
  ultimately show ?thesis using assms(4) hi diff by (simp add: purge_cutoff_def)
qed

theorem purge_age_wraps_witness:
  "purge_cutoff (purge_now_args\<lparr>pa_older_than_seconds := Some (2 ^ 64 - 1)\<rparr>) 1000 = 1001"
  using purge_age_wraps [of "2 ^ 64 - 1" 1000 "purge_now_args\<lparr>pa_older_than_seconds := Some (2 ^ 64 - 1)\<rparr>"] by simp

section \<open>Rename onto a soft-deleted name\<close>

text \<open>A rename whose target name is held by a soft-deleted memory never succeeds: the code
  means to purge the ghost, but one of its statements names a table that the schema dropped, so
  the command fails with a database error and the transaction is rolled back.\<close>

theorem rename_over_ghost_fails:
  assumes "store_inv d" and "or_else (na_positional args) (na_name args) = Some name"
    and "or_else (na_new_name args) (na_new_positional args) = Some raw"
    and "read_by_name d ns name = Some row"
    and "check_new_name name (normalize_new_name lowercase raw) = Inr ()"
    and "check_expected (na_expected args) (m_updated_at row) = Inr ()"
    and "find_by_name_any_state d ns (normalize_new_name lowercase raw) = Some (ghost, True)"
  shows "rename lowercase now ns args d = Inl (Database (OtherSqlite ''no such table: vec_memories''))"
proof -
  have "rename_target ns (normalize_new_name lowercase raw) (m_id row) d
      = Inl (Database (OtherSqlite ''no such table: vec_memories''))"
    using assms(7) by (simp add: rename_target_def purge_ghost_fails)
  then have "rename_tx now ns name (normalize_new_name lowercase raw) (na_expected args) (m_id row) row d
      = Inl (Database (OtherSqlite ''no such table: vec_memories''))"
    by (simp add: rename_tx_def)
  with assms show ?thesis by (simp add: rename_def Let_def find_by_name_read)
qed

definition sample_other :: new_memory where
  "sample_other = sample_memory\<lparr>n_name := ''welcome''\<rparr>"

definition sample_ghost :: db where
  "sample_ghost = snd (committed (insert_memory 300 sample_other) sample_forgotten)"

lemma sample_ghost_inv: "store_inv sample_ghost"
  unfolding sample_ghost_def
  using insert_cmd.keeps_inv [of sample_forgotten "(300, sample_other)"] sample_forgotten_inv by simp

lemma sample_ghost_memories:
  "\<exists>i. memories sample_ghost = memories sample_forgotten @ [memory_of_new 300 i ''agent'' sample_other]"
  by (simp add: sample_ghost_def committed_def insert_memory_def validate_source_def sample_other_def sample_memory_def
      memory_checks_def memory_types_def all_sources_def source_str_def memory_of_new_def sql_length_def char_count_def
      is_cont_def sample_forgotten_memories named_def fts_insert_def Let_def)

definition rename_back :: rename_args where
  "rename_back = \<lparr>na_positional = Some ''welcome'', na_name = None, na_new_positional = Some ''onboarding'',
     na_new_name = None, na_expected = None\<rparr>"

theorem rename_over_ghost_fails_witness:
  "rename (\<lambda>s. s) 400 ''global'' rename_back sample_ghost = Inl (Database (OtherSqlite ''no such table: vec_memories''))"
proof -
  obtain i where m: "memories sample_ghost = memories sample_forgotten @ [memory_of_new 300 i ''agent'' sample_other]"
    using sample_ghost_memories by blast
  let ?row = "memory_of_new 300 i ''agent'' sample_other"
  have norm: "normalize_new_name (\<lambda>s. s) ''onboarding'' = ''onboarding''"
    by (simp add: normalize_new_name_def trim_hyphens_def)
  have 1: "or_else (na_positional rename_back) (na_name rename_back) = Some ''welcome''"
    "or_else (na_new_name rename_back) (na_new_positional rename_back) = Some ''onboarding''"
    by (simp_all add: rename_back_def or_else_def)
  have 2: "read_by_name sample_ghost ''global'' ''welcome'' = Some ?row"
    by (simp add: read_by_name_def m sample_forgotten_memories named_def live_def memory_of_new_def sample_memory_def sample_other_def)
  have 3: "check_new_name ''welcome'' (normalize_new_name (\<lambda>s. s) ''onboarding'') = Inr ()"
    unfolding norm by (simp add: check_new_name_def starts_with_def MAX_MEMORY_NAME_LEN_def name_slug_matches_def
        lower_letter_def slug_char_def byte_in_def)
  have 4: "check_expected (na_expected rename_back) (m_updated_at ?row) = Inr ()"
    by (simp add: rename_back_def check_expected_def)
  have 5: "find_by_name_any_state sample_ghost ''global'' (normalize_new_name (\<lambda>s. s) ''onboarding'') = Some (1, True)"
    unfolding norm by (simp add: find_by_name_any_state_def m sample_forgotten_memories named_def memory_of_new_def sample_memory_def)
  show ?thesis by (rule rename_over_ghost_fails [OF sample_ghost_inv 1 2 3 4 5])
qed

section \<open>The queue file\<close>

text \<open>Forgetting a memory removes from the queue every entry whose key equals the memory's name,
  in every namespace and of every operation and item type, not only the entries of the forgotten memory.\<close>

theorem forget_cleans_key_everywhere:
  assumes "store_inv d" and "read_by_name d ns name = Some m" and "open_queue_db has_ns q = Inr q'"
  shows "snd (snd (forget now ns (Some name) None d (Some (has_ns, q))))
    = Some (True, q'\<lparr>q_rows := filter (\<lambda>r. q_memory_id r \<noteq> Some (m_id m) \<and> q_item_key r \<noteq> name) (q_rows q')\<rparr>)"
proof -
  note ok = store_invD(1) [OF assms(1)]
  from assms(2) have m: "m \<in> set (memories d)" "named ns name m" "live m" by (simp_all add: read_by_name_iff [OF ok])
  have f: "List.find (named ns name) (memories d) = Some m" using m by (simp add: find_named_iff [OF ok])
  have "fst (soft_delete now ns name (delete_vec (m_id m) d))"
    using soft_delete_live(1) [OF delete_vec_ok [OF ok]] m by simp
  then have "snd (snd (forget now ns (Some name) None d (Some (has_ns, q)))) = cleanup_sidecar (m_id m) name (Some (has_ns, q))"
    using f m(3) by (simp add: forget_unfold or_else_def live_def case_prod_beta Let_def)
  then show ?thesis
    by (simp add: cleanup_sidecar_def assms(3) cleanup_queue_entry_def q_delete_def sql_delete_def)
qed

definition foreign_row :: queue_row where
  "foreign_row = \<lparr>q_id = 1, q_namespace = ''other'', q_item_key = ''onboarding'', q_item_type = ''entity'',
     q_status = Pending, q_memory_id = None, q_entity_id = Some 7, q_entities = 0, q_rels = 0, q_error = None,
     q_cost_usd = 0, q_attempt = 0, q_elapsed_ms = None, q_created_at = 0, q_done_at = None, q_error_class = None,
     q_next_retry_at = None, q_operation = Some ''EntityDescriptions'', q_finish_reason = None, q_input_tokens = None,
     q_output_tokens = None, q_claimed_at = None, q_priority = 0\<rparr>"

theorem forget_cleans_key_everywhere_witness:
  "q_namespace foreign_row = ''other'' \<and>
   snd (snd (forget 200 ''global'' (Some ''onboarding'') None sample_db (Some (True, \<lparr>q_rows = [foreign_row], q_seq = 1\<rparr>))))
     = Some (True, \<lparr>q_rows = [], q_seq = 1\<rparr>)"
proof -
  have "open_queue_db True \<lparr>q_rows = [foreign_row], q_seq = 1\<rparr> = Inr \<lparr>q_rows = [foreign_row], q_seq = 1\<rparr>"
    by (simp add: open_queue_db_def tag_legacy_def q_update_def foreign_row_def)
  from forget_cleans_key_everywhere [OF sample_inv sample_read this] show ?thesis
    by (simp add: foreign_row_def)
qed

end
