(* ===== verification/Name_Spec.thy ===== *)
theory Name_Spec
  imports Lifecycle_Effects
begin

text \<open>
  The specification of the memory commands over names, and the refinement. The state a user reasons about is
  the map from visible names to contents, the set of soft-deleted names, and for each name its recorded
  versions. A step fixes the new state of a command that succeeds, and says when a command may refuse; a
  refusal changes nothing.
\<close>

section \<open>The state over names\<close>

type_synonym shelf = "view \<times> (string \<times> string) set"
type_synonym history = "string \<times> string \<Rightarrow> (int \<times> string \<times> content) set"

definition hidden_of :: "db \<Rightarrow> (string \<times> string) set" where
  "hidden_of d = key ` {m \<in> set (memories d). \<not> live m}"

definition shelf_of :: "db \<Rightarrow> shelf" where
  "shelf_of d = (view_of d, hidden_of d)"

definition version_content :: "version_row \<Rightarrow> content" where
  "version_content v = (v_type v, v_description v, v_body v)"

definition history_of :: "db \<Rightarrow> history" where
  "history_of d k = {(v_version v, v_change_reason v, version_content v) | v.
     v \<in> set (memory_versions d) \<and> (\<exists>m \<in> set (memories d). key m = k \<and> v_memory_id v = m_id m)}"

definition on_shelf :: "shelf \<Rightarrow> string \<times> string \<Rightarrow> bool" where
  "on_shelf s k \<longleftrightarrow> k \<in> dom (fst s) \<union> snd s"

lemma visible_dom: "store_ok d \<Longrightarrow> dom (view_of d) = key ` {m \<in> set (memories d). live m}"
proof (intro set_eqI iffI)
  fix k
  assume ok: "store_ok d" and "k \<in> dom (view_of d)"
  then have "k \<in> key ` set (memories d)" using view_of_none by (metis domIff)
  then obtain m where m: "m \<in> set (memories d)" "k = key m" by blast
  with \<open>k \<in> dom (view_of d)\<close> view_of_row [OF ok m(1)] show "k \<in> key ` {m \<in> set (memories d). live m}"
    by (auto simp: visible_def split: if_splits)
next
  fix k
  assume ok: "store_ok d" and "k \<in> key ` {m \<in> set (memories d). live m}"
  then show "k \<in> dom (view_of d)" by (auto simp: view_of_row [OF ok] visible_def)
qed

lemma on_shelf_iff: "store_ok d \<Longrightarrow> on_shelf (shelf_of d) k \<longleftrightarrow> k \<in> key ` set (memories d)"
  by (auto simp: on_shelf_def shelf_of_def visible_dom hidden_of_def)

lemma hidden_replace:
  assumes ok: "store_ok d" and m: "m \<in> set (memories d)"
    and mems: "set (memories d') = insert m' (set (memories d) - {m})"
  shows "hidden_of d' = hidden_of d - {key m} \<union> (if live m' then {} else {key m'})"
proof -
  have keys: "x = m" if "x \<in> set (memories d)" "key x = key m" for x
    using that m store_ok_names [OF ok] by (auto simp: distinct_map inj_on_def key_def)
  have "{x \<in> insert m' (set (memories d) - {m}). \<not> live x}
      = {x \<in> set (memories d). \<not> live x} - {m} \<union> (if live m' then {} else {m'})" by auto
  then have "hidden_of d' = key ` ({x \<in> set (memories d). \<not> live x} - {m}) \<union> (if live m' then {} else {key m'})"
    by (simp add: hidden_of_def mems image_Un)
  moreover have "key ` ({x \<in> set (memories d). \<not> live x} - {m}) = hidden_of d - {key m}"
    using keys by (auto simp: hidden_of_def)
  ultimately show ?thesis by simp
qed

lemma shelf_replace:
  assumes "store_ok d" and "store_ok d'" and "m \<in> set (memories d)"
    and "set (memories d') = insert m' (set (memories d) - {m})"
  shows "shelf_of d' = ((view_of d)(key m := None, key m' := visible m'),
     hidden_of d - {key m} \<union> (if live m' then {} else {key m'}))"
  unfolding shelf_of_def using view_replace [OF assms] hidden_replace [OF assms(1,3,4)] by simp

lemma not_hidden:
  assumes "store_ok d" and "m \<in> set (memories d)" and "live m"
  shows "key m \<notin> hidden_of d"
  using same_name_same_row [OF assms(1) _ assms(2)] assms(3)
  unfolding hidden_of_def by (auto simp: key_def named_def)

lemma history_row:
  assumes "store_ok d" and "m \<in> set (memories d)"
  shows "history_of d (key m) = (\<lambda>v. (v_version v, v_change_reason v, version_content v)) `
     {v \<in> set (memory_versions d). v_memory_id v = m_id m}"
proof -
  have "x = m" if "x \<in> set (memories d)" "key x = key m" for x
    using that assms store_ok_names [OF assms(1)] by (auto simp: distinct_map inj_on_def key_def)
  then show ?thesis using assms(2) unfolding history_of_def by blast
qed

section \<open>The steps\<close>

definition valid_content :: "content \<Rightarrow> bool" where
  "valid_content c \<longleftrightarrow> (case c of (ty, desc, body) \<Rightarrow>
     ty \<in> set memory_types \<and> sql_length desc \<le> 500 \<and> length body \<le> 512000)"

fun edit_content :: "edit_args \<Rightarrow> string option \<Rightarrow> content \<Rightarrow> content" where
  "edit_content args raw (ty, desc, body) =
     (unwrap_or (ea_type args) ty, unwrap_or (ea_description args) desc, unwrap_or raw body)"

text \<open>The contents a restore brings back: of the requested version, or of the highest one that no restore wrote.\<close>

definition restorable :: "restore_args \<Rightarrow> (int \<times> string \<times> content) set \<Rightarrow> content \<Rightarrow> bool" where
  "restorable args hist c \<longleftrightarrow> (\<exists>n reason. (n, reason, c) \<in> hist \<and>
     (case ra_version args of
        Some k \<Rightarrow> n = k
      | None \<Rightarrow> reason \<noteq> ''restore'' \<and> (\<forall>(n', reason', c') \<in> hist. reason' \<noteq> ''restore'' \<longrightarrow> n' \<le> n)))"

definition accepted :: "bool \<Rightarrow> app_error + 'v \<Rightarrow> bool" where
  "accepted skip answer \<longleftrightarrow> (case accept_embedding skip answer of Inl _ \<Rightarrow> False | Inr _ \<Rightarrow> True)"

text \<open>What forces a command to succeed. A lock on the time of the last change may always refuse.\<close>

fun enabled :: "env \<Rightarrow> string \<Rightarrow> command \<Rightarrow> history \<Rightarrow> shelf \<Rightarrow> bool" where
  "enabled v ns (Insert m) h s = (\<not> on_shelf s (n_namespace m, n_name m) \<and> valid_content (new_content m)
     \<and> n_source m \<in> set (map source_str all_sources))"
| "enabled v ns (Edit args) h s = (\<exists>name c raw. or_else (ea_positional args) (ea_name args) = Some name
     \<and> fst s (ns, name) = Some c \<and> ea_expected args = None \<and> edit_body (v_tokens v) (ea_body args) = Inr raw
     \<and> check_description (ea_description args) = Inr () \<and> fst (edit_content args raw c) \<in> set memory_types
     \<and> accepted (v_skip v) (v_embed v (snd (snd (edit_content args raw c)))))"
| "enabled v ns (Rename args) h s = (\<exists>name raw new. or_else (na_positional args) (na_name args) = Some name
     \<and> or_else (na_new_name args) (na_new_positional args) = Some raw \<and> new = normalize_new_name (v_lower v) raw
     \<and> check_new_name name new = Inr () \<and> (ns, name) \<in> dom (fst s) \<and> na_expected args = None
     \<and> \<not> on_shelf s (ns, new))"
| "enabled v ns (Restore args) h s = (\<exists>name c. or_else (ra_positional args) (ra_name args) = Some name
     \<and> on_shelf s (ns, name) \<and> ra_expected args = None \<and> restorable args (h (ns, name)) c \<and> valid_content c
     \<and> accepted (v_skip v) (v_embed v (snd (snd c))))"
| "enabled v ns (Forget p n) h s = (\<exists>name. or_else p n = Some name \<and> on_shelf s (ns, name))"
| "enabled v ns (Purge args) h s = ((pa_yes args \<or> pa_dry_run args) \<and> or_else (pa_positional args) (pa_name args) = None)"

text \<open>One command over names: \<open>True\<close> for a success. Only a purge leaves a choice, which of the expired
  soft-deleted names go; the rows it removes are the subject of a theorem of their own.\<close>

inductive name_step :: "env \<Rightarrow> string \<Rightarrow> history \<Rightarrow> command \<Rightarrow> bool \<Rightarrow> shelf \<Rightarrow> shelf \<Rightarrow> bool" where
  refused: "\<not> enabled v ns cmd h s \<Longrightarrow> name_step v ns h cmd False s s"
| inserted: "\<not> on_shelf (w, g) (n_namespace m, n_name m) \<Longrightarrow> valid_content (new_content m) \<Longrightarrow>
    name_step v ns h (Insert m) True (w, g) (w((n_namespace m, n_name m) \<mapsto> new_content m), g)"
| edited: "or_else (ea_positional args) (ea_name args) = Some name \<Longrightarrow> w (ns, name) = Some c \<Longrightarrow>
    edit_body (v_tokens v) (ea_body args) = Inr raw \<Longrightarrow>
    name_step v ns h (Edit args) True (w, g) (w((ns, name) \<mapsto> edit_content args raw c), g)"
| renamed: "or_else (na_positional args) (na_name args) = Some name \<Longrightarrow> w (ns, name) = Some c \<Longrightarrow>
    or_else (na_new_name args) (na_new_positional args) = Some raw \<Longrightarrow>
    new = normalize_new_name (v_lower v) raw \<Longrightarrow> name_slug_matches new \<Longrightarrow> \<not> on_shelf (w, g) (ns, new) \<Longrightarrow>
    name_step v ns h (Rename args) True (w, g) (w((ns, name) := None, (ns, new) \<mapsto> c), g)"
| restored: "or_else (ra_positional args) (ra_name args) = Some name \<Longrightarrow> on_shelf (w, g) (ns, name) \<Longrightarrow>
    restorable args (h (ns, name)) c \<Longrightarrow>
    name_step v ns h (Restore args) True (w, g) (w((ns, name) \<mapsto> c), g - {(ns, name)})"
| forgotten: "or_else p n = Some name \<Longrightarrow> w (ns, name) = Some c \<Longrightarrow>
    name_step v ns h (Forget p n) True (w, g) (w((ns, name) := None), insert (ns, name) g)"
| forgotten_before: "or_else p n = Some name \<Longrightarrow> (ns, name) \<in> g \<Longrightarrow>
    name_step v ns h (Forget p n) True (w, g) (w, g)"
| purged: "gone \<subseteq> g \<inter> {k. fst k = ns \<and> (case or_else (pa_positional args) (pa_name args) of None \<Rightarrow> True | Some n \<Rightarrow> snd k = n)} \<Longrightarrow>
    (pa_dry_run args \<longrightarrow> gone = {}) \<Longrightarrow> pa_dry_run args \<or> pa_yes args \<Longrightarrow>
    name_step v ns h (Purge args) True (w, g) (w, g - gone)"

inductive_cases name_step_forgetE: "name_step v ns h (Forget p n) True (w, g) s'"

text \<open>Whether a command of a session answered with a response.\<close>

definition is_done :: "'e + 'a \<Rightarrow> bool" where
  "is_done r = (case r of Inl _ \<Rightarrow> False | Inr _ \<Rightarrow> True)"

fun command_done :: "env \<Rightarrow> int \<times> string \<times> command \<Rightarrow> db \<times> sidecar \<Rightarrow> bool" where
  "command_done v (now, ns, Insert m) (d, s) = is_done (fst (committed (insert_memory now m) d))"
| "command_done v (now, ns, Edit args) (d, s) =
     is_done (fst (committed (edit (v_cfg v) (v_blake3 v) (v_tokens v) (v_embed v) (v_skip v) now ns args) d))"
| "command_done v (now, ns, Rename args) (d, s) = is_done (fst (committed (rename (v_lower v) now ns args) d))"
| "command_done v (now, ns, Restore args) (d, s) =
     is_done (fst (committed (restore (v_cfg v) (v_blake3 v) (\<lambda>b. answer_vec (v_embed v b)) (v_skip v) now ns args) d))"
| "command_done v (now, ns, Forget p n) (d, s) = is_done (fst (forget now ns p n d s))"
| "command_done v (now, ns, Purge args) (d, s) = is_done (fst (purge now ns args d s))"

lemma committed_step:
  assumes "\<And>r d'. tx d = Inr (r, d') \<Longrightarrow> name_step v ns h cmd True (shelf_of d) (shelf_of d')"
    and "enabled v ns cmd h (shelf_of d) \<Longrightarrow> \<exists>r d'. tx d = Inr (r, d')"
  shows "name_step v ns h cmd (is_done (fst (committed tx d))) (shelf_of d) (shelf_of (snd (committed tx d)))"
proof (cases "tx d")
  case (Inl e)
  with assms(2) have "\<not> enabled v ns cmd h (shelf_of d)" by auto
  then show ?thesis by (simp add: committed_def Inl is_done_def name_step.refused)
next
  case (Inr x)
  obtain r d' where "x = (r, d')" by fastforce
  then show ?thesis using assms(1) Inr by (simp add: committed_def is_done_def)
qed

section \<open>Each command is a step\<close>

lemma insert_step:
  assumes inv: "store_inv d" and run: "insert_memory now m d = Inr (i, d')"
  shows "name_step v ns h (Insert m) True (shelf_of d) (shelf_of d')"
  using run
proof (rule insert_memoryE)
  fix row
  assume row: "row = memory_of_new now (seq_memories d + 1) (n_source m) m" and checks: "memory_checks row"
    and fresh: "\<forall>r \<in> set (memories d). \<not> named (n_namespace m) (n_name m) r"
    and d': "d' = d\<lparr>memories := memories d @ [row], seq_memories := seq_memories d + 1,
                fts_memories := fts_memories d @ [fts_of row]\<rparr>"
  note ok = store_invD(1) [OF inv]
  have k: "key row = (n_namespace m, n_name m)" "visible row = Some (new_content m)" "live row"
    by (simp_all add: row memory_of_new_def key_def visible_def live_def content_def new_content_def)
  have nk: "key row \<notin> key ` set (memories d)" using fresh unfolding k(1) by (auto simp: named_key)
  have "view_of d' = (view_of d)(key row := visible row)"
    by (rule view_add [OF store_invD(1) [OF insert_memory_inv [OF inv run]] nk ok]) (simp add: d')
  moreover have "hidden_of d' = hidden_of d" using k(3) by (auto simp: hidden_of_def d')
  moreover have "\<not> on_shelf (shelf_of d) (n_namespace m, n_name m)" using nk on_shelf_iff [OF ok] k(1) by simp
  moreover have "valid_content (new_content m)"
    using checks by (simp add: row memory_of_new_def memory_checks_def valid_content_def new_content_def)
  ultimately show ?thesis unfolding shelf_of_def k by (auto intro: name_step.inserted)
qed

lemma insert_enabled:
  assumes "store_ok d" and "enabled v ns (Insert m) h (shelf_of d)"
  shows "\<exists>r d'. insert_memory now m d = Inr (r, d')"
proof -
  have src: "n_source m \<in> set (map source_str all_sources)" and v: "valid_content (new_content m)"
    and fresh: "\<not> (\<exists>r \<in> set (memories d). named (n_namespace m) (n_name m) r)"
    using assms(2) by (auto simp: on_shelf_iff [OF assms(1)] named_key image_iff)
  have "memory_checks (memory_of_new now (seq_memories d + 1) (n_source m) m)"
    using src v by (simp add: memory_checks_def memory_of_new_def valid_content_def new_content_def)
  moreover have "validate_source (n_source m) = Inr (n_source m)" using src validate_source_iff by blast
  ultimately show ?thesis using fresh by (simp add: insert_memory_def Let_def)
qed

lemma edit_step:
  assumes inv: "store_inv d"
    and run: "edit (v_cfg v) (v_blake3 v) (v_tokens v) (v_embed v) (v_skip v) now ns args d = Inr (r, d')"
  shows "name_step v ns h (Edit args) True (shelf_of d) (shelf_of d')"
  using run
proof (rule editE)
  fix name raw row
  assume n: "or_else (ea_positional args) (ea_name args) = Some name"
    and row: "read_by_name d ns name = Some row" and raw: "edit_body (v_tokens v) (ea_body args) = Inr raw"
    and tx: "edit_tx (v_cfg v) (v_blake3 v) (v_embed v) (v_skip v) now ns name args (m_id row) raw row d = Inr (r, d')"
  note ok = store_invD(1) [OF inv]
  from row have m: "row \<in> set (memories d)" "key row = (ns, name)" "live row"
    by (simp_all add: read_by_name_iff [OF ok] named_key)
  define m' where "m' = (edited (v_blake3 v) args raw row row)\<lparr>m_updated_at := now\<rparr>"
  have "set (memories d') = insert m' (set (memories d) - {row})"
    unfolding m'_def using edit_tx_effect [OF inv m(1) tx] by simp
  note shelf = shelf_replace [OF ok store_invD(1) [OF edit_inv [OF inv run]] m(1) this]
  have k: "key m' = (ns, name)" "live m'" "visible m' = Some (edit_content args raw (content row))"
    using m by (simp_all add: m'_def key_def visible_def live_def content_def)
  have "shelf_of d' = ((view_of d)((ns, name) \<mapsto> edit_content args raw (content row)), hidden_of d)"
    using shelf k m(2) not_hidden [OF ok m(1,3)] by simp
  moreover have "view_of d (ns, name) = Some (content row)" using row by (simp add: view_of_def)
  ultimately show ?thesis using name_step.edited [where w = "view_of d", OF n _ raw] by (simp add: shelf_of_def)
qed

lemma accept_embedding_indep:
  assumes "accepted skip a"
  shows "\<exists>e. accept_embedding skip a = Inr e" and "\<exists>e. accept_embedding skip (answer_vec a) = Inr e"
  using assms
  by (auto simp: accepted_def accept_embedding_def answer_vec_def split: sum.splits app_error.splits if_splits)

lemma edit_enabled:
  assumes inv: "store_inv d" and en: "enabled v ns (Edit args) h (shelf_of d)"
  shows "\<exists>r d'. edit (v_cfg v) (v_blake3 v) (v_tokens v) (v_embed v) (v_skip v) now ns args d = Inr (r, d')"
proof -
  obtain name c raw where n: "or_else (ea_positional args) (ea_name args) = Some name"
    and c: "view_of d (ns, name) = Some c" and lock: "ea_expected args = None"
    and raw: "edit_body (v_tokens v) (ea_body args) = Inr raw" and desc: "check_description (ea_description args) = Inr ()"
    and ty: "fst (edit_content args raw c) \<in> set memory_types"
    and emb: "accepted (v_skip v) (v_embed v (snd (snd (edit_content args raw c))))"
    using en by (auto simp: shelf_of_def)
  obtain row where row: "read_by_name d ns name = Some row" "c = content row"
    using c by (auto simp: view_of_def)
  have t: "unwrap_or (ea_type args) (m_type row) \<in> set memory_types"
    and e: "\<exists>e. accept_embedding (v_skip v) (v_embed v (unwrap_or raw (m_body row))) = Inr e"
    using ty emb accept_embedding_indep(1) by (simp_all add: row(2) content_def)
  have l: "check_expected (ea_expected args) (m_updated_at row) = Inr ()" by (simp add: lock check_expected_def)
  obtain r d' where "edit (v_cfg v) (v_blake3 v) (v_tokens v) (v_embed v) (v_skip v) now ns args d = Inr (r, d')"
    by (rule edit_runs [OF inv n row(1) l raw desc t, of "v_blake3 v" "v_skip v" "v_embed v"]) (use e in blast)+
  then show ?thesis by blast
qed

lemma rename_step:
  assumes inv: "store_inv d" and run: "rename (v_lower v) now ns args d = Inr (r, d')"
  shows "name_step v ns h (Rename args) True (shelf_of d) (shelf_of d')"
  using run
proof (rule renameE)
  fix name raw row
  let ?new = "normalize_new_name (v_lower v) raw"
  assume n: "or_else (na_positional args) (na_name args) = Some name"
    and nn: "or_else (na_new_name args) (na_new_positional args) = Some raw"
    and chk: "check_new_name name ?new = Inr ()" and row: "read_by_name d ns name = Some row"
    and tx: "rename_tx now ns name ?new (na_expected args) (m_id row) row d = Inr (r, d')"
  note ok = store_invD(1) [OF inv]
  from row have m: "row \<in> set (memories d)" "key row = (ns, name)" "live row" "m_name row = name"
    by (simp_all add: read_by_name_iff [OF ok] named_key key_def)
  have new: "?new \<noteq> name" "name_slug_matches ?new"
    using chk by (auto simp: check_new_name_def split: if_splits)
  obtain g d0 where "rename_target ns ?new (m_id row) d = Inr (g, d0)"
    using tx unfolding rename_tx_def bind_rust_Inr_iff by auto
  from rename_target_free [OF ok this m(1)] new(1) m(4)
  have free: "\<not> on_shelf (view_of d, hidden_of d) (ns, ?new)"
    using on_shelf_iff [OF ok] by (simp add: named_def shelf_of_def)
  define m' where "m' = row\<lparr>m_name := ?new, m_updated_at := now\<rparr>"
  have "set (memories d') = insert m' (set (memories d) - {row})"
    unfolding m'_def using rename_tx_effect [OF inv m(1,4) tx] by simp
  note shelf = shelf_replace [OF ok store_invD(1) [OF rename_inv [OF inv run]] m(1) this]
  have k: "key m' = (ns, ?new)" "live m'" "visible m' = Some (content row)"
    using m by (simp_all add: m'_def key_def visible_def live_def content_def)
  have "shelf_of d' = ((view_of d)((ns, name) := None, (ns, ?new) \<mapsto> content row), hidden_of d)"
    using shelf k m(2) not_hidden [OF ok m(1,3)] by simp
  moreover have "view_of d (ns, name) = Some (content row)" using row by (simp add: view_of_def)
  ultimately show ?thesis
    using name_step.renamed [where w = "view_of d", OF n _ nn refl new(2) free] by (simp add: shelf_of_def)
qed

lemma distinct_map_one:
  assumes "distinct (map g xs)" and "\<And>y. y \<in> set xs \<Longrightarrow> p y \<Longrightarrow> y = x" and "g (f x) \<notin> g ` (set xs - {x})"
  shows "distinct (map g (map (\<lambda>y. if p y then f y else y) xs))"
  using assms
proof (induction xs)
  case (Cons a xs)
  have IH: "distinct (map g (map (\<lambda>y. if p y then f y else y) xs))"
    by (rule Cons.IH) (use Cons.prems in auto)
  have nin: "g a \<notin> g ` set xs" using Cons.prems(1) by simp
  show ?case
  proof (cases "p a")
    case True
    then have a: "a = x" using Cons.prems(2) by simp
    have "\<not> p y" if "y \<in> set xs" for y using Cons.prems(2) [of y] that nin a by auto
    then have "map (\<lambda>y. if p y then f y else y) xs = xs" by (simp add: map_idI)
    moreover have "g (f x) \<notin> g ` set xs" using Cons.prems(3) nin a by auto
    ultimately show ?thesis using True a Cons.prems(1) by (auto simp: image_iff)
  next
    case False
    have "g a \<noteq> g (if p y then f y else y)" if "y \<in> set xs" for y
    proof (cases "p y")
      case True
      then have "y = x" using Cons.prems(2) that by simp
      moreover have "a \<noteq> x" using that nin \<open>y = x\<close> by auto
      moreover from this have "g a \<in> g ` (set (a # xs) - {x})" by simp
      ultimately show ?thesis using Cons.prems(3) True by (metis (full_types))
    next
      case False
      then show ?thesis using nin that by (auto simp: image_iff)
    qed
    then show ?thesis using IH False by (auto simp: image_iff)
  qed
qed simp

lemma rename_enabled:
  assumes inv: "store_inv d" and en: "enabled v ns (Rename args) h (shelf_of d)"
  shows "\<exists>r d'. rename (v_lower v) now ns args d = Inr (r, d')"
proof -
  note ok = store_invD(1) [OF inv]
  obtain name raw new where n: "or_else (na_positional args) (na_name args) = Some name"
    and nn: "or_else (na_new_name args) (na_new_positional args) = Some raw" and new: "new = normalize_new_name (v_lower v) raw"
    and chk: "check_new_name name new = Inr ()" and vis: "view_of d (ns, name) \<noteq> None" and lock: "na_expected args = None"
    and free: "(ns, new) \<notin> key ` set (memories d)"
    using en on_shelf_iff [OF ok] by (auto simp: shelf_of_def)
  obtain row where row: "read_by_name d ns name = Some row" using vis by (auto simp: view_of_def)
  then have m: "row \<in> set (memories d)" "key row = (ns, name)" "live row"
    by (simp_all add: read_by_name_iff [OF ok] named_key)
  let ?p = "\<lambda>m. m_id m = m_id row \<and> live m" and ?f = "\<lambda>m::memory_row. m\<lparr>m_name := new\<rparr>"
  let ?d1 = "update_memories now ?p ?f d"
  have only: "r = row" if "r \<in> set (memories d)" "?p r" for r
    using same_id_same_row [OF ok that(1) m(1)] that(2) by simp
  have "distinct (map key (map (\<lambda>m. if ?p m then (?f m)\<lparr>m_updated_at := now\<rparr> else m) (memories d)))"
  proof (rule distinct_map_one)
    show "distinct (map key (memories d))" using store_ok_names [OF ok] by (simp add: key_def [abs_def])
    show "key ((?f row)\<lparr>m_updated_at := now\<rparr>) \<notin> key ` (set (memories d) - {row})"
      using free m(2) by (auto simp: key_def)
  qed (rule only)
  then have "distinct (map (\<lambda>m. (m_namespace m, m_name m)) (memories ?d1))"
    by (simp add: update_memories_def sql_update_def key_def [abs_def])
  moreover have "\<forall>r \<in> set (memories d). ?p r \<longrightarrow> memory_checks (?f r)"
    using only store_invD(3) [OF inv m(1)] by (auto simp: memory_checks_def)
  ultimately have u: "exec_update_memories now ?p ?f d = Inr (sql_changed ?p (memories d), ?d1)"
    by (simp add: exec_update_memories_def Let_def)
  have changed: "sql_changed ?p (memories d) \<noteq> 0" unfolding sql_count_eq_0 using m by blast
  have i: "m_id row \<in> memory_ids d" using m(1) by (simp add: memory_ids_def)
  have ids: "memory_ids ?d1 = memory_ids d" by (rule memory_ids_update) simp
  have nv: "next_version ?d1 (m_id row) = next_version d (m_id row)"
    by (simp add: next_version_def versions_of_def update_memories_def)
  obtain d2 where d2: "insert_version now (m_id row) (next_version ?d1 (m_id row)) new (m_type row) (m_description row)
      (m_body row) (m_metadata row) None ''rename'' ?d1 = Inr d2"
    using insert_version_next [of "m_id row" ?d1 "''rename''"] i ids by (auto simp: change_reasons_def)
  have "List.find (named ns new) (memories d) = None"
    unfolding find_None_iff using free by (metis image_eqI named_key)
  then have t: "rename_target ns new (m_id row) d = Inr (None, d)"
    by (simp add: rename_target_def find_by_name_any_state_def)
  have "\<exists>r d'. rename_tx now ns name new None (m_id row) row d = Inr (r, d')"
    unfolding rename_tx_def t option.case Let_def bind_rust_simps case_prod_conv u if_not_P [OF changed] d2 by blast
  then show ?thesis
    using n nn chk row by (simp add: rename_def Let_def find_by_name_read new lock check_expected_def)
qed

lemma restore_target_restorable:
  assumes ok: "store_ok d" and m: "m \<in> set (memories d)" and v: "v \<in> set (memory_versions d)" "v_memory_id v = m_id m"
    and t: "restore_target args d (m_id m) = Inr (v_version v)"
  shows "restorable args (history_of d (key m)) (version_content v)"
proof (cases "ra_version args")
  case (Some k)
  with t have "v_version v = k" by (simp add: restore_target_def)
  with v Some show ?thesis unfolding restorable_def history_row [OF ok m] by auto
next
  case None
  let ?S = "{w \<in> set (memory_versions d). v_memory_id w = m_id m \<and> v_change_reason w \<noteq> ''restore''}"
  have S: "?S \<noteq> {}" and mx: "v_version v = Max (v_version ` ?S)"
    using t by (auto simp: restore_target_def None Let_def filter_empty_conv split: if_splits)
  have "finite ?S" by simp
  with S have "Max (v_version ` ?S) \<in> v_version ` ?S" by (intro Max_in) simp_all
  then obtain w where w: "w \<in> ?S" "v_version w = v_version v" using mx by auto
  have "w = v"
    using version_lookup [OF ok v(1)] version_lookup [OF ok, of w] w v(2) by simp
  moreover have "v_version x \<le> v_version v" if "x \<in> ?S" for x
    unfolding mx using that by (intro Max_ge) auto
  ultimately have reason: "v_change_reason v \<noteq> ''restore''"
    and le: "\<forall>x \<in> ?S. v_version x \<le> v_version v" using w(1) by auto
  have "(v_version v, v_change_reason v, version_content v) \<in> history_of d (key m)"
    unfolding history_row [OF ok m] using v by auto
  moreover have "\<forall>(n', reason', c') \<in> history_of d (key m). reason' \<noteq> ''restore'' \<longrightarrow> n' \<le> v_version v"
    unfolding history_row [OF ok m] using le by auto
  ultimately show ?thesis unfolding restorable_def None option.case using reason by blast
qed

lemma restorable_target:
  assumes ok: "store_ok d" and m: "m \<in> set (memories d)" and c: "restorable args (history_of d (key m)) c"
  obtains v where "v \<in> set (memory_versions d)" "v_memory_id v = m_id m" "version_content v = c"
    and "restore_target args d (m_id m) = Inr (v_version v)"
proof -
  from c obtain v where v: "v \<in> set (memory_versions d)" "v_memory_id v = m_id m" "version_content v = c"
    and ch: "case ra_version args of Some k \<Rightarrow> v_version v = k
      | None \<Rightarrow> v_change_reason v \<noteq> ''restore'' \<and> (\<forall>w \<in> set (memory_versions d). v_memory_id w = m_id m
           \<longrightarrow> v_change_reason w \<noteq> ''restore'' \<longrightarrow> v_version w \<le> v_version v)"
    unfolding restorable_def history_row [OF ok m] by (fastforce split: option.splits)
  have "restore_target args d (m_id m) = Inr (v_version v)"
  proof (cases "ra_version args")
    case None
    let ?vs = "map v_version (filter (\<lambda>v. v_memory_id v = m_id m \<and> v_change_reason v \<noteq> ''restore'') (memory_versions d))"
    have "Max (set ?vs) = v_version v" by (rule Max_eqI) (use v ch None in auto)
    moreover have "?vs \<noteq> []" using v ch None by (auto simp: filter_empty_conv)
    ultimately show ?thesis unfolding restore_target_def None option.case Let_def by simp
  qed (use ch in \<open>simp add: restore_target_def\<close>)
  with that v show thesis by blast
qed

lemma restore_step:
  assumes inv: "store_inv d" and run: "restore cfg blake3 embedder skip now ns args d = Inr (r, d')"
  shows "name_step v ns (history_of d) (Restore args) True (shelf_of d) (shelf_of d')"
  using run
proof (rule restoreE)
  fix name cur ver embedding nv
  assume n: "or_else (ra_positional args) (ra_name args) = Some name"
    and f: "List.find (named ns name) (memories d) = Some cur"
    and t: "restore_target args d (m_id cur) = Inr (v_version ver)"
    and ver: "ver \<in> set (memory_versions d)" "v_memory_id ver = m_id cur"
    and tx: "restore_tx cfg blake3 now ns (ra_expected args) cur ver embedding d = Inr (nv, d')"
  note ok = store_invD(1) [OF inv]
  from find_in_set [OF f] have m: "cur \<in> set (memories d)" "key cur = (ns, name)" by (simp_all add: named_key)
  define m' where "m' = (restored blake3 ver cur)\<lparr>m_updated_at := now\<rparr>"
  have "set (memories d') = insert m' (set (memories d) - {cur})"
    unfolding m'_def using restore_tx_effect [OF inv m(1) tx] by simp
  note shelf = shelf_replace [OF ok store_invD(1) [OF restore_inv [OF inv run]] m(1) this]
  have k: "key m' = (ns, name)" "live m'" "visible m' = Some (version_content ver)"
    using m by (simp_all add: m'_def key_def visible_def live_def content_def version_content_def)
  have "shelf_of d' = ((view_of d)((ns, name) \<mapsto> version_content ver), hidden_of d - {(ns, name)})"
    using shelf k m(2) by simp
  moreover have "on_shelf (view_of d, hidden_of d) (ns, name)"
    unfolding shelf_of_def [symmetric] on_shelf_iff [OF ok] using m by (metis image_eqI)
  moreover have "restorable args (history_of d (ns, name)) (version_content ver)"
    using restore_target_restorable [OF ok m(1) ver t] m(2) by simp
  ultimately show ?thesis using name_step.restored [OF n] by (simp add: shelf_of_def)
qed

lemma restore_enabled:
  assumes inv: "store_inv d" and en: "enabled v ns (Restore args) (history_of d) (shelf_of d)"
  shows "\<exists>r d'. restore (v_cfg v) (v_blake3 v) (\<lambda>b. answer_vec (v_embed v b)) (v_skip v) now ns args d = Inr (r, d')"
proof -
  note ok = store_invD(1) [OF inv]
  obtain name c where n: "or_else (ra_positional args) (ra_name args) = Some name"
    and on: "(ns, name) \<in> key ` set (memories d)" and lock: "ra_expected args = None"
    and c: "restorable args (history_of d (ns, name)) c" "valid_content c" "accepted (v_skip v) (v_embed v (snd (snd c)))"
    using en on_shelf_iff [OF ok] by auto
  from on obtain cur where cur: "cur \<in> set (memories d)" "key cur = (ns, name)" by (metis imageE)
  have f: "List.find (named ns name) (memories d) = Some cur" using cur by (simp add: find_named_iff [OF ok] named_key)
  obtain ver where ver: "ver \<in> set (memory_versions d)" "v_memory_id ver = m_id cur" "version_content ver = c"
    and t: "restore_target args d (m_id cur) = Inr (v_version ver)"
    using restorable_target [OF ok cur(1)] c(1) cur(2) by metis
  have look: "List.find (\<lambda>w. v_memory_id w = m_id cur \<and> v_version w = v_version ver) (memory_versions d) = Some ver"
    using version_lookup [OF ok ver(1)] ver(2) by simp
  obtain emb where e: "accept_embedding (v_skip v) (answer_vec (v_embed v (v_body ver))) = Inr emb"
    using accept_embedding_indep(2) [OF c(3)] ver(3) by (auto simp: version_content_def)
  have "memory_checks (restored (v_blake3 v) ver cur)"
    using c(2) ver(3) store_invD(3) [OF inv cur(1)] by (auto simp: valid_content_def version_content_def memory_checks_def)
  from restore_tx_succeeds [where ?blake3.0 = "v_blake3 v" and v = ver and embedding = emb and ns = ns, OF inv cur(1) this]
  obtain d' where tx: "restore_tx (v_cfg v) (v_blake3 v) now ns None cur ver emb d = Inr (next_version d (m_id cur), d')"
    by blast
  then show ?thesis using n f t look e by (simp add: restore_def lock check_expected_def)
qed

lemma forget_step:
  assumes inv: "store_inv d"
  shows "name_step v ns h (Forget p n) (is_done (fst (forget now ns p n d s))) (shelf_of d)
    (shelf_of (fst (snd (forget now ns p n d s))))"
proof (cases "or_else p n")
  case None
  then show ?thesis by (simp add: forget_def is_done_def name_step.refused)
next
  case (Some name)
  note u = forget_unfold [OF Some, of now ns d s] and ok = store_invD(1) [OF inv]
  show ?thesis
  proof (cases "List.find (named ns name) (memories d)")
    case None
    then have "(ns, name) \<notin> key ` set (memories d)" by (auto simp: find_None_iff named_key)
    then have "\<not> enabled v ns (Forget p n) h (shelf_of d)" using on_shelf_iff [OF ok] Some by auto
    then show ?thesis by (simp add: u None is_done_def name_step.refused)
  next
    case found: (Some m)
    from find_in_set [OF found] have m: "m \<in> set (memories d)" "named ns name m" "key m = (ns, name)"
      by (simp_all add: named_key)
    show ?thesis
    proof (cases "m_deleted_at m")
      case (Some t)
      then have "(ns, name) \<in> hidden_of d" using m unfolding hidden_of_def live_def by (metis (mono_tags, lifting) image_eqI mem_Collect_eq option.distinct(1))
      then show ?thesis
        by (simp add: u found Some is_done_def shelf_of_def name_step.forgotten_before [OF \<open>or_else p n = Some name\<close>])
    next
      case None
      then have l: "live m" by (simp add: live_def)
      let ?d2 = "snd (soft_delete now ns name (delete_vec (m_id m) d))"
      define m' where "m' = m\<lparr>m_deleted_at := Some now, m_updated_at := now\<rparr>"
      have mems: "set (memories ?d2) = insert m' (set (memories d) - {m})"
        using soft_delete_live(2) [OF delete_vec_ok [OF ok], of m "m_id m" ns name now] m l by (simp add: m'_def)
      have ok2: "store_ok ?d2" by (rule store_invD(1) [OF soft_delete_inv [OF delete_vec_inv [OF inv]]])
      have k: "key m' = (ns, name)" "visible m' = None" "\<not> live m'"
        using m(3) by (simp_all add: m'_def key_def visible_def live_def)
      have "shelf_of ?d2 = ((view_of d)((ns, name) := None), insert (ns, name) (hidden_of d))"
        using shelf_replace [OF ok ok2 m(1) mems] k m(3) not_hidden [OF ok m(1) l] by (auto simp: insert_absorb)
      moreover have "view_of d (ns, name) = Some (content m)"
        using view_of_row [OF ok m(1)] l m(3) by (simp add: visible_def)
      ultimately show ?thesis
        using name_step.forgotten [where w = "view_of d" and g = "hidden_of d", OF Some]
        by (simp add: u found None case_prod_beta Let_def is_done_def shelf_of_def)
    qed
  qed
qed

lemma purge_hidden:
  assumes ok: "store_ok d" and mems: "memories d' = sql_delete (purgeable ns name cutoff) (memories d)"
  shows "hidden_of d' = hidden_of d - key ` {m \<in> set (memories d). purgeable ns name cutoff m}"
proof -
  have "x = y" if "x \<in> set (memories d)" "y \<in> set (memories d)" "key x = key y" for x y
    using that store_ok_names [OF ok] by (auto simp: distinct_map inj_on_def key_def)
  then have inj: "inj_on key (set (memories d))" by (simp add: inj_on_def)
  have "{m \<in> set (memories d'). \<not> live m}
      = {m \<in> set (memories d). \<not> live m} - {m \<in> set (memories d). purgeable ns name cutoff m}"
    by (auto simp: mems sql_delete_def)
  then show ?thesis unfolding hidden_of_def
    using inj by (auto simp: inj_on_def)
qed

lemma purge_step:
  assumes inv: "store_inv d"
  shows "name_step v ns h (Purge args) (is_done (fst (purge now ns args d s))) (shelf_of d)
    (shelf_of (fst (snd (purge now ns args d s))))"
proof (cases "fst (purge now ns args d s)")
  case (Inl e)
  then have "\<not> enabled v ns (Purge args) h (shelf_of d)" and "fst (snd (purge now ns args d s)) = d"
    by (auto simp: purge_def Let_def case_prod_beta split: if_splits)
  then show ?thesis by (simp add: Inl is_done_def name_step.refused)
next
  case (Inr r)
  note ok = store_invD(1) [OF inv]
  let ?name = "or_else (pa_positional args) (pa_name args)" and ?cut = "purge_cutoff args now"
  let ?gone = "if pa_dry_run args then {} else key ` {m \<in> set (memories d). purgeable ns ?name ?cut m}"
  have yes: "pa_dry_run args \<or> pa_yes args" using Inr by (auto simp: purge_def Let_def case_prod_beta split: if_splits)
  obtain w where d': "fst (snd (purge now ns args d s))
      = (if pa_dry_run args then d else fst (snd (execute_purge ns ?name ?cut w d s)))"
    using Inr by (auto simp: purge_def Let_def case_prod_beta split: if_splits)
  have "hidden_of (fst (snd (purge now ns args d s))) = hidden_of d - ?gone"
    unfolding d' using purge_hidden [OF ok execute_purge_memories [OF ok]] by simp
  moreover have "?gone \<subseteq> hidden_of d \<inter> {k. fst k = ns \<and> (case ?name of None \<Rightarrow> True | Some n \<Rightarrow> snd k = n)}"
    by (auto simp: purgeable_def hidden_of_def live_def key_def split: option.splits)
  ultimately show ?thesis
    using name_step.purged [of ?gone "hidden_of d" ns args v h "view_of d"] yes
    by (simp add: Inr is_done_def shelf_of_def purge_view [OF inv])
qed

text \<open>Claim C1. Seen through names the store is a map of visible contents, a set of soft-deleted names and the
  recorded versions. On any store that satisfies the invariant every command performs the step of the
  specification that belongs to its answer. A success has the one effect of the command: an insert adds
  a free name, an edit rewrites the given columns of a visible name, a rename moves a visible content to
  a free valid name, a restore makes its name show the requested version or the highest one that no
  restore wrote, a forget hides a visible name, and a purge drops hidden names of its scope. A refusal
  changes nothing, and happens only where the command is not enabled: a forget of a name on the shelf,
  an insert of a free name with valid columns, and an edit, rename or restore without a lock whose
  arguments pass the checks, always succeed.\<close>

theorem commands_refine_view:
  assumes "store_inv d"
  shows "name_step v ns (history_of d) cmd (command_done v (now, ns, cmd) (d, s)) (shelf_of d)
      (shelf_of (fst (run_command v (now, ns, cmd) (d, s))))
    \<and> store_inv (fst (run_command v (now, ns, cmd) (d, s)))"
proof
  show "store_inv (fst (run_command v (now, ns, cmd) (d, s)))"
    using run_command_inv [of "(d, s)"] assms by simp
  note ok = store_invD(1) [OF assms]
  show "name_step v ns (history_of d) cmd (command_done v (now, ns, cmd) (d, s)) (shelf_of d)
      (shelf_of (fst (run_command v (now, ns, cmd) (d, s))))"
  proof (cases cmd)
    case (Insert m)
    have "name_step v ns (history_of d) (Insert m) (is_done (fst (committed (insert_memory now m) d))) (shelf_of d)
        (shelf_of (snd (committed (insert_memory now m) d)))"
      by (rule committed_step) (erule insert_step [OF assms], erule insert_enabled [OF ok])
    with Insert show ?thesis by simp
  next
    case (Edit args)
    let ?tx = "edit (v_cfg v) (v_blake3 v) (v_tokens v) (v_embed v) (v_skip v) now ns args"
    have "name_step v ns (history_of d) (Edit args) (is_done (fst (committed ?tx d))) (shelf_of d)
        (shelf_of (snd (committed ?tx d)))"
      by (rule committed_step) (erule edit_step [OF assms], erule edit_enabled [OF assms])
    with Edit show ?thesis by simp
  next
    case (Rename args)
    let ?tx = "rename (v_lower v) now ns args"
    have "name_step v ns (history_of d) (Rename args) (is_done (fst (committed ?tx d))) (shelf_of d)
        (shelf_of (snd (committed ?tx d)))"
      by (rule committed_step) (erule rename_step [OF assms], erule rename_enabled [OF assms])
    with Rename show ?thesis by simp
  next
    case (Restore args)
    let ?tx = "restore (v_cfg v) (v_blake3 v) (\<lambda>b. answer_vec (v_embed v b)) (v_skip v) now ns args"
    have "name_step v ns (history_of d) (Restore args) (is_done (fst (committed ?tx d))) (shelf_of d)
        (shelf_of (snd (committed ?tx d)))"
      by (rule committed_step) (erule restore_step [OF assms], erule restore_enabled [OF assms])
    with Restore show ?thesis by simp
  next
    case (Forget p n)
    then show ?thesis using forget_step [OF assms] by simp
  next
    case (Purge args)
    then show ?thesis using purge_step [OF assms] by simp
  qed
qed

theorem commands_refine_view_witness:
  "view_of (fst (run_command sample_env (200, ''global'', Forget (Some ''onboarding'') None) (sample_db, None))) = Map.empty"
proof -
  have shelf: "shelf_of sample_db = ([(''global'', ''onboarding'') \<mapsto> (''note'', ''d'', ''hello'')], {})"
    by (auto simp: shelf_of_def view_of_def hidden_of_def read_by_name_def sample_db_def named_def live_def
        memory_of_new_def sample_memory_def content_def)
  have "command_done sample_env (200, ''global'', Forget (Some ''onboarding'') None) (sample_db, None)"
    by (simp add: forget_unfold or_else_def sample_db_def named_def memory_of_new_def sample_memory_def
        case_prod_beta Let_def is_done_def)
  then have "name_step sample_env ''global'' (history_of sample_db) (Forget (Some ''onboarding'') None) True
      ([(''global'', ''onboarding'') \<mapsto> (''note'', ''d'', ''hello'')], {})
      (shelf_of (fst (run_command sample_env (200, ''global'', Forget (Some ''onboarding'') None) (sample_db, None))))"
    using commands_refine_view [OF sample_inv, of sample_env "''global''" "Forget (Some ''onboarding'') None" 200 None] shelf
    by simp
  then show ?thesis by (rule name_step_forgetE) (auto simp: or_else_def shelf_of_def fun_eq_iff split: if_splits)
qed

end
