(* ===== verification/Entities.thy ===== *)
theory Entities
  imports Memories Names "HOL-Library.Char_ord" "HOL-Library.List_Lexorder" "HOL-Library.Product_Lexorder"
begin

text \<open>
  The entity graph in storage (\<^verbatim>\<open>src/storage/entities/mod.rs\<close> and \<^verbatim>\<open>merge.rs\<close>): entities,
  typed relationships and the two junction tables. A statement that violates a constraint of the
  schema is the driver's constraint error. An upsert that meets an existing row leaves the key
  counter alone.
\<close>

section \<open>Statements\<close>

record new_entity =
  ne_name :: string
  ne_type :: string
  ne_description :: "string option"

record new_relationship =
  nl_source :: string
  nl_target :: string
  nl_relation :: string
  nl_strength :: real
  nl_description :: "string option"

definition DEFAULT_RELATION_WEIGHT :: real where "DEFAULT_RELATION_WEIGHT = 1 / 2"

definition entity_named :: "string \<Rightarrow> string \<Rightarrow> entity_row \<Rightarrow> bool" where
  "entity_named ns name e \<longleftrightarrow> e_namespace e = ns \<and> e_name e = name"

definition entity_id_named :: "db \<Rightarrow> string \<Rightarrow> string \<Rightarrow> int option" where
  "entity_id_named d ns name = map_option e_id (List.find (entity_named ns name) (entities d))"

definition entity_of_new :: "int \<Rightarrow> int \<Rightarrow> string \<Rightarrow> string \<Rightarrow> string \<Rightarrow> string option \<Rightarrow> entity_row" where
  "entity_of_new now i ns name ty description =
     \<lparr>e_id = i, e_namespace = ns, e_name = name, e_type = ty, e_description = description,
      e_degree = 0, e_created_at = now, e_updated_at = now\<rparr>"

text \<open>\<^verbatim>\<open>INSERT INTO entities .. ON CONFLICT(namespace, name) DO UPDATE\<close>; \<open>ty\<close> gives the type to store
  in an existing row, from the row and the new type.\<close>

definition exec_upsert_entity ::
  "(entity_row \<Rightarrow> string \<Rightarrow> string) \<Rightarrow> int \<Rightarrow> string \<Rightarrow> string \<Rightarrow> string \<Rightarrow> string option \<Rightarrow> db \<Rightarrow> db" where
  "exec_upsert_entity ty now ns name new_type description d =
     (if \<exists>e \<in> set (entities d). entity_named ns name e then
        d\<lparr>entities := sql_update (entity_named ns name)
            (\<lambda>e. e\<lparr>e_type := ty e new_type, e_description := coalesce description (e_description e),
                   e_updated_at := now\<rparr>) (entities d)\<rparr>
      else
        d\<lparr>entities := entities d @ [entity_of_new now (seq_entities d + 1) ns name new_type description],
          seq_entities := seq_entities d + 1\<rparr>)"

text \<open>\<^verbatim>\<open>UPDATE OR IGNORE\<close> under a unique key: the rows are visited in order, and a row whose new key
  another row holds at that moment is left alone.\<close>

fun update_or_ignore ::
  "('r \<Rightarrow> 'k) \<Rightarrow> ('r \<Rightarrow> bool) \<Rightarrow> ('r \<Rightarrow> 'r) \<Rightarrow> 'r list \<Rightarrow> 'r list \<Rightarrow> nat \<times> 'r list" where
  "update_or_ignore k p f seen [] = (0, seen)"
| "update_or_ignore k p f seen (r # rest) =
     (if p r \<and> k (f r) \<notin> k ` set (seen @ rest) then
        (case update_or_ignore k p f (seen @ [f r]) rest of (n, rows) \<Rightarrow> (Suc n, rows))
      else update_or_ignore k p f (seen @ [r]) rest)"

definition edge_key :: "relationship_row \<Rightarrow> int \<times> int \<times> string" where
  "edge_key r = (r_source_id r, r_target_id r, r_relation r)"

text \<open>Updates of \<^verbatim>\<open>relationships\<close> with the trigger that stamps the row.\<close>

definition update_relationships ::
  "int \<Rightarrow> (relationship_row \<Rightarrow> bool) \<Rightarrow> (relationship_row \<Rightarrow> relationship_row) \<Rightarrow> db \<Rightarrow> db" where
  "update_relationships now p f d =
     d\<lparr>relationships := sql_update p (\<lambda>r. (f r)\<lparr>r_updated_at := now\<rparr>) (relationships d)\<rparr>"

definition update_or_ignore_relationships ::
  "int \<Rightarrow> (relationship_row \<Rightarrow> bool) \<Rightarrow> (relationship_row \<Rightarrow> relationship_row) \<Rightarrow> db \<Rightarrow> nat \<times> db" where
  "update_or_ignore_relationships now p f d =
     (case update_or_ignore edge_key p (\<lambda>r. (f r)\<lparr>r_updated_at := now\<rparr>) [] (relationships d) of
        (n, rows) \<Rightarrow> (n, d\<lparr>relationships := rows\<rparr>))"

definition weight_ok :: "real \<Rightarrow> bool" where "weight_ok w \<longleftrightarrow> 0 \<le> w \<and> w \<le> 1"

section \<open>Entities\<close>

definition upsert_entity_with ::
  "(entity_row \<Rightarrow> string \<Rightarrow> string) \<Rightarrow> unicode \<Rightarrow> int \<Rightarrow> string \<Rightarrow> new_entity \<Rightarrow> db \<Rightarrow> app_error + (int \<times> db)" where
  "upsert_entity_with ty u now ns e d =
     bind_rust (validate_entity_name (ne_name e)) (\<lambda>_.
       (let name = normalize_entity_name u (ne_name e) in
        if char_count name < 2 then Inl (Validation ''entity_name_normalizes_too_short'')
        else
          bind_rust (normalize_entity_type u (ne_type e)) (\<lambda>new_type.
            (let d' = exec_upsert_entity ty now ns name new_type (ne_description e) d in
             case entity_id_named d' ns name of
               None \<Rightarrow> Inl (Database QueryReturnedNoRows)
             | Some i \<Rightarrow> Inr (i, d')))))"

definition upsert_entity :: "unicode \<Rightarrow> int \<Rightarrow> string \<Rightarrow> new_entity \<Rightarrow> db \<Rightarrow> app_error + (int \<times> db)" where
  "upsert_entity = upsert_entity_with (\<lambda>e new_type. new_type)"

definition upsert_entity_preserving_type ::
  "unicode \<Rightarrow> int \<Rightarrow> string \<Rightarrow> new_entity \<Rightarrow> db \<Rightarrow> app_error + (int \<times> db)" where
  "upsert_entity_preserving_type =
     upsert_entity_with (\<lambda>e new_type. if e_type e = ''concept'' then new_type else e_type e)"

definition upsert_entity_vec :: "embed_config \<Rightarrow> int \<Rightarrow> string \<Rightarrow> f32 list \<Rightarrow> db \<Rightarrow> app_error + db" where
  "upsert_entity_vec cfg i ns embedding d =
     (if embedding = [] then Inr d
      else if i \<in> entity_ids d then
        Inr (d\<lparr>entity_embeddings := sql_delete (\<lambda>x. x_key x = i) (entity_embeddings d) @
               [\<lparr>x_key = i, x_owner = i, x_namespace = ns, x_embedding = f32_to_bytes embedding,
                 x_source = ''llm-headless'', x_model = cfg_version cfg, x_dim = cfg_dim cfg\<rparr>]\<rparr>)
      else Inl constraint_error)"

definition find_entity_id :: "unicode \<Rightarrow> db \<Rightarrow> string \<Rightarrow> string \<Rightarrow> int option" where
  "find_entity_id u d ns name = entity_id_named d ns (normalize_entity_name u name)"

record entity_node =
  en_id :: int
  en_name :: string
  en_namespace :: string
  en_kind :: string
  en_description :: "string option"

definition entity_node_of :: "entity_row \<Rightarrow> entity_node" where
  "entity_node_of e =
     \<lparr>en_id = e_id e, en_name = e_name e, en_namespace = e_namespace e, en_kind = e_type e,
      en_description = (case e_description e of None \<Rightarrow> None
        | Some t \<Rightarrow> if str_trim t = [] then None else Some t)\<rparr>"

definition list_entities :: "db \<Rightarrow> string option \<Rightarrow> entity_node list" where
  "list_entities d namespace =
     (case namespace of
        Some ns \<Rightarrow> map entity_node_of (sort_key e_id (filter (\<lambda>e. e_namespace e = ns) (entities d)))
      | None \<Rightarrow> map entity_node_of (sort_key (\<lambda>e. (e_namespace e, e_id e)) (entities d)))"

section \<open>Relationships\<close>

definition edge_is :: "int \<Rightarrow> int \<Rightarrow> string \<Rightarrow> relationship_row \<Rightarrow> bool" where
  "edge_is s t relation r \<longleftrightarrow> r_source_id r = s \<and> r_target_id r = t \<and> r_relation r = relation"

definition touches :: "int \<Rightarrow> relationship_row \<Rightarrow> bool" where
  "touches i r \<longleftrightarrow> r_source_id r = i \<or> r_target_id r = i"

definition find_relationship :: "db \<Rightarrow> int \<Rightarrow> int \<Rightarrow> string \<Rightarrow> relationship_row option" where
  "find_relationship d s t relation = List.find (edge_is s t relation) (relationships d)"

definition insert_relationship ::
  "int \<Rightarrow> string \<Rightarrow> int \<Rightarrow> int \<Rightarrow> string \<Rightarrow> real \<Rightarrow> string option \<Rightarrow> db \<Rightarrow> app_error + db" where
  "insert_relationship now ns s t relation w description d =
     (if weight_ok w \<and> s \<in> entity_ids d \<and> t \<in> entity_ids d
         \<and> \<not> (\<exists>r \<in> set (relationships d). edge_is s t relation r) then
        Inr (d\<lparr>relationships := relationships d @
               [\<lparr>r_id = seq_relationships d + 1, r_namespace = ns, r_source_id = s, r_target_id = t,
                 r_relation = relation, r_weight = w, r_description = description,
                 r_created_at = now, r_updated_at = now\<rparr>],
               seq_relationships := seq_relationships d + 1\<rparr>)
      else Inl constraint_error)"

definition upsert_relationship ::
  "unicode \<Rightarrow> int \<Rightarrow> string \<Rightarrow> int \<Rightarrow> int \<Rightarrow> new_relationship \<Rightarrow> db \<Rightarrow> app_error + (int \<times> db)" where
  "upsert_relationship u now ns s t rel d =
     (let relation = map_to_canonical_relation u (nl_relation rel) in
      bind_rust
        (if \<exists>r \<in> set (relationships d). edge_is s t relation r then
           (if weight_ok (nl_strength rel) then
              Inr (update_relationships now (edge_is s t relation)
                (\<lambda>r. r\<lparr>r_weight := nl_strength rel,
                       r_description := coalesce (nl_description rel) (r_description r)\<rparr>) d)
            else Inl constraint_error)
         else insert_relationship now ns s t relation (nl_strength rel) (nl_description rel) d)
        (\<lambda>d'. case find_relationship d' s t relation of
                None \<Rightarrow> Inl (Database QueryReturnedNoRows)
              | Some r \<Rightarrow> Inr (r_id r, d')))"

definition create_or_fetch_relationship ::
  "unicode \<Rightarrow> int \<Rightarrow> string \<Rightarrow> int \<Rightarrow> int \<Rightarrow> string \<Rightarrow> real \<Rightarrow> string option \<Rightarrow> db
     \<Rightarrow> app_error + (int \<times> bool \<times> db)" where
  "create_or_fetch_relationship u now ns s t relation0 w description d =
     (let relation = map_to_canonical_relation u relation0 in
      case find_relationship d s t relation of
        Some row \<Rightarrow>
          if 1 / 2 ^ 52 < \<bar>r_weight row - w\<bar> then
            (if weight_ok w then
               Inr (r_id row, False, update_relationships now (\<lambda>r. r_id r = r_id row) (\<lambda>r. r\<lparr>r_weight := w\<rparr>) d)
             else Inl constraint_error)
          else Inr (r_id row, False, d)
      | None \<Rightarrow>
          bind_rust (insert_relationship now ns s t relation w description d) (\<lambda>d'.
            case find_relationship d' s t relation of
              None \<Rightarrow> Inl (Database QueryReturnedNoRows)
            | Some r \<Rightarrow> Inr (r_id r, True, d')))"

definition delete_relationship_by_id :: "int \<Rightarrow> db \<Rightarrow> db" where
  "delete_relationship_by_id i d =
     delete_relationship_rows (\<lambda>r. r_id r = i)
       (d\<lparr>memory_relationships := sql_delete (\<lambda>x. snd x = i) (memory_relationships d)\<rparr>)"

definition degree_in :: "relationship_row list \<Rightarrow> int \<Rightarrow> int" where
  "degree_in rows i = int (sql_count (touches i) rows)"

definition recalculate_degree :: "int \<Rightarrow> db \<Rightarrow> db" where
  "recalculate_degree i d =
     d\<lparr>entities := sql_update (\<lambda>e. e_id e = i)
         (\<lambda>e. e\<lparr>e_degree := degree_in (relationships d) (e_id e)\<rparr>) (entities d)\<rparr>"

definition increment_degree :: "int \<Rightarrow> db \<Rightarrow> db" where
  "increment_degree i d =
     d\<lparr>entities := sql_update (\<lambda>e. e_id e = i) (\<lambda>e. e\<lparr>e_degree := e_degree e + 1\<rparr>) (entities d)\<rparr>"

definition list_relationships_by_namespace :: "db \<Rightarrow> string option \<Rightarrow> relationship_row list" where
  "list_relationships_by_namespace d namespace =
     sort_key r_id (case namespace of
        Some ns \<Rightarrow> filter (\<lambda>r. (\<exists>e \<in> set (entities d). e_id e = r_source_id r \<and> e_namespace e = ns)
                             \<and> (\<exists>e \<in> set (entities d). e_id e = r_target_id r \<and> e_namespace e = ns))
                     (relationships d)
      | None \<Rightarrow> relationships d)"

definition count_relationships_by_relation :: "db \<Rightarrow> string \<Rightarrow> string \<Rightarrow> nat" where
  "count_relationships_by_relation d ns relation =
     sql_count (\<lambda>r. r_namespace r = ns \<and> r_relation r = relation) (relationships d)"

definition list_entity_names_by_relation :: "db \<Rightarrow> string \<Rightarrow> string \<Rightarrow> string list" where
  "list_entity_names_by_relation d ns relation =
     sort (remdups (map e_name
       (filter (\<lambda>e. \<exists>r \<in> set (relationships d). touches (e_id e) r \<and> r_namespace r = ns \<and> r_relation r = relation)
          (entities d))))"

section \<open>Bindings to memories\<close>

definition link_memory_entity :: "int \<Rightarrow> int \<Rightarrow> db \<Rightarrow> app_error + db" where
  "link_memory_entity i e d =
     (if (i, e) \<in> set (memory_entities d) then Inr d
      else if i \<in> memory_ids d \<and> e \<in> entity_ids d then
        Inr (d\<lparr>memory_entities := memory_entities d @ [(i, e)]\<rparr>)
      else Inl constraint_error)"

definition link_memory_relationship :: "int \<Rightarrow> int \<Rightarrow> db \<Rightarrow> app_error + db" where
  "link_memory_relationship i r d =
     (if (i, r) \<in> set (memory_relationships d) then Inr d
      else if i \<in> memory_ids d \<and> r \<in> relationship_ids d then
        Inr (d\<lparr>memory_relationships := memory_relationships d @ [(i, r)]\<rparr>)
      else Inl constraint_error)"

definition unlink_memory_entity :: "int \<Rightarrow> int \<Rightarrow> db \<Rightarrow> nat \<times> db" where
  "unlink_memory_entity i e d =
     (sql_changed (\<lambda>x. x = (i, e)) (memory_entities d),
      d\<lparr>memory_entities := sql_delete (\<lambda>x. x = (i, e)) (memory_entities d)\<rparr>)"

definition clear_memory_graph_bindings :: "int \<Rightarrow> db \<Rightarrow> (nat \<times> nat) \<times> db" where
  "clear_memory_graph_bindings i d =
     ((sql_changed (\<lambda>x. fst x = i) (memory_entities d), sql_changed (\<lambda>x. fst x = i) (memory_relationships d)),
      d\<lparr>memory_entities := sql_delete (\<lambda>x. fst x = i) (memory_entities d),
        memory_relationships := sql_delete (\<lambda>x. fst x = i) (memory_relationships d)\<rparr>)"

section \<open>Orphans and bulk deletion\<close>

definition orphan_entity :: "db \<Rightarrow> entity_row \<Rightarrow> bool" where
  "orphan_entity d e \<longleftrightarrow> \<not> (\<exists>x \<in> set (memory_entities d). snd x = e_id e)
     \<and> \<not> (\<exists>r \<in> set (relationships d). touches (e_id e) r)"

definition find_orphan_entity_ids :: "db \<Rightarrow> string option \<Rightarrow> int list" where
  "find_orphan_entity_ids d namespace =
     map e_id (filter (\<lambda>e. (case namespace of Some ns \<Rightarrow> e_namespace e = ns | None \<Rightarrow> True)
                          \<and> orphan_entity d e) (entities d))"

definition find_dangling_relationship_ids :: "db \<Rightarrow> string option \<Rightarrow> int list" where
  "find_dangling_relationship_ids d namespace =
     map r_id (filter (\<lambda>r. (case namespace of Some ns \<Rightarrow> r_namespace r = ns | None \<Rightarrow> True)
                          \<and> (r_source_id r \<notin> entity_ids d \<or> r_target_id r \<notin> entity_ids d)) (relationships d))"

fun delete_relationships_by_ids :: "int list \<Rightarrow> db \<Rightarrow> nat \<times> db" where
  "delete_relationships_by_ids [] d = (0, d)"
| "delete_relationships_by_ids (i # is) d =
     (case delete_relationships_by_ids is (delete_relationship_rows (\<lambda>r. r_id r = i) d) of
        (n, d') \<Rightarrow> (sql_changed (\<lambda>r. r_id r = i) (relationships d) + n, d'))"

fun delete_entities_by_ids :: "int list \<Rightarrow> db \<Rightarrow> nat \<times> db" where
  "delete_entities_by_ids [] d = (0, d)"
| "delete_entities_by_ids (i # is) d =
     (case delete_entities_by_ids is (delete_entity_rows (\<lambda>e. e_id e = i) d) of
        (n, d') \<Rightarrow> (sql_changed (\<lambda>e. e_id e = i) (entities d) + n, d'))"

fun delete_edges_loop :: "int list \<Rightarrow> db \<Rightarrow> nat \<times> db" where
  "delete_edges_loop [] d = (0, d)"
| "delete_edges_loop (i # is) d =
     (case delete_edges_loop is (delete_relationship_by_id i d) of
        (n, d') \<Rightarrow> (sql_changed (\<lambda>r. r_id r = i) (relationships d) + n, d'))"

fun delete_edge_chunks :: "int list list \<Rightarrow> db \<Rightarrow> nat \<times> db" where
  "delete_edge_chunks [] d = (0, d)"
| "delete_edge_chunks (c # cs) d =
     (case delete_edges_loop c d of
        (n, d1) \<Rightarrow> (case delete_edge_chunks cs d1 of (m, d2) \<Rightarrow> (n + m, d2)))"

definition recalculate_degrees :: "int list \<Rightarrow> db \<Rightarrow> db" where
  "recalculate_degrees is d = foldl (\<lambda>d i. recalculate_degree i d) d is"

text \<open>\<^verbatim>\<open>UNION\<close> returns the distinct endpoints in ascending order.\<close>

definition delete_relationships_by_relation :: "string \<Rightarrow> string \<Rightarrow> db \<Rightarrow> (nat \<times> int list) \<times> db" where
  "delete_relationships_by_relation ns relation d =
     (let hit = filter (\<lambda>r. r_namespace r = ns \<and> r_relation r = relation) (relationships d);
          ids = sort (remdups (map r_source_id hit @ map r_target_id hit))
      in case delete_edge_chunks (chunks_of 1000 (map r_id hit)) d of
           (n, d') \<Rightarrow> ((n, ids), recalculate_degrees ids d'))"

end
