(* ===== verification/Names_Correct.thy ===== *)
theory Names_Correct
  imports Names
begin

text \<open>
  What the parsers establish: every relation label ends in the canonical vocabulary and stays
  there, every entity name is stored in kebab case and is then its own normal form, and a bounded
  argument is accepted exactly when it is a decimal number in the range.
\<close>

section \<open>Relations\<close>

lemmas relation_literals = CANONICAL_RELATIONS_def is_canonical_relation_def

lemma map_to_canonical_relation_closed [simp]:
  "is_canonical_relation (map_to_canonical_relation u s)"
  unfolding map_to_canonical_relation_def Let_def
  by (simp add: relation_literals)

definition relation_char :: "char \<Rightarrow> bool" where
  "relation_char b \<longleftrightarrow> lower_letter b \<or> is_ascii_digit b \<or> b = CHR ''-''"

lemma relation_char_ascii:
  assumes "relation_char c"
  shows "is_ascii_char c" and "ascii_lowercase c = c" and "c \<noteq> CHR ''_''"
  using assms
  by (auto simp: relation_char_def lower_letter_def is_ascii_digit_def is_ascii_char_def byte_in_def
      ascii_lowercase_def upper_letter_def)

lemma relation_chars_normal:
  assumes u: "unicode_ok u" and chars: "list_all relation_char s"
  shows "normalize_relation u s = s"
proof -
  have "is_ascii_str s"
    using chars relation_char_ascii(1) by (auto simp: is_ascii_str_def list_all_iff)
  then have "to_lowercase u s = map ascii_lowercase s" using u by (simp add: unicode_ok_def)
  also have "\<dots> = s"
    using chars relation_char_ascii(2) by (auto simp: list_all_iff intro: map_idI)
  finally have "normalize_relation u s = replace_char (CHR ''_'') (CHR ''-'') s"
    by (simp add: normalize_relation_def)
  also have "\<dots> = s"
    unfolding replace_char_def
  proof (rule map_idI)
    fix c assume "c \<in> set s"
    then have "c \<noteq> CHR ''_''" using chars relation_char_ascii(3) by (auto simp: list_all_iff)
    then show "(if c = CHR ''_'' then CHR ''-'' else c) = c" by simp
  qed
  finally show ?thesis .
qed

lemma canonical_relation_chars: "is_canonical_relation s \<Longrightarrow> list_all relation_char s"
  unfolding relation_literals
  by (auto simp: relation_char_def lower_letter_def is_ascii_digit_def byte_in_def)

lemma canonical_relation_fixed:
  assumes "unicode_ok u" and "is_canonical_relation s"
  shows "map_to_canonical_relation u s = s"
  using assms relation_chars_normal [OF assms(1) canonical_relation_chars [OF assms(2)]]
  by (simp add: map_to_canonical_relation_def)

lemma parse_relation_Inr:
  "parse_relation u s = Inr r \<longleftrightarrow>
     r = normalize_relation u s \<and> r \<noteq> [] \<and> lower_letter (hd r) \<and> list_all relation_char r"
  by (auto simp: parse_relation_def validate_relation_format_def bind_rust_def relation_char_def
      Let_def list_all_iff)

lemma parse_relation_fixed:
  assumes "unicode_ok u" and "parse_relation u s = Inr r"
  shows "parse_relation u r = Inr r"
proof -
  have r: "r \<noteq> [] \<and> lower_letter (hd r) \<and> list_all relation_char r"
    using assms(2) unfolding parse_relation_Inr by blast
  then show ?thesis unfolding parse_relation_Inr using relation_chars_normal [OF assms(1), of r] by metis
qed

section \<open>Entity names\<close>

definition kebab :: "string \<Rightarrow> bool" where
  "kebab s \<longleftrightarrow> list_all (\<lambda>c. slug_char c \<or> c = CHR ''-'') s
     \<and> successively (\<lambda>a b. a \<noteq> CHR ''-'' \<or> b \<noteq> CHR ''-'') s
     \<and> (s \<noteq> [] \<longrightarrow> hd s \<noteq> CHR ''-'' \<and> last s \<noteq> CHR ''-'')"

abbreviation single_hyphens :: "string \<Rightarrow> bool" where
  "single_hyphens \<equiv> successively (\<lambda>a b. a \<noteq> CHR ''-'' \<or> b \<noteq> CHR ''-'')"

lemma collapse_hyphens_prev:
  "collapse_hyphens True s \<noteq> [] \<Longrightarrow> hd (collapse_hyphens True s) \<noteq> CHR ''-''"
  by (induction s) auto

lemma collapse_hyphens_single: "single_hyphens (collapse_hyphens prev s)"
proof (induction prev s rule: collapse_hyphens.induct)
  case (2 prev c cs)
  then show ?case using collapse_hyphens_prev [of cs] by (auto simp: successively_Cons)
qed simp

lemma set_collapse_hyphens: "set (collapse_hyphens prev s) \<subseteq> set s"
  by (induction prev s rule: collapse_hyphens.induct) (auto split: if_splits)

lemma collapse_hyphens_id: "single_hyphens s \<Longrightarrow> (prev \<longrightarrow> s \<noteq> [] \<longrightarrow> hd s \<noteq> CHR ''-'') \<Longrightarrow> collapse_hyphens prev s = s"
  by (induction prev s rule: collapse_hyphens.induct) (auto simp: successively_Cons)

lemma rev_trim_split: "xs = rev (dropWhile p (rev xs)) @ rev (takeWhile p (rev xs))"
  by (simp flip: rev_append)

lemma trim_hyphens_split:
  "dropWhile (\<lambda>c. c = CHR ''-'') s =
     trim_hyphens s @ rev (takeWhile (\<lambda>c. c = CHR ''-'') (rev (dropWhile (\<lambda>c. c = CHR ''-'') s)))"
  unfolding trim_hyphens_def by (rule rev_trim_split)

lemma trim_hyphens_factor: "\<exists>a b. s = a @ trim_hyphens s @ b"
proof (intro exI)
  let ?p = "\<lambda>c. c = CHR ''-''"
  have "s = takeWhile ?p s @ dropWhile ?p s" by simp
  also have "dropWhile ?p s = trim_hyphens s @ rev (takeWhile ?p (rev (dropWhile ?p s)))"
    by (rule trim_hyphens_split)
  finally show "s = takeWhile ?p s @ trim_hyphens s @ rev (takeWhile ?p (rev (dropWhile ?p s)))" .
qed

lemma trim_hyphens_ends:
  assumes "trim_hyphens s \<noteq> []"
  shows "hd (trim_hyphens s) \<noteq> CHR ''-''" and "last (trim_hyphens s) \<noteq> CHR ''-''"
proof -
  let ?p = "\<lambda>c. c = CHR ''-''" and ?t = "dropWhile (\<lambda>c. c = CHR ''-'') s"
  have "dropWhile ?p (rev ?t) \<noteq> []" using assms by (simp add: trim_hyphens_def)
  then have "hd (dropWhile ?p (rev ?t)) \<noteq> CHR ''-''" by (rule hd_dropWhile)
  then show "last (trim_hyphens s) \<noteq> CHR ''-''" unfolding trim_hyphens_def by (simp only: last_rev not_False_eq_True)
  have "?t \<noteq> []"
  proof
    assume "?t = []"
    then have "trim_hyphens s = []" unfolding trim_hyphens_def by (simp only: rev.simps dropWhile.simps)
    with assms show False by contradiction
  qed
  moreover have "hd ?t = hd (trim_hyphens s)"
    by (subst trim_hyphens_split) (rule hd_append2 [OF assms])
  ultimately show "hd (trim_hyphens s) \<noteq> CHR ''-''" using hd_dropWhile [of ?p s] by metis
qed

lemma single_hyphens_infix: "single_hyphens (a @ s @ b) \<Longrightarrow> single_hyphens s"
  by (simp add: successively_append_iff)

lemma trim_hyphens_id:
  assumes "s \<noteq> [] \<longrightarrow> hd s \<noteq> CHR ''-'' \<and> last s \<noteq> CHR ''-''"
  shows "trim_hyphens s = s"
proof (cases "s = []")
  case False
  then have "dropWhile (\<lambda>c. c = CHR ''-'') s = s" using assms by (simp add: dropWhile_eq_self_iff)
  moreover have "dropWhile (\<lambda>c. c = CHR ''-'') (rev s) = rev s"
    using assms False by (simp add: dropWhile_eq_self_iff hd_rev)
  ultimately show ?thesis by (simp add: trim_hyphens_def)
qed (simp add: trim_hyphens_def)

lemma lowered_slug: "is_alphanumeric (ascii_lowercase c) \<Longrightarrow> slug_char (ascii_lowercase c)"
  by (auto simp: is_alphanumeric_def ascii_lowercase_def upper_letter_def slug_char_def
      lower_letter_def byte_in_def)

lemma normalize_entity_name_kebab: "kebab (normalize_entity_name u s)"
proof -
  define h where "h = map (\<lambda>c. if is_alphanumeric c then c else CHR ''-'')
    (map ascii_lowercase (map char_of (filter (\<lambda>c. c < 128) (nfkd u s))))"
  define t where "t = collapse_hyphens False h"
  have norm: "normalize_entity_name u s = trim_hyphens t"
    unfolding normalize_entity_name_def t_def h_def Let_def ..
  have "\<forall>c \<in> set h. slug_char c \<or> c = CHR ''-''" using lowered_slug by (auto simp: h_def)
  then have chars: "\<forall>c \<in> set t. slug_char c \<or> c = CHR ''-''"
    unfolding t_def using set_collapse_hyphens by blast
  obtain a b where t: "t = a @ trim_hyphens t @ b" using trim_hyphens_factor by blast
  have "single_hyphens (trim_hyphens t)"
    using collapse_hyphens_single [of False h] t single_hyphens_infix by (metis t_def)
  moreover have "set (trim_hyphens t) \<subseteq> set t" by (subst (2) t) auto
  ultimately show ?thesis
    using chars trim_hyphens_ends [of t] by (auto simp: kebab_def norm list_all_iff)
qed

lemma slug_char_ascii:
  assumes "slug_char c \<or> c = CHR ''-''"
  shows "is_ascii_char c" and "ascii_lowercase c = c"
  using assms by (auto simp: slug_char_def lower_letter_def is_ascii_char_def byte_in_def
      ascii_lowercase_def upper_letter_def)

definition slug_text :: "string \<Rightarrow> bool" where
  "slug_text s \<longleftrightarrow> (\<forall>c \<in> set s. slug_char c \<or> c = CHR ''-'')"

lemma normalize_slug:
  assumes u: "unicode_ok u" and s: "slug_text s"
  shows "normalize_entity_name u s = trim_hyphens (collapse_hyphens False s)"
proof -
  have chars: "\<forall>c \<in> set s. slug_char c \<or> c = CHR ''-''" using s by (simp add: slug_text_def)
  then have "is_ascii_str s" using slug_char_ascii(1) by (auto simp: is_ascii_str_def list_all_iff)
  then have dec: "nfkd u s = map of_char s" using u by (simp add: unicode_ok_def)
  have "(of_char c :: nat) < 128" if "c \<in> set s" for c
    using chars slug_char_ascii(1) [of c] that by (simp add: is_ascii_char_def byte_in_def less_Suc_eq_le)
  then have "filter (\<lambda>c. c < 128) (nfkd u s) = nfkd u s" unfolding dec by (simp add: filter_id_conv)
  then have "map char_of (filter (\<lambda>c. c < 128) (nfkd u s)) = map char_of (map (of_char :: char \<Rightarrow> nat) s)"
    by (simp add: dec)
  also have "\<dots> = s" by (simp add: comp_def)
  finally have "normalize_entity_name u s =
      trim_hyphens (collapse_hyphens False (map (\<lambda>c. if is_alphanumeric c then c else CHR ''-'') (map ascii_lowercase s)))"
    by (simp add: normalize_entity_name_def Let_def)
  also have "map ascii_lowercase s = s" using chars slug_char_ascii(2) by (auto intro!: map_idI)
  also have "map (\<lambda>c. if is_alphanumeric c then c else CHR ''-'') s = s"
    using chars by (auto simp: is_alphanumeric_def intro!: map_idI)
  finally show ?thesis .
qed

lemma kebab_fixed:
  assumes u: "unicode_ok u" and s: "kebab s"
  shows "normalize_entity_name u s = s"
proof -
  have "slug_text s" using s by (auto simp: kebab_def slug_text_def list_all_iff)
  then have "normalize_entity_name u s = trim_hyphens (collapse_hyphens False s)" by (rule normalize_slug [OF u])
  also have "collapse_hyphens False s = s" using s by (simp add: kebab_def collapse_hyphens_id)
  also have "trim_hyphens s = s" using s by (intro trim_hyphens_id) (simp add: kebab_def)
  finally show ?thesis .
qed

lemma normalize_entity_name_idem:
  "unicode_ok u \<Longrightarrow> normalize_entity_name u (normalize_entity_name u s) = normalize_entity_name u s"
  by (rule kebab_fixed [OF _ normalize_entity_name_kebab])

lemma validate_entity_name_Inr_length: "validate_entity_name n = Inr () \<Longrightarrow> 2 \<le> length n"
  by (simp add: validate_entity_name_def split: if_splits)

section \<open>Entity types\<close>

definition type_shape :: "string \<Rightarrow> bool" where
  "type_shape t \<longleftrightarrow> t \<noteq> [] \<and> CHR 0x0A \<notin> set t \<and> CHR 0x0D \<notin> set t \<and> CHR ''-'' \<notin> set t
     \<and> \<not> list_all is_ascii_digit t \<and> char_count t \<le> MAX_ENTITY_TYPE_LEN"

lemma normalize_entity_type_shape: "normalize_entity_type u s = Inr t \<Longrightarrow> type_shape t"
  by (auto simp: normalize_entity_type_def type_shape_def replace_char_def Let_def split: if_splits)

section \<open>Numbers\<close>

lemma parse_usize_in_range_iff:
  "parse_usize_in_range s lo hi = Inr v \<longleftrightarrow> parse_usize s = Some v \<and> lo \<le> v \<and> v \<le> hi"
  by (auto simp: parse_usize_in_range_def split: option.splits if_splits)

text \<open>The ASCII instance of the Unicode data, for concrete runs.\<close>

definition ascii_unicode :: unicode where
  "ascii_unicode = \<lparr>nfkd = map of_char, to_lowercase = map ascii_lowercase\<rparr>"

lemma ascii_unicode_ok [simp]: "unicode_ok ascii_unicode"
  by (simp add: unicode_ok_def ascii_unicode_def)

end
