(* ===== verification/Entities_Correct.thy ===== *)
theory Entities_Correct
  imports Entities Memories_Correct Names_Correct
begin

text \<open>
  The statements on the entity graph keep the schema invariant, and the invariant of the graph
  itself: names in kebab case, type labels and relations of the stored shape, weights between 0 and
  1, no self-loop, and a degree column that counts the incident edges.
\<close>

section \<open>The graph invariant\<close>

definition edges :: "db \<Rightarrow> (int \<times> int \<times> string) set" where
  "edges d = edge_key ` set (relationships d)"

definition entity_typed_ok :: "entity_row \<Rightarrow> bool" where
  "entity_typed_ok e \<longleftrightarrow> kebab (e_name e) \<and> 2 \<le> length (e_name e) \<and> type_shape (e_type e)"

definition edge_typed_ok :: "relationship_row \<Rightarrow> bool" where
  "edge_typed_ok r \<longleftrightarrow> is_canonical_relation (r_relation r) \<and> weight_ok (r_weight r)
     \<and> r_source_id r \<noteq> r_target_id r"

definition graph_typed :: "db \<Rightarrow> bool" where
  "graph_typed d \<longleftrightarrow> (\<forall>e \<in> set (entities d). entity_typed_ok e) \<and> (\<forall>r \<in> set (relationships d). edge_typed_ok r)"

definition degree_right :: "relationship_row list \<Rightarrow> entity_row \<Rightarrow> bool" where
  "degree_right rows e \<longleftrightarrow> e_degree e = degree_in rows (e_id e)"

definition degrees_ok :: "db \<Rightarrow> bool" where
  "degrees_ok d \<longleftrightarrow> (\<forall>e \<in> set (entities d). degree_right (relationships d) e)"

definition graph_inv :: "db \<Rightarrow> bool" where
  "graph_inv d \<longleftrightarrow> store_inv d \<and> graph_typed d \<and> degrees_ok d"

lemma graph_invD:
  assumes "graph_inv d"
  shows "store_inv d" "store_ok d" "graph_typed d" "degrees_ok d"
  using assms by (simp_all add: graph_inv_def store_inv_def)

text \<open>The invariant while the degrees of some entities are still to be recalculated.\<close>

definition graph_upto :: "int set \<Rightarrow> db \<Rightarrow> bool" where
  "graph_upto S d \<longleftrightarrow> store_inv d \<and> graph_typed d
     \<and> (\<forall>e \<in> set (entities d). e_id e \<notin> S \<longrightarrow> degree_right (relationships d) e)"

lemma graph_inv_upto: "graph_inv d \<longleftrightarrow> graph_upto {} d"
  by (simp add: graph_inv_def graph_upto_def degrees_ok_def)

lemma graph_upto_mono: "graph_upto S d \<Longrightarrow> S \<subseteq> T \<Longrightarrow> graph_upto T d"
  by (auto simp: graph_upto_def)

lemma graph_uptoD:
  assumes "graph_upto S d"
  shows "store_inv d" "store_ok d" "graph_typed d"
  using assms by (simp_all add: graph_upto_def store_inv_def)

lemma graph_inv_empty: "graph_inv empty_db"
  using store_inv_empty by (simp add: graph_inv_def graph_typed_def degrees_ok_def empty_db_def)

section \<open>Tables\<close>

lemma keyed_by_cong: "map k rows' = map k rows \<Longrightarrow> keyed_by k s rows' = keyed_by k s rows"
proof -
  assume same: "map k rows' = map k rows"
  then have "k ` set rows' = k ` set rows" by (metis list.set_map)
  then have "(\<forall>r \<in> set rows'. k r \<le> s) = (\<forall>r \<in> set rows. k r \<le> s)"
    by (metis (no_types, lifting) image_iff)
  with same show ?thesis by (simp add: keyed_by_def)
qed

lemma edge_key_fun: "edge_key = (\<lambda>r. (r_source_id r, r_target_id r, r_relation r))"
  by (rule ext) (simp add: edge_key_def)

lemma store_ok_edges_distinct: "store_ok d \<Longrightarrow> distinct (map edge_key (relationships d))"
  unfolding edge_key_fun by (simp add: store_defs)

lemma store_ok_entity_ids: "store_ok d \<Longrightarrow> distinct (map e_id (entities d))"
  by (simp add: store_defs keyed_by_def)

lemma store_ok_edge_ids: "store_ok d \<Longrightarrow> distinct (map r_id (relationships d))"
  by (simp add: store_defs keyed_by_def)

lemma store_ok_entity_names:
  "store_ok d \<Longrightarrow> distinct (map (\<lambda>e. (e_namespace e, e_name e)) (entities d))"
  by (simp add: store_defs)

lemma store_ok_endpoints:
  "store_ok d \<Longrightarrow> r \<in> set (relationships d) \<Longrightarrow> r_source_id r \<in> entity_ids d \<and> r_target_id r \<in> entity_ids d"
  by (auto simp: store_defs)

lemma same_entity:
  "store_ok d \<Longrightarrow> e \<in> set (entities d) \<Longrightarrow> e' \<in> set (entities d) \<Longrightarrow> e_id e = e_id e' \<Longrightarrow> e = e'"
  using store_ok_entity_ids by (auto simp: distinct_map inj_on_def)

lemma same_edge:
  "store_ok d \<Longrightarrow> r \<in> set (relationships d) \<Longrightarrow> r' \<in> set (relationships d) \<Longrightarrow> r_id r = r_id r' \<Longrightarrow> r = r'"
  using store_ok_edge_ids by (auto simp: distinct_map inj_on_def)

text \<open>New contents of one table under the same primary keys.\<close>

lemma store_ok_entities:
  assumes ok: "store_ok d" and ids: "map e_id es = map e_id (entities d)"
    and names: "distinct (map (\<lambda>e. (e_namespace e, e_name e)) es)"
  shows "store_ok (d\<lparr>entities := es\<rparr>)"
proof -
  have "entity_ids (d\<lparr>entities := es\<rparr>) = entity_ids d"
    using ids unfolding entity_ids_def by (metis db.select_convs(4) db.surjective db.update_convs(4) list.set_map)
  moreover have "keyed_by e_id (seq_entities d) es"
    using ok keyed_by_cong [OF ids] by (simp add: store_defs)
  ultimately show ?thesis
    using ok names by (simp add: store_defs memory_ids_def chunk_ids_def relationship_ids_def)
qed

lemma store_ok_relationships:
  assumes ok: "store_ok d" and ids: "map r_id rs = map r_id (relationships d)"
    and keys: "distinct (map edge_key rs)"
    and ends: "\<And>r. r \<in> set rs \<Longrightarrow> r_source_id r \<in> entity_ids d \<and> r_target_id r \<in> entity_ids d"
  shows "store_ok (d\<lparr>relationships := rs\<rparr>)"
proof -
  have "r_id ` set rs = r_id ` set (relationships d)" using ids by (metis list.set_map)
  moreover have "keyed_by r_id (seq_relationships d) rs"
    using ok keyed_by_cong [OF ids] by (simp add: store_defs)
  moreover have "r_source_id ` set rs \<subseteq> entity_ids d" "r_target_id ` set rs \<subseteq> entity_ids d" using ends by auto
  ultimately show ?thesis
    using ok keys unfolding edge_key_fun
    by (simp add: store_defs memory_ids_def chunk_ids_def relationship_ids_def entity_ids_def)
qed

lemma store_ok_sql_update_entities:
  assumes "store_ok d" and "\<And>e. e_id (f e) = e_id e" and "\<And>e. e_namespace (f e) = e_namespace e"
    and "\<And>e. e_name (f e) = e_name e"
  shows "store_ok (d\<lparr>entities := sql_update p f (entities d)\<rparr>)"
  using assms store_ok_entity_names [OF assms(1)]
  by (intro store_ok_entities) (simp_all add: map_sql_update_same)

lemma store_ok_insert_entity:
  assumes ok: "store_ok d" and new: "\<not> (\<exists>e \<in> set (entities d). entity_named ns name e)"
    and e: "e_id e = seq_entities d + 1" "e_namespace e = ns" "e_name e = name"
  shows "store_ok (d\<lparr>entities := entities d @ [e], seq_entities := seq_entities d + 1\<rparr>)"
proof -
  have "entity_ids d \<subseteq> entity_ids (d\<lparr>entities := entities d @ [e], seq_entities := seq_entities d + 1\<rparr>)"
    by (auto simp: entity_ids_def)
  moreover have "distinct (map (\<lambda>e. (e_namespace e, e_name e)) (entities d @ [e]))"
    using store_ok_entity_names [OF ok] new e by (auto simp: entity_named_def)
  moreover have "keyed_by e_id (seq_entities d + 1) (entities d @ [e])"
    using ok e by (intro keyed_by_snoc) (simp_all add: store_defs)
  ultimately show ?thesis
    using ok by (auto simp: store_defs memory_ids_def chunk_ids_def relationship_ids_def)
qed

lemma insert_relationshipE:
  assumes "insert_relationship now ns s t relation w description d = Inr d'"
  obtains r where "weight_ok w" "s \<in> entity_ids d" "t \<in> entity_ids d"
    "r_id r = seq_relationships d + 1" "edge_key r = (s, t, relation)" "r_weight r = w" "r_namespace r = ns"
    "(s, t, relation) \<notin> edges d"
    "d' = d\<lparr>relationships := relationships d @ [r], seq_relationships := seq_relationships d + 1\<rparr>"
proof -
  have "(s, t, relation) \<notin> edges d"
    using assms by (auto simp: insert_relationship_def edges_def edge_key_def edge_is_def split: if_splits)
  with assms show thesis
    by (intro that) (auto simp: insert_relationship_def edge_key_def split: if_splits)
qed

lemma store_ok_insert_edge:
  assumes ok: "store_ok d" and ends: "s \<in> entity_ids d" "t \<in> entity_ids d"
    and new: "(s, t, relation) \<notin> edges d"
    and r: "r_id r = seq_relationships d + 1" "edge_key r = (s, t, relation)"
  shows "store_ok (d\<lparr>relationships := relationships d @ [r], seq_relationships := seq_relationships d + 1\<rparr>)"
proof -
  let ?d = "d\<lparr>relationships := relationships d @ [r], seq_relationships := seq_relationships d + 1\<rparr>"
  have "relationship_ids d \<subseteq> relationship_ids ?d" by (auto simp: relationship_ids_def)
  moreover have "distinct (map edge_key (relationships d @ [r]))"
    using store_ok_edges_distinct [OF ok] new r by (simp add: edges_def)
  then have "distinct (map (\<lambda>r. (r_source_id r, r_target_id r, r_relation r)) (relationships d @ [r]))"
    unfolding edge_key_fun .
  moreover have "keyed_by r_id (seq_relationships d + 1) (relationships d @ [r])"
    using ok r by (intro keyed_by_snoc) (simp_all add: store_defs)
  ultimately show ?thesis
    using ok ends r by (auto simp: store_defs memory_ids_def chunk_ids_def entity_ids_def edge_key_def)
qed

section \<open>Degrees\<close>

lemma recalculate_degree_sel [simp]:
  "relationships (recalculate_degree i d) = relationships d"
  "memories (recalculate_degree i d) = memories d"
  "fts_memories (recalculate_degree i d) = fts_memories d"
  "memory_entities (recalculate_degree i d) = memory_entities d"
  "memory_relationships (recalculate_degree i d) = memory_relationships d"
  by (simp_all add: recalculate_degree_def)

lemma recalculate_degrees_eq:
  "recalculate_degrees is d =
     d\<lparr>entities := sql_update (\<lambda>e. e_id e \<in> set is)
        (\<lambda>e. e\<lparr>e_degree := degree_in (relationships d) (e_id e)\<rparr>) (entities d)\<rparr>"
proof (induction "is" arbitrary: d)
  case Nil
  then show ?case by (simp add: recalculate_degrees_def sql_update_def)
next
  case (Cons i "is")
  have "recalculate_degrees (i # is) d = recalculate_degrees is (recalculate_degree i d)"
    by (simp add: recalculate_degrees_def)
  then show ?case unfolding Cons by (simp add: recalculate_degree_def sql_update_def)
qed

lemma recalculate_degree_as_list: "recalculate_degree i d = recalculate_degrees [i] d"
  by (simp add: recalculate_degrees_def)

lemma recalculate_two: "recalculate_degree j (recalculate_degree i d) = recalculate_degrees [i, j] d"
  by (simp add: recalculate_degrees_def)

lemma recalculate_append:
  "recalculate_degrees js (recalculate_degrees is d) = recalculate_degrees (is @ js) d"
  by (simp add: recalculate_degrees_def)

lemma recalculate_degrees_sel [simp]:
  "relationships (recalculate_degrees is d) = relationships d"
  "memories (recalculate_degrees is d) = memories d"
  "fts_memories (recalculate_degrees is d) = fts_memories d"
  "memory_entities (recalculate_degrees is d) = memory_entities d"
  "memory_relationships (recalculate_degrees is d) = memory_relationships d"
  "edges (recalculate_degrees is d) = edges d"
  by (simp_all add: recalculate_degrees_eq edges_def)

lemma store_ok_recalculate: "store_ok d \<Longrightarrow> store_ok (recalculate_degrees is d)"
  unfolding recalculate_degrees_eq by (rule store_ok_sql_update_entities) simp_all

lemma store_inv_recalculate: "store_inv d \<Longrightarrow> store_inv (recalculate_degrees is d)"
  by (rule store_inv_same [of d]) (simp_all add: store_ok_recalculate store_invD)

lemma entity_typed_ok_degree [simp]: "entity_typed_ok (e\<lparr>e_degree := x\<rparr>) = entity_typed_ok e"
  by (simp add: entity_typed_ok_def)

lemma graph_typed_recalculate: "graph_typed d \<Longrightarrow> graph_typed (recalculate_degrees is d)"
  by (auto simp: graph_typed_def recalculate_degrees_eq set_sql_update)

text \<open>Recalculating enough entities repairs all degrees.\<close>

lemma degrees_ok_recalculate:
  assumes "\<And>e. e \<in> set (entities d) \<Longrightarrow> e_id e \<notin> set is \<Longrightarrow> degree_right (relationships d) e"
  shows "degrees_ok (recalculate_degrees is d)"
  using assms by (auto simp: degrees_ok_def recalculate_degrees_eq set_sql_update degree_right_def)

lemma graph_inv_recalculate:
  assumes "store_inv d" and "graph_typed d"
    and "\<And>e. e \<in> set (entities d) \<Longrightarrow> e_id e \<notin> set is \<Longrightarrow> degree_right (relationships d) e"
  shows "graph_inv (recalculate_degrees is d)"
  unfolding graph_inv_def
  using store_inv_recalculate [OF assms(1)] graph_typed_recalculate [OF assms(2)]
    degrees_ok_recalculate [OF assms(3)] by blast

lemma graph_upto_recalculate: "graph_upto S d \<Longrightarrow> S \<subseteq> set is \<Longrightarrow> graph_inv (recalculate_degrees is d)"
  by (rule graph_inv_recalculate) (auto simp: graph_upto_def)

lemma degree_in_snoc: "\<not> touches i r \<Longrightarrow> degree_in (rows @ [r]) i = degree_in rows i"
  by (simp add: degree_in_def sql_count_def)

lemma degree_in_delete:
  "(\<And>r. r \<in> set rows \<Longrightarrow> p r \<Longrightarrow> \<not> touches i r) \<Longrightarrow> degree_in (sql_delete p rows) i = degree_in rows i"
  by (induction rows) (auto simp: degree_in_def)

lemma degree_in_none: "(\<And>r. r \<in> set rows \<Longrightarrow> \<not> touches i r) \<Longrightarrow> degree_in rows i = 0"
  by (simp add: degree_in_def sql_count_eq_0)

end
