(* ===== verification/Graph_Commands.thy ===== *)
theory Graph_Commands
  imports Entities Lifecycle Memory_Parts
begin

text \<open>
  The commands that change the entity graph: \<^verbatim>\<open>link\<close>, \<^verbatim>\<open>unlink\<close>, \<^verbatim>\<open>merge-entities\<close>,
  \<^verbatim>\<open>delete-entity\<close>, \<^verbatim>\<open>rename-entity\<close>, \<^verbatim>\<open>reclassify\<close>, \<^verbatim>\<open>reclassify-relation\<close>,
  \<^verbatim>\<open>prune-relations\<close> and \<^verbatim>\<open>cleanup-orphans\<close> (\<^verbatim>\<open>src/commands/\<close>). Each takes the Unicode data, the
  clock, the resolved namespace, its parsed arguments and the store. A relation argument has
  passed the argument parser \<open>parse_relation\<close>.
\<close>

section \<open>Link\<close>

record link_args =
  la_from :: "string option"
  la_from_id :: "int option"
  la_to :: "string option"
  la_to_id :: "int option"
  la_relation :: string
  la_weight :: "real option"
  la_create_missing :: bool
  la_entity_type :: string
  la_strict_relations :: bool

record link_response =
  lr_action :: string
  lr_from :: string
  lr_to :: string
  lr_relation :: string
  lr_weight :: real
  lr_created_entities :: "string list"
  lr_warnings :: "string list"

definition resolve_entity_name_by_id :: "db \<Rightarrow> string \<Rightarrow> int \<Rightarrow> app_error + (string \<times> string)" where
  "resolve_entity_name_by_id d ns i =
     (case List.find (\<lambda>e. e_id e = i \<and> e_namespace e = ns) (entities d) of
        Some e \<Rightarrow> Inr (e_name e, e_namespace e)
      | None \<Rightarrow> Inl (NotFound ''entity_id_not_found_in_namespace''))"

definition resolve_endpoint ::
  "unicode \<Rightarrow> string \<Rightarrow> string \<Rightarrow> int option \<Rightarrow> string option \<Rightarrow> db \<Rightarrow> app_error + (string \<times> int option)" where
  "resolve_endpoint u flag ns by_id name d =
     (case by_id of
        Some i \<Rightarrow> bind_rust (resolve_entity_name_by_id d ns i) (\<lambda>(n, _). Inr (n, Some i))
      | None \<Rightarrow>
          (case name of
             Some n \<Rightarrow>
               (case validate_entity_name n of
                  Inl _ \<Rightarrow> Inl (Validation ''invalid entity name'')
                | Inr _ \<Rightarrow> Inr (normalize_entity_name u n, None))
           | None \<Rightarrow> Inl (Validation flag)))"

text \<open>The endpoint inside the transaction: its id, the names created so far, and the store.\<close>

definition link_endpoint ::
  "unicode \<Rightarrow> int \<Rightarrow> string \<Rightarrow> bool \<Rightarrow> string \<Rightarrow> string \<times> int option \<Rightarrow> string list \<times> db
     \<Rightarrow> app_error + (int \<times> string list \<times> db)" where
  "link_endpoint u now ns create entity_type endpoint acc =
     (case (endpoint, acc) of ((name, pre), (created, d)) \<Rightarrow>
      (case pre of
         Some i \<Rightarrow> Inr (i, created, d)
       | None \<Rightarrow>
           (case find_entity_id u d ns name of
              Some i \<Rightarrow> Inr (i, created, d)
            | None \<Rightarrow>
                if create then
                  bind_rust (upsert_entity u now ns
                      \<lparr>ne_name = name, ne_type = entity_type, ne_description = None\<rparr> d)
                    (\<lambda>(i, d'). Inr (i, created @ [name], d'))
                else Inl (NotFound ''entity_not_found''))))"

definition link_tx ::
  "unicode \<Rightarrow> int \<Rightarrow> string \<Rightarrow> link_args \<Rightarrow> string \<times> int option \<Rightarrow> string \<times> int option \<Rightarrow> real \<Rightarrow> string
     \<Rightarrow> string list \<Rightarrow> db \<Rightarrow> app_error + (link_response \<times> db)" where
  "link_tx u now ns args from to w entity_type warnings d =
     bind_rust (link_endpoint u now ns (la_create_missing args) entity_type from ([], d)) (\<lambda>(s, created1, d1).
     bind_rust (link_endpoint u now ns (la_create_missing args) entity_type to (created1, d1)) (\<lambda>(t, created, d2).
     bind_rust (create_or_fetch_relationship u now ns s t (la_relation args) w None d2) (\<lambda>(rel, was_created, d3).
     (case List.find (\<lambda>r. r_id r = rel) (relationships d3) of
        None \<Rightarrow> Inl (Database QueryReturnedNoRows)
      | Some row \<Rightarrow>
          Inr (\<lparr>lr_action = (if was_created then ''created'' else ''already_exists''),
                lr_from = fst from, lr_to = fst to, lr_relation = la_relation args,
                lr_weight = r_weight row, lr_created_entities = created, lr_warnings = warnings\<rparr>,
            if was_created then recalculate_degree t (recalculate_degree s d3) else d3)))))"

definition link :: "unicode \<Rightarrow> int \<Rightarrow> string \<Rightarrow> link_args \<Rightarrow> db \<Rightarrow> app_error + (link_response \<times> db)" where
  "link u now ns args d =
     bind_rust (resolve_endpoint u ''--from or --from-id is required'' ns (la_from_id args) (la_from args) d) (\<lambda>from.
     bind_rust (resolve_endpoint u ''--to or --to-id is required'' ns (la_to_id args) (la_to args) d) (\<lambda>to.
     if fst from = fst to then Inl (Validation ''self_referential_link'')
     else if (case (snd from, snd to) of (Some a, Some b) \<Rightarrow> a = b | _ \<Rightarrow> False) then
       Inl (Validation ''self_referential_link'')
     else
       (let w = unwrap_or (la_weight args) DEFAULT_RELATION_WEIGHT in
        if \<not> weight_ok w then Inl (Validation ''invalid_link_weight'')
        else if \<not> is_canonical_relation (la_relation args) \<and> la_strict_relations args then
          Inl (Validation ''non_canonical_relation'')
        else
          bind_rust (normalize_entity_type u (la_entity_type args)) (\<lambda>entity_type.
            link_tx u now ns args from to w entity_type
              ((if is_canonical_relation (la_relation args) then [] else [''non-canonical relation''])
               @ (if is_canonical_entity_type entity_type then [] else [''non-canonical entity type''])) d))))"

section \<open>Unlink\<close>

record unlink_args =
  ua_from :: "string option"
  ua_to :: "string option"
  ua_relation :: "string option"
  ua_entity :: "string option"
  ua_all :: bool
  ua_memory :: "string option"

record unlink_response =
  ur_action :: string
  ur_from :: string
  ur_to :: string
  ur_relation :: string
  ur_removed :: nat

fun delete_edge_ids :: "int list \<Rightarrow> db \<Rightarrow> db" where
  "delete_edge_ids [] d = d"
| "delete_edge_ids (i # is) d = delete_edge_ids is (delete_relationship_by_id i d)"

definition delete_all_entity_relationships :: "int \<Rightarrow> db \<Rightarrow> nat \<times> db" where
  "delete_all_entity_relationships i d =
     (let ids = map r_id (filter (touches i) (relationships d)) in (length ids, delete_edge_ids ids d))"

definition delete_relationships_between :: "int \<Rightarrow> int \<Rightarrow> db \<Rightarrow> nat \<times> db" where
  "delete_relationships_between s t d =
     (let ids = map r_id (filter (\<lambda>r. r_source_id r = s \<and> r_target_id r = t) (relationships d))
      in (length ids, delete_edge_ids ids d))"

definition ok_or :: "app_error \<Rightarrow> 'a option \<Rightarrow> app_error + 'a" where
  "ok_or e a = (case a of Some x \<Rightarrow> Inr x | None \<Rightarrow> Inl e)"

definition unlink_binding :: "unicode \<Rightarrow> string \<Rightarrow> string \<Rightarrow> string option \<Rightarrow> db \<Rightarrow> app_error + (unlink_response \<times> db)" where
  "unlink_binding u ns memory_name entity d =
     bind_rust (ok_or (Validation ''entity_required_when_memory'') entity) (\<lambda>entity_name.
     bind_rust (ok_or (MemoryNotFound memory_name ns) (find_by_name d ns memory_name)) (\<lambda>(memory_id, _, _).
     bind_rust (ok_or (NotFound ''entity_not_found'') (find_entity_id u d ns entity_name)) (\<lambda>entity_id.
       (case unlink_memory_entity memory_id entity_id d of (removed, d1) \<Rightarrow>
          Inr (\<lparr>ur_action = (if 0 < removed then ''deleted'' else ''noop''), ur_from = memory_name,
                ur_to = entity_name, ur_relation = ''memory-entity'', ur_removed = removed\<rparr>,
            recalculate_degree entity_id d1)))))"

definition unlink_all :: "unicode \<Rightarrow> string \<Rightarrow> string \<Rightarrow> db \<Rightarrow> app_error + (unlink_response \<times> db)" where
  "unlink_all u ns entity_name d =
     bind_rust (ok_or (NotFound ''entity_not_found'') (find_entity_id u d ns entity_name)) (\<lambda>entity_id.
       (case delete_all_entity_relationships entity_id d of (removed, d1) \<Rightarrow>
          Inr (\<lparr>ur_action = ''deleted'', ur_from = entity_name, ur_to = ''*'', ur_relation = ''*'',
                ur_removed = removed\<rparr>, recalculate_degree entity_id d1)))"

definition unlink_pair ::
  "unicode \<Rightarrow> string \<Rightarrow> string \<Rightarrow> string \<Rightarrow> string option \<Rightarrow> db \<Rightarrow> app_error + (unlink_response \<times> db)" where
  "unlink_pair u ns from_name to_name relation d =
     bind_rust (ok_or (NotFound ''entity_not_found'') (find_entity_id u d ns from_name)) (\<lambda>s.
     bind_rust (ok_or (NotFound ''entity_not_found'') (find_entity_id u d ns to_name)) (\<lambda>t.
     bind_rust
       (case relation of
          Some rel \<Rightarrow>
            bind_rust (ok_or (NotFound ''relationship_not_found'') (find_relationship d s t rel)) (\<lambda>row.
              Inr (1, rel, delete_relationship_by_id (r_id row) d))
        | None \<Rightarrow>
            (case delete_relationships_between s t d of (count, d1) \<Rightarrow> Inr (count, ''*'', d1)))
       (\<lambda>(removed, display, d1).
          Inr (\<lparr>ur_action = ''deleted'', ur_from = from_name, ur_to = to_name, ur_relation = display,
                ur_removed = removed\<rparr>,
            recalculate_degree t (recalculate_degree s d1)))))"

definition unlink :: "unicode \<Rightarrow> string \<Rightarrow> unlink_args \<Rightarrow> db \<Rightarrow> app_error + (unlink_response \<times> db)" where
  "unlink u ns args d =
     (case ua_memory args of
        Some memory_name \<Rightarrow> unlink_binding u ns memory_name (ua_entity args) d
      | None \<Rightarrow>
          if ua_entity args \<noteq> None \<and> \<not> ua_all args then
            Inl (Validation ''--entity must be combined with --all or --memory'')
          else if ua_all args then unlink_all u ns (unwrap_or (ua_entity args) []) d
          else
            bind_rust (ok_or (Validation ''from_required_without_entity_all'') (ua_from args)) (\<lambda>from_name.
            bind_rust (ok_or (Validation ''to_required_without_entity_all'') (ua_to args)) (\<lambda>to_name.
              unlink_pair u ns from_name to_name (ua_relation args) d)))"

section \<open>Merge\<close>

record merge_args =
  ga_names :: "string list"
  ga_ids :: "int list"
  ga_into :: "string option"
  ga_into_id :: "int option"
  ga_cross_namespace :: bool

record merge_response =
  gr_sources :: "string list"
  gr_target :: string
  gr_target_id :: int
  gr_moved :: nat
  gr_removed :: nat

definition find_entity_name_by_id :: "db \<Rightarrow> string \<Rightarrow> int \<Rightarrow> bool \<Rightarrow> app_error + (string \<times> string)" where
  "find_entity_name_by_id d ns i enforce =
     (case List.find (\<lambda>e. e_id e = i \<and> (enforce \<longrightarrow> e_namespace e = ns)) (entities d) of
        Some e \<Rightarrow> Inr (e_name e, e_namespace e)
      | None \<Rightarrow> Inl (NotFound ''entity_id_not_found_in_namespace''))"

definition merge_guard :: "merge_args \<Rightarrow> app_error + unit" where
  "merge_guard args =
     (if ga_names args = [] \<and> ga_ids args = [] then
        Inl (Validation ''--names or --ids must contain at least one source entity'')
      else if (case ga_into_id args of Some t \<Rightarrow> t \<in> set (ga_ids args) | None \<Rightarrow> False) then
        Inl (Validation ''self_merge_id_in_ids'')
      else if (case ga_into args of Some n \<Rightarrow> n \<in> set (ga_names args) | None \<Rightarrow> False) then
        Inl (Validation ''self_merge_name_in_names'')
      else Inr ())"

definition merge_target :: "unicode \<Rightarrow> string \<Rightarrow> merge_args \<Rightarrow> db \<Rightarrow> app_error + (int \<times> string)" where
  "merge_target u ns args d =
     (case ga_into_id args of
        Some i \<Rightarrow> bind_rust (find_entity_name_by_id d ns i True) (\<lambda>(name, _). Inr (i, name))
      | None \<Rightarrow>
          bind_rust (ok_or (Validation ''--into or --into-id is required'') (ga_into args)) (\<lambda>name.
          bind_rust (ok_or (NotFound ''entity_not_found'') (find_entity_id u d ns name)) (\<lambda>i. Inr (i, name))))"

definition push_source :: "int \<Rightarrow> string \<Rightarrow> (int \<times> string) list \<Rightarrow> (int \<times> string) list" where
  "push_source i name acc = (if i \<in> fst ` set acc then acc else acc @ [(i, name)])"

fun merge_sources_by_id ::
  "db \<Rightarrow> string \<Rightarrow> bool \<Rightarrow> int \<Rightarrow> int list \<Rightarrow> (int \<times> string) list \<Rightarrow> app_error + (int \<times> string) list" where
  "merge_sources_by_id d ns cross target [] acc = Inr acc"
| "merge_sources_by_id d ns cross target (i # is) acc =
     (if i = target then Inl (Validation ''self_merge_id'')
      else
        bind_rust (find_entity_name_by_id d ns i (\<not> cross)) (\<lambda>(name, _).
          merge_sources_by_id d ns cross target is (push_source i name acc)))"

fun merge_sources_by_name ::
  "unicode \<Rightarrow> db \<Rightarrow> string \<Rightarrow> int \<times> string \<Rightarrow> string list \<Rightarrow> (int \<times> string) list \<Rightarrow> app_error + (int \<times> string) list" where
  "merge_sources_by_name u d ns target [] acc = Inr acc"
| "merge_sources_by_name u d ns target (name # names) acc =
     (if name = snd target then Inl (Validation ''self_merge_name'')
      else
        bind_rust (ok_or (NotFound ''entity_not_found'') (find_entity_id u d ns name)) (\<lambda>i.
          if i = fst target then Inl (Validation ''self_merge_name_resolves_to_target'')
          else merge_sources_by_name u d ns target names (push_source i name acc)))"

fun merge_edges :: "int \<Rightarrow> int \<Rightarrow> int list \<Rightarrow> db \<Rightarrow> nat \<times> db" where
  "merge_edges now target [] d = (0, d)"
| "merge_edges now target (src # rest) d =
     (case update_or_ignore_relationships now (\<lambda>r. r_source_id r = src) (\<lambda>r. r\<lparr>r_source_id := target\<rparr>) d of
        (moved_src, d1) \<Rightarrow>
      (case update_or_ignore_relationships now (\<lambda>r. r_target_id r = src) (\<lambda>r. r\<lparr>r_target_id := target\<rparr>)
              (delete_relationship_rows (\<lambda>r. r_source_id r = src) d1) of
        (moved_tgt, d2) \<Rightarrow>
      (case merge_edges now target rest (delete_relationship_rows (\<lambda>r. r_target_id r = src) d2) of
        (moved, d3) \<Rightarrow> (moved_src + moved_tgt + moved, d3))))"

definition drop_self_loops :: "db \<Rightarrow> db" where
  "drop_self_loops = delete_relationship_rows (\<lambda>r. r_source_id r = r_target_id r)"

definition drop_duplicate_edges :: "db \<Rightarrow> db" where
  "drop_duplicate_edges d =
     delete_relationship_rows (\<lambda>r. \<exists>r' \<in> set (relationships d). edge_key r' = edge_key r \<and> r_id r' < r_id r) d"

fun merge_bindings :: "int \<Rightarrow> int list \<Rightarrow> db \<Rightarrow> db" where
  "merge_bindings target [] d = d"
| "merge_bindings target (src # rest) d =
     merge_bindings target rest
       (d\<lparr>memory_entities := sql_delete (\<lambda>x. snd x = src)
           (snd (update_or_ignore (\<lambda>x. x) (\<lambda>x. snd x = src) (\<lambda>x. (fst x, target)) [] (memory_entities d)))\<rparr>)"

definition drop_duplicate_bindings :: "db \<Rightarrow> db" where
  "drop_duplicate_bindings d = d\<lparr>memory_entities := rev (remdups (rev (memory_entities d)))\<rparr>"

fun delete_source_entities :: "int list \<Rightarrow> db \<Rightarrow> nat \<times> db" where
  "delete_source_entities [] d = (0, d)"
| "delete_source_entities (src # rest) d =
     (case delete_source_entities rest (delete_entity_rows (\<lambda>e. e_id e = src) d) of
        (n, d') \<Rightarrow> (sql_changed (\<lambda>e. e_id e = src) (entities d) + n, d'))"

definition adjacent_ids :: "int \<Rightarrow> db \<Rightarrow> int list" where
  "adjacent_ids i d =
     remdups (map (\<lambda>r. if r_source_id r = i then r_target_id r else r_source_id r)
       (filter (touches i) (relationships d)))"

definition merge_tx :: "int \<Rightarrow> int \<Rightarrow> int list \<Rightarrow> db \<Rightarrow> nat \<times> nat \<times> db" where
  "merge_tx now target sources d =
     (case merge_edges now target sources d of (moved, d1) \<Rightarrow>
      (case delete_source_entities sources
              (drop_duplicate_bindings (merge_bindings target sources
                (drop_duplicate_edges (drop_self_loops d1)))) of
        (removed, d2) \<Rightarrow>
          (moved, removed, recalculate_degrees (adjacent_ids target d2) (recalculate_degree target d2))))"

definition merge_entities ::
  "unicode \<Rightarrow> int \<Rightarrow> string \<Rightarrow> merge_args \<Rightarrow> db \<Rightarrow> app_error + (merge_response \<times> db)" where
  "merge_entities u now ns args d =
     bind_rust (merge_guard args) (\<lambda>_.
     bind_rust (merge_target u ns args d) (\<lambda>(target, target_name).
     bind_rust
       (if ga_ids args \<noteq> [] then merge_sources_by_id d ns (ga_cross_namespace args) target (ga_ids args) []
        else merge_sources_by_name u d ns (target, target_name) (ga_names args) [])
       (\<lambda>sources.
          if sources = [] then Inl (Validation ''no valid source entities to merge'')
          else
            (case merge_tx now target (map fst sources) d of (moved, removed, d') \<Rightarrow>
               Inr (\<lparr>gr_sources = map snd sources, gr_target = target_name, gr_target_id = target,
                     gr_moved = moved, gr_removed = removed\<rparr>, d')))))"

end
