(* ===== verification/Link_Correct.thy ===== *)
theory Link_Correct
  imports Entities_Correct Graph_Commands Lifecycle_Correct
begin

text \<open>
  Creating entities and edges: an upsert finds or creates exactly one entity under the normal form
  of its name, \<^verbatim>\<open>link\<close> keeps the graph invariant and adds at most the edge it names.
\<close>

section \<open>Upserts\<close>

lemma char_count_le: "char_count s \<le> length s"
  by (simp add: char_count_def)

lemma entity_id_named_Some:
  "entity_id_named d ns name = Some i \<longleftrightarrow> (\<exists>e. List.find (entity_named ns name) (entities d) = Some e \<and> e_id e = i)"
  by (auto simp: entity_id_named_def)

lemma entity_id_named_SomeD:
  "entity_id_named d ns name = Some i \<Longrightarrow> \<exists>e \<in> set (entities d). e_id e = i \<and> e_namespace e = ns \<and> e_name e = name"
  unfolding entity_id_named_Some by (metis find_in_set entity_named_def)

lemma entity_id_named_eq:
  assumes "store_ok d" and "e \<in> set (entities d)"
  shows "entity_id_named d (e_namespace e) (e_name e) = Some (e_id e)"
proof -
  have "entity_named (e_namespace e) (e_name e) = (\<lambda>x. (e_namespace x, e_name x) = (e_namespace e, e_name e))"
    by (auto simp: entity_named_def)
  then show ?thesis
    using find_key [OF store_ok_entity_names [OF assms(1)] assms(2)] by (simp add: entity_id_named_def)
qed

lemma entity_id_named_None:
  "entity_id_named d ns name = None \<longleftrightarrow> \<not> (\<exists>e \<in> set (entities d). entity_named ns name e)"
  by (auto simp: entity_id_named_def find_None_iff')

lemma upsert_entityE:
  assumes "upsert_entity_with ty u now ns e d = Inr (i, d')"
  obtains name new_type where "name = normalize_entity_name u (ne_name e)" "2 \<le> length name"
    "type_shape new_type" "normalize_entity_type u (ne_type e) = Inr new_type"
    "d' = exec_upsert_entity ty now ns name new_type (ne_description e) d" "entity_id_named d' ns name = Some i"
proof -
  let ?name = "normalize_entity_name u (ne_name e)"
  from assms obtain new_type where
    "\<not> char_count ?name < 2" and t: "normalize_entity_type u (ne_type e) = Inr new_type"
    and "d' = exec_upsert_entity ty now ns ?name new_type (ne_description e) d" "entity_id_named d' ns ?name = Some i"
    by (auto simp: upsert_entity_with_def Let_def bind_rust_Inr_iff split: if_splits option.splits)
  moreover have "2 \<le> length ?name" using calculation(1) char_count_le [of ?name] by linarith
  ultimately show thesis using that normalize_entity_type_shape [OF t] by metis
qed

lemma exec_upsert_sel [simp]:
  "relationships (exec_upsert_entity ty now ns name t desc d) = relationships d"
  "memories (exec_upsert_entity ty now ns name t desc d) = memories d"
  "fts_memories (exec_upsert_entity ty now ns name t desc d) = fts_memories d"
  "memory_entities (exec_upsert_entity ty now ns name t desc d) = memory_entities d"
  by (simp_all add: exec_upsert_entity_def)

lemma exec_upsert_old:
  assumes "e \<in> set (entities d)"
  shows "\<exists>e' \<in> set (entities (exec_upsert_entity ty now ns name t desc d)).
    e_id e' = e_id e \<and> e_namespace e' = e_namespace e \<and> e_name e' = e_name e"
proof (cases "\<exists>e \<in> set (entities d). entity_named ns name e")
  case True
  let ?f = "\<lambda>e. if entity_named ns name e then
      e\<lparr>e_type := ty e t, e_description := coalesce desc (e_description e), e_updated_at := now\<rparr> else e"
  have "entities (exec_upsert_entity ty now ns name t desc d) = map ?f (entities d)"
    using True by (simp add: exec_upsert_entity_def sql_update_def)
  then have "?f e \<in> set (entities (exec_upsert_entity ty now ns name t desc d))" using assms by simp
  then show ?thesis by (rule rev_bexI) simp
next
  case False
  then show ?thesis using assms by (auto simp: exec_upsert_entity_def)
qed

lemma fresh_entity_untouched:
  assumes "store_ok d" and "r \<in> set (relationships d)"
  shows "\<not> touches (seq_entities d + 1) r"
proof -
  have "\<forall>e \<in> set (entities d). e_id e \<le> seq_entities d" using assms(1) by (simp add: store_defs keyed_by_def)
  then have "seq_entities d + 1 \<notin> entity_ids d" by (force simp: entity_ids_def)
  then show ?thesis using store_ok_endpoints [OF assms] by (auto simp: touches_def)
qed

lemma exec_upsert_upto:
  assumes inv: "graph_upto S d" and name: "kebab name" "2 \<le> length name"
    and shape: "\<And>e. type_shape (e_type e) \<Longrightarrow> type_shape (ty e t)" "type_shape t"
  shows "graph_upto S (exec_upsert_entity ty now ns name t desc d)"
proof (cases "\<exists>e \<in> set (entities d). entity_named ns name e")
  case True
  let ?f = "\<lambda>e. e\<lparr>e_type := ty e t, e_description := coalesce desc (e_description e), e_updated_at := now\<rparr>"
  have eq: "exec_upsert_entity ty now ns name t desc d = d\<lparr>entities := sql_update (entity_named ns name) ?f (entities d)\<rparr>"
    using True by (simp add: exec_upsert_entity_def)
  have "store_ok (d\<lparr>entities := sql_update (entity_named ns name) ?f (entities d)\<rparr>)"
    by (rule store_ok_sql_update_entities) (simp_all add: graph_uptoD [OF inv])
  then have "store_inv (d\<lparr>entities := sql_update (entity_named ns name) ?f (entities d)\<rparr>)"
    by (rule store_inv_same [OF graph_uptoD(1) [OF inv]]) simp_all
  then show ?thesis
    using inv shape unfolding eq
    by (auto simp: graph_upto_def graph_typed_def set_sql_update entity_typed_ok_def degree_right_def)
next
  case False
  let ?e = "entity_of_new now (seq_entities d + 1) ns name t desc"
  have eq: "exec_upsert_entity ty now ns name t desc d =
      d\<lparr>entities := entities d @ [?e], seq_entities := seq_entities d + 1\<rparr>"
    using False by (simp add: exec_upsert_entity_def)
  have "store_ok (d\<lparr>entities := entities d @ [?e], seq_entities := seq_entities d + 1\<rparr>)"
    by (rule store_ok_insert_entity [OF graph_uptoD(2) [OF inv] False]) (simp_all add: entity_of_new_def)
  then have "store_inv (d\<lparr>entities := entities d @ [?e], seq_entities := seq_entities d + 1\<rparr>)"
    by (rule store_inv_same [OF graph_uptoD(1) [OF inv]]) simp_all
  moreover have "degree_in (relationships d) (seq_entities d + 1) = 0"
    using fresh_entity_untouched [OF graph_uptoD(2) [OF inv]] by (rule degree_in_none)
  ultimately show ?thesis
    using inv name shape(2) unfolding eq
    by (auto simp: graph_upto_def graph_typed_def entity_typed_ok_def degree_right_def entity_of_new_def)
qed

lemma upsert_entity_upto:
  assumes inv: "graph_upto S d" and run: "upsert_entity_with ty u now ns e d = Inr (i, d')"
    and shape: "\<And>x t. type_shape (e_type x) \<Longrightarrow> type_shape t \<Longrightarrow> type_shape (ty x t)"
  shows "graph_upto S d'"
  using run
proof (rule upsert_entityE)
  fix name t
  assume name: "name = normalize_entity_name u (ne_name e)" "2 \<le> length name" and t: "type_shape t"
    and d': "d' = exec_upsert_entity ty now ns name t (ne_description e) d"
  have "kebab name" unfolding name(1) by (rule normalize_entity_name_kebab)
  then show ?thesis unfolding d' by (intro exec_upsert_upto inv name(2) t shape)
qed

lemmas upsert_entity_inv = upsert_entity_upto [of "{}", folded graph_inv_upto]

lemma upsert_found:
  assumes "upsert_entity_with ty u now ns e d = Inr (i, d')"
  shows "entity_id_named d' ns (normalize_entity_name u (ne_name e)) = Some i"
  using assms by (rule upsert_entityE) simp

lemma upsert_sel:
  assumes "upsert_entity_with ty u now ns e d = Inr (i, d')"
  shows "relationships d' = relationships d" "memories d' = memories d" "memory_entities d' = memory_entities d"
  using assms by - (rule upsert_entityE, assumption, simp)+

lemma upsert_old:
  assumes "upsert_entity_with ty u now ns e d = Inr (i, d')" and "x \<in> set (entities d)"
  shows "\<exists>x' \<in> set (entities d'). e_id x' = e_id x \<and> e_namespace x' = e_namespace x \<and> e_name x' = e_name x"
  using assms(1) by (rule upsert_entityE) (use exec_upsert_old [OF assms(2)] in metis)

section \<open>Edges\<close>

lemma find_relationship_SomeD:
  "find_relationship d s t relation = Some r \<Longrightarrow> r \<in> set (relationships d) \<and> edge_key r = (s, t, relation)"
  by (auto simp: find_relationship_def edge_is_def edge_key_def dest!: find_in_set)

lemma find_relationship_None:
  "find_relationship d s t relation = None \<longleftrightarrow> (s, t, relation) \<notin> edges d"
  by (auto simp: find_relationship_def find_None_iff' edge_is_def edges_def edge_key_def)

lemma degree_in_update_same:
  assumes "\<And>r. edge_key (f r) = edge_key r"
  shows "degree_in (sql_update p f rows) i = degree_in rows i"
proof -
  have "touches i (f r) = touches i r" for r
    using assms [of r] by (simp add: touches_def edge_key_def)
  then show ?thesis by (induction rows) (auto simp: degree_in_def)
qed

text \<open>Edges rewritten in place under the same keys, with a valid weight.\<close>

lemma rewrite_edges_upto:
  assumes inv: "graph_upto S d" and key: "\<And>r. edge_key (f r) = edge_key r" and id: "\<And>r. r_id (f r) = r_id r"
    and w: "\<And>r. weight_ok (r_weight (f r))"
  shows "graph_upto S (d\<lparr>relationships := sql_update p f (relationships d)\<rparr>)"
    and "edges (d\<lparr>relationships := sql_update p f (relationships d)\<rparr>) = edges d"
proof -
  let ?d = "d\<lparr>relationships := sql_update p f (relationships d)\<rparr>"
  have keys: "map edge_key (sql_update p f (relationships d)) = map edge_key (relationships d)"
    using key by (intro map_sql_update_same) simp
  show "edges ?d = edges d" using arg_cong [OF keys, of set] unfolding edges_def set_map by simp
  have parts: "r_source_id (f r) = r_source_id r" "r_target_id (f r) = r_target_id r" "r_relation (f r) = r_relation r" for r
    using key [of r] by (simp_all add: edge_key_def)
  have "store_ok ?d"
    by (rule store_ok_relationships [OF graph_uptoD(2) [OF inv]])
       (use store_ok_endpoints [OF graph_uptoD(2) [OF inv]] id parts in
         \<open>auto simp: keys store_ok_edges_distinct [OF graph_uptoD(2) [OF inv]] map_sql_update_same set_sql_update\<close>)
  then have "store_inv ?d" by (rule store_inv_same [OF graph_uptoD(1) [OF inv]]) simp_all
  moreover have "edge_typed_ok (f r)" if "edge_typed_ok r" for r
    using that w parts by (simp add: edge_typed_ok_def)
  ultimately show "graph_upto S ?d"
    using inv by (auto simp: graph_upto_def graph_typed_def set_sql_update degree_right_def degree_in_update_same [OF key])
qed

lemma reweight_inv:
  assumes inv: "graph_inv d" and w: "weight_ok w"
  shows "graph_inv (update_relationships now p (\<lambda>r. r\<lparr>r_weight := w\<rparr>) d)"
    and "edges (update_relationships now p (\<lambda>r. r\<lparr>r_weight := w\<rparr>) d) = edges d"
  unfolding update_relationships_def
  using rewrite_edges_upto [of "{}" d "\<lambda>r. r\<lparr>r_weight := w, r_updated_at := now\<rparr>" p] inv w
  by (simp_all add: graph_inv_upto edge_key_def)

lemma insert_edge_upto:
  assumes inv: "graph_upto S d" and run: "insert_relationship now ns s t relation w desc d = Inr d'"
    and "s \<noteq> t" "is_canonical_relation relation"
  shows "graph_upto (S \<union> {s, t}) d'" and "edges d' = insert (s, t, relation) (edges d)"
proof -
  from run obtain r where w: "weight_ok w" and ends: "s \<in> entity_ids d" "t \<in> entity_ids d"
    and r: "r_id r = seq_relationships d + 1" "edge_key r = (s, t, relation)" "r_weight r = w"
    and new: "(s, t, relation) \<notin> edges d"
    and d': "d' = d\<lparr>relationships := relationships d @ [r], seq_relationships := seq_relationships d + 1\<rparr>"
    by (rule insert_relationshipE)
  show "edges d' = insert (s, t, relation) (edges d)" using r by (simp add: d' edges_def)
  have "store_ok d'" unfolding d' by (rule store_ok_insert_edge [OF graph_uptoD(2) [OF inv] ends new r(1,2)])
  then have "store_inv d'" by (rule store_inv_same [OF graph_uptoD(1) [OF inv]]) (simp_all add: d')
  moreover have "edge_typed_ok r" using r(2,3) w assms(3,4) by (auto simp: edge_typed_ok_def edge_key_def)
  then have "graph_typed d'" using graph_uptoD(3) [OF inv] by (simp add: graph_typed_def d')
  moreover have "\<not> touches i r" if "i \<notin> {s, t}" for i using r(2) that by (auto simp: touches_def edge_key_def)
  ultimately show "graph_upto (S \<union> {s, t}) d'"
    using inv by (simp add: graph_upto_def d' degree_right_def degree_in_snoc)
qed

lemma insert_edge_inv:
  assumes "graph_inv d" and "insert_relationship now ns s t relation w desc d = Inr d'"
    and "s \<noteq> t" "is_canonical_relation relation"
  shows "graph_inv (recalculate_degrees [s, t] d')" and "edges d' = insert (s, t, relation) (edges d)"
  using insert_edge_upto [OF _ assms(2-4), of "{}"] assms(1)
  by (auto simp: graph_inv_upto intro: graph_upto_recalculate [unfolded graph_inv_upto])

lemma find_edge_id:
  assumes "store_ok d" and "r \<in> set (relationships d)"
  shows "List.find (\<lambda>x. r_id x = r_id r) (relationships d) = Some r"
  using find_key [OF store_ok_edge_ids [OF assms(1)] assms(2)] .

text \<open>What \<^verbatim>\<open>create_or_fetch_relationship\<close> does: the edge exists afterwards, with a weight that equals
  the requested one up to the comparison threshold.\<close>

lemma create_or_fetchE:
  assumes inv: "graph_inv d" and st: "s \<noteq> t"
    and run: "create_or_fetch_relationship u now ns s t relation w desc d = Inr (rel, was_created, d')"
  obtains row where "row \<in> set (relationships d')" "r_id row = rel" "edge_key row = (s, t, map_to_canonical_relation u relation)"
    "\<bar>r_weight row - w\<bar> \<le> 1 / 2 ^ 52"
    "was_created \<longleftrightarrow> (s, t, map_to_canonical_relation u relation) \<notin> edges d"
    "edges d' = insert (s, t, map_to_canonical_relation u relation) (edges d)"
    "entities d' = entities d" "memories d' = memories d"
    "store_ok d'" "graph_inv (if was_created then recalculate_degrees [s, t] d' else d')"
proof (cases "find_relationship d s t (map_to_canonical_relation u relation)")
  case None
  let ?rel = "map_to_canonical_relation u relation"
  from run None obtain r where ins: "insert_relationship now ns s t ?rel w desc d = Inr d'"
    and find: "find_relationship d' s t ?rel = Some r" and "r_id r = rel" "was_created"
    by (auto simp: create_or_fetch_relationship_def Let_def bind_rust_Inr_iff split: option.splits)
  from ins obtain r' where r': "edge_key r' = (s, t, ?rel)" "r_weight r' = w" and new: "(s, t, ?rel) \<notin> edges d"
    and d': "d' = d\<lparr>relationships := relationships d @ [r'], seq_relationships := seq_relationships d + 1\<rparr>"
    by (rule insert_relationshipE)
  have r: "r \<in> set (relationships d')" "edge_key r = (s, t, ?rel)" using find_relationship_SomeD [OF find] by auto
  then have "r = r'" using new by (auto simp: d' edges_def image_iff)
  note facts = insert_edge_inv [OF inv ins st map_to_canonical_relation_closed]
  have "store_ok d'" using ins
    by (rule insert_relationshipE) (use store_ok_insert_edge [OF graph_invD(2) [OF inv]] in metis)
  with r \<open>r = r'\<close> r'(2) \<open>r_id r = rel\<close> \<open>was_created\<close> new facts show thesis
    by (intro that [of r]) (auto simp: d')
next
  case (Some row)
  let ?rel = "map_to_canonical_relation u relation"
  note row = find_relationship_SomeD [OF Some]
  then have old: "(s, t, ?rel) \<in> edges d" unfolding edges_def by (metis imageI)
  show thesis
  proof (cases "1 / 2 ^ 52 < \<bar>r_weight row - w\<bar>")
    case False
    then have "d' = d" "rel = r_id row" "\<not> was_created" using run Some
      by (auto simp: create_or_fetch_relationship_def)
    then show thesis using that [of row] row False old inv graph_invD(2) [OF inv] by (simp add: insert_absorb)
  next
    case True
    let ?p = "\<lambda>r. r_id r = r_id row"
    have d': "d' = update_relationships now ?p (\<lambda>r. r\<lparr>r_weight := w\<rparr>) d" "rel = r_id row" "\<not> was_created"
      and w: "weight_ok w" using run Some True
      by (auto simp: create_or_fetch_relationship_def split: if_splits)
    let ?row = "row\<lparr>r_weight := w, r_updated_at := now\<rparr>"
    have "?row \<in> set (relationships d')" using row
      by (auto simp: d' update_relationships_def set_sql_update)
    then show thesis
      using that [of ?row] row d'(2,3) old reweight_inv [OF inv w, of now ?p] graph_invD(2)
      by (simp add: d'(1) edge_key_def update_relationships_def insert_absorb)
  qed
qed

section \<open>Link\<close>

definition endpoint_ok :: "string \<Rightarrow> db \<Rightarrow> string \<times> int option \<Rightarrow> bool" where
  "endpoint_ok ns d endpoint \<longleftrightarrow>
     (case snd endpoint of
        None \<Rightarrow> kebab (fst endpoint)
      | Some i \<Rightarrow> \<exists>e \<in> set (entities d). e_id e = i \<and> e_namespace e = ns \<and> e_name e = fst endpoint)"

lemma resolve_endpoint_ok:
  "resolve_endpoint u flag ns by_id name d = Inr endpoint \<Longrightarrow> endpoint_ok ns d endpoint"
  by (auto simp: resolve_endpoint_def resolve_entity_name_by_id_def endpoint_ok_def bind_rust_Inr_iff
      normalize_entity_name_kebab dest!: find_in_set split: option.splits sum.splits)

definition entities_kept :: "db \<Rightarrow> db \<Rightarrow> bool" where
  "entities_kept d d' \<longleftrightarrow> (\<forall>e \<in> set (entities d).
     \<exists>e' \<in> set (entities d'). e_id e' = e_id e \<and> e_namespace e' = e_namespace e \<and> e_name e' = e_name e)"

definition holds_entity :: "db \<Rightarrow> string \<Rightarrow> string \<Rightarrow> int \<Rightarrow> bool" where
  "holds_entity d ns name i \<longleftrightarrow> (\<exists>e \<in> set (entities d). e_id e = i \<and> e_namespace e = ns \<and> e_name e = name)"

lemma holds_entity_kept: "holds_entity d ns name i \<Longrightarrow> entities_kept d d' \<Longrightarrow> holds_entity d' ns name i"
  by (fastforce simp: holds_entity_def entities_kept_def)

lemma entities_kept_refl [simp]: "entities_kept d d"
  by (auto simp: entities_kept_def)

lemma entities_kept_recalculate: "entities_kept d (recalculate_degrees is d)"
  unfolding entities_kept_def
proof
  fix e assume e: "e \<in> set (entities d)"
  let ?f = "\<lambda>e. if e_id e \<in> set is then e\<lparr>e_degree := degree_in (relationships d) (e_id e)\<rparr> else e"
  have "entities (recalculate_degrees is d) = map ?f (entities d)"
    by (simp add: recalculate_degrees_eq sql_update_def)
  with e have "?f e \<in> set (entities (recalculate_degrees is d))" by simp
  then show "\<exists>e' \<in> set (entities (recalculate_degrees is d)).
      e_id e' = e_id e \<and> e_namespace e' = e_namespace e \<and> e_name e' = e_name e"
    by (rule rev_bexI) simp
qed

lemma endpoint_ok_kept: "endpoint_ok ns d ep \<Longrightarrow> entities_kept d d' \<Longrightarrow> endpoint_ok ns d' ep"
  using holds_entity_kept [of d ns "fst ep" _ d']
  by (auto simp: endpoint_ok_def holds_entity_def split: option.splits)

lemma link_endpoint_step:
  assumes u: "unicode_ok u" and inv: "graph_inv d" and ep: "endpoint_ok ns d ep"
    and run: "link_endpoint u now ns create ty ep (created, d) = Inr (i, created', d')"
  shows "graph_inv d' \<and> relationships d' = relationships d \<and> memories d' = memories d
    \<and> holds_entity d' ns (fst ep) i \<and> entities_kept d d'"
proof -
  obtain name pre where ep_eq: "ep = (name, pre)" by (cases ep)
  show ?thesis
  proof (cases pre)
    case (Some j)
    then show ?thesis using run ep inv by (simp add: link_endpoint_def ep_eq endpoint_ok_def holds_entity_def)
  next
    case None
    then have norm: "normalize_entity_name u name = name"
      using ep kebab_fixed [OF u] by (simp add: ep_eq endpoint_ok_def)
    show ?thesis
    proof (cases "find_entity_id u d ns name")
      case (Some j)
      then have "i = j" "d' = d" using run None by (auto simp: link_endpoint_def ep_eq)
      moreover have "entity_id_named d ns name = Some j" using Some norm by (simp add: find_entity_id_def)
      ultimately show ?thesis
        using inv entity_id_named_SomeD [of d ns name j] by (simp add: holds_entity_def ep_eq)
    next
      case missing: None
      with run None have up: "upsert_entity_with (\<lambda>e t. t) u now ns
          \<lparr>ne_name = name, ne_type = ty, ne_description = None\<rparr> d = Inr (i, d')"
        by (auto simp: link_endpoint_def ep_eq bind_rust_Inr_iff upsert_entity_def split: if_splits)
      show ?thesis
        using upsert_entity_inv [OF inv up] upsert_sel [OF up] upsert_old [OF up]
          entity_id_named_SomeD [OF upsert_found [OF up]]
        by (simp add: norm ep_eq holds_entity_def entities_kept_def)
    qed
  qed
qed

lemma linkE:
  assumes "link u now ns args d = Inr (r, d')"
  obtains "from" to ty warnings where
    "endpoint_ok ns d from" "endpoint_ok ns d to" "fst from \<noteq> fst to"
    "link_tx u now ns args from to (unwrap_or (la_weight args) DEFAULT_RELATION_WEIGHT) ty warnings d = Inr (r, d')"
  using assms resolve_endpoint_ok
  by (auto simp: link_def bind_rust_Inr_iff Let_def split: if_splits) metis+

lemma link_tx_effect:
  assumes u: "unicode_ok u" and inv: "graph_inv d" and eps: "endpoint_ok ns d from" "endpoint_ok ns d to"
    and diff: "fst from \<noteq> fst to" and run: "link_tx u now ns args from to w ty warnings d = Inr (r, d')"
  shows "graph_inv d' \<and> memories d' = memories d
    \<and> (\<exists>s t. entity_id_named d' ns (lr_from r) = Some s \<and> entity_id_named d' ns (lr_to r) = Some t \<and> s \<noteq> t
        \<and> edges d' = insert (s, t, map_to_canonical_relation u (la_relation args)) (edges d)
        \<and> lr_action r = (if (s, t, map_to_canonical_relation u (la_relation args)) \<in> edges d
                         then ''already_exists'' else ''created''))
    \<and> \<bar>lr_weight r - w\<bar> \<le> 1 / 2 ^ 52"
proof -
  from run obtain s created1 d1 t created d2 rel was_created d3 row where
    ep1: "link_endpoint u now ns (la_create_missing args) ty from ([], d) = Inr (s, created1, d1)"
    and ep2: "link_endpoint u now ns (la_create_missing args) ty to (created1, d1) = Inr (t, created, d2)"
    and cof: "create_or_fetch_relationship u now ns s t (la_relation args) w None d2 = Inr (rel, was_created, d3)"
    and row: "List.find (\<lambda>x. r_id x = rel) (relationships d3) = Some row"
    and r: "lr_action r = (if was_created then ''created'' else ''already_exists'')" "lr_from r = fst from"
      "lr_to r = fst to" "lr_weight r = r_weight row"
    and d': "d' = (if was_created then recalculate_degrees [s, t] d3 else d3)"
    by (auto simp: link_tx_def bind_rust_Inr_iff recalculate_two split: option.splits)
  note s1 = link_endpoint_step [OF u inv eps(1) ep1]
  from s1 have kept: "entities_kept d d1" and inv1: "graph_inv d1" by auto
  note s2 = link_endpoint_step [OF u inv1 endpoint_ok_kept [OF eps(2) kept] ep2]
  from s2 have inv2: "graph_inv d2" and rels: "relationships d2 = relationships d" using s1 by auto
  have hs: "holds_entity d2 ns (fst from) s" and ht: "holds_entity d2 ns (fst to) t"
    using s1 s2 holds_entity_kept by blast+
  have st: "s \<noteq> t"
    using hs ht diff same_entity [OF graph_invD(2) [OF inv2]] unfolding holds_entity_def by metis
  let ?key = "(s, t, map_to_canonical_relation u (la_relation args))"
  from inv2 st cof show ?thesis
  proof (rule create_or_fetchE)
    fix row' assume row': "row' \<in> set (relationships d3)" "r_id row' = rel" "\<bar>r_weight row' - w\<bar> \<le> 1 / 2 ^ 52"
      and new: "was_created = (?key \<notin> edges d2)" and ed: "edges d3 = insert ?key (edges d2)"
      and ents: "entities d3 = entities d2" and mem: "memories d3 = memories d2" and ok: "store_ok d3"
      and inv': "graph_inv (if was_created then recalculate_degrees [s, t] d3 else d3)"
    have "row = row'" using row find_edge_id [OF ok row'(1)] row'(2) by simp
    have keep: "entities_kept d3 d'" by (simp add: d' entities_kept_recalculate)
    then have "holds_entity d' ns (fst from) s" "holds_entity d' ns (fst to) t"
      using hs ht holds_entity_kept [OF _ keep] unfolding holds_entity_def ents by blast+
    then have "entity_id_named d' ns (fst from) = Some s" "entity_id_named d' ns (fst to) = Some t"
      using entity_id_named_eq [OF graph_invD(2), of d'] inv' unfolding d' holds_entity_def by fastforce+
    moreover have "edges d' = insert ?key (edges d)" "?key \<notin> edges d \<longleftrightarrow> was_created"
      using ed new rels by (simp_all add: d' edges_def)
    moreover have "memories d' = memories d" using mem s1 s2 by (simp add: d')
    ultimately show ?thesis
      using inv' row'(3) st r \<open>row = row'\<close> by (simp add: d')
  qed
qed

lemma link_inv:
  assumes "unicode_ok u" and "graph_inv d" and "link u now ns args d = Inr (r, d')"
  shows "graph_inv d'"
  using assms(3) by (rule linkE) (use link_tx_effect [OF assms(1,2)] in metis)

text \<open>Claim C23. A \<^verbatim>\<open>link\<close> that succeeds on a well-formed graph leaves a well-formed graph (kebab-case names,
  canonical relations, weights in range, no self-loop, degrees that count the incident edges, and the
  schema's keys and references), changes no memory, and its only new edge joins the two reported
  entities, which are distinct, under the canonical form of the requested relation; the reported
  weight is the requested one (0.5 by default) up to the comparison threshold, and the reported
  action says whether the edge is new.\<close>

theorem link_effect:
  assumes "unicode_ok u" and "graph_inv d" and "link u now ns args d = Inr (r, d')"
  shows "graph_inv d' \<and> memories d' = memories d
    \<and> (\<exists>s t. entity_id_named d' ns (lr_from r) = Some s \<and> entity_id_named d' ns (lr_to r) = Some t \<and> s \<noteq> t
        \<and> edges d' = insert (s, t, map_to_canonical_relation u (la_relation args)) (edges d)
        \<and> lr_action r = (if (s, t, map_to_canonical_relation u (la_relation args)) \<in> edges d
                         then ''already_exists'' else ''created''))
    \<and> \<bar>lr_weight r - unwrap_or (la_weight args) DEFAULT_RELATION_WEIGHT\<bar> \<le> 1 / 2 ^ 52"
  using assms(3) by (rule linkE) (rule link_tx_effect [OF assms(1,2)])

section \<open>A concrete run\<close>

definition sample_link :: link_args where
  "sample_link = \<lparr>la_from = Some ''alice'', la_from_id = None, la_to = Some ''acme-corp'', la_to_id = None,
     la_relation = ''implements'', la_weight = None, la_create_missing = True, la_entity_type = ''concept'',
     la_strict_relations = False\<rparr>"

definition sample_graph :: db where
  "sample_graph = empty_db\<lparr>
     entities := [(entity_of_new 100 1 ''global'' ''alice'' ''concept'' None)\<lparr>e_degree := 1\<rparr>,
                  (entity_of_new 100 2 ''global'' ''acme-corp'' ''concept'' None)\<lparr>e_degree := 1\<rparr>],
     relationships := [\<lparr>r_id = 1, r_namespace = ''global'', r_source_id = 1, r_target_id = 2,
        r_relation = ''supports'', r_weight = 1 / 2, r_description = None, r_created_at = 100, r_updated_at = 100\<rparr>],
     seq_entities := 2, seq_relationships := 1\<rparr>"

lemmas char_class_defs = slug_char_def lower_letter_def upper_letter_def is_ascii_digit_def
  is_ascii_char_def is_alphanumeric_def byte_in_def

lemma sample_names:
  "normalize_entity_name ascii_unicode ''alice'' = ''alice''"
  "normalize_entity_name ascii_unicode ''acme-corp'' = ''acme-corp''"
  "normalize_entity_type ascii_unicode ''concept'' = Inr ''concept''"
  "map_to_canonical_relation ascii_unicode ''implements'' = ''supports''"
  by (rule kebab_fixed; simp add: kebab_def char_class_defs)+
     (simp_all add: normalize_entity_type_def ascii_unicode_def ascii_lowercase_def char_class_defs
       str_trim_def trim_start_def trim_end_def white1_def white2_def white3_def replace_char_def
       char_count_def is_cont_def MAX_ENTITY_TYPE_LEN_def map_to_canonical_relation_def
       normalize_relation_def relation_literals)

lemma sample_link_run:
  "link ascii_unicode 100 ''global'' sample_link empty_db =
     Inr (\<lparr>lr_action = ''created'', lr_from = ''alice'', lr_to = ''acme-corp'', lr_relation = ''implements'',
           lr_weight = 1 / 2, lr_created_entities = [''alice'', ''acme-corp''],
           lr_warnings = [''non-canonical relation'']\<rparr>, sample_graph)"
  by (simp add: link_def sample_link_def resolve_endpoint_def validate_entity_name_def char_class_defs
      sample_names weight_ok_def DEFAULT_RELATION_WEIGHT_def unwrap_or_def relation_literals
      is_canonical_entity_type_def CANONICAL_ENTITY_TYPES_def link_tx_def link_endpoint_def
      find_entity_id_def entity_id_named_def empty_db_def upsert_entity_def upsert_entity_with_def
      char_count_def is_cont_def exec_upsert_entity_def entity_of_new_def entity_named_def
      create_or_fetch_relationship_def find_relationship_def insert_relationship_def entity_ids_def
      edge_is_def recalculate_degree_def degree_in_def touches_def sample_graph_def Let_def)

theorem link_effect_witness:
  "unicode_ok ascii_unicode \<and> graph_inv empty_db \<and> graph_inv sample_graph
   \<and> edges sample_graph = {(1, 2, ''supports'')}"
  using link_effect [OF ascii_unicode_ok graph_inv_empty sample_link_run] graph_inv_empty
  by (simp add: edges_def sample_graph_def edge_key_def)

lemma sample_graph_inv: "graph_inv sample_graph"
  by (rule link_inv [OF ascii_unicode_ok graph_inv_empty sample_link_run])

lemma sample_find:
  "find_entity_id ascii_unicode sample_graph ''global'' ''alice'' = Some 1"
  "find_entity_id ascii_unicode sample_graph ''global'' ''acme-corp'' = Some 2"
  by (simp_all add: find_entity_id_def sample_names entity_id_named_def entity_named_def sample_graph_def
      entity_of_new_def)

end
