(* ===== verification/Graph_Maintenance.thy ===== *)
theory Graph_Maintenance
  imports Graph_Commands
begin

text \<open>
  The maintenance commands of the entity graph: \<^verbatim>\<open>delete-entity\<close>, \<^verbatim>\<open>rename-entity\<close>,
  \<^verbatim>\<open>reclassify\<close>, \<^verbatim>\<open>reclassify-relation\<close>, \<^verbatim>\<open>prune-relations\<close> and \<^verbatim>\<open>cleanup-orphans\<close>
  (\<^verbatim>\<open>src/commands/\<close>), in the conventions of the previous theory.
\<close>

section \<open>Delete entity\<close>

record delete_entity_args =
  da_positional :: "string option"
  da_name :: "string option"
  da_cascade :: bool

definition delete_entity :: "unicode \<Rightarrow> string \<Rightarrow> delete_entity_args \<Rightarrow> db \<Rightarrow> app_error + ((nat \<times> nat) \<times> db)" where
  "delete_entity u ns args d =
     (if \<not> da_cascade args then Inl (Validation ''use --cascade to confirm deletion of entity and all its relationships'')
      else
        bind_rust (ok_or (Validation ''name_required_positional_or_flag'')
            (or_else (da_positional args) (da_name args))) (\<lambda>name.
        bind_rust (ok_or (NotFound ''entity_not_found'') (find_entity_id u d ns name)) (\<lambda>i.
          (let adjacent = adjacent_ids i d;
               rel_ids = map r_id (filter (touches i) (relationships d));
               d1 = d\<lparr>memory_relationships := sql_delete (\<lambda>x. snd x \<in> set rel_ids) (memory_relationships d)\<rparr>;
               relationships_removed = sql_changed (touches i) (relationships d1);
               d2 = delete_relationship_rows (touches i) d1;
               bindings_removed = sql_changed (\<lambda>x. snd x = i) (memory_entities d2);
               d3 = d2\<lparr>memory_entities := sql_delete (\<lambda>x. snd x = i) (memory_entities d2)\<rparr>;
               d4 = delete_entity_rows (\<lambda>e. e_id e = i) d3
           in Inr ((relationships_removed, bindings_removed),
                recalculate_degrees (filter (\<lambda>a. a \<noteq> i) adjacent) d4)))))"

section \<open>Rename entity\<close>

record rename_entity_args =
  ta_positional :: "string option"
  ta_name :: "string option"
  ta_id :: "int option"
  ta_new_name :: string

definition lookup_entity_by_id :: "unicode \<Rightarrow> db \<Rightarrow> string \<Rightarrow> int \<Rightarrow> app_error + (int \<times> string \<times> string)" where
  "lookup_entity_by_id u d ns i =
     (case List.find (\<lambda>e. e_id e = i \<and> e_namespace e = ns) (entities d) of
        Some e \<Rightarrow> Inr (e_id e, normalize_entity_type_or_default u (e_type e), e_name e)
      | None \<Rightarrow> Inl (NotFound ''entity_id_not_found_in_namespace''))"

definition rename_source :: "unicode \<Rightarrow> string \<Rightarrow> rename_entity_args \<Rightarrow> db \<Rightarrow> app_error + (int \<times> string \<times> string)" where
  "rename_source u ns args d =
     (case ta_id args of
        Some i \<Rightarrow> lookup_entity_by_id u d ns i
      | None \<Rightarrow>
          bind_rust (ok_or (Validation ''name_or_id_required'') (or_else (ta_positional args) (ta_name args))) (\<lambda>raw.
            (let lookup = normalize_entity_name u raw in
             case List.find (entity_named ns lookup) (entities d) of
               Some e \<Rightarrow> Inr (e_id e, normalize_entity_type_or_default u (e_type e), lookup)
             | None \<Rightarrow> Inl (NotFound ''entity_not_found''))))"

definition rename_entity_tx ::
  "embed_config \<Rightarrow> int \<Rightarrow> string \<Rightarrow> int \<Rightarrow> string \<Rightarrow> f32 list option \<Rightarrow> db \<Rightarrow> app_error + db" where
  "rename_entity_tx cfg now ns i new_name embedding d =
     (if \<exists>e \<in> set (entities d). e_id e = i
           \<and> (\<exists>e' \<in> set (entities d). e_id e' \<noteq> i \<and> entity_named (e_namespace e) new_name e') then
        Inl constraint_error
      else
        (let d1 = d\<lparr>entities := sql_update (\<lambda>e. e_id e = i)
                     (\<lambda>e. e\<lparr>e_name := new_name, e_updated_at := now\<rparr>) (entities d)\<rparr> in
         case embedding of
           None \<Rightarrow> Inr d1
         | Some emb \<Rightarrow> upsert_entity_vec cfg i ns emb d1))"

definition rename_entity ::
  "unicode \<Rightarrow> embed_config \<Rightarrow> (string \<Rightarrow> app_error + f32 list) \<Rightarrow> bool \<Rightarrow> int \<Rightarrow> string \<Rightarrow> rename_entity_args \<Rightarrow> db
     \<Rightarrow> app_error + ((string \<times> string \<times> int) \<times> db)" where
  "rename_entity u cfg embed_call skip now ns args d =
     bind_rust (rename_source u ns args d) (\<lambda>(i, _, old_name).
     bind_rust (validate_entity_name (ta_new_name args)) (\<lambda>_.
       (let new_name = normalize_entity_name u (ta_new_name args) in
        if old_name = new_name then Inl (Validation ''source and target entity names are identical'')
        else if find_entity_id u d ns new_name \<noteq> None then Inl (Validation ''entity_name_already_exists'')
        else
          bind_rust (accept_embedding skip (embed_call new_name)) (\<lambda>embedding.
          bind_rust (rename_entity_tx cfg now ns i new_name
              (case embedding of Some [] \<Rightarrow> None | e \<Rightarrow> e) d) (\<lambda>d'.
            Inr ((old_name, new_name, i), d'))))))"

section \<open>Reclassify\<close>

record reclassify_args =
  ca_positional :: "string option"
  ca_name :: "string option"
  ca_new_type :: "string option"
  ca_description :: "string option"
  ca_from_type :: "string option"
  ca_to_type :: "string option"
  ca_batch :: bool

record reclassify_response =
  cr_count :: nat
  cr_matched_targets :: "nat option"
  cr_description_updated :: "bool option"

definition reclassify_batch :: "unicode \<Rightarrow> int \<Rightarrow> string \<Rightarrow> reclassify_args \<Rightarrow> db \<Rightarrow> app_error + (nat \<times> nat option \<times> db)" where
  "reclassify_batch u now ns args d =
     bind_rust (ok_or (Validation ''from_type_required_batch'') (ca_from_type args)) (\<lambda>from0.
     bind_rust (ok_or (Validation ''to_type_required_batch'') (ca_to_type args)) (\<lambda>to0.
     bind_rust (normalize_entity_type u from0) (\<lambda>from_type.
     bind_rust (normalize_entity_type u to0) (\<lambda>to_type.
       (let p = (\<lambda>e. e_type e = from_type \<and> e_namespace e = ns); targets = sql_count p (entities d) in
        if targets = 0 then Inl (Validation ''reclassify_batch_no_targets'')
        else
          Inr (sql_changed p (entities d), Some targets,
            d\<lparr>entities := sql_update p (\<lambda>e. e\<lparr>e_type := to_type, e_updated_at := now\<rparr>) (entities d)\<rparr>))))))"

definition set_new_type ::
  "unicode \<Rightarrow> int \<Rightarrow> string \<Rightarrow> string \<Rightarrow> string option \<Rightarrow> db \<Rightarrow> app_error + (nat \<times> db)" where
  "set_new_type u now ns name new_type0 d =
     (case new_type0 of
        None \<Rightarrow> Inr (0, d)
      | Some s \<Rightarrow>
          bind_rust (normalize_entity_type u s) (\<lambda>new_type.
            Inr (sql_changed (entity_named ns name) (entities d),
              d\<lparr>entities := sql_update (entity_named ns name)
                 (\<lambda>e. e\<lparr>e_type := new_type, e_updated_at := now\<rparr>) (entities d)\<rparr>)))"

definition set_description :: "int \<Rightarrow> string \<Rightarrow> string \<Rightarrow> string option \<Rightarrow> nat \<Rightarrow> db \<Rightarrow> nat \<times> db" where
  "set_description now ns name description affected d =
     (case description of
        None \<Rightarrow> (affected, d)
      | Some desc \<Rightarrow>
          (let rows = sql_changed (entity_named ns name) (entities d) in
           (if affected = 0 then rows else affected,
            d\<lparr>entities := sql_update (entity_named ns name)
               (\<lambda>e. e\<lparr>e_description := Some desc, e_updated_at := now\<rparr>) (entities d)\<rparr>)))"

definition reclassify_single :: "unicode \<Rightarrow> int \<Rightarrow> string \<Rightarrow> reclassify_args \<Rightarrow> db \<Rightarrow> app_error + (nat \<times> nat option \<times> db)" where
  "reclassify_single u now ns args d =
     bind_rust (ok_or (Validation ''name_required_single_mode'') (or_else (ca_positional args) (ca_name args))) (\<lambda>name.
       if ca_new_type args = None \<and> ca_description args = None then
         Inl (Validation ''reclassify_needs_type_or_description'')
       else
         bind_rust (ok_or (NotFound ''entity_not_found'') (find_entity_id u d ns name)) (\<lambda>_.
         bind_rust (set_new_type u now ns name (ca_new_type args) d) (\<lambda>(affected, d1).
           (case set_description now ns name (ca_description args) affected d1 of
              (count, d2) \<Rightarrow> Inr (count, None, d2)))))"

definition reclassify :: "unicode \<Rightarrow> int \<Rightarrow> string \<Rightarrow> reclassify_args \<Rightarrow> db \<Rightarrow> app_error + (reclassify_response \<times> db)" where
  "reclassify u now ns args d =
     bind_rust (if ca_batch args then reclassify_batch u now ns args d else reclassify_single u now ns args d)
       (\<lambda>(count, matched, d').
          Inr (\<lparr>cr_count = count, cr_matched_targets = matched,
                cr_description_updated = (if ca_description args \<noteq> None then Some True else None)\<rparr>, d'))"

section \<open>Reclassify relation\<close>

record reclassify_relation_args =
  qa_source :: "string option"
  qa_target :: "string option"
  qa_from_relation :: "string option"
  qa_literal_from :: "string option"
  qa_to_relation :: "string option"
  qa_literal_to :: "string option"
  qa_batch :: bool
  qa_filter_source_type :: "string option"
  qa_filter_target_type :: "string option"
  qa_dry_run :: bool

record reclassify_relation_response =
  qr_action :: string
  qr_count :: nat
  qr_merged_duplicates :: nat

definition effective_from :: "reclassify_relation_args \<Rightarrow> string" where
  "effective_from args = unwrap_or (or_else (qa_literal_from args) (qa_from_relation args)) []"

definition effective_to :: "reclassify_relation_args \<Rightarrow> string" where
  "effective_to args = unwrap_or (or_else (qa_literal_to args) (qa_to_relation args)) []"

text \<open>The common tail of both modes: the selected edges are relabelled where the new label is free,
  and the edges still selected are removed.\<close>

definition relabel_edges ::
  "int \<Rightarrow> string \<Rightarrow> (db \<Rightarrow> relationship_row \<Rightarrow> bool) \<Rightarrow> nat \<Rightarrow> db \<Rightarrow> reclassify_relation_response \<times> db" where
  "relabel_edges now to p original d =
     (case update_or_ignore_relationships now (p d) (\<lambda>r. r\<lparr>r_relation := to\<rparr>) d of (updated, d1) \<Rightarrow>
        (let deleted = sql_changed (p d1) (relationships d1) in
         (\<lparr>qr_action = ''reclassified'', qr_count = updated,
           qr_merged_duplicates = original - (updated + deleted)\<rparr>,
          delete_relationship_rows (p d1) d1)))"

definition run_single ::
  "unicode \<Rightarrow> int \<Rightarrow> string \<Rightarrow> reclassify_relation_args \<Rightarrow> db \<Rightarrow> app_error + (reclassify_relation_response \<times> db)" where
  "run_single u now ns args d =
     bind_rust (ok_or (Validation ''--source is required in single mode'') (qa_source args)) (\<lambda>source.
     bind_rust (ok_or (Validation ''target_required_single_mode'') (qa_target args)) (\<lambda>target.
     bind_rust (ok_or (NotFound ''source_entity_not_found_in_namespace'')
        (entity_id_named d ns (normalize_entity_name u source))) (\<lambda>s.
     bind_rust (ok_or (NotFound ''target_entity_not_found_in_namespace'')
        (entity_id_named d ns (normalize_entity_name u target))) (\<lambda>t.
       (let p = (\<lambda>_ r. edge_is s t (effective_from args) r \<and> r_namespace r = ns);
            original = sql_count (p d) (relationships d)
        in if original = 0 then Inl (NotFound ''edge_not_found_in_namespace'')
           else if qa_dry_run args then
             Inr (\<lparr>qr_action = ''dry_run'', qr_count = original, qr_merged_duplicates = 0\<rparr>, d)
           else Inr (relabel_edges now (effective_to args) p original d))))))"

text \<open>A type filter as the clause on the joined entity.\<close>

definition type_filter_clause :: "unicode \<Rightarrow> string option \<Rightarrow> app_error + string option" where
  "type_filter_clause u v =
     (case v of None \<Rightarrow> Inr None | Some raw \<Rightarrow> bind_rust (normalize_entity_type u raw) (\<lambda>t. Inr (Some t)))"

definition entity_typed :: "db \<Rightarrow> int \<Rightarrow> string option \<Rightarrow> bool" where
  "entity_typed d i clause \<longleftrightarrow>
     (\<exists>e \<in> set (entities d). e_id e = i \<and> (case clause of None \<Rightarrow> True | Some t \<Rightarrow> e_type e = t))"

definition batch_edge ::
  "string \<Rightarrow> string \<Rightarrow> string option \<Rightarrow> string option \<Rightarrow> db \<Rightarrow> relationship_row \<Rightarrow> bool" where
  "batch_edge ns from source_clause target_clause d r \<longleftrightarrow>
     r_relation r = from \<and> r_namespace r = ns
     \<and> (source_clause = None \<and> target_clause = None
        \<or> entity_typed d (r_source_id r) source_clause \<and> entity_typed d (r_target_id r) target_clause)"

definition run_batch ::
  "unicode \<Rightarrow> int \<Rightarrow> string \<Rightarrow> reclassify_relation_args \<Rightarrow> db \<Rightarrow> app_error + (reclassify_relation_response \<times> db)" where
  "run_batch u now ns args d =
     bind_rust (type_filter_clause u (qa_filter_source_type args)) (\<lambda>source_clause.
     bind_rust (type_filter_clause u (qa_filter_target_type args)) (\<lambda>target_clause.
       (let p = batch_edge ns (effective_from args) source_clause target_clause;
            original = sql_count (p d) (relationships d)
        in if qa_dry_run args then
             Inr (\<lparr>qr_action = ''dry_run'', qr_count = original, qr_merged_duplicates = 0\<rparr>, d)
           else Inr (relabel_edges now (effective_to args) p original d))))"

definition reclassify_relation ::
  "unicode \<Rightarrow> int \<Rightarrow> string \<Rightarrow> reclassify_relation_args \<Rightarrow> db \<Rightarrow> app_error + (reclassify_relation_response \<times> db)" where
  "reclassify_relation u now ns args d =
     (if effective_from args = effective_to args then
        Inl (Validation ''--from-relation/--literal-from and --to-relation/--literal-to must be different'')
      else if qa_batch args then run_batch u now ns args d
      else run_single u now ns args d)"

section \<open>Prune relations\<close>

record prune_args =
  pr_relation :: string
  pr_dry_run :: bool
  pr_yes :: bool
  pr_show_entities :: bool

record prune_response =
  ps_action :: string
  ps_count :: nat
  ps_entities_affected :: nat
  ps_affected_names :: "string list option"

definition prune_relations :: "string \<Rightarrow> prune_args \<Rightarrow> db \<Rightarrow> prune_response \<times> db" where
  "prune_relations ns args d =
     (if pr_dry_run args then
        (let names = (if pr_show_entities args then Some (list_entity_names_by_relation d ns (pr_relation args)) else None)
         in (\<lparr>ps_action = ''dry_run'', ps_count = count_relationships_by_relation d ns (pr_relation args),
              ps_entities_affected = (case names of None \<Rightarrow> 0 | Some v \<Rightarrow> length v),
              ps_affected_names = names\<rparr>, d))
      else if \<not> pr_yes args then
        (\<lparr>ps_action = ''aborted'', ps_count = count_relationships_by_relation d ns (pr_relation args),
          ps_entities_affected = 0, ps_affected_names = None\<rparr>, d)
      else
        (case delete_relationships_by_relation ns (pr_relation args) d of ((count, ids), d') \<Rightarrow>
           (\<lparr>ps_action = ''pruned'', ps_count = count, ps_entities_affected = length ids,
             ps_affected_names = None\<rparr>, d')))"

section \<open>Cleanup orphans\<close>

record cleanup_args =
  oa_namespace :: "string option"
  oa_dry_run :: bool
  oa_yes :: bool

record cleanup_response =
  cl_orphan_count :: nat
  cl_deleted :: nat
  cl_dangling_count :: nat
  cl_dangling_deleted :: nat
  cl_violations :: nat
  cl_violations_remaining :: nat

text \<open>The engine's part: \<^verbatim>\<open>PRAGMA foreign_key_check\<close>, the table names, and a deletion by rowid.\<close>

record engine =
  foreign_key_check :: "db \<Rightarrow> violation list"
  real_table_names :: "db \<Rightarrow> string list"
  delete_rowid :: "string \<Rightarrow> int \<Rightarrow> db \<Rightarrow> app_error + (nat \<times> db)"

fun delete_violations_loop :: "engine \<Rightarrow> string list \<Rightarrow> (string \<times> int) list \<Rightarrow> db \<Rightarrow> app_error + (nat \<times> db)" where
  "delete_violations_loop eng known [] d = Inr (0, d)"
| "delete_violations_loop eng known ((table, rowid) # rest) d =
     (if table \<notin> set known then Inl (Internal ''foreign_key_check named a table that does not exist'')
      else
        bind_rust (delete_rowid eng table rowid d) (\<lambda>(n, d1).
        bind_rust (delete_violations_loop eng known rest d1) (\<lambda>(m, d2). Inr (n + m, d2))))"

definition delete_foreign_key_violations :: "engine \<Rightarrow> (string \<times> int) list \<Rightarrow> db \<Rightarrow> app_error + (nat \<times> db)" where
  "delete_foreign_key_violations eng violations d =
     delete_violations_loop eng (real_table_names eng d) violations d"

definition cleanup_tx :: "engine \<Rightarrow> string option \<Rightarrow> int list \<Rightarrow> int list \<Rightarrow> db \<Rightarrow> app_error + (nat \<times> nat \<times> db)" where
  "cleanup_tx eng namespace orphans dangling d =
     (case delete_relationships_by_ids dangling d of (edges_removed, d1) \<Rightarrow>
      (case delete_entities_by_ids orphans d1 of (removed, d2) \<Rightarrow>
         if namespace = None then
           bind_rust (delete_foreign_key_violations eng
              (find_foreign_key_violations (foreign_key_check eng d2)) d2) (\<lambda>(_, d3). Inr (removed, edges_removed, d3))
         else Inr (removed, edges_removed, d2)))"

definition cleanup_orphans :: "engine \<Rightarrow> cleanup_args \<Rightarrow> db \<Rightarrow> app_error + (cleanup_response \<times> db)" where
  "cleanup_orphans eng args d =
     (let orphans = find_orphan_entity_ids d (oa_namespace args);
          dangling = find_dangling_relationship_ids d (oa_namespace args);
          violations = find_foreign_key_violations (foreign_key_check eng d);
          total = length orphans + length dangling + length violations
      in bind_rust
           (if oa_dry_run args then Inr (0, 0, d)
            else if 0 < total \<and> \<not> oa_yes args then Inl (Validation ''refuse_delete_orphans_without_yes'')
            else cleanup_tx eng (oa_namespace args) orphans dangling d)
           (\<lambda>(deleted, dangling_deleted, d').
              Inr (\<lparr>cl_orphan_count = length orphans, cl_deleted = deleted,
                    cl_dangling_count = length dangling, cl_dangling_deleted = dangling_deleted,
                    cl_violations = length violations,
                    cl_violations_remaining =
                      (if oa_dry_run args then length violations
                       else length (find_foreign_key_violations (foreign_key_check eng d')))\<rparr>, d')))"

end
