(* ===== verification/Edge_Deletes.thy ===== *)
theory Edge_Deletes
  imports Link_Correct Graph_Maintenance
begin

text \<open>
  Removing edges and entities: the deletion loops equal one deletion of all the rows they visit,
  and a deletion followed by the recalculation of every endpoint keeps the graph invariant.
  \<^verbatim>\<open>unlink\<close>, \<^verbatim>\<open>delete-entity\<close>, \<^verbatim>\<open>prune-relations\<close> and \<^verbatim>\<open>cleanup-orphans\<close> follow.
\<close>

section \<open>Deleting edges\<close>

lemma delete_relationship_rows_sel [simp]:
  "relationships (delete_relationship_rows p d) = sql_delete p (relationships d)"
  "entities (delete_relationship_rows p d) = entities d"
  "memories (delete_relationship_rows p d) = memories d"
  "fts_memories (delete_relationship_rows p d) = fts_memories d"
  "memory_entities (delete_relationship_rows p d) = memory_entities d"
  by (simp_all add: delete_relationship_rows_def Let_def)

lemma delete_relationship_rows_eq:
  "delete_relationship_rows p d =
     d\<lparr>relationships := sql_delete p (relationships d),
       memory_relationships := sql_delete (\<lambda>x. snd x \<in> r_id ` {r \<in> set (relationships d). p r}) (memory_relationships d)\<rparr>"
  unfolding delete_relationship_rows_def Let_def set_gone ..

lemma delete_relationship_rows_compose:
  "delete_relationship_rows q (delete_relationship_rows p d) = delete_relationship_rows (\<lambda>r. p r \<or> q r) d"
proof -
  have "r_id ` {r \<in> set (relationships d). p r} \<union> r_id ` {r \<in> set (sql_delete p (relationships d)). q r}
      = r_id ` {r \<in> set (relationships d). p r \<or> q r}" by auto
  then have "(\<lambda>x. snd x \<in> r_id ` {r \<in> set (relationships d). p r}
        \<or> snd x \<in> r_id ` {r \<in> set (sql_delete p (relationships d)). q r})
      = (\<lambda>x. snd x \<in> r_id ` {r \<in> set (relationships d). p r \<or> q r})"
    by (intro ext) (subst Un_iff [symmetric], simp only:)
  then have "sql_delete (\<lambda>x. snd x \<in> r_id ` {r \<in> set (relationships d). p r}
        \<or> snd x \<in> r_id ` {r \<in> set (sql_delete p (relationships d)). q r}) (memory_relationships d)
      = sql_delete (\<lambda>x. snd x \<in> r_id ` {r \<in> set (relationships d). p r \<or> q r}) (memory_relationships d)"
    by (rule arg_cong [where f = "\<lambda>f. sql_delete f (memory_relationships d)"])
  then show ?thesis by (simp add: delete_relationship_rows_eq sql_delete_sql_delete del: set_sql_delete)
qed

lemma delete_relationship_rows_none:
  assumes "\<And>r. r \<in> set (relationships d) \<Longrightarrow> \<not> p r"
  shows "delete_relationship_rows p d = d"
proof -
  have "sql_delete p (relationships d) = relationships d" using assms by (rule sql_delete_none)
  moreover have "sql_delete (\<lambda>x. snd x \<in> r_id ` {r \<in> set (relationships d). p r}) (memory_relationships d)
      = memory_relationships d"
    by (rule sql_delete_none) (use assms in blast)
  ultimately show ?thesis unfolding delete_relationship_rows_eq by simp
qed

lemma delete_relationship_by_id_eq:
  assumes "store_ok d"
  shows "delete_relationship_by_id i d = delete_relationship_rows (\<lambda>r. r_id r = i) d"
proof -
  have fk: "snd ` set (memory_relationships d) \<subseteq> r_id ` set (relationships d)"
    using assms by (simp add: store_defs relationship_ids_def)
  let ?ids = "r_id ` {r \<in> set (relationships d). r_id r = i}"
  have "sql_delete (\<lambda>x. snd x = i \<or> snd x \<in> ?ids) (memory_relationships d)
      = sql_delete (\<lambda>x. snd x \<in> ?ids) (memory_relationships d)"
    using fk unfolding sql_delete_def by (intro filter_cong) force+
  then show ?thesis
    by (simp add: delete_relationship_by_id_def delete_relationship_rows_eq sql_delete_sql_delete)
qed

lemma delete_edge_ids_eq:
  "store_ok d \<Longrightarrow> delete_edge_ids is d = delete_relationship_rows (\<lambda>r. r_id r \<in> set is) d"
proof (induction "is" arbitrary: d)
  case (Cons i "is")
  then show ?case
    using delete_relationship_rows_ok [OF Cons.prems, of "\<lambda>r. r_id r = i"]
    by (simp add: delete_relationship_by_id_eq delete_relationship_rows_compose)
qed (simp add: delete_relationship_rows_none)

lemma selected_iff:
  assumes "store_ok d" and "r \<in> set (relationships d)"
  shows "r_id r \<in> set (map r_id (filter p (relationships d))) \<longleftrightarrow> p r"
proof
  assume "r_id r \<in> set (map r_id (filter p (relationships d)))"
  then obtain x where "x \<in> set (relationships d)" "p x" "r_id r = r_id x" by auto
  then show "p r" using same_edge [OF assms] by blast
qed (use assms(2) in auto)

lemma selected_ids:
  assumes "store_ok d"
  shows "delete_relationship_rows (\<lambda>r. r_id r \<in> set (map r_id (filter p (relationships d)))) d
    = delete_relationship_rows p d"
proof -
  note same = selected_iff [OF assms, of _ p]
  have "sql_delete (\<lambda>r. r_id r \<in> set (map r_id (filter p (relationships d)))) (relationships d)
      = sql_delete p (relationships d)"
    unfolding sql_delete_def using same by (intro filter_cong) auto
  moreover have "{r \<in> set (relationships d). r_id r \<in> set (map r_id (filter p (relationships d)))}
      = {r \<in> set (relationships d). p r}" using same by blast
  ultimately show ?thesis unfolding delete_relationship_rows_eq by simp
qed

lemma edges_delete: "edges (delete_relationship_rows p d) = edge_key ` {r \<in> set (relationships d). \<not> p r}"
  by (simp add: edges_def)

lemma edges_delete_key:
  assumes "\<And>r. p r \<longleftrightarrow> P (edge_key r)"
  shows "edges (delete_relationship_rows p d) = {k \<in> edges d. \<not> P k}"
  using assms by (auto simp: edges_def)

lemma store_inv_delete_edges: "store_inv d \<Longrightarrow> store_inv (delete_relationship_rows p d)"
  by (rule store_inv_same [of d]) (simp_all add: delete_relationship_rows_ok store_invD)

lemma graph_typed_delete_edges: "graph_typed d \<Longrightarrow> graph_typed (delete_relationship_rows p d)"
  by (simp add: graph_typed_def)

lemma delete_edges_inv:
  assumes inv: "graph_inv d"
    and ends: "\<And>r. r \<in> set (relationships d) \<Longrightarrow> p r \<Longrightarrow> r_source_id r \<in> set is \<and> r_target_id r \<in> set is"
  shows "graph_inv (recalculate_degrees is (delete_relationship_rows p d))"
proof (rule graph_inv_recalculate)
  show "store_inv (delete_relationship_rows p d)" by (rule store_inv_delete_edges [OF graph_invD(1) [OF inv]])
  show "graph_typed (delete_relationship_rows p d)" by (rule graph_typed_delete_edges [OF graph_invD(3) [OF inv]])
  fix e assume e: "e \<in> set (entities (delete_relationship_rows p d))" "e_id e \<notin> set is"
  then have "degree_in (sql_delete p (relationships d)) (e_id e) = degree_in (relationships d) (e_id e)"
    unfolding touches_def [abs_def] using ends by (intro degree_in_delete) (metis touches_def)
  then show "degree_right (relationships (delete_relationship_rows p d)) e"
    using graph_invD(4) [OF inv] e(1) by (simp add: degrees_ok_def degree_right_def)
qed

section \<open>Unlink\<close>

lemma ok_or_Inr [simp]: "ok_or e a = Inr x \<longleftrightarrow> a = Some x"
  by (simp add: ok_or_def split: option.splits)

lemma delete_between_eq:
  assumes "store_ok d"
  shows "snd (delete_relationships_between s t d)
    = delete_relationship_rows (\<lambda>r. r_source_id r = s \<and> r_target_id r = t) d"
  unfolding delete_relationships_between_def Let_def snd_conv delete_edge_ids_eq [OF assms]
  by (rule selected_ids [OF assms])

lemma delete_all_eq:
  assumes "store_ok d"
  shows "snd (delete_all_entity_relationships i d) = delete_relationship_rows (touches i) d"
  unfolding delete_all_entity_relationships_def Let_def snd_conv delete_edge_ids_eq [OF assms]
  by (rule selected_ids [OF assms])

lemma find_edge_only:
  assumes ok: "store_ok d" and row: "find_relationship d s t rel = Some row"
  shows "delete_relationship_rows (\<lambda>r. r_id r = r_id row) d = delete_relationship_rows (edge_is s t rel) d"
proof -
  have row: "row \<in> set (relationships d)" "edge_key row = (s, t, rel)"
    using find_relationship_SomeD [OF row] by auto
  have "filter (edge_is s t rel) (relationships d) = filter (\<lambda>r. r_id r = r_id row) (relationships d)"
  proof (rule filter_cong [OF refl])
    fix r assume r: "r \<in> set (relationships d)"
    have "edge_key r = edge_key row \<longleftrightarrow> r = row"
      using store_ok_edges_distinct [OF ok] r row(1) by (auto simp: distinct_map inj_on_def)
    then show "edge_is s t rel r \<longleftrightarrow> r_id r = r_id row"
      using row same_edge [OF ok r row(1)] by (auto simp: edge_is_def edge_key_def)
  qed
  then show ?thesis using selected_ids [OF ok, of "edge_is s t rel"] selected_ids [OF ok, of "\<lambda>r. r_id r = r_id row"] by simp
qed

definition pair_edge :: "int \<Rightarrow> int \<Rightarrow> string option \<Rightarrow> int \<times> int \<times> string \<Rightarrow> bool" where
  "pair_edge s t relation k \<longleftrightarrow>
     (case k of (a, b, rel) \<Rightarrow> a = s \<and> b = t \<and> (case relation of None \<Rightarrow> True | Some x \<Rightarrow> rel = x))"

lemma unlink_pairE:
  assumes ok: "store_ok d" and run: "unlink_pair u ns from_name to_name relation d = Inr (r, d')"
  obtains s t where "find_entity_id u d ns from_name = Some s" "find_entity_id u d ns to_name = Some t"
    "d' = recalculate_degrees [s, t] (delete_relationship_rows (\<lambda>r. pair_edge s t relation (edge_key r)) d)"
proof -
  from run obtain s t removed display d1 where
    st: "find_entity_id u d ns from_name = Some s" "find_entity_id u d ns to_name = Some t"
    and del: "(case relation of
          Some rel \<Rightarrow>
            bind_rust (ok_or (NotFound ''relationship_not_found'') (find_relationship d s t rel)) (\<lambda>row.
              Inr (1, rel, delete_relationship_by_id (r_id row) d))
        | None \<Rightarrow>
            (case delete_relationships_between s t d of (c, d1) \<Rightarrow> Inr (c, ''*'', d1))) = Inr (removed, display, d1)"
    and d': "d' = recalculate_degree t (recalculate_degree s d1)"
    by (auto simp: unlink_pair_def bind_rust_Inr_iff)
  have "d1 = delete_relationship_rows (\<lambda>r. pair_edge s t relation (edge_key r)) d"
  proof (cases relation)
    case None
    then show ?thesis using del delete_between_eq [OF ok, of s t]
      by (simp add: pair_edge_def edge_key_def split: prod.splits)
  next
    case (Some rel)
    then obtain row where row: "find_relationship d s t rel = Some row" and "d1 = delete_relationship_by_id (r_id row) d"
      using del by (auto simp: bind_rust_Inr_iff)
    moreover have "edge_is s t rel = (\<lambda>r. pair_edge s t relation (edge_key r))"
      by (auto simp: edge_is_def pair_edge_def edge_key_def Some)
    ultimately show ?thesis using find_edge_only [OF ok row] by (simp add: delete_relationship_by_id_eq [OF ok])
  qed
  with st d' show thesis using that by (simp add: recalculate_two)
qed

text \<open>Removing the edges between two named entities, one relation or all of them, keeps the graph
  well-formed and removes exactly the edges from the first to the second entity with that
  relation; memories and entities stay.\<close>

theorem unlink_pair_effect:
  assumes inv: "graph_inv d"
    and run: "unlink u ns \<lparr>ua_from = Some a, ua_to = Some b, ua_relation = relation, ua_entity = None,
                           ua_all = False, ua_memory = None\<rparr> d = Inr (r, d')"
  shows "graph_inv d' \<and> (\<exists>s t. find_entity_id u d ns a = Some s \<and> find_entity_id u d ns b = Some t
    \<and> edges d' = {k \<in> edges d. \<not> pair_edge s t relation k}) \<and> memories d' = memories d \<and> entity_ids d' = entity_ids d"
proof -
  have "unlink_pair u ns a b relation d = Inr (r, d')" using run by (simp add: unlink_def ok_or_def)
  from graph_invD(2) [OF inv] this show ?thesis
  proof (rule unlink_pairE)
    fix s t
    assume st: "find_entity_id u d ns a = Some s" "find_entity_id u d ns b = Some t"
      and d': "d' = recalculate_degrees [s, t] (delete_relationship_rows (\<lambda>r. pair_edge s t relation (edge_key r)) d)"
    have "graph_inv d'" unfolding d'
      by (rule delete_edges_inv [OF inv]) (auto simp: pair_edge_def edge_key_def)
    moreover have "edges d' = {k \<in> edges d. \<not> pair_edge s t relation k}"
      by (simp add: d' edges_delete_key)
    moreover have "memories d' = memories d" "entity_ids d' = entity_ids d"
      by (simp_all add: d' recalculate_degrees_eq entity_ids_def image_sql_update_same)
    ultimately show ?thesis using st by blast
  qed
qed

lemma sample_unlink:
  "unlink ascii_unicode ''global'' \<lparr>ua_from = Some ''alice'', ua_to = Some ''acme-corp'', ua_relation = None,
       ua_entity = None, ua_all = False, ua_memory = None\<rparr> sample_graph
   = Inr (\<lparr>ur_action = ''deleted'', ur_from = ''alice'', ur_to = ''acme-corp'', ur_relation = ''*'', ur_removed = 1\<rparr>,
       recalculate_degree 2 (recalculate_degree 1 (delete_relationship_by_id 1 sample_graph)))"
  by (simp add: unlink_def unlink_pair_def sample_find ok_or_def delete_relationships_between_def)
     (simp add: sample_graph_def)

theorem unlink_pair_effect_witness:
  "graph_inv sample_graph \<and> edges sample_graph = {(1, 2, ''supports'')}
   \<and> edges (recalculate_degree 2 (recalculate_degree 1 (delete_relationship_by_id 1 sample_graph))) = {}"
proof -
  have "edges sample_graph = {(1, 2, ''supports'')}" by (simp add: edges_def sample_graph_def edge_key_def)
  then show ?thesis
    using unlink_pair_effect [OF sample_graph_inv sample_unlink] sample_graph_inv
    by (simp add: sample_find pair_edge_def)
qed

end
