(* ===== verification/Entity_Deletes.thy ===== *)
theory Entity_Deletes
  imports Edge_Deletes
begin

text \<open>
  Removing entities: \<^verbatim>\<open>delete-entity\<close> and \<^verbatim>\<open>cleanup-orphans\<close>, and the bulk removal of a relation by
  \<^verbatim>\<open>prune-relations\<close>.
\<close>

section \<open>Deleting entities\<close>

lemma delete_entity_rows_sel [simp]:
  "entities (delete_entity_rows p d) = sql_delete p (entities d)"
  "relationships (delete_entity_rows p d) =
     sql_delete (\<lambda>r. r_source_id r \<in> e_id ` {e \<in> set (entities d). p e}
       \<or> r_target_id r \<in> e_id ` {e \<in> set (entities d). p e}) (relationships d)"
  "memories (delete_entity_rows p d) = memories d"
  "fts_memories (delete_entity_rows p d) = fts_memories d"
  "memory_entities (delete_entity_rows p d) =
     sql_delete (\<lambda>x. snd x \<in> e_id ` {e \<in> set (entities d). p e}) (memory_entities d)"
  unfolding delete_entity_rows_eq by (simp_all add: drop_entities_def)

lemma store_inv_delete_entities: "store_inv d \<Longrightarrow> store_inv (delete_entity_rows p d)"
  by (rule store_inv_same [of d]) (simp_all add: delete_entity_rows_ok store_invD)

lemma delete_entities_inv:
  assumes inv: "graph_inv d"
    and adj: "\<And>r e e'. r \<in> set (relationships d) \<Longrightarrow> e \<in> set (entities d) \<Longrightarrow> p e \<Longrightarrow> touches (e_id e) r
      \<Longrightarrow> e' \<in> set (entities d) \<Longrightarrow> \<not> p e' \<Longrightarrow> touches (e_id e') r \<Longrightarrow> e_id e' \<in> set is"
  shows "graph_inv (recalculate_degrees is (delete_entity_rows p d))"
proof (rule graph_inv_recalculate)
  show "store_inv (delete_entity_rows p d)" by (rule store_inv_delete_entities [OF graph_invD(1) [OF inv]])
  show "graph_typed (delete_entity_rows p d)" using graph_invD(3) [OF inv] by (simp add: graph_typed_def)
  fix e assume "e \<in> set (entities (delete_entity_rows p d))" "e_id e \<notin> set is"
  then have e: "e \<in> set (entities d)" "\<not> p e" "e_id e \<notin> set is" by auto
  have "\<not> touches (e_id e) r" if r: "r \<in> set (relationships d)"
    and hit: "r_source_id r \<in> e_id ` {e \<in> set (entities d). p e} \<or> r_target_id r \<in> e_id ` {e \<in> set (entities d). p e}" for r
  proof
    assume t: "touches (e_id e) r"
    from hit obtain x where "x \<in> set (entities d)" "p x" "touches (e_id x) r" by (auto simp: touches_def)
    from adj [OF r this e(1,2) t] e(3) show False by contradiction
  qed
  then have "degree_in (relationships (delete_entity_rows p d)) (e_id e) = degree_in (relationships d) (e_id e)"
    unfolding delete_entity_rows_sel by (rule degree_in_delete)
  then show "degree_right (relationships (delete_entity_rows p d)) e"
    using graph_invD(4) [OF inv] e(1) by (simp add: degrees_ok_def degree_right_def)
qed

lemma one_id: "i \<in> entity_ids d \<Longrightarrow> e_id ` {e \<in> set (entities d). e_id e = i} = {i}"
  by (auto simp: entity_ids_def)

lemma delete_entity_explicit:
  assumes "i \<in> entity_ids d"
  shows "delete_entity_rows (\<lambda>e. e_id e = i)
      ((delete_relationship_rows (touches i)
        (d\<lparr>memory_relationships := sql_delete (\<lambda>x. snd x \<in> set (map r_id (filter (touches i) (relationships d)))) (memory_relationships d)\<rparr>))
       \<lparr>memory_entities := sql_delete (\<lambda>x. snd x = i) (memory_entities d)\<rparr>)
    = delete_entity_rows (\<lambda>e. e_id e = i) d"
  using one_id [OF assms]
  by (simp add: delete_entity_rows_eq drop_entities_def delete_relationship_rows_eq sql_delete_sql_delete
      touches_def [abs_def] set_gone image_Collect conj_disj_distribR disj_comms cong: conj_cong)

lemma delete_entityE:
  assumes "delete_entity u ns args d = Inr (r, d')"
  obtains name i where "or_else (da_positional args) (da_name args) = Some name"
    "find_entity_id u d ns name = Some i" "i \<in> entity_ids d" "da_cascade args"
    "d' = recalculate_degrees (filter (\<lambda>a. a \<noteq> i) (adjacent_ids i d)) (delete_entity_rows (\<lambda>e. e_id e = i) d)"
    "r = (sql_count (touches i) (relationships d), sql_count (\<lambda>x. snd x = i) (memory_entities d))"
proof -
  from assms obtain name i where name: "or_else (da_positional args) (da_name args) = Some name"
    and i: "find_entity_id u d ns name = Some i" and "da_cascade args"
    by (auto simp: delete_entity_def bind_rust_Inr_iff split: if_splits)
  moreover from i have mem: "i \<in> entity_ids d"
    using entity_id_named_SomeD by (fastforce simp: find_entity_id_def entity_ids_def)
  ultimately show thesis
    using assms delete_entity_explicit [OF mem] that [OF name i mem]
    by (simp add: delete_entity_def ok_or_def Let_def)
qed

lemma adjacent_idsI:
  assumes "r \<in> set (relationships d)" and "touches i r" and "touches j r" and "j \<noteq> i"
  shows "j \<in> set (adjacent_ids i d)"
proof -
  have "j = (if r_source_id r = i then r_target_id r else r_source_id r)"
    using assms(2-4) by (auto simp: touches_def)
  then show ?thesis using assms(1,2) unfolding adjacent_ids_def set_remdups set_map set_filter by blast
qed

text \<open>Claim C24. A confirmed \<^verbatim>\<open>delete-entity\<close> removes exactly the named entity, the edges that touch it and its
  memory bindings, reports how many of each, keeps every memory, and leaves a well-formed graph: in
  particular the degrees of its former neighbours are right.\<close>

theorem delete_entity_effect:
  assumes inv: "graph_inv d" and run: "delete_entity u ns args d = Inr (r, d')"
  shows "graph_inv d' \<and> memories d' = memories d
    \<and> (\<exists>name i. or_else (da_positional args) (da_name args) = Some name \<and> find_entity_id u d ns name = Some i
        \<and> entity_ids d' = entity_ids d - {i}
        \<and> edges d' = {(s, t, rel) \<in> edges d. s \<noteq> i \<and> t \<noteq> i}
        \<and> set (memory_entities d') = {(m, e) \<in> set (memory_entities d). e \<noteq> i}
        \<and> r = (sql_count (touches i) (relationships d), sql_count (\<lambda>x. snd x = i) (memory_entities d)))"
  using run
proof (rule delete_entityE)
  fix name i
  assume name: "or_else (da_positional args) (da_name args) = Some name" "find_entity_id u d ns name = Some i"
    and mem: "i \<in> entity_ids d"
    and d': "d' = recalculate_degrees (filter (\<lambda>a. a \<noteq> i) (adjacent_ids i d)) (delete_entity_rows (\<lambda>e. e_id e = i) d)"
    and r: "r = (sql_count (touches i) (relationships d), sql_count (\<lambda>x. snd x = i) (memory_entities d))"
  have "graph_inv d'" unfolding d'
    by (rule delete_entities_inv [OF inv]) (auto intro: adjacent_idsI)
  moreover have "entity_ids d' = entity_ids d - {i}"
    by (auto simp: d' recalculate_degrees_eq entity_ids_def image_sql_update_same)
  moreover have "edges d' = {(s, t, rel) \<in> edges d. s \<noteq> i \<and> t \<noteq> i}"
    using one_id [OF mem] unfolding d' recalculate_degrees_sel edges_def
    by (auto simp: edge_key_def)
  moreover have "set (memory_entities d') = {(m, e) \<in> set (memory_entities d). e \<noteq> i}"
    using one_id [OF mem] by (auto simp: d')
  ultimately show ?thesis using name r by (auto simp: d')
qed

section \<open>Prune relations\<close>

lemma delete_edges_loop_eq:
  "store_ok d \<Longrightarrow> distinct is \<Longrightarrow>
   delete_edges_loop is d = (sql_count (\<lambda>r. r_id r \<in> set is) (relationships d), delete_relationship_rows (\<lambda>r. r_id r \<in> set is) d)"
proof (induction "is" arbitrary: d)
  case Nil
  then show ?case by (simp add: delete_relationship_rows_none sql_count_def)
next
  case (Cons i "is")
  have "sql_count (\<lambda>r. r_id r = i) rows + sql_count (\<lambda>r. r_id r \<in> set is) (sql_delete (\<lambda>r. r_id r = i) rows)
      = sql_count (\<lambda>r. r_id r = i \<or> r_id r \<in> set is) rows" for rows
    using Cons.prems(2) by (induction rows) auto
  with Cons show ?case
    using delete_relationship_rows_ok [OF Cons.prems(1), of "\<lambda>r. r_id r = i"]
    by (simp add: delete_relationship_by_id_eq delete_relationship_rows_compose)
qed

lemma delete_edge_chunks_loop:
  "delete_edge_chunks cs d = delete_edges_loop (concat cs) d"
proof -
  have app: "delete_edges_loop (xs @ ys) d =
      (case delete_edges_loop xs d of (n, d1) \<Rightarrow> (case delete_edges_loop ys d1 of (m, d2) \<Rightarrow> (n + m, d2)))" for xs ys d
    by (induction xs arbitrary: d) (auto split: prod.splits)
  show ?thesis by (induction cs arbitrary: d) (simp_all add: app split: prod.splits)
qed

lemma delete_by_relation_eq:
  assumes "store_ok d" and p_def: "p = (\<lambda>r. r_namespace r = ns \<and> r_relation r = relation)"
  shows "delete_relationships_by_relation ns relation d =
    (let ids = sort (remdups (map r_source_id (filter p (relationships d)) @ map r_target_id (filter p (relationships d))))
     in ((sql_count p (relationships d), ids), recalculate_degrees ids (delete_relationship_rows p d)))"
proof -
  have dist: "distinct (map r_id (filter p (relationships d)))"
    using store_ok_edge_ids [OF assms(1)] by (simp add: distinct_map_filter)
  have "sql_count (\<lambda>r. r_id r \<in> set (map r_id (filter p (relationships d)))) (relationships d) = sql_count p (relationships d)"
  proof -
    have "filter (\<lambda>r. r_id r \<in> set (map r_id (filter p (relationships d)))) (relationships d) = filter p (relationships d)"
      by (rule filter_cong [OF refl]) (rule selected_iff [OF assms(1)])
    then show ?thesis by (simp add: sql_count_def)
  qed
  then show ?thesis
    unfolding delete_relationships_by_relation_def Let_def delete_edge_chunks_loop
    using delete_edges_loop_eq [OF assms(1) dist] selected_ids [OF assms(1), of p]
    by (simp add: p_def)
qed

lemma prune_inv:
  assumes inv: "graph_inv d"
  shows "graph_inv (snd (prune_relations ns args d))"
proof -
  let ?p = "\<lambda>r. r_namespace r = ns \<and> r_relation r = pr_relation args"
  have "graph_inv (recalculate_degrees (sort (remdups (map r_source_id (filter ?p (relationships d))
      @ map r_target_id (filter ?p (relationships d))))) (delete_relationship_rows ?p d))"
    by (rule delete_edges_inv [OF inv]) auto
  then show ?thesis
    using inv by (simp add: prune_relations_def delete_by_relation_eq [OF graph_invD(2) [OF inv] refl] Let_def)
qed

section \<open>A concrete run\<close>

theorem delete_entity_effect_witness:
  "graph_inv sample_graph
   \<and> (\<exists>r d'. delete_entity ascii_unicode ''global'' \<lparr>da_positional = None, da_name = Some ''alice'', da_cascade = True\<rparr>
          sample_graph = Inr (r, d')
        \<and> graph_inv d' \<and> entity_ids d' = {2} \<and> edges d' = {} \<and> r = (1, 0))"
proof -
  obtain r d' where run: "delete_entity ascii_unicode ''global''
      \<lparr>da_positional = None, da_name = Some ''alice'', da_cascade = True\<rparr> sample_graph = Inr (r, d')"
    by (simp add: delete_entity_def or_else_def ok_or_def sample_find Let_def)
  have "entity_ids sample_graph = {1, 2}" "edges sample_graph = {(1, 2, ''supports'')}"
    "sql_count (touches 1) (relationships sample_graph) = 1" "memory_entities sample_graph = []"
    by (auto simp: entity_ids_def edges_def sample_graph_def edge_key_def entity_of_new_def touches_def empty_db_def)
  then show ?thesis
    using delete_entity_effect [OF sample_graph_inv run] run sample_graph_inv
    by (auto simp: or_else_def sample_find)
qed

end
