(* ===== verification/Merge_Correct.thy ===== *)
theory Merge_Correct
  imports Entity_Deletes
begin

text \<open>
  \<^verbatim>\<open>merge-entities\<close> against its specification: seen as a set of labelled edges and a set of
  bindings, merging is the quotient that sends every source entity to the target, without the
  self-loops this creates.
\<close>

section \<open>Update or ignore\<close>

lemma snd_update_or_ignore [simp]:
  "snd (update_or_ignore k p f seen (r # rest)) =
     (if p r \<and> k (f r) \<notin> k ` set (seen @ rest) then snd (update_or_ignore k p f (seen @ [f r]) rest)
      else snd (update_or_ignore k p f (seen @ [r]) rest))"
  by (simp split: prod.split)

declare update_or_ignore.simps(2) [simp del]

lemma update_or_ignore_ids:
  assumes "\<And>r. h (f r) = h r"
  shows "map h (snd (update_or_ignore k p f seen rows)) = map h (seen @ rows)"
proof (induction rows arbitrary: seen)
  case (Cons r rows)
  show ?case
    using Cons [of "seen @ [f r]"] Cons [of "seen @ [r]"] assms by simp
qed simp

lemma update_or_ignore_distinct:
  "distinct (map k (seen @ rows)) \<Longrightarrow> distinct (map k (snd (update_or_ignore k p f seen rows)))"
proof (induction rows arbitrary: seen)
  case (Cons r rows)
  show ?case
  proof (cases "p r \<and> k (f r) \<notin> k ` set (seen @ rows)")
    case True
    then have "distinct (map k ((seen @ [f r]) @ rows))" using Cons.prems by auto
    from Cons.IH [OF this] True show ?thesis by simp
  next
    case False
    then show ?thesis using Cons.IH [of "seen @ [r]"] Cons.prems by auto
  qed
qed simp

lemma update_or_ignore_member:
  "r \<in> set (snd (update_or_ignore k p f seen rows)) \<Longrightarrow>
   r \<in> set seen \<or> r \<in> set rows \<or> (\<exists>x \<in> set rows. p x \<and> r = f x)"
proof (induction rows arbitrary: seen)
  case (Cons x rows)
  show ?case
  proof (cases "p x \<and> k (f x) \<notin> k ` set (seen @ rows)")
    case True
    then have "r \<in> set (snd (update_or_ignore k p f (seen @ [f x]) rows))"
      using Cons.prems by simp
    from Cons.IH [OF this] True show ?thesis by auto
  next
    case False
    then have "r \<in> set (snd (update_or_ignore k p f (seen @ [x]) rows))" using Cons.prems by auto
    from Cons.IH [OF this] show ?thesis by auto
  qed
qed simp

text \<open>Where the selected rows are those whose key satisfies \<open>P\<close> and no new key does, the keys of the
  rows that remain unselected are the old unselected keys and the new ones: a conflicting row is
  dropped without loss of its new key.\<close>

lemma update_or_ignore_keys:
  assumes sel: "\<And>r. p r \<longleftrightarrow> P (k r)" and new: "\<And>r. p r \<Longrightarrow> \<not> P (k (f r))"
  shows "k ` {r \<in> set (snd (update_or_ignore k p f seen rows)). \<not> p r} =
    k ` {r \<in> set seen. \<not> p r} \<union> k ` {r \<in> set rows. \<not> p r} \<union> k ` f ` {r \<in> set rows. p r}"
proof (induction rows arbitrary: seen)
  case (Cons r rows)
  show ?case
  proof (cases "p r \<and> k (f r) \<notin> k ` set (seen @ rows)")
    case True
    then have "\<not> p (f r)" using new sel by blast
    then have "{x \<in> set (seen @ [f r]). \<not> p x} = insert (f r) {x \<in> set seen. \<not> p x}"
      "{x \<in> set (r # rows). \<not> p x} = {x \<in> set rows. \<not> p x}"
      "{x \<in> set (r # rows). p x} = insert r {x \<in> set rows. p x}" using True by auto
    then show ?thesis using Cons.IH [of "seen @ [f r]"] True by simp
  next
    case False
    then have step: "snd (update_or_ignore k p f seen (r # rows)) = snd (update_or_ignore k p f (seen @ [r]) rows)"
      by auto
    show ?thesis
    proof (cases "p r")
      case True
      with False obtain x where x: "x \<in> set (seen @ rows)" "k x = k (f r)" by force
      then have "\<not> p x" using new [OF True] sel by metis
      then have "k (f r) \<in> k ` {r \<in> set seen. \<not> p r} \<union> k ` {r \<in> set rows. \<not> p r}" using x by (metis (mono_tags, lifting) Un_iff image_eqI mem_Collect_eq set_append)
      with True show ?thesis unfolding step Cons.IH by auto
    qed (auto simp: step Cons.IH)
  qed
qed simp

section \<open>Retargeting edges\<close>

definition quotient :: "int \<Rightarrow> int \<Rightarrow> int \<Rightarrow> int" where
  "quotient target src x = (if x = src then target else x)"

lemma retarget_sel:
  "snd (update_or_ignore_relationships now p f d) =
     d\<lparr>relationships := snd (update_or_ignore edge_key p (\<lambda>r. (f r)\<lparr>r_updated_at := now\<rparr>) [] (relationships d))\<rparr>"
  by (simp add: update_or_ignore_relationships_def split: prod.splits)

text \<open>One retargeting step with the deletion of what it skipped, for the source and the target column.\<close>

definition retarget :: "int \<Rightarrow> (relationship_row \<Rightarrow> bool) \<Rightarrow> (relationship_row \<Rightarrow> relationship_row) \<Rightarrow> db \<Rightarrow> db" where
  "retarget now p f d = delete_relationship_rows p (snd (update_or_ignore_relationships now p f d))"

lemma merge_edges_step:
  "snd (merge_edges now target (src # rest) d) =
     snd (merge_edges now target rest
       (retarget now (\<lambda>r. r_target_id r = src) (\<lambda>r. r\<lparr>r_target_id := target\<rparr>)
         (retarget now (\<lambda>r. r_source_id r = src) (\<lambda>r. r\<lparr>r_source_id := target\<rparr>) d)))"
  by (simp add: retarget_def split: prod.splits)

lemma retarget_ok:
  assumes ok: "store_ok d"
    and id: "\<And>r. r_id (f r) = r_id r"
    and ends: "\<And>r. r \<in> set (relationships d) \<Longrightarrow> p r \<Longrightarrow> r_source_id (f r) \<in> entity_ids d \<and> r_target_id (f r) \<in> entity_ids d"
  shows "store_ok (retarget now p f d)"
proof -
  let ?rows = "snd (update_or_ignore edge_key p (\<lambda>r. (f r)\<lparr>r_updated_at := now\<rparr>) [] (relationships d))"
  have "map r_id ?rows = map r_id ([] @ relationships d)" by (rule update_or_ignore_ids) (simp add: id)
  moreover have "distinct (map edge_key ?rows)"
    by (rule update_or_ignore_distinct) (simp add: store_ok_edges_distinct [OF ok])
  moreover have "r_source_id r \<in> entity_ids d \<and> r_target_id r \<in> entity_ids d" if "r \<in> set ?rows" for r
    using update_or_ignore_member [OF that] ends store_ok_endpoints [OF ok] by auto
  ultimately have "store_ok (snd (update_or_ignore_relationships now p f d))"
    unfolding retarget_sel by (intro store_ok_relationships [OF ok]) simp_all
  then show ?thesis unfolding retarget_def by (rule delete_relationship_rows_ok)
qed

lemma retarget_sel2 [simp]:
  "entities (retarget now p f d) = entities d" "memories (retarget now p f d) = memories d"
  "fts_memories (retarget now p f d) = fts_memories d" "memory_entities (retarget now p f d) = memory_entities d"
  by (simp_all add: retarget_def retarget_sel)

lemma retarget_edges:
  assumes sel: "\<And>r. p r \<longleftrightarrow> P (edge_key r)" and new: "\<And>r. p r \<Longrightarrow> \<not> P (edge_key (f r))"
    and g: "\<And>r. edge_key (f r) = g (edge_key r)"
  shows "edges (retarget now p f d) = (\<lambda>k. if P k then g k else k) ` edges d"
proof -
  let ?f = "\<lambda>r. (f r)\<lparr>r_updated_at := now\<rparr>"
  have key: "edge_key (?f r) = edge_key (f r)" for r by (simp add: edge_key_def)
  have "edges (retarget now p f d) =
      edge_key ` {r \<in> set (snd (update_or_ignore edge_key p ?f [] (relationships d))). \<not> p r}"
    by (simp add: retarget_def edges_delete retarget_sel)
  also have "\<dots> = edge_key ` {r \<in> set (relationships d). \<not> p r} \<union> edge_key ` ?f ` {r \<in> set (relationships d). p r}"
    using update_or_ignore_keys [of p P edge_key ?f "[]" "relationships d"] sel new key by simp
  also have "edge_key ` {r \<in> set (relationships d). \<not> p r}
      = (\<lambda>r. if P (edge_key r) then g (edge_key r) else edge_key r) ` {r \<in> set (relationships d). \<not> p r}"
    by (rule image_cong) (simp_all add: sel)
  also have "edge_key ` ?f ` {r \<in> set (relationships d). p r}
      = (\<lambda>r. if P (edge_key r) then g (edge_key r) else edge_key r) ` {r \<in> set (relationships d). p r}"
    unfolding image_image by (rule image_cong) (simp_all add: sel key g)
  also have "(\<lambda>r. if P (edge_key r) then g (edge_key r) else edge_key r) ` {r \<in> set (relationships d). \<not> p r}
      \<union> (\<lambda>r. if P (edge_key r) then g (edge_key r) else edge_key r) ` {r \<in> set (relationships d). p r}
      = (\<lambda>r. if P (edge_key r) then g (edge_key r) else edge_key r) ` set (relationships d)"
    unfolding image_Un [symmetric] by (rule arg_cong) blast
  finally show ?thesis unfolding edges_def image_image .
qed

definition rows_typed :: "db \<Rightarrow> bool" where
  "rows_typed d \<longleftrightarrow> (\<forall>r \<in> set (relationships d). is_canonical_relation (r_relation r) \<and> weight_ok (r_weight r))"

lemma retarget_typed:
  assumes typed: "rows_typed d" and f: "\<And>r. r_relation (f r) = r_relation r" "\<And>r. r_weight (f r) = r_weight r"
  shows "rows_typed (retarget now p f d)"
  unfolding rows_typed_def
proof
  fix r assume "r \<in> set (relationships (retarget now p f d))"
  then have "r \<in> set (snd (update_or_ignore edge_key p (\<lambda>r. (f r)\<lparr>r_updated_at := now\<rparr>) [] (relationships d)))"
    by (simp add: retarget_def retarget_sel)
  from update_or_ignore_member [OF this] obtain x where "x \<in> set (relationships d)"
    "r_relation r = r_relation x" "r_weight r = r_weight x" using f by auto
  then show "is_canonical_relation (r_relation r) \<and> weight_ok (r_weight r)"
    using typed by (simp add: rows_typed_def)
qed

definition merged_id :: "int \<Rightarrow> int list \<Rightarrow> int \<Rightarrow> int" where
  "merged_id target sources x = (if x \<in> set sources then target else x)"

definition merged_edge :: "int \<Rightarrow> int list \<Rightarrow> int \<times> int \<times> string \<Rightarrow> int \<times> int \<times> string" where
  "merged_edge target sources k = (case k of (s, t, rel) \<Rightarrow> (merged_id target sources s, merged_id target sources t, rel))"

definition same_nodes :: "db \<Rightarrow> db \<Rightarrow> bool" where
  "same_nodes d d' \<longleftrightarrow> entities d' = entities d \<and> memories d' = memories d \<and> fts_memories d' = fts_memories d
     \<and> memory_entities d' = memory_entities d"

lemma same_nodes_retarget: "same_nodes d (retarget now p f d)"
  by (simp add: same_nodes_def)

lemma same_nodes_trans: "same_nodes d d' \<Longrightarrow> same_nodes d' d'' \<Longrightarrow> same_nodes d d''"
  by (simp add: same_nodes_def)

text \<open>Both columns of one source.\<close>

lemma retarget_both:
  assumes ok: "store_ok d" and target: "target \<in> entity_ids d" "target \<noteq> src"
    and d1_def: "d1 = retarget now (\<lambda>r. r_source_id r = src) (\<lambda>r. r\<lparr>r_source_id := target\<rparr>) d"
    and d2_def: "d2 = retarget now (\<lambda>r. r_target_id r = src) (\<lambda>r. r\<lparr>r_target_id := target\<rparr>) d1"
  shows "store_ok d2" and "rows_typed d \<Longrightarrow> rows_typed d2" and "same_nodes d d2"
    and "edges d2 = merged_edge target [src] ` edges d"
proof -
  have ok1: "store_ok d1" unfolding d1_def
    by (rule retarget_ok [OF ok]) (use target store_ok_endpoints [OF ok] in auto)
  have ids: "entity_ids d1 = entity_ids d" by (simp add: d1_def entity_ids_def)
  show "store_ok d2" unfolding d2_def
    by (rule retarget_ok [OF ok1]) (use target store_ok_endpoints [OF ok1] ids in auto)
  show "rows_typed d2" if typed: "rows_typed d"
  proof -
    have "rows_typed d1" unfolding d1_def by (rule retarget_typed [OF typed]) simp_all
    then show ?thesis unfolding d2_def by (rule retarget_typed) simp_all
  qed
  show "same_nodes d d2" unfolding d2_def d1_def by (rule same_nodes_trans [OF same_nodes_retarget same_nodes_retarget])
  have e1: "edges d1 = (\<lambda>k. if fst k = src then (\<lambda>(s, t, rel). (target, t, rel)) k else k) ` edges d"
    unfolding d1_def by (rule retarget_edges) (use target(2) in \<open>auto simp: edge_key_def\<close>)
  have e2: "edges d2 = (\<lambda>k. if fst (snd k) = src then (\<lambda>(s, t, rel). (s, target, rel)) k else k) ` edges d1"
    unfolding d2_def by (rule retarget_edges) (use target(2) in \<open>auto simp: edge_key_def\<close>)
  show "edges d2 = merged_edge target [src] ` edges d"
    unfolding e2 e1 image_image by (rule image_cong [OF refl]) (auto simp: merged_edge_def merged_id_def)
qed

lemma merge_edges_effect:
  assumes "store_ok d" and "target \<in> entity_ids d" and "target \<notin> set sources"
  shows "store_ok (snd (merge_edges now target sources d))
    \<and> (rows_typed d \<longrightarrow> rows_typed (snd (merge_edges now target sources d)))
    \<and> same_nodes d (snd (merge_edges now target sources d))
    \<and> edges (snd (merge_edges now target sources d)) = merged_edge target sources ` edges d"
  using assms
proof (induction sources arbitrary: d)
  case Nil
  then show ?case by (simp add: same_nodes_def merged_edge_def merged_id_def split_beta)
next
  case (Cons src rest)
  let ?d = "retarget now (\<lambda>r. r_target_id r = src) (\<lambda>r. r\<lparr>r_target_id := target\<rparr>)
         (retarget now (\<lambda>r. r_source_id r = src) (\<lambda>r. r\<lparr>r_source_id := target\<rparr>) d)"
  from Cons.prems have t: "target \<noteq> src" "target \<notin> set rest" by auto
  note step = retarget_both [OF Cons.prems(1,2) t(1) refl refl, of now]
  have "target \<in> entity_ids ?d" using Cons.prems(2) step(3) by (simp add: entity_ids_def)
  note ih = Cons.IH [OF step(1) this t(2)]
  have "merged_edge target rest (merged_edge target [src] k) = merged_edge target (src # rest) k" for k
    using t(2) by (auto simp: merged_edge_def merged_id_def split: prod.splits)
  then show ?case
    using ih step(2,3,4) same_nodes_trans [OF step(3)] unfolding merge_edges_step
    by (simp add: image_image)
qed

section \<open>Bindings and entities\<close>

definition merged_binding :: "int \<Rightarrow> int list \<Rightarrow> int \<times> int \<Rightarrow> int \<times> int" where
  "merged_binding target sources x = (fst x, merged_id target sources (snd x))"

lemma store_ok_bindings:
  assumes "store_ok d" and "distinct xs" and "\<And>x. x \<in> set xs \<Longrightarrow> fst x \<in> memory_ids d \<and> snd x \<in> entity_ids d"
  shows "store_ok (d\<lparr>memory_entities := xs\<rparr>)"
proof -
  have "fst ` set xs \<subseteq> memory_ids d" "snd ` set xs \<subseteq> entity_ids d" using assms(3) by auto
  with assms(1,2) show ?thesis
    by (simp add: store_defs memory_ids_def chunk_ids_def relationship_ids_def entity_ids_def)
qed

lemma binding_step:
  assumes ok: "store_ok d" and target: "target \<in> entity_ids d" "target \<noteq> src"
    and xs_def: "xs = sql_delete (\<lambda>x. snd x = src)
     (snd (update_or_ignore (\<lambda>x. x) (\<lambda>x. snd x = src) (\<lambda>x. (fst x, target)) [] (memory_entities d)))"
  shows "store_ok (d\<lparr>memory_entities := xs\<rparr>)" and "set xs = merged_binding target [src] ` set (memory_entities d)"
proof -
  let ?ys = "snd (update_or_ignore (\<lambda>x. x) (\<lambda>x. snd x = src) (\<lambda>x. (fst x, target)) [] (memory_entities d))"
  have fk: "fst x \<in> memory_ids d \<and> snd x \<in> entity_ids d" if "x \<in> set (memory_entities d)" for x
    using ok that by (auto simp: store_defs)
  have "distinct (map (\<lambda>x. x) ?ys)"
    by (rule update_or_ignore_distinct) (use ok in \<open>simp add: store_defs\<close>)
  then have "distinct xs" by (simp add: xs_def distinct_sql_delete)
  moreover have "fst x \<in> memory_ids d \<and> snd x \<in> entity_ids d" if "x \<in> set xs" for x
  proof -
    from that have "x \<in> set ?ys" by (simp add: xs_def)
    from update_or_ignore_member [OF this] show ?thesis
      using fk target(1) by (metis empty_iff fst_conv list.set(1) snd_conv)
  qed
  ultimately show "store_ok (d\<lparr>memory_entities := xs\<rparr>)" by (rule store_ok_bindings [OF ok])
  have "set xs = (\<lambda>x. x) ` {x \<in> set ?ys. \<not> snd x = src}" by (simp add: xs_def)
  also have "\<dots> = (\<lambda>x. x) ` {r \<in> set []. \<not> snd r = src} \<union> (\<lambda>x. x) ` {r \<in> set (memory_entities d). \<not> snd r = src}
      \<union> (\<lambda>x. x) ` (\<lambda>x. (fst x, target)) ` {r \<in> set (memory_entities d). snd r = src}"
    by (rule update_or_ignore_keys [where P = "\<lambda>x. snd x = src"]) (use target(2) in auto)
  also have "(\<lambda>x. x) ` {r \<in> set (memory_entities d). \<not> snd r = src}
      = merged_binding target [src] ` {r \<in> set (memory_entities d). \<not> snd r = src}"
    by (rule image_cong) (simp_all add: merged_binding_def merged_id_def)
  also have "(\<lambda>x. x) ` (\<lambda>x. (fst x, target)) ` {r \<in> set (memory_entities d). snd r = src}
      = merged_binding target [src] ` {r \<in> set (memory_entities d). snd r = src}"
    unfolding image_image by (rule image_cong) (simp_all add: merged_binding_def merged_id_def)
  also have "(\<lambda>x. x) ` {r \<in> set []. \<not> snd r = src}
      \<union> merged_binding target [src] ` {r \<in> set (memory_entities d). \<not> snd r = src}
      \<union> merged_binding target [src] ` {r \<in> set (memory_entities d). snd r = src}
      = merged_binding target [src] ` set (memory_entities d)"
    by (simp flip: image_Un) (rule arg_cong, blast)
  finally show "set xs = merged_binding target [src] ` set (memory_entities d)" .
qed

definition same_graph :: "db \<Rightarrow> db \<Rightarrow> bool" where
  "same_graph d d' \<longleftrightarrow> entities d' = entities d \<and> memories d' = memories d \<and> fts_memories d' = fts_memories d
     \<and> relationships d' = relationships d"

lemma merge_bindings_effect:
  assumes "store_ok d" and "target \<in> entity_ids d" and "target \<notin> set sources"
  shows "store_ok (merge_bindings target sources d) \<and> same_graph d (merge_bindings target sources d)
    \<and> set (memory_entities (merge_bindings target sources d)) = merged_binding target sources ` set (memory_entities d)"
  using assms
proof (induction sources arbitrary: d)
  case Nil
  then show ?case by (simp add: same_graph_def merged_binding_def merged_id_def)
next
  case (Cons src rest)
  let ?d = "d\<lparr>memory_entities := sql_delete (\<lambda>x. snd x = src)
     (snd (update_or_ignore (\<lambda>x. x) (\<lambda>x. snd x = src) (\<lambda>x. (fst x, target)) [] (memory_entities d)))\<rparr>"
  from Cons.prems have t: "target \<noteq> src" "target \<notin> set rest" by auto
  note step = binding_step [OF Cons.prems(1,2) t(1) refl]
  have "target \<in> entity_ids ?d" using Cons.prems(2) by (simp add: entity_ids_def)
  note ih = Cons.IH [OF step(1) this t(2)]
  have "merged_binding target rest (merged_binding target [src] x) = merged_binding target (src # rest) x" for x
    using t(2) by (auto simp: merged_binding_def merged_id_def)
  then show ?case using ih step(2) by (simp add: same_graph_def image_image)
qed

lemma drop_duplicate_edges_id:
  assumes "store_ok d"
  shows "drop_duplicate_edges d = d"
  unfolding drop_duplicate_edges_def
proof (rule delete_relationship_rows_none)
  fix r assume "r \<in> set (relationships d)"
  then have "r' = r" if "r' \<in> set (relationships d)" "edge_key r' = edge_key r" for r'
    using that store_ok_edges_distinct [OF assms] by (auto simp: distinct_map inj_on_def)
  then show "\<not> (\<exists>r' \<in> set (relationships d). edge_key r' = edge_key r \<and> r_id r' < r_id r)" by auto
qed

lemma drop_duplicate_bindings_id: "store_ok d \<Longrightarrow> drop_duplicate_bindings d = d"
  by (simp add: drop_duplicate_bindings_def store_defs distinct_remdups_id)

lemma delete_source_entities_eq: "delete_source_entities is d = delete_entities_by_ids is d"
  by (induction "is" arbitrary: d) simp_all

lemma snd_delete_entities_by_ids:
  "snd (delete_entities_by_ids (i # is) d) = snd (delete_entities_by_ids is (delete_entity_rows (\<lambda>e. e_id e = i) d))"
  by (simp split: prod.split)

lemma delete_untouched:
  assumes "store_ok d" and "\<And>r i. r \<in> set (relationships d) \<Longrightarrow> i \<in> set is \<Longrightarrow> \<not> touches i r"
    and "\<And>x. x \<in> set (memory_entities d) \<Longrightarrow> snd x \<notin> set is"
  shows "store_ok (snd (delete_entities_by_ids is d))
    \<and> relationships (snd (delete_entities_by_ids is d)) = relationships d
    \<and> entities (snd (delete_entities_by_ids is d)) = sql_delete (\<lambda>e. e_id e \<in> set is) (entities d)
    \<and> memory_entities (snd (delete_entities_by_ids is d)) = memory_entities d
    \<and> memories (snd (delete_entities_by_ids is d)) = memories d
    \<and> fts_memories (snd (delete_entities_by_ids is d)) = fts_memories d"
  using assms
proof (induction "is" arbitrary: d)
  case Nil
  then show ?case by (simp add: sql_delete_none)
next
  case (Cons i "is")
  let ?d = "delete_entity_rows (\<lambda>e. e_id e = i) d"
  have rels: "relationships ?d = relationships d"
    unfolding delete_entity_rows_sel
    by (rule sql_delete_none) (use Cons.prems(2) in \<open>force simp: touches_def\<close>)
  have mem: "memory_entities ?d = memory_entities d"
    unfolding delete_entity_rows_sel
    by (rule sql_delete_none) (use Cons.prems(3) in fastforce)
  have ok: "store_ok ?d" by (rule delete_entity_rows_ok [OF Cons.prems(1)])
  have "\<not> touches j r" if "r \<in> set (relationships ?d)" "j \<in> set is" for r j
    using Cons.prems(2) that unfolding rels by simp
  moreover have "snd x \<notin> set is" if "x \<in> set (memory_entities ?d)" for x
    using Cons.prems(3) that unfolding mem by simp
  ultimately show ?case
    using Cons.IH [OF ok] unfolding snd_delete_entities_by_ids rels mem delete_entity_rows_sel(1,3,4)
      sql_delete_sql_delete by simp
qed

section \<open>Degrees from the set of edges\<close>

definition edges_at :: "int \<Rightarrow> (int \<times> int \<times> string) set \<Rightarrow> (int \<times> int \<times> string) set" where
  "edges_at i E = {(s, t, rel) \<in> E. s = i \<or> t = i}"

lemma degree_in_card:
  assumes "store_ok d"
  shows "degree_in (relationships d) i = int (card (edges_at i (edges d)))"
proof -
  have "distinct (map edge_key (filter (touches i) (relationships d)))"
    using store_ok_edges_distinct [OF assms] by (rule distinct_map_filter)
  from distinct_card [OF this]
  have "card (edge_key ` {r \<in> set (relationships d). touches i r}) = sql_count (touches i) (relationships d)"
    by (simp add: sql_count_def)
  moreover have "edge_key ` {r \<in> set (relationships d). touches i r} = edges_at i (edges d)"
    by (auto simp: edges_at_def edges_def touches_def edge_key_def)
  ultimately show ?thesis by (simp add: degree_in_def)
qed

text \<open>An entity with no edge to the merged ones keeps its edges.\<close>

lemma merged_edges_at:
  assumes loops: "\<And>s t rel. (s, t, rel) \<in> E \<Longrightarrow> s \<noteq> t"
    and E': "E' = {k \<in> merged_edge target sources ` E. fst k \<noteq> fst (snd k)}"
    and i: "i \<noteq> target" "i \<notin> set sources"
    and far: "\<And>rel. (i, target, rel) \<notin> E'" "\<And>rel. (target, i, rel) \<notin> E'"
  shows "edges_at i E' = edges_at i E"
proof -
  have image: "merged_edge target sources (s, t, rel) \<in> E'" if "(s, t, rel) \<in> E" "s = i \<or> t = i"
      "s \<notin> set sources" "t \<notin> set sources" for s t rel
  proof -
    have "merged_edge target sources (s, t, rel) \<in> merged_edge target sources ` E" using that(1) by (rule imageI)
    moreover have "merged_edge target sources (s, t, rel) = (s, t, rel)"
      using that(3,4) by (simp add: merged_edge_def merged_id_def)
    ultimately show ?thesis using loops [OF that(1)] by (simp add: E')
  qed
  have near: "s \<notin> set sources \<and> t \<notin> set sources" if E: "(s, t, rel) \<in> E" and at: "s = i \<or> t = i" for s t rel
  proof (rule ccontr)
    assume "\<not> (s \<notin> set sources \<and> t \<notin> set sources)"
    then have "merged_edge target sources (s, t, rel) = (i, target, rel) \<or> merged_edge target sources (s, t, rel) = (target, i, rel)"
      using at i by (auto simp: merged_edge_def merged_id_def)
    moreover have "merged_edge target sources (s, t, rel) \<in> merged_edge target sources ` E" using E by (rule imageI)
    ultimately have "(i, target, rel) \<in> merged_edge target sources ` E \<or> (target, i, rel) \<in> merged_edge target sources ` E"
      by metis
    then show False using far [of rel] i(1) unfolding E' by simp
  qed
  show ?thesis
  proof
    show "edges_at i E' \<subseteq> edges_at i E"
    proof
      fix k assume "k \<in> edges_at i E'"
      then obtain s t rel where E: "(s, t, rel) \<in> E" and k: "k = merged_edge target sources (s, t, rel)"
        and at: "merged_id target sources s = i \<or> merged_id target sources t = i"
        by (auto simp: edges_at_def E' merged_edge_def)
      from at i have "s = i \<or> t = i" by (auto simp: merged_id_def split: if_splits)
      with near [OF E] k E show "k \<in> edges_at i E" by (auto simp: edges_at_def merged_edge_def merged_id_def)
    qed
    show "edges_at i E \<subseteq> edges_at i E'"
    proof
      fix k assume "k \<in> edges_at i E"
      then obtain s t rel where k: "k = (s, t, rel)" and E: "(s, t, rel) \<in> E" and at: "s = i \<or> t = i"
        by (auto simp: edges_at_def)
      have "merged_edge target sources k = k" using near [OF E at] by (simp add: k merged_edge_def merged_id_def)
      then show "k \<in> edges_at i E'" using image [OF E at] near [OF E at] at by (auto simp: k edges_at_def)
    qed
  qed
qed

section \<open>The merge\<close>

lemma snd_merge_tx:
  "snd (snd (merge_tx now target sources d)) =
     (let d2 = snd (delete_entities_by_ids sources (drop_duplicate_bindings (merge_bindings target sources
                (drop_duplicate_edges (drop_self_loops (snd (merge_edges now target sources d)))))))
      in recalculate_degrees (target # adjacent_ids target d2) d2)"
  by (simp add: merge_tx_def delete_source_entities_eq recalculate_degrees_def Let_def split: prod.split)

definition merge_core :: "int \<Rightarrow> int \<Rightarrow> int list \<Rightarrow> db \<Rightarrow> db" where
  "merge_core now target sources d =
     snd (delete_entities_by_ids sources (merge_bindings target sources (drop_self_loops (snd (merge_edges now target sources d)))))"

lemma merge_tables:
  assumes ok: "store_ok d" and target: "target \<in> entity_ids d" "target \<notin> set sources"
    and d2_def: "d2 = merge_core now target sources d"
  shows "store_ok d2" and "memories d2 = memories d" and "fts_memories d2 = fts_memories d"
    and "entities d2 = sql_delete (\<lambda>e. e_id e \<in> set sources) (entities d)"
    and "edges d2 = {k \<in> merged_edge target sources ` edges d. fst k \<noteq> fst (snd k)}"
    and "set (memory_entities d2) = merged_binding target sources ` set (memory_entities d)"
    and "\<And>r. rows_typed d \<Longrightarrow> r \<in> set (relationships d2) \<Longrightarrow> edge_typed_ok r"
    and "snd (snd (merge_tx now target sources d)) = recalculate_degrees (target # adjacent_ids target d2) d2"
proof -
  define d1 where "d1 = drop_self_loops (snd (merge_edges now target sources d))"
  note m = merge_edges_effect [OF ok target, of now]
  have ok1: "store_ok d1" unfolding d1_def drop_self_loops_def using m by (simp add: delete_relationship_rows_ok)
  have dE: "drop_duplicate_edges d1 = d1" by (rule drop_duplicate_edges_id [OF ok1])
  have n1: "entities d1 = entities d" "memories d1 = memories d" "fts_memories d1 = fts_memories d"
    "memory_entities d1 = memory_entities d"
    using m by (simp_all add: d1_def drop_self_loops_def same_nodes_def)
  have e1: "edges d1 = {k \<in> merged_edge target sources ` edges d. fst k \<noteq> fst (snd k)}"
    using m edges_delete_key [of "\<lambda>r. r_source_id r = r_target_id r" "\<lambda>k. fst k = fst (snd k)"]
    by (simp add: d1_def drop_self_loops_def edge_key_def)
  have t1: "edge_typed_ok r" if "rows_typed d" "r \<in> set (relationships d1)" for r
  proof -
    have "rows_typed (snd (merge_edges now target sources d))" using m that(1) by blast
    with that(2) show ?thesis by (simp add: d1_def drop_self_loops_def rows_typed_def edge_typed_ok_def)
  qed
  have "target \<in> entity_ids d1" using target n1 by (simp add: entity_ids_def)
  note b = merge_bindings_effect [OF ok1 this target(2)]
  have dB: "drop_duplicate_bindings (merge_bindings target sources d1) = merge_bindings target sources d1"
    using b by (simp add: drop_duplicate_bindings_id)
  have core: "d2 = snd (delete_entities_by_ids sources (merge_bindings target sources d1))"
    unfolding d2_def merge_core_def d1_def ..
  show "snd (snd (merge_tx now target sources d)) = recalculate_degrees (target # adjacent_ids target d2) d2"
    unfolding snd_merge_tx Let_def d1_def [symmetric] dE dB core ..
  have free: "\<not> touches i r" if r: "r \<in> set (relationships d1)" and i: "i \<in> set sources" for r i
  proof -
    have "edge_key r \<in> edges d1" using r by (simp add: edges_def)
    then have "edge_key r \<in> merged_edge target sources ` edges d" unfolding e1 by blast
    then show ?thesis using i target(2)
      by (auto simp: touches_def edge_key_def merged_edge_def merged_id_def split: if_splits)
  qed
  have bound: "snd x \<notin> set sources" if "x \<in> set (memory_entities (merge_bindings target sources d1))" for x
  proof -
    from that b have "x \<in> merged_binding target sources ` set (memory_entities d1)" by simp
    then show ?thesis using target(2) by (auto simp: merged_binding_def merged_id_def split: if_splits)
  qed
  have rels: "relationships (merge_bindings target sources d1) = relationships d1"
    "entities (merge_bindings target sources d1) = entities d1" "memories (merge_bindings target sources d1) = memories d1"
    "fts_memories (merge_bindings target sources d1) = fts_memories d1" using b by (simp_all add: same_graph_def)
  have "store_ok d2 \<and> relationships d2 = relationships d1
    \<and> entities d2 = sql_delete (\<lambda>e. e_id e \<in> set sources) (entities d1)
    \<and> memory_entities d2 = memory_entities (merge_bindings target sources d1)
    \<and> memories d2 = memories d1 \<and> fts_memories d2 = fts_memories d1"
    unfolding core
    using delete_untouched [OF conjunct1 [OF b], of sources, unfolded rels] free bound by blast
  then show "store_ok d2" "memories d2 = memories d" "fts_memories d2 = fts_memories d"
    "entities d2 = sql_delete (\<lambda>e. e_id e \<in> set sources) (entities d)"
    "edges d2 = {k \<in> merged_edge target sources ` edges d. fst k \<noteq> fst (snd k)}"
    "set (memory_entities d2) = merged_binding target sources ` set (memory_entities d)"
    "\<And>r. rows_typed d \<Longrightarrow> r \<in> set (relationships d2) \<Longrightarrow> edge_typed_ok r"
    using n1 e1 b t1 by (simp_all add: edges_def)
qed

lemma graph_rows_typed: "graph_inv d \<Longrightarrow> rows_typed d"
  by (drule graph_invD(3)) (simp add: graph_typed_def rows_typed_def edge_typed_ok_def)

lemma merge_tx_inv:
  assumes inv: "graph_inv d" and target: "target \<in> entity_ids d" "target \<notin> set sources"
  shows "graph_inv (snd (snd (merge_tx now target sources d)))"
proof -
  define d2 where "d2 = merge_core now target sources d"
  note t = merge_tables [OF graph_invD(2) [OF inv] target d2_def]
  have "graph_inv (recalculate_degrees (target # adjacent_ids target d2) d2)"
  proof (rule graph_inv_recalculate)
    show "store_inv d2" by (rule store_inv_same [OF graph_invD(1) [OF inv] t(1,2,3)])
    show "graph_typed d2"
      using graph_invD(3) [OF inv] t(4) t(7) [OF graph_rows_typed [OF inv]] by (simp add: graph_typed_def)
    fix e assume e: "e \<in> set (entities d2)" "e_id e \<notin> set (target # adjacent_ids target d2)"
    then have old: "e \<in> set (entities d)" and fresh: "e_id e \<noteq> target" "e_id e \<notin> set sources" using t(4) by auto
    have apart: "(a, b, rel) \<notin> edges d2" if "{a, b} = {e_id e, target}" for a b rel
    proof
      assume "(a, b, rel) \<in> edges d2"
      then obtain r where r: "r \<in> set (relationships d2)" "edge_key r = (a, b, rel)" by (auto simp: edges_def)
      then have "touches target r" "touches (e_id e) r"
        using that by (auto simp: touches_def edge_key_def doubleton_eq_iff)
      from adjacent_idsI [OF r(1) this fresh(1)] e(2) show False by simp
    qed
    have loops: "s \<noteq> t" if "(s, t, rel) \<in> edges d" for s t rel
      using graph_invD(3) [OF inv] that by (auto simp: graph_typed_def edge_typed_ok_def edges_def edge_key_def)
    have "edges_at (e_id e) (edges d2) = edges_at (e_id e) (edges d)"
    proof (rule merged_edges_at [OF _ t(5) fresh])
      show "s \<noteq> t" if "(s, t, rel) \<in> edges d" for s t rel by (rule loops [OF that])
      show "(e_id e, target, rel) \<notin> edges d2" for rel by (rule apart) simp
      show "(target, e_id e, rel) \<notin> edges d2" for rel by (rule apart) (simp add: insert_commute)
    qed
    then have "degree_in (relationships d2) (e_id e) = degree_in (relationships d) (e_id e)"
      by (simp add: degree_in_card [OF t(1)] degree_in_card [OF graph_invD(2) [OF inv]])
    then show "degree_right (relationships d2) e"
      using graph_invD(4) [OF inv] old by (simp add: degrees_ok_def degree_right_def)
  qed
  then show ?thesis by (simp add: t(8))
qed

definition sources_ok :: "db \<Rightarrow> int \<Rightarrow> (int \<times> string) list \<Rightarrow> bool" where
  "sources_ok d target acc \<longleftrightarrow> (\<forall>x \<in> set acc. fst x \<in> entity_ids d \<and> fst x \<noteq> target)"

lemma push_source_ok:
  "sources_ok d target acc \<Longrightarrow> i \<in> entity_ids d \<Longrightarrow> i \<noteq> target \<Longrightarrow> sources_ok d target (push_source i name acc)"
  by (auto simp: sources_ok_def push_source_def)

lemma find_entity_id_mem: "find_entity_id u d ns name = Some i \<Longrightarrow> i \<in> entity_ids d"
  by (auto simp: find_entity_id_def entity_ids_def dest!: entity_id_named_SomeD)

lemma find_entity_name_by_id_mem: "find_entity_name_by_id d ns i enforce = Inr x \<Longrightarrow> i \<in> entity_ids d"
  by (auto simp: find_entity_name_by_id_def entity_ids_def dest!: find_in_set split: option.splits)

lemma merge_sources_by_id_ok:
  "merge_sources_by_id d ns cross target is acc = Inr sources \<Longrightarrow> sources_ok d target acc \<Longrightarrow> sources_ok d target sources"
proof (induction "is" arbitrary: acc)
  case (Cons i "is")
  then obtain name ns' where "i \<noteq> target" "find_entity_name_by_id d ns i (\<not> cross) = Inr (name, ns')"
    "merge_sources_by_id d ns cross target is (push_source i name acc) = Inr sources"
    by (auto simp: bind_rust_Inr_iff split: if_splits)
  then show ?case using Cons push_source_ok find_entity_name_by_id_mem by blast
qed simp

lemma merge_sources_by_name_ok:
  "merge_sources_by_name u d ns target names acc = Inr sources \<Longrightarrow> sources_ok d (fst target) acc \<Longrightarrow> sources_ok d (fst target) sources"
proof (induction names arbitrary: acc)
  case (Cons name names)
  then obtain i where "i \<noteq> fst target" "find_entity_id u d ns name = Some i"
    "merge_sources_by_name u d ns target names (push_source i name acc) = Inr sources"
    by (auto simp: bind_rust_Inr_iff split: if_splits)
  then show ?case using Cons push_source_ok find_entity_id_mem by blast
qed simp

lemma merge_target_mem: "merge_target u ns args d = Inr (i, name) \<Longrightarrow> i \<in> entity_ids d"
  by (auto simp: merge_target_def bind_rust_Inr_iff intro: find_entity_id_mem find_entity_name_by_id_mem split: option.splits)

lemma merge_entitiesE:
  assumes "merge_entities u now ns args d = Inr (r, d')"
  obtains sources where "sources_ok d (gr_target_id r) sources" "sources \<noteq> []" "gr_target_id r \<in> entity_ids d"
    "gr_sources r = map snd sources"
    "d' = snd (snd (merge_tx now (gr_target_id r) (map fst sources) d))"
proof -
  from assms obtain target name sources where
    t: "merge_target u ns args d = Inr (target, name)"
    and s: "(if ga_ids args \<noteq> [] then merge_sources_by_id d ns (ga_cross_namespace args) target (ga_ids args) []
        else merge_sources_by_name u d ns (target, name) (ga_names args) []) = Inr sources"
    and body: "(if sources = [] then Inl (Validation ''no valid source entities to merge'')
          else
            (case merge_tx now target (map fst sources) d of (moved, removed, d') \<Rightarrow>
               Inr (\<lparr>gr_sources = map snd sources, gr_target = name, gr_target_id = target,
                     gr_moved = moved, gr_removed = removed\<rparr>, d'))) = Inr (r, d')"
    unfolding merge_entities_def by (auto simp only: bind_rust_Inr_iff split_paired_Ex prod.case)
  obtain moved removed d'' where tx: "merge_tx now target (map fst sources) d = (moved, removed, d'')"
    by (cases "merge_tx now target (map fst sources) d")
  with body have ne: "sources \<noteq> []" and r: "gr_target_id r = target" "gr_sources r = map snd sources" "d'' = d'"
    by (auto split: if_splits)
  have nil: "sources_ok d target []" by (simp add: sources_ok_def)
  have "sources_ok d target sources"
  proof (cases "ga_ids args = []")
    case True
    then have "merge_sources_by_name u d ns (target, name) (ga_names args) [] = Inr sources" using s by simp
    from merge_sources_by_name_ok [OF this] nil show ?thesis by simp
  next
    case False
    then have "merge_sources_by_id d ns (ga_cross_namespace args) target (ga_ids args) [] = Inr sources" using s by simp
    from merge_sources_by_id_ok [OF this nil] show ?thesis .
  qed
  then show thesis using that [of sources] ne tx r merge_target_mem [OF t] by simp
qed

text \<open>Claim C22. Seen as labelled edges and bindings, \<^verbatim>\<open>merge-entities\<close> is the quotient by the map that sends every
  source to the target: exactly the sources disappear as entities, the edges are the images of the
  old edges without the self-loops the map creates, the memory bindings are the images of the old
  bindings, no memory changes, and the graph stays well-formed, in particular every degree is right.\<close>

theorem merge_entities_quotient:
  assumes inv: "graph_inv d" and run: "merge_entities u now ns args d = Inr (r, d')"
  shows "graph_inv d' \<and> memories d' = memories d
    \<and> (\<exists>sources. sources \<noteq> [] \<and> set sources \<subseteq> entity_ids d \<and> gr_target_id r \<in> entity_ids d - set sources
        \<and> length sources = length (gr_sources r) \<and> entity_ids d' = entity_ids d - set sources
        \<and> edges d' = {(s, t, rel) \<in> merged_edge (gr_target_id r) sources ` edges d. s \<noteq> t}
        \<and> set (memory_entities d') = merged_binding (gr_target_id r) sources ` set (memory_entities d))"
  using run
proof (rule merge_entitiesE)
  fix sources
  assume src: "sources_ok d (gr_target_id r) sources" "sources \<noteq> []" and target: "gr_target_id r \<in> entity_ids d"
    and names: "gr_sources r = map snd sources"
    and d': "d' = snd (snd (merge_tx now (gr_target_id r) (map fst sources) d))"
  let ?t = "gr_target_id r" and ?s = "map fst sources"
  have out: "?t \<notin> set ?s" "set ?s \<subseteq> entity_ids d" using src by (auto simp: sources_ok_def)
  define d2 where "d2 = merge_core now ?t ?s d"
  note t = merge_tables [OF graph_invD(2) [OF inv] target out(1) d2_def]
  have rec: "d' = recalculate_degrees (?t # adjacent_ids ?t d2) d2" by (simp add: d' t(8))
  have "graph_inv d'" unfolding d' by (rule merge_tx_inv [OF inv target out(1)])
  moreover have "entity_ids d' = entity_ids d - set ?s"
    using t(4) by (auto simp: rec recalculate_degrees_eq entity_ids_def image_sql_update_same)
  moreover have "edges d' = {(s, t, rel) \<in> merged_edge ?t ?s ` edges d. s \<noteq> t}"
    unfolding rec recalculate_degrees_sel t(5) by (rule Collect_cong) (simp add: split_beta)
  ultimately show ?thesis
    using t(2,6) out target src(2) names by (intro conjI exI [of _ ?s]) (simp_all add: rec)
qed

text \<open>On the sample graph: merging the source of the only edge into its target leaves one entity.\<close>

theorem merge_entities_quotient_witness:
  "graph_inv sample_graph
   \<and> (\<exists>r d'. merge_entities ascii_unicode 200 ''global''
          \<lparr>ga_names = [], ga_ids = [1], ga_into = None, ga_into_id = Some 2, ga_cross_namespace = False\<rparr> sample_graph
          = Inr (r, d') \<and> graph_inv d' \<and> gr_target_id r = 2 \<and> edges d' = {})"
proof -
  have ids: "find_entity_name_by_id sample_graph ''global'' 2 True = Inr (''acme-corp'', ''global'')"
    "find_entity_name_by_id sample_graph ''global'' 1 True = Inr (''alice'', ''global'')"
    by (simp_all add: find_entity_name_by_id_def sample_graph_def entity_of_new_def)
  obtain moved removed d' where tx: "merge_tx 200 2 [1] sample_graph = (moved, removed, d')"
    by (cases "merge_tx 200 2 [1] sample_graph")
  then have run: "merge_entities ascii_unicode 200 ''global''
      \<lparr>ga_names = [], ga_ids = [1], ga_into = None, ga_into_id = Some 2, ga_cross_namespace = False\<rparr> sample_graph
      = Inr (\<lparr>gr_sources = [''alice''], gr_target = ''acme-corp'', gr_target_id = 2, gr_moved = moved, gr_removed = removed\<rparr>, d')"
    by (simp add: merge_entities_def merge_guard_def merge_target_def ids push_source_def)
  have E: "edges sample_graph = {(1, 2, ''supports'')}" and I: "entity_ids sample_graph = {1, 2}"
    by (auto simp: edges_def sample_graph_def edge_key_def entity_ids_def entity_of_new_def)
  from merge_entities_quotient [OF sample_graph_inv run] obtain sources where
    "sources \<noteq> []" "set sources \<subseteq> {1, 2}" "2 \<notin> set sources"
    and d': "edges d' = {(s, t, rel) \<in> merged_edge 2 sources ` {(1, 2, ''supports'')}. s \<noteq> t}"
    by (auto simp: E I)
  then have "1 \<in> set sources" by (cases sources) auto
  then have "edges d' = {}" unfolding d' by (auto simp: merged_edge_def merged_id_def)
  then show ?thesis
    using merge_entities_quotient [OF sample_graph_inv run] run sample_graph_inv by auto
qed

end
