(* ===== verification/Graph_Effects.thy ===== *)
theory Graph_Effects
  imports Merge_Correct
begin

text \<open>
  The remaining commands of the entity graph: \<^verbatim>\<open>cleanup-orphans\<close> removes exactly the orphans,
  \<^verbatim>\<open>reclassify\<close>, \<^verbatim>\<open>rename-entity\<close> and the binding form of \<^verbatim>\<open>unlink\<close> keep the graph well-formed, and the
  places where a command leaves it otherwise.
\<close>

section \<open>Entities updated in place\<close>

lemma graph_inv_update_entities:
  assumes inv: "graph_inv d" and f: "\<And>e. e_id (f e) = e_id e" "\<And>e. e_namespace (f e) = e_namespace e"
      "\<And>e. e_name (f e) = e_name e" "\<And>e. e_degree (f e) = e_degree e"
    and ty: "\<And>e. type_shape (e_type e) \<Longrightarrow> type_shape (e_type (f e))"
  shows "graph_inv (d\<lparr>entities := sql_update p f (entities d)\<rparr>)"
proof -
  have "store_ok (d\<lparr>entities := sql_update p f (entities d)\<rparr>)"
    by (rule store_ok_sql_update_entities [OF graph_invD(2) [OF inv] f(1-3)])
  then have "store_inv (d\<lparr>entities := sql_update p f (entities d)\<rparr>)"
    by (rule store_inv_same [OF graph_invD(1) [OF inv]]) simp_all
  then show ?thesis
    using graph_invD(3,4) [OF inv] f ty
    by (auto simp: graph_inv_def graph_typed_def degrees_ok_def set_sql_update entity_typed_ok_def degree_right_def)
qed

lemma retype_inv:
  assumes "graph_inv d" and "normalize_entity_type u s = Inr t"
  shows "graph_inv (d\<lparr>entities := sql_update p (\<lambda>e. e\<lparr>e_type := t, e_updated_at := now\<rparr>) (entities d)\<rparr>)"
  by (rule graph_inv_update_entities [OF assms(1)]) (simp_all add: normalize_entity_type_shape [OF assms(2)])

lemma set_new_type_inv: "graph_inv d \<Longrightarrow> set_new_type u now ns name ty d = Inr (n, d') \<Longrightarrow> graph_inv d'"
  by (auto simp: set_new_type_def bind_rust_Inr_iff intro: retype_inv split: option.splits)

lemma set_description_inv: "graph_inv d \<Longrightarrow> graph_inv (snd (set_description now ns name desc n d))"
  by (auto simp: set_description_def Let_def intro!: graph_inv_update_entities split: option.split)

lemma reclassify_single_inv:
  assumes inv: "graph_inv d" and run: "reclassify_single u now ns args d = Inr (n, m, d')"
  shows "graph_inv d'"
proof -
  from run obtain name affected d1 where first: "set_new_type u now ns name (ca_new_type args) d = Inr (affected, d1)"
    and d': "d' = snd (set_description now ns name (ca_description args) affected d1)"
    by (fastforce simp: reclassify_single_def bind_rust_Inr_iff case_prod_unfold split: if_splits)
  show ?thesis unfolding d' by (rule set_description_inv [OF set_new_type_inv [OF inv first]])
qed

lemma reclassify_inv:
  assumes inv: "graph_inv d" and run: "reclassify u now ns args d = Inr (r, d')"
  shows "graph_inv d'"
proof (cases "ca_batch args")
  case True
  then show ?thesis
    using run by (auto simp: reclassify_def reclassify_batch_def bind_rust_Inr_iff Let_def
        intro: retype_inv [OF inv] split: if_splits)
next
  case False
  then show ?thesis
    using run reclassify_single_inv [OF inv] by (auto simp: reclassify_def bind_rust_Inr_iff)
qed

lemma unlink_binding_inv:
  assumes inv: "graph_inv d" and run: "unlink_binding u ns m e d = Inr (r, d')"
  shows "graph_inv d'"
proof -
  from run obtain i j where d': "d' = recalculate_degrees [j]
      (d\<lparr>memory_entities := sql_delete (\<lambda>x. x = (i, j)) (memory_entities d)\<rparr>)"
    by (auto simp: unlink_binding_def bind_rust_Inr_iff unlink_memory_entity_def recalculate_degree_as_list)
  let ?d = "d\<lparr>memory_entities := sql_delete (\<lambda>x. x = (i, j)) (memory_entities d)\<rparr>"
  have "store_ok ?d"
    by (rule store_ok_bindings [OF graph_invD(2) [OF inv]])
       (use graph_invD(2) [OF inv] in \<open>auto simp: store_defs distinct_sql_delete\<close>)
  then have "store_inv ?d" by (rule store_inv_same [OF graph_invD(1) [OF inv]]) simp_all
  then show ?thesis unfolding d'
    using graph_invD(3,4) [OF inv]
    by (intro graph_inv_recalculate) (auto simp: graph_typed_def degrees_ok_def)
qed

section \<open>Rename\<close>

lemma store_ok_entity_vec:
  assumes "store_ok d" and "upsert_entity_vec cfg i ns emb d = Inr d'"
  shows "store_ok d' \<and> entities d' = entities d \<and> relationships d' = relationships d \<and> memories d' = memories d
    \<and> fts_memories d' = fts_memories d"
proof (cases "emb = []")
  case False
  with assms(2) have i: "i \<in> entity_ids d" and d': "d' = d\<lparr>entity_embeddings :=
      sql_delete (\<lambda>x. x_key x = i) (entity_embeddings d) @
               [\<lparr>x_key = i, x_owner = i, x_namespace = ns, x_embedding = f32_to_bytes emb,
                 x_source = ''llm-headless'', x_model = cfg_version cfg, x_dim = cfg_dim cfg\<rparr>]\<rparr>"
    by (auto simp: upsert_entity_vec_def split: if_splits)
  have "distinct (map x_key (sql_delete (\<lambda>x. x_key x = i) (entity_embeddings d)))"
    using assms(1) by (simp add: store_defs distinct_map_sql_delete)
  then show ?thesis
    using assms(1) i unfolding d'
    by (auto simp: store_defs memory_ids_def chunk_ids_def relationship_ids_def entity_ids_def)
qed (use assms in \<open>simp add: upsert_entity_vec_def\<close>)

lemma rename_entityE:
  assumes "rename_entity u cfg embed_call skip now ns args d = Inr (r, d')"
  obtains i embedding where "rename_entity_tx cfg now ns i (normalize_entity_name u (ta_new_name args)) embedding d = Inr d'"
    "validate_entity_name (ta_new_name args) = Inr ()"
    "r = (fst r, normalize_entity_name u (ta_new_name args), i)"
  using assms
  by (auto simp: rename_entity_def bind_rust_Inr_iff Let_def split: if_splits)

text \<open>The type invariant is the only part that a rename can break: the length of the normalised name is
  not checked.\<close>

lemma rename_entity_inv:
  assumes inv: "graph_inv d" and len: "2 \<le> length (normalize_entity_name u (ta_new_name args))"
    and run: "rename_entity u cfg embed_call skip now ns args d = Inr (r, d')"
  shows "graph_inv d'"
  using run
proof (rule rename_entityE)
  fix i embedding
  let ?new = "normalize_entity_name u (ta_new_name args)"
  let ?f = "\<lambda>e. e\<lparr>e_name := ?new, e_updated_at := now\<rparr>"
  let ?d = "d\<lparr>entities := sql_update (\<lambda>e. e_id e = i) ?f (entities d)\<rparr>"
  assume tx: "rename_entity_tx cfg now ns i ?new embedding d = Inr d'"
  then have free: "\<And>e e'. e \<in> set (entities d) \<Longrightarrow> e' \<in> set (entities d) \<Longrightarrow> e_id e = i \<Longrightarrow> e_id e' \<noteq> i
      \<Longrightarrow> \<not> entity_named (e_namespace e) ?new e'"
    and d': "d' = ?d \<or> (\<exists>emb. upsert_entity_vec cfg i ns emb ?d = Inr d')"
    by (auto simp: rename_entity_tx_def Let_def split: if_splits option.splits)
  have "distinct (map (\<lambda>e. (e_namespace e, e_name e)) (map (\<lambda>e. if e_id e = i then ?f e else e) (entities d)))"
  proof -
    have dist: "distinct (entities d)" using store_ok_entity_ids [OF graph_invD(2) [OF inv]] by (simp add: distinct_map)
    have "inj_on (\<lambda>e. (e_namespace e, e_name e)) (set (entities d))"
      using store_ok_entity_names [OF graph_invD(2) [OF inv]] by (simp add: distinct_map)
    then have "inj_on (\<lambda>e. if e_id e = i then (e_namespace e, ?new) else (e_namespace e, e_name e)) (set (entities d))"
      using free same_entity [OF graph_invD(2) [OF inv]]
      by (simp add: inj_on_def entity_named_def) metis
    then show ?thesis using dist by (simp add: distinct_map comp_def if_distrib cong: if_cong)
  qed
  then have "distinct (map (\<lambda>e. (e_namespace e, e_name e)) (sql_update (\<lambda>e. e_id e = i) ?f (entities d)))"
    by (simp add: sql_update_def)
  then have ok: "store_ok ?d"
    by (intro store_ok_entities [OF graph_invD(2) [OF inv]]) (simp_all add: map_sql_update_same)
  have "store_inv ?d" by (rule store_inv_same [OF graph_invD(1) [OF inv] ok]) simp_all
  then have "graph_inv ?d"
    using graph_invD(3,4) [OF inv] len normalize_entity_name_kebab [of u "ta_new_name args"]
    by (auto simp: graph_inv_def graph_typed_def degrees_ok_def set_sql_update entity_typed_ok_def degree_right_def)
  from d' this show ?thesis
  proof (elim disjE)
    assume "\<exists>emb. upsert_entity_vec cfg i ns emb ?d = Inr d'"
    then have "store_ok d' \<and> entities d' = entities ?d \<and> relationships d' = relationships ?d \<and> memories d' = memories ?d
      \<and> fts_memories d' = fts_memories ?d" using store_ok_entity_vec [OF ok] by blast
    with \<open>graph_inv ?d\<close> show ?thesis
      by (auto simp: graph_inv_def graph_typed_def degrees_ok_def intro: store_inv_same [of ?d])
  qed simp
qed

section \<open>Cleanup of orphans\<close>

text \<open>What the command needs of \<^verbatim>\<open>PRAGMA foreign_key_check\<close>: no row is reported on a store whose references
  all hold.\<close>

definition engine_sound :: "engine \<Rightarrow> bool" where
  "engine_sound eng \<longleftrightarrow> (\<forall>d. foreign_keys_ok d \<longrightarrow> foreign_key_check eng d = [])"

lemma no_dangling: "store_ok d \<Longrightarrow> find_dangling_relationship_ids d namespace = []"
  by (auto simp: find_dangling_relationship_ids_def filter_empty_conv dest: store_ok_endpoints)

lemma no_violations: "engine_sound eng \<Longrightarrow> store_ok d \<Longrightarrow> find_foreign_key_violations (foreign_key_check eng d) = []"
  by (simp add: engine_sound_def store_defs find_foreign_key_violations_def)

definition scoped_orphan :: "string option \<Rightarrow> db \<Rightarrow> entity_row \<Rightarrow> bool" where
  "scoped_orphan namespace d e \<longleftrightarrow>
     (case namespace of Some ns \<Rightarrow> e_namespace e = ns | None \<Rightarrow> True) \<and> orphan_entity d e"

lemma orphan_ids: "find_orphan_entity_ids d namespace = map e_id (filter (scoped_orphan namespace d) (entities d))"
  unfolding find_orphan_entity_ids_def scoped_orphan_def [abs_def] ..

lemma scoped_orphan_id:
  assumes "store_ok d" and "e \<in> set (entities d)"
  shows "e_id e \<in> set (find_orphan_entity_ids d namespace) \<longleftrightarrow> scoped_orphan namespace d e"
  using assms same_entity [OF assms(1)] by (auto simp: orphan_ids)

lemma delete_entities_by_ids_count:
  "fst (delete_entities_by_ids is d) = sql_count (\<lambda>e. e_id e \<in> set is) (entities d)"
proof (induction "is" arbitrary: d)
  case (Cons i "is")
  have "sql_count (\<lambda>e. e_id e = i) rows + sql_count (\<lambda>e. e_id e \<in> set is) (sql_delete (\<lambda>e. e_id e = i) rows)
      = sql_count (\<lambda>e. e_id e \<in> set (i # is)) rows" for rows
    by (induction rows) (auto simp: sql_count_def sql_delete_def)
  with Cons show ?case by (simp add: case_prod_unfold)
qed (simp add: sql_count_def)

lemma sql_count_cong: "(\<And>x. x \<in> set xs \<Longrightarrow> p x = q x) \<Longrightarrow> sql_count p xs = sql_count q xs"
  by (induction xs) (auto simp: sql_count_def)

lemma cleanup_tx_effect:
  assumes inv: "graph_inv d" and eng: "engine_sound eng"
    and orphans: "orphans = find_orphan_entity_ids d namespace"
  obtains d' where "cleanup_tx eng namespace orphans [] d = Inr (length orphans, 0, d')" "graph_inv d'"
    "entities d' = sql_delete (scoped_orphan namespace d) (entities d)" "relationships d' = relationships d"
    "memory_entities d' = memory_entities d" "memories d' = memories d"
proof -
  note ok = graph_invD(2) [OF inv]
  define d' where "d' = snd (delete_entities_by_ids orphans d)"
  have hit: "e_id e \<in> set orphans \<longleftrightarrow> scoped_orphan namespace d e" if "e \<in> set (entities d)" for e
    unfolding orphans by (rule scoped_orphan_id [OF ok that])
  have "store_ok d' \<and> relationships d' = relationships d
    \<and> entities d' = sql_delete (\<lambda>e. e_id e \<in> set orphans) (entities d)
    \<and> memory_entities d' = memory_entities d \<and> memories d' = memories d \<and> fts_memories d' = fts_memories d"
    unfolding d'_def
    by (rule delete_untouched [OF ok]) (auto simp: orphans orphan_ids scoped_orphan_def orphan_entity_def)
  moreover have "sql_delete (\<lambda>e. e_id e \<in> set orphans) (entities d) = sql_delete (scoped_orphan namespace d) (entities d)"
    unfolding sql_delete_def by (rule filter_cong) (simp_all add: hit)
  ultimately have d': "store_ok d'" "relationships d' = relationships d" "fts_memories d' = fts_memories d"
    "entities d' = sql_delete (scoped_orphan namespace d) (entities d)"
    "memory_entities d' = memory_entities d" "memories d' = memories d" by simp_all
  have n: "fst (delete_entities_by_ids orphans d) = length orphans"
    using sql_count_cong [where xs = "entities d", OF hit]
    by (simp add: delete_entities_by_ids_count sql_count_def orphans orphan_ids del: set_map set_filter)
  have pair: "delete_entities_by_ids orphans d = (length orphans, d')" using n d'_def by (metis prod.collapse)
  have "cleanup_tx eng namespace orphans [] d = Inr (length orphans, 0, d')"
    by (simp add: cleanup_tx_def pair no_violations [OF eng d'(1)] delete_foreign_key_violations_def)
  moreover have "store_inv d'" by (rule store_inv_same [OF graph_invD(1) [OF inv] d'(1,6,3)])
  then have "graph_inv d'" using graph_invD(3,4) [OF inv] d'(2,4)
    by (simp add: graph_inv_def graph_typed_def degrees_ok_def)
  ultimately show thesis using that d' by blast
qed

text \<open>Claim C25. On a well-formed graph \<^verbatim>\<open>cleanup-orphans --yes\<close> always succeeds and removes exactly the
  entities of its scope that no memory and no edge mentions: every other entity, every edge, every
  binding and every memory stays, the reported count is the number of removed entities, no violation
  is left, and a second run finds nothing.\<close>

theorem cleanup_orphans_exact:
  assumes inv: "graph_inv d" and eng: "engine_sound eng"
  shows "\<exists>r d'. cleanup_orphans eng \<lparr>oa_namespace = namespace, oa_dry_run = False, oa_yes = True\<rparr> d = Inr (r, d')
    \<and> graph_inv d' \<and> entities d' = filter (\<lambda>e. \<not> scoped_orphan namespace d e) (entities d)
    \<and> relationships d' = relationships d \<and> memory_entities d' = memory_entities d \<and> memories d' = memories d
    \<and> cl_deleted r = length (entities d) - length (entities d') \<and> cl_violations_remaining r = 0
    \<and> find_orphan_entity_ids d' namespace = []"
proof -
  note ok = graph_invD(2) [OF inv]
  obtain d' where tx: "cleanup_tx eng namespace (find_orphan_entity_ids d namespace) [] d
      = Inr (length (find_orphan_entity_ids d namespace), 0, d')" and inv': "graph_inv d'"
    and d': "entities d' = sql_delete (scoped_orphan namespace d) (entities d)" "relationships d' = relationships d"
    "memory_entities d' = memory_entities d" "memories d' = memories d"
    by (rule cleanup_tx_effect [OF inv eng refl])
  have "length (find_orphan_entity_ids d namespace) = length (entities d) - length (entities d')"
    using sum_length_filter_compl [of "scoped_orphan namespace d" "entities d"]
    by (simp add: d' orphan_ids sql_delete_def)
  moreover have "find_orphan_entity_ids d' namespace = []"
    by (auto simp: orphan_ids d' filter_empty_conv scoped_orphan_def orphan_entity_def sql_delete_def)
  ultimately show ?thesis
    using inv' d' tx no_dangling [OF ok, of namespace] no_violations [OF eng] ok graph_invD(2) [OF inv']
    by (simp add: cleanup_orphans_def Let_def sql_delete_def)
qed

lemma cleanup_inv:
  assumes inv: "graph_inv d" and eng: "engine_sound eng" and run: "cleanup_orphans eng args d = Inr (r, d')"
  shows "graph_inv d'"
proof -
  obtain d1 where tx: "cleanup_tx eng (oa_namespace args) (find_orphan_entity_ids d (oa_namespace args)) [] d
      = Inr (length (find_orphan_entity_ids d (oa_namespace args)), 0, d1)" "graph_inv d1"
    by (rule cleanup_tx_effect [OF inv eng refl])
  from run no_dangling [OF graph_invD(2) [OF inv], of "oa_namespace args"] tx(1) have "d' = d \<or> d' = d1"
    by (auto simp: cleanup_orphans_def Let_def bind_rust_Inr_iff split: if_splits)
  then show ?thesis using inv tx(2) by auto
qed

text \<open>The sample graph without its edge: both entities are orphans.\<close>

definition sample_orphans :: db where
  "sample_orphans = recalculate_degrees [1, 2] (delete_relationship_rows (\<lambda>_. True) sample_graph)"

definition sample_engine :: engine where
  "sample_engine = \<lparr>foreign_key_check = (\<lambda>d. if foreign_keys_ok d then []
       else [\<lparr>child_table = ''relationships'', child_rowid = Some 1, parent_table = ''entities''\<rparr>]),
     real_table_names = (\<lambda>_. [''entities'', ''relationships'']), delete_rowid = (\<lambda>_ _ d. Inr (0, d))\<rparr>"

lemma sample_orphans_inv: "graph_inv sample_orphans"
  unfolding sample_orphans_def
  by (rule delete_edges_inv [OF sample_graph_inv]) (auto simp: sample_graph_def)

lemma sample_engine_sound: "engine_sound sample_engine"
  by (simp add: engine_sound_def sample_engine_def)

theorem cleanup_orphans_exact_witness:
  "graph_inv sample_orphans \<and> engine_sound sample_engine \<and> map e_id (entities sample_orphans) = [1, 2]
   \<and> (\<exists>r d'. cleanup_orphans sample_engine \<lparr>oa_namespace = Some ''global'', oa_dry_run = False, oa_yes = True\<rparr>
          sample_orphans = Inr (r, d') \<and> graph_inv d' \<and> entities d' = [] \<and> cl_deleted r = 2)"
proof -
  have es: "entities sample_orphans = map (\<lambda>e. e\<lparr>e_degree := 0\<rparr>) (entities sample_graph)"
    "relationships sample_orphans = []" "memory_entities sample_orphans = []"
    by (simp_all add: sample_orphans_def sample_graph_def recalculate_degrees_eq entity_of_new_def sql_update_def
        degree_in_def sql_delete_def empty_db_def)
  then have "map e_id (entities sample_orphans) = [1, 2]"
    and all: "\<forall>e \<in> set (entities sample_orphans). scoped_orphan (Some ''global'') sample_orphans e"
    by (simp_all add: sample_graph_def entity_of_new_def scoped_orphan_def orphan_entity_def)
  moreover have "filter (\<lambda>e. \<not> scoped_orphan (Some ''global'') sample_orphans e) (entities sample_orphans) = []"
    using all by (simp add: filter_empty_conv)
  moreover have "length (entities sample_orphans) = 2" by (simp add: es sample_graph_def)
  ultimately show ?thesis
    using cleanup_orphans_exact [OF sample_orphans_inv sample_engine_sound, of "Some ''global''"]
      sample_orphans_inv sample_engine_sound by auto
qed

end
