(* ===== verification/Graph_Session.thy ===== *)
theory Graph_Session
  imports Graph_Effects Session
begin

text \<open>
  Memory commands and graph commands on one store. The contract \<open>graph_command\<close> is interpreted for
  every graph command, and the memory commands leave the tables of the graph alone.
\<close>

section \<open>The contract of a graph command\<close>

text \<open>A command of the graph, restricted to admissible arguments: a run that commits keeps the graph
  well-formed, hence so does a run whose error rolls it back.\<close>

locale graph_command =
  fixes admissible :: "'a \<Rightarrow> bool" and tx :: "'a \<Rightarrow> db \<Rightarrow> app_error + ('r \<times> db)"
  assumes keeps_graph: "graph_inv d \<Longrightarrow> admissible a \<Longrightarrow> tx a d = Inr (r, d') \<Longrightarrow> graph_inv d'"
begin

lemma committed_graph: "graph_inv d \<Longrightarrow> admissible a \<Longrightarrow> graph_inv (snd (committed (tx a) d))"
  by (auto simp: committed_def keeps_graph split: sum.split)

end

interpretation link_cmd: graph_command "\<lambda>(u, now, ns, args). unicode_ok u" "\<lambda>(u, now, ns, args). link u now ns args"
  by unfold_locales (auto intro: link_inv)

text \<open>Of \<^verbatim>\<open>unlink\<close> only the form \<^verbatim>\<open>--entity .. --all\<close> is not admissible: it leaves the degrees of the
  neighbours stale.\<close>

lemma unlink_pair_inv:
  assumes inv: "graph_inv d" and run: "unlink_pair u ns a b relation d = Inr (r, d')"
  shows "graph_inv d'"
  using graph_invD(2) [OF inv] run
  by (rule unlink_pairE) (auto simp: pair_edge_def edge_key_def intro!: delete_edges_inv [OF inv])

lemma unlink_inv:
  assumes "graph_inv d" and "\<not> ua_all args" and "unlink u ns args d = Inr (r, d')"
  shows "graph_inv d'"
  using assms by (auto simp: unlink_def bind_rust_Inr_iff intro: unlink_binding_inv unlink_pair_inv
      split: option.splits if_splits)

interpretation unlink_cmd: graph_command "\<lambda>(u, ns, args). \<not> ua_all args" "\<lambda>(u, ns, args). unlink u ns args"
  by unfold_locales (auto intro: unlink_inv)

lemma merge_inv: "graph_inv d \<Longrightarrow> merge_entities u now ns args d = Inr (r, d') \<Longrightarrow> graph_inv d'"
  by (erule merge_entitiesE) (force simp: sources_ok_def intro: merge_tx_inv)

interpretation merge_cmd: graph_command "\<lambda>_. True" "\<lambda>(u, now, ns, args). merge_entities u now ns args"
  by unfold_locales (auto intro: merge_inv)

lemma delete_entity_inv:
  assumes inv: "graph_inv d" and run: "delete_entity u ns args d = Inr (r, d')"
  shows "graph_inv d'"
  using run by (rule delete_entityE) (auto intro!: delete_entities_inv [OF inv] intro: adjacent_idsI)

interpretation delete_entity_cmd: graph_command "\<lambda>_. True" "\<lambda>(u, ns, args). delete_entity u ns args"
  by unfold_locales (auto intro: delete_entity_inv)

text \<open>A rename is admissible when the normalised name has two characters; the command does not check it.\<close>

interpretation rename_entity_cmd: graph_command
  "\<lambda>(u, cfg, embed_call, skip, now, ns, args). 2 \<le> length (normalize_entity_name u (ta_new_name args))"
  "\<lambda>(u, cfg, embed_call, skip, now, ns, args). rename_entity u cfg embed_call skip now ns args"
  by unfold_locales (auto intro: rename_entity_inv)

interpretation reclassify_cmd: graph_command "\<lambda>_. True" "\<lambda>(u, now, ns, args). reclassify u now ns args"
  by unfold_locales (auto intro: reclassify_inv)

interpretation prune_cmd: graph_command "\<lambda>_. True" "\<lambda>(ns, args) d. Inr (prune_relations ns args d)"
  by unfold_locales (metis (no_types, lifting) prune_inv Inr_inject case_prod_conv old.prod.exhaust snd_conv)

interpretation cleanup_cmd: graph_command "\<lambda>(eng, args). engine_sound eng" "\<lambda>(eng, args). cleanup_orphans eng args"
  by unfold_locales (auto intro: cleanup_inv)

section \<open>Memory commands and the graph\<close>

definition graph_frame :: "db \<Rightarrow> db \<Rightarrow> bool" where
  "graph_frame d d' \<longleftrightarrow> entities d' = entities d \<and> relationships d' = relationships d"

lemma graph_frame_refl [simp]: "graph_frame d d"
  by (simp add: graph_frame_def)

lemma graph_frame_trans [trans]: "graph_frame d d' \<Longrightarrow> graph_frame d' d'' \<Longrightarrow> graph_frame d d''"
  by (simp add: graph_frame_def)

lemma graph_inv_frame: "graph_inv d \<Longrightarrow> graph_frame d d' \<Longrightarrow> store_inv d' \<Longrightarrow> graph_inv d'"
  by (simp add: graph_inv_def graph_frame_def graph_typed_def degrees_ok_def)

lemma frame_update_memories: "exec_update_memories now p f d = Inr (n, d') \<Longrightarrow> graph_frame d d'"
  by (auto simp: exec_update_memories_def update_memories_def graph_frame_def Let_def split: if_splits)

lemma frame_insert_version: "insert_version now i v n t de b m by reason d = Inr d' \<Longrightarrow> graph_frame d d'"
  by (auto simp: insert_version_def graph_frame_def split: if_splits)

lemma frame_upsert_vec: "upsert_vec cfg i ns emb d = Inr d' \<Longrightarrow> graph_frame d d'"
  by (auto simp: upsert_vec_def graph_frame_def split: if_splits)

lemma frame_sync_fts [simp]: "graph_frame d (sync_fts_after_update i a b c a' b' c' d') = graph_frame d d'"
  by (auto simp: sync_fts_after_update_def graph_frame_def fts_delete_def fts_insert_def)

lemma frame_delete_memories: "graph_frame d (delete_memory_rows p d)"
  by (auto simp: delete_memory_rows_def graph_frame_def delete_chunk_rows_def Let_def)

lemma frame_soft_delete: "graph_frame d (snd (soft_delete now ns name d))"
  by (auto simp: soft_delete_def update_memories_def graph_frame_def Let_def)

lemma frame_delete_vec: "graph_frame d (delete_vec i d)"
  by (simp add: delete_vec_def graph_frame_def)

lemma frame_insert: "insert_memory now m d = Inr (i, d') \<Longrightarrow> graph_frame d d'"
  by (erule insert_memoryE) (simp add: graph_frame_def)

lemma frame_upsert_opt: "upsert_opt cfg i ns embedding d = Inr d' \<Longrightarrow> graph_frame d d'"
  by (auto simp: upsert_opt_def intro: frame_upsert_vec split: option.splits)

lemma frame_edit:
  assumes "edit cfg blake3 count_tokens embedder skip now ns args d = Inr (r, d')"
  shows "graph_frame d d'"
  using assms
proof (rule editE)
  fix name raw row
  assume "edit_tx cfg blake3 embedder skip now ns name args (m_id row) raw row d = Inr (r, d')"
  then show ?thesis
    by (rule edit_txE)
       (auto dest!: frame_update_memories frame_upsert_opt frame_insert_version intro: graph_frame_trans
          split: if_splits)
qed

lemma frame_rename:
  assumes "rename lowercase now ns args d = Inr (r, d')"
  shows "graph_frame d d'"
  using assms
proof (rule renameE)
  fix name raw row
  assume "rename_tx now ns name (normalize_new_name lowercase raw) (na_expected args) (m_id row) row d = Inr (r, d')"
  then show ?thesis
    by (rule rename_txE) (auto dest!: frame_update_memories frame_insert_version intro: graph_frame_trans)
qed

lemma frame_restore:
  assumes "restore cfg blake3 embedder skip now ns args d = Inr (r, d')"
  shows "graph_frame d d'"
  using assms
proof (rule restoreE)
  fix cur v embedding nv
  assume "restore_tx cfg blake3 now ns (ra_expected args) cur v embedding d = Inr (nv, d')"
  then show ?thesis
    by (rule restore_txE)
       (auto dest!: frame_update_memories frame_insert_version frame_upsert_opt intro: graph_frame_trans
          simp flip: upsert_opt_def)
qed

lemma frame_forget: "graph_frame d (fst (snd (forget now ns p n d s)))"
  using graph_frame_trans [OF frame_delete_vec frame_soft_delete]
  by (auto simp: forget_def Let_def case_prod_unfold split: option.split)

lemma frame_purge_loop: "graph_frame d (fst (snd (purge_loop ns cs w d s)))"
proof (induction cs arbitrary: w d s)
  case (Cons c cs)
  obtain i name where "c = (i, name)" by fastforce
  then show ?case
    using graph_frame_trans [OF frame_delete_memories Cons]
    by (simp add: Let_def try_delete_vec_table_def exec_delete_vec_table_def)
qed simp

lemma frame_purge: "graph_frame d (fst (snd (purge now ns args d s)))"
  using frame_purge_loop by (simp add: purge_def execute_purge_def Let_def case_prod_unfold)

lemma frame_committed: "(\<And>r d'. tx d = Inr (r, d') \<Longrightarrow> graph_frame d d') \<Longrightarrow> graph_frame d (snd (committed tx d))"
  by (auto simp: committed_def split: sum.split)

lemma run_command_frame: "graph_frame (fst st) (fst (run_command v cmd st))"
  by (induction v cmd st rule: run_command.induct)
     (auto intro: frame_committed frame_insert frame_edit frame_rename frame_restore simp: frame_forget frame_purge)

lemma run_command_graph: "graph_inv (fst st) \<Longrightarrow> graph_inv (fst (run_command v cmd st))"
  by (rule graph_inv_frame [OF _ run_command_frame run_command_inv]) (simp_all add: graph_invD)

end
