(* ===== verification/Graph_Limits.thy ===== *)
theory Graph_Limits
  imports Graph_Session
begin

text \<open>
  Where a graph command does less than the invariant asks: \<^verbatim>\<open>unlink --entity .. --all\<close> refreshes the
  degree of one end only, \<^verbatim>\<open>reclassify\<close> finds an entity under a name it then does not update, and
  \<^verbatim>\<open>rename-entity\<close> stores a name without checking its normal form.
\<close>

section \<open>Unlink --all\<close>

lemma unlink_allE:
  assumes ok: "store_ok d" and run: "unlink_all u ns name d = Inr (r, d')"
  obtains i where "find_entity_id u d ns name = Some i"
    "d' = recalculate_degrees [i] (delete_relationship_rows (touches i) d)"
proof -
  from run obtain i where "find_entity_id u d ns name = Some i"
    "d' = recalculate_degree i (snd (delete_all_entity_relationships i d))"
    by (auto simp: unlink_all_def bind_rust_Inr_iff case_prod_unfold)
  then show thesis using that by (simp add: delete_all_eq [OF ok] recalculate_degree_as_list)
qed

lemma degree_in_lost:
  assumes "r \<in> set rows" "touches i r" "touches j r"
  shows "degree_in (sql_delete (touches i) rows) j < degree_in rows j"
  using assms
proof (induction rows)
  case (Cons x rows)
  have "degree_in (sql_delete (touches i) rows) j \<le> degree_in rows j"
    by (induction rows) (simp_all add: degree_in_def)
  with Cons show ?case by (auto simp: degree_in_def split: if_splits)
qed simp

text \<open>Claim C26. \<^verbatim>\<open>unlink --entity E --all\<close> removes exactly the edges at \<^verbatim>\<open>E\<close> and keeps every entity, but it
  recomputes only the degree of \<^verbatim>\<open>E\<close>: afterwards the stored degrees are right if and only if \<^verbatim>\<open>E\<close> had no
  edge at all.\<close>

theorem unlink_all_effect:
  assumes inv: "graph_inv d"
    and run: "unlink u ns \<lparr>ua_from = None, ua_to = None, ua_relation = None, ua_entity = Some name,
                           ua_all = True, ua_memory = None\<rparr> d = Inr (r, d')"
  shows "store_inv d' \<and> graph_typed d' \<and> (\<exists>i. find_entity_id u d ns name = Some i
    \<and> edges d' = edges d - edges_at i (edges d) \<and> entity_ids d' = entity_ids d
    \<and> (degrees_ok d' \<longleftrightarrow> edges_at i (edges d) = {}))"
proof -
  note ok = graph_invD(2) [OF inv]
  have "unlink_all u ns name d = Inr (r, d')" using run by (simp add: unlink_def unwrap_or_def)
  with ok show ?thesis
  proof (rule unlink_allE)
    fix i
    assume i: "find_entity_id u d ns name = Some i"
      and d': "d' = recalculate_degrees [i] (delete_relationship_rows (touches i) d)"
    have "edges d' = edges d - edges_at i (edges d)"
      unfolding d' recalculate_degrees_sel by (subst edges_delete_key [where P = "\<lambda>(s, t, _). s = i \<or> t = i"])
        (auto simp: touches_def edge_key_def edges_at_def)
    moreover have "entity_ids d' = entity_ids d"
      by (simp add: d' recalculate_degrees_eq entity_ids_def image_sql_update_same)
    moreover have "store_inv d'" "graph_typed d'" unfolding d'
      using inv by (simp_all add: store_inv_recalculate store_inv_delete_edges graph_typed_recalculate
          graph_typed_delete_edges graph_invD)
    moreover have "edges_at i (edges d) = {}" if right: "degrees_ok d'"
    proof (rule ccontr)
      assume "edges_at i (edges d) \<noteq> {}"
      then obtain x where x: "x \<in> set (relationships d)" "touches i x"
        by (auto simp: edges_at_def edges_def edge_key_def touches_def)
      define j where "j = (if r_source_id x = i then r_target_id x else r_source_id x)"
      have j: "j \<noteq> i" "touches j x"
        using x graph_invD(3) [OF inv] by (auto simp: j_def touches_def graph_typed_def edge_typed_ok_def)
      have "j \<in> entity_ids d" using store_ok_endpoints [OF ok x(1)] by (simp add: j_def)
      then obtain e where e: "e \<in> set (entities d)" "e_id e = j" by (auto simp: entity_ids_def)
      then have "e \<in> set (entities d')" using j(1)
        by (force simp: d' recalculate_degrees_eq set_sql_update)
      then have "e_degree e = degree_in (relationships d') j" "e_degree e = degree_in (relationships d) j"
        using right graph_invD(4) [OF inv] e by (auto simp: degrees_ok_def degree_right_def)
      then show False using degree_in_lost [OF x j(2)] by (simp add: d')
    qed
    moreover have "degrees_ok d'" if none: "edges_at i (edges d) = {}"
    proof -
      have "\<not> touches i x" if "x \<in> set (relationships d)" for x
      proof
        assume "touches i x"
        then have "edge_key x \<in> edges_at i (edges d)"
          using that by (auto simp: edges_at_def edges_def edge_key_def touches_def)
        with none show False by simp
      qed
      then have "graph_inv d'" unfolding d' by (intro delete_edges_inv [OF inv]) blast
      then show ?thesis by (rule graph_invD(4))
    qed
    ultimately show ?thesis using i by blast
  qed
qed

theorem unlink_all_effect_witness:
  "\<exists>r d'. unlink ascii_unicode ''global'' \<lparr>ua_from = None, ua_to = None, ua_relation = None, ua_entity = Some ''alice'',
       ua_all = True, ua_memory = None\<rparr> sample_graph = Inr (r, d') \<and> edges d' = {} \<and> \<not> degrees_ok d'"
proof -
  obtain r d' where run: "unlink ascii_unicode ''global'' \<lparr>ua_from = None, ua_to = None, ua_relation = None,
      ua_entity = Some ''alice'', ua_all = True, ua_memory = None\<rparr> sample_graph = Inr (r, d')"
    by (simp add: unlink_def unlink_all_def unwrap_or_def sample_find ok_or_def delete_all_entity_relationships_def Let_def)
  have "edges sample_graph = {(1, 2, ''supports'')}" by (simp add: edges_def sample_graph_def edge_key_def)
  then show ?thesis
    using unlink_all_effect [OF sample_graph_inv run] run by (auto simp: sample_find edges_at_def)
qed

section \<open>Reclassify\<close>

text \<open>The lookup normalises the name, the updates do not: under any spelling that is not the stored one the
  command succeeds, reports a description update, and changes nothing.\<close>

lemma reclassify_other_spelling:
  assumes inv: "graph_inv d" and name: "or_else (ca_positional args) (ca_name args) = Some name" "\<not> kebab name"
    and single: "\<not> ca_batch args" and run: "reclassify u now ns args d = Inr (r, d')"
  shows "d' = d \<and> cr_count r = 0 \<and> (ca_description args \<noteq> None \<longrightarrow> cr_description_updated r = Some True)"
proof -
  have miss: "\<not> entity_named ns name e" if "e \<in> set (entities d)" for e
    using graph_invD(3) [OF inv] that name(2) by (auto simp: graph_typed_def entity_typed_ok_def entity_named_def)
  then have "sql_update (entity_named ns name) f (entities d) = entities d"
    "sql_changed (entity_named ns name) (entities d) = 0" for f
    by (auto simp: sql_update_def sql_count_eq_0 intro!: map_idI)
  then show ?thesis
    using run single name(1)
    by (auto simp: reclassify_def reclassify_single_def set_new_type_def set_description_def bind_rust_Inr_iff Let_def
        split: option.splits if_splits)
qed

section \<open>Rename entity\<close>

text \<open>A name of punctuation passes the check on the raw name and is stored as the empty string.\<close>

lemma rename_entity_empty_name:
  "\<exists>r d'. rename_entity ascii_unicode \<lparr>cfg_version = ''1'', cfg_dim = 1\<rparr> (\<lambda>_. Inr []) True 200 ''global''
       \<lparr>ta_positional = None, ta_name = Some ''alice'', ta_id = None, ta_new_name = ''!!''\<rparr> sample_graph = Inr (r, d')
     \<and> [] \<in> e_name ` set (entities d')"
proof -
  have "normalize_entity_name ascii_unicode ''!!'' = []" "normalize_entity_name ascii_unicode [] = []"
    by (simp_all add: normalize_entity_name_def ascii_unicode_def char_class_defs ascii_lowercase_def
        trim_hyphens_def)
  then show ?thesis
    by (simp add: rename_entity_def rename_source_def or_else_def ok_or_def sample_names entity_named_def sample_graph_def
        entity_of_new_def validate_entity_name_def char_class_defs find_entity_id_def entity_id_named_def
        accept_embedding_def rename_entity_tx_def Let_def sql_update_def)
qed

section \<open>Reclassify relation\<close>

text \<open>Of the selected edges every one is either relabelled or removed, so the reported number of merged
  duplicates, the rest, is always 0; the duplicates that were merged are the removed ones.\<close>

lemma update_or_ignore_count:
  assumes "\<And>r. p r \<Longrightarrow> \<not> p (f r)"
  shows "fst (update_or_ignore k p f seen rows) + sql_count p (snd (update_or_ignore k p f seen rows))
    = sql_count p seen + sql_count p rows"
proof (induction rows arbitrary: seen)
  case (Cons r rows)
  show ?case
    using Cons [of "seen @ [f r]"] Cons [of "seen @ [r]"] assms
    by (auto simp: update_or_ignore.simps(2) case_prod_unfold sql_count_append)
qed simp

lemma relabel_reports_no_merge:
  assumes sel: "\<And>r. p d r \<Longrightarrow> r_relation r = from" and "from \<noteq> to"
    and frame: "\<And>d1. entities d1 = entities d \<Longrightarrow> p d1 = p d"
  shows "qr_merged_duplicates (fst (relabel_edges now to p (sql_count (p d) (relationships d)) d)) = 0"
proof -
  let ?f = "\<lambda>r. (r\<lparr>r_relation := to\<rparr>)\<lparr>r_updated_at := now\<rparr>"
  let ?d = "snd (update_or_ignore_relationships now (p d) (\<lambda>r. r\<lparr>r_relation := to\<rparr>) d)"
  have "p ?d = p d"
    by (rule frame) (simp add: update_or_ignore_relationships_def case_prod_unfold)
  moreover have "\<not> p d (?f r)" for r using sel [of "?f r"] assms(2) by auto
  ultimately show ?thesis
    using update_or_ignore_count [of "p d" ?f edge_key "[]" "relationships d"]
    by (simp add: relabel_edges_def update_or_ignore_relationships_def case_prod_unfold Let_def)
qed

lemma run_single_no_merge:
  assumes "run_single u now ns args d = Inr (r, d')" and "effective_from args \<noteq> effective_to args"
  shows "qr_merged_duplicates r = 0"
proof -
  from assms(1) obtain s t where
    "(let p = (\<lambda>_ r. edge_is s t (effective_from args) r \<and> r_namespace r = ns);
          original = sql_count (p d) (relationships d)
      in if original = 0 then Inl (NotFound ''edge_not_found_in_namespace'')
         else if qa_dry_run args then
           Inr (\<lparr>qr_action = ''dry_run'', qr_count = original, qr_merged_duplicates = 0\<rparr>, d)
         else Inr (relabel_edges now (effective_to args) p original d)) = Inr (r, d')"
    unfolding run_single_def by (auto simp only: bind_rust_Inr_iff)
  then have "qr_merged_duplicates r = 0 \<or> r = fst (relabel_edges now (effective_to args)
      (\<lambda>_ r. edge_is s t (effective_from args) r \<and> r_namespace r = ns)
      (sql_count (\<lambda>r. edge_is s t (effective_from args) r \<and> r_namespace r = ns) (relationships d)) d)"
    by (auto simp: Let_def split: if_splits)
  then show ?thesis
    using relabel_reports_no_merge [of "\<lambda>_ r. edge_is s t (effective_from args) r \<and> r_namespace r = ns" d, OF _ assms(2)]
    by (auto simp: edge_is_def)
qed

lemma batch_edge_frame: "entities d1 = entities d \<Longrightarrow> batch_edge ns from c1 c2 d1 = batch_edge ns from c1 c2 d"
  by (rule ext) (simp add: batch_edge_def entity_typed_def)

lemma run_batch_no_merge:
  assumes "run_batch u now ns args d = Inr (r, d')" and "effective_from args \<noteq> effective_to args"
  shows "qr_merged_duplicates r = 0"
proof -
  from assms(1) obtain c1 c2 where
    "(let p = batch_edge ns (effective_from args) c1 c2; original = sql_count (p d) (relationships d)
      in if qa_dry_run args then
           Inr (\<lparr>qr_action = ''dry_run'', qr_count = original, qr_merged_duplicates = 0\<rparr>, d)
         else Inr (relabel_edges now (effective_to args) p original d)) = (Inr (r, d') :: app_error + _)"
    unfolding run_batch_def bind_rust_Inr_iff by blast
  then have "qr_merged_duplicates r = 0 \<or> r = fst (relabel_edges now (effective_to args)
      (batch_edge ns (effective_from args) c1 c2)
      (sql_count (batch_edge ns (effective_from args) c1 c2 d) (relationships d)) d)"
    by (auto simp: Let_def split: if_splits)
  then show ?thesis
    using relabel_reports_no_merge [of "batch_edge ns (effective_from args) c1 c2" d, OF _ assms(2) batch_edge_frame]
    by (auto simp: batch_edge_def)
qed

theorem reclassify_relation_reports_no_merge:
  assumes "reclassify_relation u now ns args d = Inr (r, d')"
  shows "qr_merged_duplicates r = 0"
  using assms run_single_no_merge run_batch_no_merge
  by (auto simp: reclassify_relation_def split: if_splits)

end
