(* ===== verification/Url_Scan_Correct.thy ===== *)
theory Url_Scan_Correct
  imports Url_Scan
begin

text \<open>
  URL extraction never slices inside a character and reports exactly the stretches that start with a
  scheme and end before white space or a closing delimiter.
\<close>

definition scheme_at :: "string \<Rightarrow> nat \<Rightarrow> bool" where
  "scheme_at s i \<longleftrightarrow> prefix ''http://'' (drop i s) \<or> prefix ''https://'' (drop i s)"

lemma find_upt:
  "List.find P [0..<n] = Some i \<longleftrightarrow> i < n \<and> P i \<and> (\<forall>j < i. \<not> P j)"
  "List.find P [0..<n] = None \<longleftrightarrow> (\<forall>j < n. \<not> P j)"
  by (auto simp: find_Some_iff find_None_iff)

lemma next_scheme_Some:
  assumes "next_scheme hay = Some (i, n)"
  shows "\<exists>p. p \<in> {''http://'', ''https://''} \<and> length p = n \<and> prefix p (drop i hay) \<and> (\<forall>j < i. \<not> scheme_at hay j)"
  using assms
  by (auto simp: next_scheme_def str_find_def find_upt scheme_at_def split: option.splits if_splits)

lemma next_scheme_None:
  assumes "next_scheme hay = None" and "i < length hay"
  shows "\<not> scheme_at hay i"
  using assms by (auto simp: next_scheme_def str_find_def find_upt scheme_at_def split: option.splits if_splits)

lemma url_len_le: "url_len s \<le> length s"
  by (induction s) auto

lemma url_len_stop: "url_len s < length s \<Longrightarrow> url_stop (drop (url_len s) s)"
  by (induction s) auto

lemma url_len_free: "i < url_len s \<Longrightarrow> \<not> url_stop (drop i s)"
  by (induction s arbitrary: i) (auto simp: less_Suc_eq_0_disj split: if_splits)

lemma url_stop_boundary: "url_stop (c # s) \<Longrightarrow> \<not> is_cont c"
  by (cases "c # s" rule: starts_white.cases)
     (auto simp: url_stop_def white1_def white2_def white3_def byte_in_def is_cont_def)

lemma boundary_stop:
  assumes "url_stop (drop i s)"
  shows "is_char_boundary s i"
proof -
  have "i < length s" using assms by (cases "i < length s") (simp_all add: url_stop_def)
  then have "drop i s = s ! i # drop (Suc i) s" by (rule Cons_nth_drop_Suc [symmetric])
  with assms url_stop_boundary have "\<not> is_cont (s ! i)" by metis
  then show ?thesis using \<open>i < length s\<close> by (simp add: is_char_boundary_def)
qed

lemma valid_hd: "utf8_valid s \<Longrightarrow> s \<noteq> [] \<Longrightarrow> \<not> is_cont (hd s)"
  by (cases s) (auto elim: utf8_valid_ConsE)

text \<open>A scheme contains neither white space nor a closing delimiter.\<close>

lemma plain_byte:
  assumes "\<not> white1 c" and "\<And>b. \<not> white2 c b" and "\<And>b d. \<not> white3 c b d"
    and "c \<notin> set '')]}\"<'' \<union> {CHR 0x27}"
  shows "\<not> url_stop (c # s)"
  using assms by (cases "c # s" rule: starts_white.cases) (simp_all add: url_stop_def)

lemma scheme_byte_plain: "c \<in> set ''https://'' \<Longrightarrow> \<not> url_stop (c # s)"
  by (rule plain_byte) (auto simp: white1_def white2_def white3_def byte_in_def)

lemma scheme_free:
  assumes p: "p \<in> {''http://'', ''https://''}" "prefix p (drop i s)" and j: "i \<le> j" "j < i + length p"
  shows "\<not> url_stop (drop j s)"
proof -
  obtain t where t: "drop i s = p @ t" using p(2) by (auto simp: prefix_def)
  have "drop j s = drop (j - i) (drop i s)" using j(1) by simp
  also have "\<dots> = p ! (j - i) # drop (Suc (j - i)) p @ t"
    using t j by (simp add: Cons_nth_drop_Suc [symmetric])
  finally have "drop j s = p ! (j - i) # drop (Suc (j - i)) p @ t" .
  moreover have "p ! (j - i) \<in> set p" using j by (intro nth_mem) linarith
  then have "p ! (j - i) \<in> set ''https://''" using p(1) by auto
  ultimately show ?thesis by (simp only: scheme_byte_plain not_False_eq_True)
qed

text \<open>Both ends of a scheme are char boundaries.\<close>

lemma boundary_scheme:
  assumes v: "utf8_valid s" and p: "p \<in> {''http://'', ''https://''}" "prefix p (drop i s)"
  shows "is_char_boundary s i" "is_char_boundary s (i + length p)"
proof -
  obtain t where t: "drop i s = p @ t" using p(2) by (auto simp: prefix_def)
  have i: "i < length s" using t p(1) by (cases "i < length s") auto
  then have at: "s ! i = hd p" using t p(1) hd_drop_conv_nth [OF i] by auto
  show "is_char_boundary s i" using i at p(1) by (auto simp: is_char_boundary_def is_cont_def)
  have cut: "s = (take i s @ butlast p) @ CHR ''/'' # t"
    using p(1) t append_take_drop_id [of i s] by auto
  have "utf8_valid ((take i s @ butlast p) @ CHR ''/'' # t)" using v cut by simp
  then have "utf8_valid t" using utf8_valid_ascii_mid [of "take i s @ butlast p" "CHR ''/''" t]
    by (simp add: byte_in_def)
  have len: "length s = i + length p + length t"
    using t i by (metis add.assoc append_take_drop_id length_append length_take less_imp_le_nat min_absorb2)
  show "is_char_boundary s (i + length p)"
  proof (cases t)
    case Nil
    then show ?thesis using len is_char_boundary_length [of s] by simp
  next
    case (Cons c u)
    have "s ! (i + length p) = c" using t Cons i by (metis nth_append_length nth_drop less_imp_le_nat)
    then show ?thesis using valid_hd [OF \<open>utf8_valid t\<close>] Cons by (simp add: is_char_boundary_def len)
  qed
qed

section \<open>The loop\<close>

definition url_at :: "string \<Rightarrow> extracted_url \<Rightarrow> bool" where
  "url_at body x \<longleftrightarrow> xu_start x < xu_end x \<and> xu_end x \<le> length body
     \<and> xu_url x = take (xu_end x - xu_start x) (drop (xu_start x) body) \<and> scheme_at body (xu_start x)
     \<and> (\<forall>j. xu_start x \<le> j \<and> j < xu_end x \<longrightarrow> \<not> url_stop (drop j body))
     \<and> (xu_end x = length body \<or> url_stop (drop (xu_end x) body))"

definition urls_from :: "string \<Rightarrow> nat \<Rightarrow> extracted_url list \<Rightarrow> bool" where
  "urls_from body cursor urls \<longleftrightarrow> (\<forall>x \<in> set urls. url_at body x \<and> cursor \<le> xu_start x)
     \<and> sorted_wrt (\<lambda>x y. xu_end x \<le> xu_start y) urls
     \<and> (\<forall>i. cursor \<le> i \<and> scheme_at body i \<longrightarrow> (\<exists>x \<in> set urls. xu_start x \<le> i \<and> i < xu_end x))"

lemma scheme_at_drop: "scheme_at (drop c s) i \<longleftrightarrow> scheme_at s (c + i)"
  by (simp add: scheme_at_def add.commute)

lemma scheme_at_less: "scheme_at s i \<Longrightarrow> i < length s"
  by (cases "i < length s") (auto simp: scheme_at_def)

lemma urls_from_Cons:
  assumes x: "url_at body x" "cursor \<le> xu_start x" and none: "\<And>j. cursor \<le> j \<Longrightarrow> j < xu_start x \<Longrightarrow> \<not> scheme_at body j"
    and rest: "urls_from body (xu_end x) urls"
  shows "urls_from body cursor (x # urls)"
  unfolding urls_from_def
proof (intro conjI ballI allI impI)
  fix y assume "y \<in> set (x # urls)"
  then show "url_at body y" "cursor \<le> xu_start y" using x rest by (auto simp: urls_from_def url_at_def)
next
  show "sorted_wrt (\<lambda>x y. xu_end x \<le> xu_start y) (x # urls)" using rest by (auto simp: urls_from_def)
next
  fix i assume i: "cursor \<le> i \<and> scheme_at body i"
  then have "xu_start x \<le> i" using none by (meson not_le)
  then show "\<exists>y \<in> set (x # urls). xu_start y \<le> i \<and> i < xu_end y"
    using i rest by (cases "i < xu_end x") (auto simp: urls_from_def not_less)
qed

lemma extract_loop_ok:
  "utf8_valid body \<Longrightarrow> is_char_boundary body cursor \<Longrightarrow>
   \<exists>urls. extract_loop body cursor out = Inr (out @ urls) \<and> urls_from body cursor urls"
proof (induction "length body - cursor" arbitrary: cursor out rule: less_induct)
  case less
  note valid = less.prems(1)
  show ?case
  proof (cases "next_scheme (drop cursor body)")
    case None
    have "\<not> scheme_at body i" if "cursor \<le> i" for i
      using next_scheme_None [OF None, of "i - cursor"] scheme_at_less [of body i] that
      by (metis diff_less_mono le_add_diff_inverse length_drop scheme_at_drop)
    then have "urls_from body cursor []" by (simp add: urls_from_def)
    moreover have "extract_loop body cursor out = Inr (out @ [])"
      using less.prems(2) None is_char_boundary_le [OF less.prems(2)]
      by (simp add: extract_loop.simps [of body cursor] str_slice_ok)
    ultimately show ?thesis by blast
  next
    case (Some r)
    then obtain rel_start n where r: "next_scheme (drop cursor body) = Some (rel_start, n)" by (cases r) simp
    obtain p where p: "p \<in> {''http://'', ''https://''}" "length p = n" "prefix p (drop (cursor + rel_start) body)"
      and none: "\<And>j. j < rel_start \<Longrightarrow> \<not> scheme_at body (cursor + j)"
      using next_scheme_Some [OF r] by (auto simp: scheme_at_drop add.commute)
    define a where "a = cursor + rel_start"
    define stop where "stop = a + n + url_len (drop (a + n) body)"
    note b = boundary_scheme [OF valid p(1,3), unfolded p(2), folded a_def]
    have n: "0 < n" using next_scheme_len [OF r] .
    have inside: "a < length body" using p scheme_at_less [of body a] by (auto simp: scheme_at_def a_def)
    have le: "stop \<le> length body" "a + n \<le> length body"
      using url_len_le [of "drop (a + n) body"] is_char_boundary_le [OF b(2)] by (auto simp: stop_def)
    have at_stop: "stop = length body \<or> url_stop (drop stop body)"
    proof (cases "url_len (drop (a + n) body) < length (drop (a + n) body)")
      case True
      from url_len_stop [OF this] show ?thesis by (simp add: stop_def add.commute)
    next
      case False
      then have "stop = length body" using le unfolding stop_def length_drop by linarith
      then show ?thesis ..
    qed
    have free: "\<not> url_stop (drop j body)" if "a \<le> j" "j < stop" for j
    proof (cases "j < a + n")
      case True
      then show ?thesis using scheme_free [OF p(1), of a body j] p(2,3) that(1) by (simp add: a_def)
    next
      case False
      then have "j - (a + n) < url_len (drop (a + n) body)" using that(2) unfolding stop_def by linarith
      from url_len_free [OF this] False show ?thesis by simp
    qed
    have bs: "is_char_boundary body stop" using at_stop boundary_stop by auto
    let ?x = "\<lparr>xu_url = take (stop - a) (drop a body), xu_start = a, xu_end = stop\<rparr>"
    have slices: "str_slice body cursor (length body) = Inr (drop cursor body)"
      "str_slice body (a + n) (length body) = Inr (drop (a + n) body)"
      "str_slice body a stop = Inr (take (stop - a) (drop a body))"
      using less.prems(2) b bs le by (simp_all add: str_slice_ok is_char_boundary_le stop_def)
    have "cursor < length body" using inside by (simp add: a_def)
    then have run: "extract_loop body cursor out = extract_loop body stop (out @ [?x])"
      by (simp add: extract_loop.simps [of body cursor] slices(1) r Let_def slices(2,3) flip: a_def stop_def)
    have "length body - stop < length body - cursor" using n inside le by (simp add: stop_def a_def)
    from less.hyps [OF this valid bs, of "out @ [?x]"] obtain urls where
      urls: "extract_loop body stop (out @ [?x]) = Inr ((out @ [?x]) @ urls)" "urls_from body stop urls" by blast
    have "url_at body ?x" using n le at_stop free p
      by (auto simp: url_at_def scheme_at_def a_def stop_def)
    moreover have "\<not> scheme_at body j" if "cursor \<le> j" "j < a" for j
      using none [of "j - cursor"] that by (simp add: a_def)
    ultimately have "urls_from body cursor (?x # urls)"
      using urls(2) by (intro urls_from_Cons) (simp_all add: a_def)
    then show ?thesis using run urls(1) by auto
  qed
qed

text \<open>Claim C12. On every UTF-8 body the URL scan returns without a panic. Each reported URL is the text at its
  offsets, begins with \<^verbatim>\<open>http://\<close> or \<^verbatim>\<open>https://\<close>, contains no white space and no closing delimiter, and ends
  at the end of the body or before the first of these; the URLs are disjoint and in order, and every occurrence of a scheme lies in one
  of them.\<close>

theorem extract_urls_exact:
  assumes "utf8_valid body"
  shows "\<exists>urls. extract_urls body = Inr urls
    \<and> (\<forall>x \<in> set urls. xu_start x < xu_end x \<and> xu_end x \<le> length body
        \<and> xu_url x = take (xu_end x - xu_start x) (drop (xu_start x) body) \<and> scheme_at body (xu_start x)
        \<and> (\<forall>j. xu_start x \<le> j \<and> j < xu_end x \<longrightarrow> \<not> url_stop (drop j body))
        \<and> (xu_end x = length body \<or> url_stop (drop (xu_end x) body)))
    \<and> sorted_wrt (\<lambda>x y. xu_end x \<le> xu_start y) urls
    \<and> (\<forall>i. scheme_at body i \<longrightarrow> (\<exists>x \<in> set urls. xu_start x \<le> i \<and> i < xu_end x))"
  using extract_loop_ok [OF assms is_char_boundary_0, of "[]"]
  by (simp add: extract_urls_def urls_from_def url_at_def)

theorem extract_urls_exact_witness:
  "\<exists>urls. extract_urls ''see https://a.b/c) or'' = Inr urls \<and> (\<exists>x \<in> set urls. xu_start x \<le> 4 \<and> 4 < xu_end x)"
proof -
  have "utf8_valid ''see https://a.b/c) or''" by code_simp
  moreover have "scheme_at ''see https://a.b/c) or'' 4" by (simp add: scheme_at_def)
  ultimately show ?thesis using extract_urls_exact by blast
qed

end
