(* ===== verification/Remember_Input.thy ===== *)
theory Remember_Input
  imports Url_Scan Lifecycle Entities
begin

text \<open>
  The input side of \<^verbatim>\<open>remember\<close> (\<^verbatim>\<open>src/commands/remember/\<close>: \<^verbatim>\<open>args.rs\<close>, \<^verbatim>\<open>name.rs\<close>, \<^verbatim>\<open>input.rs\<close>,
  \<^verbatim>\<open>graph_input.rs\<close>): the name, the body and the graph payload. Files and standard input are values, the
  outcome of reading them; the JSON library is the record \<open>serde\<close> of its parsers and its printer.
\<close>

section \<open>JSON\<close>

datatype json =
    JNull
  | JBool bool
  | JNumber string
  | JString string
  | JArray "json list"
  | JObject "(string \<times> json) list"

definition json_get :: "string \<Rightarrow> json \<Rightarrow> json option" where
  "json_get key v = (case v of JObject fs \<Rightarrow> map_of fs key | _ \<Rightarrow> None)"

definition json_str :: "json \<Rightarrow> string option" where
  "json_str v = (case v of JString s \<Rightarrow> Some s | _ \<Rightarrow> None)"

record graph_input =
  gi_body :: "string option"
  gi_entities :: "new_entity list"
  gi_relationships :: "new_relationship list"
  gi_type_warnings :: "string list"

definition empty_graph :: graph_input where
  "empty_graph = \<lparr>gi_body = None, gi_entities = [], gi_relationships = [], gi_type_warnings = []\<rparr>"

record serde =
  sd_graph :: "string \<Rightarrow> string + graph_input"
  sd_entities :: "string \<Rightarrow> string + new_entity list"
  sd_relationships :: "string \<Rightarrow> string + new_relationship list"
  sd_value :: "string \<Rightarrow> string + json"
  sd_text :: "json \<Rightarrow> string"

section \<open>Arguments\<close>

text \<open>A file: its size and the outcome of reading it as text; when the text is not UTF-8 the bytes are read
  again and converted with replacement characters.\<close>

datatype read_outcome = ReadText string | ReadInvalid "app_error + string" | ReadFailed app_error

record file_input =
  fi_size :: "app_error + nat"
  fi_read :: read_outcome

record remember_args =
  rm_positional :: "string option"
  rm_name :: "string option"
  rm_type :: "string option"
  rm_description :: "string option"
  rm_body :: "string option"
  rm_body_file :: "file_input option"
  rm_body_stdin :: bool
  rm_entities_file :: "file_input option"
  rm_relationships_file :: "file_input option"
  rm_graph_stdin :: bool
  rm_graph_file :: "file_input option"
  rm_metadata :: "string option"
  rm_metadata_file :: "file_input option"
  rm_force_merge :: bool
  rm_expected :: "int option"
  rm_enable_ner :: bool
  rm_skip_extraction :: bool
  rm_clear_body :: bool
  rm_dry_run :: bool
  rm_strict_name :: bool
  rm_strict_entity_types :: bool
  rm_replace_graph :: bool
  rm_session_id :: "string option"
  rm_max_rss_mb :: nat
  rm_enqueue_enrich :: bool

definition checked_size :: "file_input \<Rightarrow> app_error + unit" where
  "checked_size f =
     bind_rust (fi_size f) (\<lambda>n. if MAX_MEMORY_BODY_LEN < n then Inl (BodyTooLarge n MAX_MEMORY_BODY_LEN) else Inr ())"

definition read_to_string :: "file_input \<Rightarrow> app_error + string" where
  "read_to_string f =
     (case fi_read f of
        ReadText s \<Rightarrow> Inr s
      | ReadInvalid _ \<Rightarrow> Inl (Io ''stream did not contain valid UTF-8'')
      | ReadFailed e \<Rightarrow> Inl e)"

definition read_lossy :: "file_input \<Rightarrow> app_error + string" where
  "read_lossy f = (case fi_read f of ReadText s \<Rightarrow> Inr s | ReadInvalid lossy \<Rightarrow> lossy | ReadFailed e \<Rightarrow> Inl e)"

definition read_checked :: "file_input \<Rightarrow> app_error + string" where
  "read_checked f = bind_rust (checked_size f) (\<lambda>_. read_to_string f)"

section \<open>The name\<close>

record resolved_name =
  on_original :: string
  on_normalized :: string

definition was_normalized :: "resolved_name \<Rightarrow> bool" where
  "was_normalized n \<longleftrightarrow> on_normalized n \<noteq> on_original n"

definition resolve_name :: "(string \<Rightarrow> string) \<Rightarrow> remember_args \<Rightarrow> app_error + resolved_name" where
  "resolve_name lowercase args =
     (case or_else (rm_positional args) (rm_name args) of
        None \<Rightarrow> Inl (Validation ''name_required_positional_or_flag'')
      | Some original \<Rightarrow>
          (let name = normalize_new_name lowercase original in
           if rm_strict_name args \<and> name \<noteq> original then Inl (Validation ''strict_name_not_canonical'')
           else if name = [] then Inl (Validation ''name_empty_after_normalization'')
           else if MAX_MEMORY_NAME_LEN < length name then Inl (LimitExceeded ''name_length'')
           else if starts_with name ''__'' then Inl (Validation ''reserved_name'')
           else if \<not> name_slug_matches name then Inl (Validation ''name_kebab'')
           else if (case rm_description args of Some desc \<Rightarrow> MAX_MEMORY_DESCRIPTION_LEN < length desc | None \<Rightarrow> False) then
             Inl (Validation ''description_exceeds'')
           else Inr \<lparr>on_original = original, on_normalized = name\<rparr>))"

section \<open>The graph payload\<close>

definition declared_type :: "json \<Rightarrow> string option" where
  "declared_type item =
     (case (case json_get ''entity_type'' item of Some v \<Rightarrow> Some v | None \<Rightarrow> json_get ''type'' item) of
        Some v \<Rightarrow> json_str v
      | None \<Rightarrow> None)"

definition type_warning :: "unicode \<Rightarrow> json \<Rightarrow> string list" where
  "type_warning u item =
     (case declared_type item of
        None \<Rightarrow> []
      | Some declared \<Rightarrow>
          (case normalize_entity_type u declared of
             Inl _ \<Rightarrow> []
           | Inr ty \<Rightarrow>
               if is_canonical_entity_type ty then []
               else
                 (let name = (case json_get ''name'' item of
                                Some v \<Rightarrow> unwrap_or (json_str v) ''?''
                              | None \<Rightarrow> ''?'')
                  in [''entity_type '' @ [CHR 0x27] @ declared @ [CHR 0x27] @ '' on entity '' @ [CHR 0x27] @ name
                      @ [CHR 0x27] @ '' is outside the canonical set''])))"

definition collect_noncanonical_entity_types :: "unicode \<Rightarrow> serde \<Rightarrow> string \<Rightarrow> string list" where
  "collect_noncanonical_entity_types u sd raw =
     (case sd_value sd raw of
        Inl _ \<Rightarrow> []
      | Inr v \<Rightarrow>
          (case unwrap_or (json_get ''entities'' v) v of
             JArray items \<Rightarrow> concat (map (type_warning u) items)
           | _ \<Rightarrow> []))"

fun normalize_entities :: "unicode \<Rightarrow> new_entity list \<Rightarrow> app_error + new_entity list" where
  "normalize_entities u [] = Inr []"
| "normalize_entities u (e # es) =
     bind_rust (normalize_entity_type u (ne_type e)) (\<lambda>ty.
     bind_rust (normalize_entities u es) (\<lambda>rest. Inr (e\<lparr>ne_type := ty\<rparr> # rest)))"

fun normalize_relationships :: "unicode \<Rightarrow> new_relationship list \<Rightarrow> app_error + new_relationship list" where
  "normalize_relationships u [] = Inr []"
| "normalize_relationships u (r # rs) =
     (let relation = normalize_relation u (nl_relation r) in
      case validate_relation_format relation of
        Inl _ \<Rightarrow> Inl (Validation ''relation_format_for_relationship'')
      | Inr _ \<Rightarrow>
          if \<not> weight_ok (nl_strength r) then Inl (Validation ''invalid_relationship_strength'')
          else bind_rust (normalize_relationships u rs) (\<lambda>rest. Inr (r\<lparr>nl_relation := relation\<rparr> # rest)))"

definition normalize_and_validate_graph_input :: "unicode \<Rightarrow> graph_input \<Rightarrow> app_error + graph_input" where
  "normalize_and_validate_graph_input u g =
     bind_rust (normalize_entities u (gi_entities g)) (\<lambda>es.
     bind_rust (normalize_relationships u (gi_relationships g)) (\<lambda>rs.
       Inr (g\<lparr>gi_entities := es, gi_relationships := rs\<rparr>)))"

section \<open>Body and graph sources\<close>

definition remember_body :: "remember_args \<Rightarrow> app_error + string \<Rightarrow> app_error + string" where
  "remember_body args stdin =
     (case rm_body args of
        Some b \<Rightarrow> Inr b
      | None \<Rightarrow>
          (case rm_body_file args of
             Some f \<Rightarrow> bind_rust (checked_size f) (\<lambda>_. read_lossy f)
           | None \<Rightarrow> if rm_body_stdin args \<or> rm_graph_stdin args then stdin else Inr []))"

definition graph_from_files :: "unicode \<Rightarrow> serde \<Rightarrow> remember_args \<Rightarrow> app_error + graph_input" where
  "graph_from_files u sd args =
     bind_rust
       (case rm_entities_file args of
          None \<Rightarrow> Inr empty_graph
        | Some f \<Rightarrow>
            bind_rust (read_checked f) (\<lambda>content.
              (case sd_entities sd content of
                 Inl _ \<Rightarrow> Inl (Validation ''invalid_json_in_flag'')
               | Inr es \<Rightarrow> Inr (empty_graph\<lparr>gi_entities := es,
                              gi_type_warnings := collect_noncanonical_entity_types u sd content\<rparr>))))
       (\<lambda>g. case rm_relationships_file args of
               None \<Rightarrow> Inr g
             | Some f \<Rightarrow>
                 bind_rust (read_checked f) (\<lambda>content.
                   (case sd_relationships sd content of
                      Inl _ \<Rightarrow> Inl (Validation ''invalid_json_in_flag'')
                    | Inr rs \<Rightarrow> Inr (g\<lparr>gi_relationships := rs\<rparr>))))"

text \<open>The payload on standard input replaces the graph and the body.\<close>

definition graph_from_stdin ::
  "unicode \<Rightarrow> serde \<Rightarrow> remember_args \<Rightarrow> string \<Rightarrow> graph_input \<Rightarrow> app_error + (string \<times> graph_input)" where
  "graph_from_stdin u sd args raw g =
     (if \<not> rm_graph_stdin args then Inr (raw, g)
      else
        (case sd_graph sd raw of
           Inl _ \<Rightarrow> Inl (Validation ''invalid_json_payload_on_flag'')
         | Inr p \<Rightarrow>
             Inr (unwrap_or (gi_body p) [],
                  p\<lparr>gi_body := None,
                    gi_type_warnings := gi_type_warnings p @ collect_noncanonical_entity_types u sd raw\<rparr>)))"

definition graph_from_file ::
  "unicode \<Rightarrow> serde \<Rightarrow> remember_args \<Rightarrow> string \<times> graph_input \<Rightarrow> app_error + (string \<times> graph_input)" where
  "graph_from_file u sd args rg =
     (case rm_graph_file args of
        None \<Rightarrow> Inr rg
      | Some f \<Rightarrow>
          bind_rust (read_checked f) (\<lambda>content.
            (case sd_graph sd content of
               Inl _ \<Rightarrow> Inl (Validation ''invalid_json_in_flag'')
             | Inr p \<Rightarrow>
                 Inr (if rm_body args \<noteq> None \<or> rm_body_file args \<noteq> None \<or> rm_body_stdin args then fst rg
                      else unwrap_or (gi_body p) [],
                      (snd rg)\<lparr>gi_entities := gi_entities p, gi_relationships := gi_relationships p,
                        gi_type_warnings := gi_type_warnings (snd rg) @ collect_noncanonical_entity_types u sd content\<rparr>))))"

definition max_entities_per_memory :: "nat \<Rightarrow> nat" where
  "max_entities_per_memory n = (if 1 \<le> n \<and> n \<le> 1000 then n else 50)"

definition max_relationships_per_memory :: "nat \<Rightarrow> nat" where
  "max_relationships_per_memory n = (if 1 \<le> n \<and> n \<le> 10000 then n else 50)"

record resolved_input =
  ri_body :: string
  ri_graph :: graph_input
  ri_external :: bool
  ri_truncated :: bool

definition resolve_input ::
  "unicode \<Rightarrow> serde \<Rightarrow> nat \<Rightarrow> nat \<Rightarrow> remember_args \<Rightarrow> app_error + string \<Rightarrow> app_error + resolved_input" where
  "resolve_input u sd max_e max_r args stdin =
     bind_rust (remember_body args stdin) (\<lambda>raw.
     bind_rust (graph_from_files u sd args) (\<lambda>g0.
     bind_rust (graph_from_stdin u sd args raw g0) (\<lambda>rg1.
     bind_rust (graph_from_file u sd args rg1) (\<lambda>rg2.
       (let g = snd rg2; cap = max_relationships_per_memory max_r in
        if max_entities_per_memory max_e < length (gi_entities g) then Inl (LimitExceeded ''entity_limit_exceeded'')
        else
          bind_rust (normalize_and_validate_graph_input u (g\<lparr>gi_relationships := take cap (gi_relationships g)\<rparr>)) (\<lambda>g'.
            Inr \<lparr>ri_body = fst rg2, ri_graph = g',
                 ri_external = (rm_entities_file args \<noteq> None \<or> rm_relationships_file args \<noteq> None
                   \<or> rm_graph_stdin args \<and> gi_entities (snd rg1) \<noteq> []
                   \<or> rm_graph_file args \<noteq> None \<and> gi_entities g \<noteq> []),
                 ri_truncated = (cap < length (gi_relationships g))\<rparr>))))))"

end
