(* ===== verification/Remember.thy ===== *)
theory Remember
  imports Remember_Input Memory_Parts Graph_Commands
begin

text \<open>
  The command \<^verbatim>\<open>remember\<close> (\<^verbatim>\<open>src/commands/remember/run.rs\<close>, \<^verbatim>\<open>embed_phase.rs\<close>, \<^verbatim>\<open>finish.rs\<close>): validation,
  embedding, one transaction over memory, chunks and graph, and the work after the commit. The
  embedding backends, the tokenizer, the text splitter, the hash and the f32 aggregation are fields of
  the environment. A run yields its result, the store and the queue file, or a panic.
\<close>

section \<open>Environment and preparation\<close>

record remember_env =
  re_unicode :: unicode
  re_serde :: serde
  re_blake3 :: "string \<Rightarrow> string"
  re_tokens :: "string \<Rightarrow> nat"
  re_splitter :: "string \<Rightarrow> (nat \<times> string) list"
  re_max_entities :: nat
  re_max_relationships :: nat
  re_rss :: "nat option"
  re_available :: nat
  re_embed :: "string \<Rightarrow> app_error + f32 list \<times> string"
  re_embed_chunks :: "string list \<Rightarrow> app_error + f32 list list"
  re_embed_entities :: "string list \<Rightarrow> app_error + f32 list list"
  re_aggregate :: "f32 list list \<Rightarrow> f32 list"
  re_cfg :: embed_config
  re_skip :: bool

record prepared =
  pp_name :: resolved_name
  pp_body :: string
  pp_graph :: graph_input
  pp_truncated :: bool
  pp_metadata :: string
  pp_method :: "string option"
  pp_urls :: "extracted_url list"

definition body_preserved :: "remember_args \<Rightarrow> string \<Rightarrow> bool" where
  "body_preserved args raw \<longleftrightarrow> rm_force_merge args \<and> str_trim raw = [] \<and> \<not> rm_clear_body args"

definition remember_metadata :: "serde \<Rightarrow> remember_args \<Rightarrow> app_error + string" where
  "remember_metadata sd args =
     (let parse = (\<lambda>s. case sd_value sd s of Inl e \<Rightarrow> Inl (Json e) | Inr v \<Rightarrow> Inr (sd_text sd v)) in
      case rm_metadata args of
        Some m \<Rightarrow> parse m
      | None \<Rightarrow>
          (case rm_metadata_file args of
             Some f \<Rightarrow> bind_rust (read_checked f) parse
           | None \<Rightarrow> Inr (sd_text sd (JObject []))))"

text \<open>The optional extraction: its entities replace an empty list and the relationships are dropped.\<close>

definition remember_extract ::
  "remember_env \<Rightarrow> remember_args \<Rightarrow> resolved_input
     \<Rightarrow> (app_error + (graph_input \<times> bool \<times> string option \<times> extracted_url list)) rust" where
  "remember_extract env args inp =
     (let g = ri_graph inp in
      if rm_enable_ner args \<and> gi_entities g = [] \<and> str_trim (ri_body inp) \<noteq> [] then
        bind_rust (extract_graph_auto (ri_body inp)) (\<lambda>answer.
          (case answer of
             Inl _ \<Rightarrow> Inr (Inr (g, ri_truncated inp, Some ''none:extraction-failed'', []))
           | Inr x \<Rightarrow>
               (let es = map (\<lambda>e. \<lparr>ne_name = fst e, ne_type = DEFAULT_ENTITY_TYPE, ne_description = None\<rparr>) (xr_entities x) in
                Inr (bind_rust
                  (normalize_and_validate_graph_input (re_unicode env)
                     (g\<lparr>gi_entities := take (max_entities_per_memory (re_max_entities env)) es, gi_relationships := []\<rparr>))
                  (\<lambda>g'. Inr (g', False, Some ''url-regex'', xr_urls x))))))
      else Inr (Inr (g, ri_truncated inp, None, [])))"

definition remember_prepare ::
  "remember_env \<Rightarrow> remember_args \<Rightarrow> app_error + string \<Rightarrow> (app_error + prepared) rust" where
  "remember_prepare env args stdin =
     bind_result (Inr (resolve_name (to_lowercase (re_unicode env)) args)) (\<lambda>name.
     bind_result (Inr (resolve_input (re_unicode env) (re_serde env) (re_max_entities env) (re_max_relationships env)
         args stdin)) (\<lambda>inp.
     if rm_strict_entity_types args \<and> gi_type_warnings (ri_graph inp) \<noteq> [] then
       Inr (Inl (Validation ''strict_entity_type_folded''))
     else
       bind_result (Inr (check_embedding_input_size (re_tokens env) (ri_body inp))) (\<lambda>_.
       if \<not> ri_external inp \<and> gi_entities (ri_graph inp) = [] \<and> str_trim (ri_body inp) = []
          \<and> \<not> body_preserved args (ri_body inp) \<and> \<not> rm_clear_body args then
         Inr (Inl (Validation ''empty_body''))
       else
         bind_result (Inr (remember_metadata (re_serde env) args)) (\<lambda>metadata.
         if rm_enable_ner args \<and> rm_skip_extraction args then
           Inr (Inl (Validation ''enable_ner_skip_extraction_exclusive''))
         else
           bind_result (remember_extract env args inp) (\<lambda>(g, truncated, meth, urls).
             Inr (Inr \<lparr>pp_name = name, pp_body = ri_body inp, pp_graph = g, pp_truncated = truncated,
                       pp_metadata = metadata, pp_method = meth, pp_urls = urls\<rparr>))))))"

section \<open>Embedding\<close>

record embed_outcome =
  eo_embedding :: "f32 list option"
  eo_backend :: "string option"
  eo_chunks :: "f32 list list option"
  eo_entities :: "f32 list list"

fun chunk_texts :: "string \<Rightarrow> chunk list \<Rightarrow> string list rust" where
  "chunk_texts body [] = Inr []"
| "chunk_texts body (c # cs) =
     bind_rust (chunk_text body c) (\<lambda>t. bind_rust (chunk_texts body cs) (\<lambda>ts. Inr (t # ts)))"

definition entity_text :: "new_entity \<Rightarrow> string" where
  "entity_text e = (case ne_description e of Some desc \<Rightarrow> ne_name e @ '' '' @ desc | None \<Rightarrow> ne_name e)"

definition passage_embedding ::
  "remember_env \<Rightarrow> remember_args \<Rightarrow> string \<Rightarrow> chunk list
     \<Rightarrow> (app_error + (f32 list option \<times> string option \<times> f32 list list option)) rust" where
  "passage_embedding env args body chunks =
     (if length chunks = 1 then
        Inr (bind_rust (accept_embedding (re_skip env) (re_embed env body)) (\<lambda>answer.
          Inr (case answer of
                 None \<Rightarrow> (None, None, None)
               | Some (v, k) \<Rightarrow> (if v = [] then None else Some v, Some k, None))))
      else
        bind_rust (chunk_texts body chunks) (\<lambda>texts.
          Inr (if (case re_rss env of Some rss \<Rightarrow> rm_max_rss_mb args < rss | None \<Rightarrow> False) then
                 Inl (LowMemory (re_available env) (rm_max_rss_mb args))
               else
                 (case re_embed_chunks env texts of
                    Inr vs \<Rightarrow> Inr (Some (re_aggregate env vs), None, Some vs)
                  | Inl e \<Rightarrow> if re_skip env then Inr (None, None, None) else Inl e))))"

definition run_embed_phase ::
  "remember_env \<Rightarrow> remember_args \<Rightarrow> string \<Rightarrow> chunk list \<Rightarrow> graph_input \<Rightarrow> (app_error + embed_outcome) rust" where
  "run_embed_phase env args body chunks g =
     bind_result (passage_embedding env args body chunks) (\<lambda>(embedding, backend, cache).
       (let texts = map entity_text (gi_entities g) in
        case re_embed_entities env texts of
          Inr vs \<Rightarrow> Inr (Inr \<lparr>eo_embedding = embedding, eo_backend = backend, eo_chunks = cache, eo_entities = vs\<rparr>)
        | Inl e \<Rightarrow>
            if re_skip env then
              Inr (Inr \<lparr>eo_embedding = embedding, eo_backend = backend, eo_chunks = cache,
                        eo_entities = map (\<lambda>_. []) texts\<rparr>)
            else Inr (Inl e)))"

section \<open>The transaction\<close>

text \<open>The row of the memory: its id, the action, the version number and whether the body is unchanged.\<close>

definition store_row ::
  "remember_env \<Rightarrow> int \<Rightarrow> string \<Rightarrow> int option \<Rightarrow> new_memory \<Rightarrow> f32 list option \<Rightarrow> int option \<Rightarrow> db
     \<Rightarrow> app_error + ((int \<times> string \<times> int \<times> bool) \<times> db)" where
  "store_row env now ns expected m embedding existing d =
     (case existing of
        Some i \<Rightarrow>
          (case List.find (\<lambda>r. m_id r = i) (memories d) of
             None \<Rightarrow> Inl (Database QueryReturnedNoRows)
           | Some old \<Rightarrow>
               (let unchanged = (m_body_hash old = n_body_hash m);
                    d0 = (if unchanged then d else delete_chunks i d);
                    next_v = next_version d0 i
                in bind_rust (update_memory now i m expected d0) (\<lambda>(_, d1).
                   bind_rust (insert_version now i next_v (n_name m) (n_type m) (n_description m) (n_body m)
                       (n_metadata m) None ''edit''
                       (sync_fts_after_update i (m_name old) (m_description old) (m_body old)
                          (n_name m) (n_description m) (n_body m) d1)) (\<lambda>d2.
                   bind_rust
                     (case embedding of
                        Some emb \<Rightarrow> if unchanged then Inr d2 else upsert_vec (re_cfg env) i ns emb d2
                      | None \<Rightarrow> Inr d2)
                     (\<lambda>d3. Inr ((i, ''updated'', next_v, unchanged), d3))))))
      | None \<Rightarrow>
          bind_rust (insert_memory now m d) (\<lambda>(i, d1).
          bind_rust (insert_version now i 1 (n_name m) (n_type m) (n_description m) (n_body m) (n_metadata m) None
              ''create'' d1) (\<lambda>d2.
          bind_rust (case embedding of Some emb \<Rightarrow> upsert_vec (re_cfg env) i ns emb d2 | None \<Rightarrow> Inr d2) (\<lambda>d3.
            Inr ((i, ''created'', 1, False), d3)))))"

fun store_chunk_vecs :: "embed_config \<Rightarrow> int \<Rightarrow> nat \<Rightarrow> f32 list list \<Rightarrow> db \<Rightarrow> app_error + db" where
  "store_chunk_vecs cfg i idx [] d = Inr d"
| "store_chunk_vecs cfg i idx (emb # embs) d =
     bind_rust (upsert_chunk_vec cfg i (as_i32 idx) emb d) (\<lambda>d'. store_chunk_vecs cfg i (Suc idx) embs d')"

definition store_chunks ::
  "embed_config \<Rightarrow> int \<Rightarrow> string \<Rightarrow> chunk list \<Rightarrow> f32 list list option \<Rightarrow> db \<Rightarrow> (app_error + db) rust" where
  "store_chunks cfg i body chunks cache d =
     bind_rust (insert_chunk_slices i body chunks d) (\<lambda>(failure, d1).
       Inr (case failure of
              Some e \<Rightarrow> Inl e
            | None \<Rightarrow> (case cache of None \<Rightarrow> Inr d1 | Some embs \<Rightarrow> store_chunk_vecs cfg i 0 embs d1)))"

fun store_entities ::
  "remember_env \<Rightarrow> int \<Rightarrow> string \<Rightarrow> int \<Rightarrow> f32 list list \<Rightarrow> new_entity list \<Rightarrow> nat \<Rightarrow> db \<Rightarrow> (app_error + db) rust" where
  "store_entities env now ns i embs [] n d = Inr (Inr d)"
| "store_entities env now ns i embs (e # es) n d =
     bind_result (Inr (upsert_entity (re_unicode env) now ns e d)) (\<lambda>(j, d1).
     if length embs \<le> n then Inl Index_panic
     else
       bind_result (Inr (upsert_entity_vec (re_cfg env) j ns (embs ! n) d1)) (\<lambda>d2.
       bind_result (Inr (link_memory_entity i j d2)) (\<lambda>d3.
         store_entities env now ns i embs es (Suc n) d3)))"

definition type_of_name :: "new_entity list \<Rightarrow> string \<Rightarrow> string" where
  "type_of_name es name = unwrap_or (map_of (rev (map (\<lambda>e. (ne_name e, ne_type e)) es)) name) DEFAULT_ENTITY_TYPE"

fun store_relationships ::
  "remember_env \<Rightarrow> int \<Rightarrow> string \<Rightarrow> int \<Rightarrow> new_entity list \<Rightarrow> new_relationship list \<Rightarrow> int list \<Rightarrow> db
     \<Rightarrow> app_error + (int list \<times> db)" where
  "store_relationships env now ns i es [] affected d = Inr (affected, d)"
| "store_relationships env now ns i es (r # rs) affected d =
     bind_rust (upsert_entity (re_unicode env) now ns
         \<lparr>ne_name = nl_source r, ne_type = type_of_name es (nl_source r), ne_description = None\<rparr> d) (\<lambda>(s, d1).
     bind_rust (upsert_entity (re_unicode env) now ns
         \<lparr>ne_name = nl_target r, ne_type = type_of_name es (nl_target r), ne_description = None\<rparr> d1) (\<lambda>(t, d2).
     bind_rust (upsert_relationship (re_unicode env) now ns s t r d2) (\<lambda>(rel, d3).
     bind_rust (link_memory_relationship i rel d3) (\<lambda>d4.
       store_relationships env now ns i es rs (affected @ [s, t]) d4))))"

definition store_graph ::
  "remember_env \<Rightarrow> int \<Rightarrow> string \<Rightarrow> int \<Rightarrow> graph_input \<Rightarrow> f32 list list \<Rightarrow> db \<Rightarrow> (app_error + db) rust" where
  "store_graph env now ns i g embs d =
     (if gi_entities g = [] \<and> gi_relationships g = [] then Inr (Inr d)
      else
        bind_result (store_entities env now ns i embs (gi_entities g) 0 d) (\<lambda>d1.
        bind_result (Inr (store_relationships env now ns i (gi_entities g) (gi_relationships g)
            (concat (map (\<lambda>e. case find_entity_id (re_unicode env) d1 ns (ne_name e) of Some j \<Rightarrow> [j] | None \<Rightarrow> [])
               (gi_entities g))) d1)) (\<lambda>(affected, d2).
          Inr (Inr (recalculate_degrees affected d2)))))"

definition remember_tx ::
  "remember_env \<Rightarrow> int \<Rightarrow> string \<Rightarrow> remember_args \<Rightarrow> graph_input \<Rightarrow> chunk list \<Rightarrow> embed_outcome \<Rightarrow> new_memory
     \<Rightarrow> int option \<Rightarrow> db \<Rightarrow> (app_error + ((int \<times> string \<times> int \<times> nat \<times> nat) \<times> db)) rust" where
  "remember_tx env now ns args g chunks out m existing d =
     bind_result (Inr (store_row env now ns (rm_expected args) m (eo_embedding out) existing d))
       (\<lambda>((i, action, version, unchanged), d1).
          (case (if rm_replace_graph args \<and> action = ''updated'' then clear_memory_graph_bindings i d1
                 else ((0, 0), d1)) of
             ((e_removed, r_removed), d2) \<Rightarrow>
               bind_result
                 (if 1 < length chunks \<and> \<not> unchanged then store_chunks (re_cfg env) i (n_body m) chunks (eo_chunks out) d2
                  else Inr (Inr d2))
                 (\<lambda>d3. bind_result (store_graph env now ns i g (eo_entities out) d3) (\<lambda>d4.
                    Inr (Inr ((i, action, version, e_removed, r_removed), d4))))))"

section \<open>Before the transaction\<close>

definition MAX_NAMESPACES_ACTIVE :: nat where "MAX_NAMESPACES_ACTIVE = 100"

definition namespace_full :: "db \<Rightarrow> string \<Rightarrow> bool" where
  "namespace_full d ns \<longleftrightarrow>
     \<not> (\<exists>m \<in> set (memories d). m_namespace m = ns \<and> live m)
     \<and> MAX_NAMESPACES_ACTIVE \<le> card (m_namespace ` {m \<in> set (memories d). live m})"

text \<open>A soft-deleted holder of the name: with \<^verbatim>\<open>--force-merge\<close> it is undeleted at once, by a statement of its
  own.\<close>

definition revive :: "int \<Rightarrow> string \<Rightarrow> string \<Rightarrow> bool \<Rightarrow> db \<Rightarrow> app_error + db" where
  "revive now ns name force d =
     (case find_by_name_any_state d ns name of
        Some (i, True) \<Rightarrow>
          if force then Inr (clear_deleted_at now i d)
          else Inl (Duplicate ''duplicate_memory_soft_deleted'')
      | _ \<Rightarrow> Inr d)"

definition resolve_fields :: "remember_args \<Rightarrow> string \<Rightarrow> string \<Rightarrow> db \<Rightarrow> app_error + (string \<times> string)" where
  "resolve_fields args ns name d =
     (case find_by_name d ns name of
        None \<Rightarrow>
          (case (rm_type args, rm_description args) of
             (Some t, Some desc) \<Rightarrow> Inr (t, desc)
           | _ \<Rightarrow> Inl (Validation ''type_and_description_required''))
      | Some _ \<Rightarrow>
          (case read_by_name d ns name of
             None \<Rightarrow> Inl (NotFound ''memory_named_not_found_in_namespace'')
           | Some row \<Rightarrow> Inr (unwrap_or (rm_type args) (m_type row), unwrap_or (rm_description args) (m_description row))))"

definition effective_body :: "remember_args \<Rightarrow> string \<Rightarrow> string \<Rightarrow> string \<Rightarrow> db \<Rightarrow> string" where
  "effective_body args ns name raw d =
     (if body_preserved args raw then
        (case read_by_name d ns name of
           Some row \<Rightarrow> if m_body row \<noteq> [] then m_body row else raw
         | None \<Rightarrow> raw)
      else raw)"

record remember_plan =
  rp_memory :: new_memory
  rp_existing :: "int option"
  rp_duplicate :: "int option"
  rp_chunks :: "chunk list"
  rp_out :: embed_outcome

definition remember_plan_of ::
  "remember_env \<Rightarrow> string \<Rightarrow> remember_args \<Rightarrow> prepared \<Rightarrow> db \<Rightarrow> (app_error + remember_plan) rust" where
  "remember_plan_of env ns args p d =
     (let name = on_normalized (pp_name p);
          existing = map_option fst (find_by_name d ns name)
      in if existing \<noteq> None \<and> \<not> rm_force_merge args then Inr (Inl (Duplicate ''duplicate_memory''))
         else
           bind_result (Inr (resolve_fields args ns name d)) (\<lambda>(ty, desc).
             (let body = effective_body args ns name (pp_body p) d;
                  hash = re_blake3 env body;
                  chunks = split_into_chunks_hierarchical (re_splitter env) body
              in if REMEMBER_MAX_SAFE_MULTI_CHUNKS < length chunks then
                   Inr (Inl (TooManyChunks (length chunks) REMEMBER_MAX_SAFE_MULTI_CHUNKS))
                 else
                   bind_result (run_embed_phase env args body chunks (pp_graph p)) (\<lambda>out.
                     Inr (Inr \<lparr>rp_memory = \<lparr>n_namespace = ns, n_name = name, n_type = ty, n_description = desc,
                                            n_body = body, n_body_hash = hash, n_session_id = rm_session_id args,
                                            n_source = ''agent'', n_metadata = pp_metadata p\<rparr>,
                               rp_existing = existing, rp_duplicate = find_by_hash d ns hash,
                               rp_chunks = chunks, rp_out = out\<rparr>)))))"

section \<open>After the commit\<close>

record remember_response =
  rs_memory_id :: int
  rs_name :: string
  rs_action :: string
  rs_version :: int
  rs_entities :: nat
  rs_relationships :: nat
  rs_truncated :: bool
  rs_chunks_created :: nat
  rs_chunks_persisted :: nat
  rs_urls :: nat
  rs_method :: "string option"
  rs_warnings :: "string list"
  rs_original_name :: "string option"
  rs_backend :: "string option"
  rs_entities_created :: "string list"
  rs_recommended :: "string list"

datatype remember_answer =
    Planned string string nat nat "string list"
  | Stored remember_response

definition enqueue_hot_set :: "int \<Rightarrow> string list \<Rightarrow> sidecar \<Rightarrow> (app_error + nat) \<times> sidecar" where
  "enqueue_hot_set now names s =
     (case open_queue_db (case s of None \<Rightarrow> True | Some (has_ns, _) \<Rightarrow> has_ns)
             (case s of None \<Rightarrow> \<lparr>q_rows = [], q_seq = 0\<rparr> | Some (_, q) \<Rightarrow> q) of
        Inl e \<Rightarrow> (Inl e, s)
      | Inr q \<Rightarrow>
          (case enqueue_priority_entity_descriptions now names q of (n, q') \<Rightarrow> (Inr n, Some (True, q'))))"

text \<open>The texts of the warnings are abbreviated.\<close>

definition duplicate_warning :: "int option \<Rightarrow> int option \<Rightarrow> string list" where
  "duplicate_warning existing duplicate =
     (case duplicate of
        Some h \<Rightarrow> if existing = Some h then [] else [''identical body already exists'']
      | None \<Rightarrow> [])"

definition finish ::
  "int \<Rightarrow> remember_args \<Rightarrow> prepared \<Rightarrow> remember_plan \<Rightarrow> (int \<times> string \<times> int \<times> nat \<times> nat) \<Rightarrow> db \<Rightarrow> sidecar
     \<Rightarrow> remember_response \<times> db \<times> sidecar" where
  "finish now args p plan stored d s =
     (case stored of (i, action, version, e_removed, r_removed) \<Rightarrow>
      (let m = rp_memory plan; g = pp_graph p;
           vec_warning = (if str_trim (n_body m) \<noteq> [] \<and> \<not> (\<exists>x \<in> set (memory_embeddings d). x_key x = i)
                          then [''memory persisted without an embedding vector''] else []);
           s1 = (if action = ''updated'' then cleanup_sidecar i (n_name m) s else s);
           (urls, d1) = (if pp_urls p = [] then (0, d)
                         else insert_urls now i (map (\<lambda>x. \<lparr>mu_url = xu_url x, mu_offset = Some (as_i64 (xu_start x))\<rparr>) (pp_urls p)) d);
           names = map ne_name (gi_entities g);
           (failure, s2) = (if rm_enqueue_enrich args \<and> names \<noteq> [] then enqueue_hot_set now names s1 else (Inr 0, s1))
       in (\<lparr>rs_memory_id = i, rs_name = n_name m, rs_action = action, rs_version = version,
            rs_entities = length (gi_entities g), rs_relationships = length (gi_relationships g),
            rs_truncated = pp_truncated p, rs_chunks_created = length (rp_chunks plan),
            rs_chunks_persisted = count_for_memory d i, rs_urls = urls, rs_method = pp_method p,
            rs_warnings = gi_type_warnings g @ duplicate_warning (rp_existing plan) (rp_duplicate plan)
              @ (if 0 < e_removed + r_removed then [''--replace-graph cleared bindings''] else [])
              @ vec_warning @ (case failure of Inl _ \<Rightarrow> [''enqueue_enrich failed''] | Inr _ \<Rightarrow> []),
            rs_original_name = (if was_normalized (pp_name p) then Some (on_original (pp_name p)) else None),
            rs_backend = eo_backend (rp_out plan), rs_entities_created = names,
            rs_recommended = (if gi_entities g \<noteq> [] then [''entity-descriptions''] else [])\<rparr>, d1, s2)))"

section \<open>The command\<close>

definition remember_stored ::
  "remember_env \<Rightarrow> int \<Rightarrow> string \<Rightarrow> remember_args \<Rightarrow> prepared \<Rightarrow> db \<Rightarrow> sidecar
     \<Rightarrow> ((app_error + remember_answer) \<times> db \<times> sidecar) rust" where
  "remember_stored env now ns args p d s =
     bind_rust (remember_plan_of env ns args p d) (\<lambda>planned.
       (case planned of
          Inl e \<Rightarrow> Inr (Inl e, d, s)
        | Inr plan \<Rightarrow>
            bind_rust (remember_tx env now ns args (pp_graph p) (rp_chunks plan) (rp_out plan) (rp_memory plan)
                (rp_existing plan) d) (\<lambda>done.
              (case done of
                 Inl e \<Rightarrow> Inr (Inl e, d, s)
               | Inr (stored, d1) \<Rightarrow>
                   (case finish now args p plan stored d1 s of (r, d2, s2) \<Rightarrow> Inr (Inr (Stored r), d2, s2))))))"

definition remember ::
  "remember_env \<Rightarrow> int \<Rightarrow> string \<Rightarrow> remember_args \<Rightarrow> app_error + string \<Rightarrow> db \<Rightarrow> sidecar
     \<Rightarrow> ((app_error + remember_answer) \<times> db \<times> sidecar) rust" where
  "remember env now ns args stdin d s =
     bind_rust (remember_prepare env args stdin) (\<lambda>prep.
       (case prep of
          Inl e \<Rightarrow> Inr (Inl e, d, s)
        | Inr p \<Rightarrow>
            (let name = on_normalized (pp_name p) in
             if rm_dry_run args then
               Inr (Inr (Planned name
                 (if find_by_name d ns name \<noteq> None \<and> rm_force_merge args then ''would_update'' else ''would_create'')
                 (length (gi_entities (pp_graph p))) (length (gi_relationships (pp_graph p)))
                 (gi_type_warnings (pp_graph p))), d, s)
             else if namespace_full d ns then Inr (Inl (NamespaceError ''active_namespace_limit_reached''), d, s)
             else
               (case revive now ns name (rm_force_merge args) d of
                  Inl e \<Rightarrow> Inr (Inl e, d, s)
                | Inr d0 \<Rightarrow> remember_stored env now ns args p d0 s))))"

end
