(* ===== verification/Batch.thy ===== *)
theory Batch
  imports Remember
begin

text \<open>
  The command \<^verbatim>\<open>remember-batch\<close> (\<^verbatim>\<open>src/commands/remember_batch.rs\<close>). One line is a sequence of statements on
  an open transaction, and a line that fails keeps what its earlier statements did: the caller decides
  whether the transaction commits. So a step returns a store also when it fails.
\<close>

section \<open>Statements on an open transaction\<close>

type_synonym 'a act = "db \<Rightarrow> (app_error + 'a) \<times> db"

definition act_return :: "'a \<Rightarrow> 'a act" where "act_return a d = (Inr a, d)"

definition act_fail :: "app_error \<Rightarrow> 'a act" where "act_fail e d = (Inl e, d)"

definition act_check :: "app_error + 'a \<Rightarrow> 'a act" where "act_check r d = (r, d)"

definition act_bind :: "'a act \<Rightarrow> ('a \<Rightarrow> 'b act) \<Rightarrow> 'b act" where
  "act_bind m f d = (case m d of (Inl e, d') \<Rightarrow> (Inl e, d') | (Inr a, d') \<Rightarrow> f a d')"

text \<open>A statement, or a storage function that fails before it writes.\<close>

definition act_exec :: "(db \<Rightarrow> app_error + ('a \<times> db)) \<Rightarrow> 'a act" where
  "act_exec f d = (case f d of Inl e \<Rightarrow> (Inl e, d) | Inr (a, d') \<Rightarrow> (Inr a, d'))"

definition act_exec_unit :: "(db \<Rightarrow> app_error + db) \<Rightarrow> unit act" where
  "act_exec_unit f = act_exec (\<lambda>d. case f d of Inl e \<Rightarrow> Inl e | Inr d' \<Rightarrow> Inr ((), d'))"

definition act_apply :: "(db \<Rightarrow> db) \<Rightarrow> unit act" where "act_apply f d = (Inr (), f d)"

definition act_read :: "(db \<Rightarrow> 'a act) \<Rightarrow> 'a act" where "act_read f d = f d d"

fun act_each :: "('a \<Rightarrow> unit act) \<Rightarrow> 'a list \<Rightarrow> unit act" where
  "act_each f [] = act_return ()"
| "act_each f (x # xs) = act_bind (f x) (\<lambda>_. act_each f xs)"

section \<open>Lines and events\<close>

record batch_line =
  bl_name :: string
  bl_type :: string
  bl_description :: string
  bl_body :: string
  bl_entities :: "new_entity list"
  bl_relationships :: "new_relationship list"

record batch_event =
  bv_name :: string
  bv_status :: string
  bv_memory_id :: "int option"
  bv_error :: "app_error option"
  bv_index :: nat
  bv_warnings :: "string list"

record batch_args =
  ba_transaction :: bool
  ba_fail_fast :: bool
  ba_force_merge :: bool
  ba_dry_run :: bool
  ba_enqueue_enrich :: bool
  ba_strict :: bool

record batch_env =
  be_env :: remember_env
  be_parse :: "string \<Rightarrow> string + batch_line"

definition failed_event :: "nat \<Rightarrow> app_error \<Rightarrow> batch_event" where
  "failed_event idx e = \<lparr>bv_name = [], bv_status = ''failed'', bv_memory_id = None, bv_error = Some e,
     bv_index = idx, bv_warnings = []\<rparr>"

section \<open>One line\<close>

definition batch_memory :: "remember_env \<Rightarrow> string \<Rightarrow> string \<Rightarrow> batch_line \<Rightarrow> new_memory" where
  "batch_memory env ns name line =
     \<lparr>n_namespace = ns, n_name = name, n_type = bl_type line, n_description = bl_description line,
      n_body = bl_body line, n_body_hash = re_blake3 env (bl_body line), n_session_id = None,
      n_source = ''agent'', n_metadata = ''{}''\<rparr>"

definition batch_embed :: "remember_env \<Rightarrow> int \<Rightarrow> string \<Rightarrow> string \<Rightarrow> unit act" where
  "batch_embed env i ns body =
     act_bind (act_check (accept_embedding (re_skip env) (re_embed env body))) (\<lambda>answer.
       case answer of
         None \<Rightarrow> act_return ()
       | Some (v, _) \<Rightarrow> act_exec_unit (upsert_vec (re_cfg env) i ns v))"

definition batch_version :: "int \<Rightarrow> int \<Rightarrow> int \<Rightarrow> new_memory \<Rightarrow> string \<Rightarrow> unit act" where
  "batch_version now i version m reason =
     act_exec_unit (insert_version now i version (n_name m) (n_type m) (n_description m) (n_body m) ''{}'' None reason)"

definition batch_update :: "remember_env \<Rightarrow> int \<Rightarrow> string \<Rightarrow> new_memory \<Rightarrow> int \<Rightarrow> (int \<times> string) act" where
  "batch_update env now ns m i =
     act_read (\<lambda>d.
       (case List.find (\<lambda>r. m_id r = i) (memories d) of
          None \<Rightarrow> act_fail (Database QueryReturnedNoRows)
        | Some old \<Rightarrow>
            act_bind (act_exec (update_memory now i m None)) (\<lambda>_.
            act_bind (act_apply (sync_fts_after_update i (m_name old) (m_description old) (m_body old)
                (n_name m) (n_description m) (n_body m))) (\<lambda>_.
            act_bind (act_read (\<lambda>d1. batch_version now i (next_version d1 i) m ''edit'')) (\<lambda>_.
            act_bind (batch_embed env i ns (n_body m)) (\<lambda>_. act_return (i, ''updated'')))))))"

definition batch_create :: "remember_env \<Rightarrow> int \<Rightarrow> string \<Rightarrow> new_memory \<Rightarrow> (int \<times> string) act" where
  "batch_create env now ns m =
     act_bind (act_exec (insert_memory now m)) (\<lambda>i.
     act_bind (batch_version now i 1 m ''create'') (\<lambda>_.
     act_bind (batch_embed env i ns (n_body m)) (\<lambda>_. act_return (i, ''created''))))"

definition batch_entity :: "remember_env \<Rightarrow> int \<Rightarrow> string \<Rightarrow> int \<Rightarrow> new_entity \<Rightarrow> unit act" where
  "batch_entity env now ns i e =
     act_bind (act_exec (upsert_entity (re_unicode env) now ns e)) (\<lambda>j.
     act_bind
       (case re_embed_entities env [entity_text e] of
          Inr [] \<Rightarrow> act_return ()
        | Inr (v # _) \<Rightarrow> act_exec_unit (upsert_entity_vec (re_cfg env) j ns v)
        | Inl err \<Rightarrow> if re_skip env then act_return () else act_fail err)
       (\<lambda>_. act_exec_unit (link_memory_entity i j)))"

definition batch_relationship :: "remember_env \<Rightarrow> int \<Rightarrow> string \<Rightarrow> new_relationship \<Rightarrow> unit act" where
  "batch_relationship env now ns r =
     act_read (\<lambda>d.
       (let u = re_unicode env in
        case (find_entity_id u d ns (normalize_entity_name u (nl_source r)),
              find_entity_id u d ns (normalize_entity_name u (nl_target r))) of
          (Some s, Some t) \<Rightarrow>
            act_exec_unit (\<lambda>d. bind_rust
              (create_or_fetch_relationship u now ns s t (nl_relation r) (nl_strength r) (nl_description r) d)
              (\<lambda>(_, _, d'). Inr d'))
        | _ \<Rightarrow> act_return ()))"

definition process_line ::
  "batch_env \<Rightarrow> int \<Rightarrow> string \<Rightarrow> batch_args \<Rightarrow> nat \<Rightarrow> string \<Rightarrow> (batch_event \<times> string list) act" where
  "process_line be now ns args idx raw =
     (let env = be_env be; u = re_unicode env in
      case be_parse be raw of
        Inl _ \<Rightarrow> act_fail (Validation ''batch_line_invalid_json'')
      | Inr input \<Rightarrow>
          (let warnings = collect_noncanonical_entity_types u (re_serde env) raw in
           if ba_strict args \<and> warnings \<noteq> [] then act_fail (Validation ''strict_entity_type_folded'')
           else
             act_bind (act_check (normalize_entities u (bl_entities input))) (\<lambda>es.
             (let name = normalize_entity_name u (bl_name input); m = batch_memory env ns name input in
              if name = [] then act_fail (Validation ''batch_line_name_empty'')
              else
                act_bind (act_check (check_embedding_input_size (re_tokens env) (bl_body input))) (\<lambda>_.
                act_bind
                  (act_read (\<lambda>d. case find_by_name d ns name of
                     None \<Rightarrow>
                       if str_trim (bl_description input) = [] then
                         act_fail (Validation ''batch_line_type_description_required'')
                       else batch_create env now ns m
                   | Some (i, _) \<Rightarrow>
                       if \<not> ba_force_merge args then act_fail (Duplicate ''duplicate_memory'')
                       else batch_update env now ns m i))
                  (\<lambda>(i, action).
                act_bind (act_each (batch_entity env now ns i) es) (\<lambda>_.
                act_bind (act_each (batch_relationship env now ns) (bl_relationships input)) (\<lambda>_.
                  act_return (\<lparr>bv_name = name, bv_status = action, bv_memory_id = Some i, bv_error = None,
                               bv_index = idx, bv_warnings = warnings\<rparr>,
                              map (\<lambda>e. normalize_entity_name u (ne_name e)) es)))))))))"

section \<open>The loops\<close>

text \<open>Events, names, number of failures, and the store in the open transaction.\<close>

fun shared_loop ::
  "batch_env \<Rightarrow> int \<Rightarrow> string \<Rightarrow> batch_args \<Rightarrow> nat \<Rightarrow> string list \<Rightarrow> db
     \<Rightarrow> batch_event list \<times> string list \<times> nat \<times> db" where
  "shared_loop be now ns args idx [] d = ([], [], 0, d)"
| "shared_loop be now ns args idx (l # ls) d =
     (case process_line be now ns args idx l d of
        (Inr (ev, names), d') \<Rightarrow>
          (case shared_loop be now ns args (Suc idx) ls d' of
             (evs, others, failed, d'') \<Rightarrow> (ev # evs, names @ others, failed, d''))
      | (Inl e, d') \<Rightarrow>
          if ba_fail_fast args then ([failed_event idx e], [], 1, d')
          else
            (case shared_loop be now ns args (Suc idx) ls d' of
               (evs, others, failed, d'') \<Rightarrow> (failed_event idx e # evs, others, Suc failed, d'')))"

fun single_loop ::
  "batch_env \<Rightarrow> int \<Rightarrow> string \<Rightarrow> batch_args \<Rightarrow> nat \<Rightarrow> string list \<Rightarrow> db
     \<Rightarrow> batch_event list \<times> string list \<times> nat \<times> db" where
  "single_loop be now ns args idx [] d = ([], [], 0, d)"
| "single_loop be now ns args idx (l # ls) d =
     (case process_line be now ns args idx l d of
        (Inr (ev, names), d') \<Rightarrow>
          (case single_loop be now ns args (Suc idx) ls d' of
             (evs, others, failed, d'') \<Rightarrow> (ev # evs, names @ others, failed, d''))
      | (Inl e, _) \<Rightarrow>
          if ba_fail_fast args then ([failed_event idx e], [], 1, d)
          else
            (case single_loop be now ns args (Suc idx) ls d of
               (evs, others, failed, d'') \<Rightarrow> (failed_event idx e # evs, others, Suc failed, d'')))"

definition preview_line :: "batch_env \<Rightarrow> string \<Rightarrow> batch_args \<Rightarrow> db \<Rightarrow> nat \<Rightarrow> string \<Rightarrow> batch_event" where
  "preview_line be ns args d idx raw =
     (let u = re_unicode (be_env be) in
      case be_parse be raw of
        Inl _ \<Rightarrow> failed_event idx (Validation ''invalid JSON'')
      | Inr input \<Rightarrow>
          (let name = normalize_entity_name u (bl_name input);
               warnings = collect_noncanonical_entity_types u (re_serde (be_env be)) raw
           in if name = [] then failed_event idx (Validation ''name normalizes to empty string'')
              else if ba_strict args \<and> warnings \<noteq> [] then
                \<lparr>bv_name = name, bv_status = ''would_fail_strict_entity_types'', bv_memory_id = None,
                 bv_error = Some (Validation ''strict_entity_type_folded''), bv_index = idx, bv_warnings = warnings\<rparr>
              else
                \<lparr>bv_name = name,
                 bv_status = (if find_by_name d ns name = None then ''would_create''
                              else if ba_force_merge args then ''would_update'' else ''would_fail_duplicate''),
                 bv_memory_id = map_option fst (find_by_name d ns name), bv_error = None, bv_index = idx,
                 bv_warnings = warnings\<rparr>))"

record batch_summary =
  bs_total :: nat
  bs_succeeded :: nat
  bs_failed :: nat
  bs_entities :: "string list"
  bs_recommended :: "string list"
  bs_enqueued :: "nat option"

text \<open>Standard input: the outcome of reading each line; reading stops at the first failure.\<close>

definition input_lines :: "(app_error + string) list \<Rightarrow> string list" where
  "input_lines stdin =
     filter (\<lambda>l. str_trim l \<noteq> []) (map projr (takeWhile (\<lambda>r. case r of Inr _ \<Rightarrow> True | Inl _ \<Rightarrow> False) stdin))"

definition batch_finish ::
  "int \<Rightarrow> batch_args \<Rightarrow> string list \<Rightarrow> batch_event list \<times> string list \<times> nat \<Rightarrow> sidecar
     \<Rightarrow> (batch_event list \<times> batch_summary) \<times> sidecar" where
  "batch_finish now args lines result s =
     (case result of (evs, names, failed) \<Rightarrow>
      (let names = sort (remdups names);
           (enqueued, s') = (if ba_enqueue_enrich args \<and> names \<noteq> [] then
               (case enqueue_hot_set now names s of (Inr n, s') \<Rightarrow> (Some n, s') | (Inl _, s') \<Rightarrow> (None, s'))
             else (None, s))
       in ((evs, \<lparr>bs_total = length lines, bs_succeeded = length evs - failed, bs_failed = failed, bs_entities = names,
                  bs_recommended = (if names \<noteq> [] then [''entity-descriptions''] else []), bs_enqueued = enqueued\<rparr>), s')))"

definition remember_batch ::
  "batch_env \<Rightarrow> bool \<Rightarrow> int \<Rightarrow> string \<Rightarrow> batch_args \<Rightarrow> (app_error + string) list \<Rightarrow> db \<Rightarrow> sidecar
     \<Rightarrow> (app_error + batch_event list \<times> batch_summary) \<times> db \<times> sidecar" where
  "remember_batch be no_input now ns args stdin d s =
     (if no_input then (Inl (Validation ''no_input_blocks_stdin''), d, s)
      else
        (let lines = input_lines stdin in
         if ba_dry_run args then
           (let evs = map (\<lambda>(idx, l). preview_line be ns args d idx l) (enumerate 0 lines);
                failed = length (filter (\<lambda>ev. bv_error ev \<noteq> None) evs)
            in (Inr (evs, \<lparr>bs_total = length lines, bs_succeeded = length evs - failed, bs_failed = failed,
                           bs_entities = [], bs_recommended = [], bs_enqueued = None\<rparr>), d, s))
         else if ba_transaction args then
           (case shared_loop be now ns args 0 lines d of (evs, names, failed, d') \<Rightarrow>
              (case batch_finish now args lines (evs, names, failed) s of (answer, s') \<Rightarrow>
                 (Inr answer, if failed = 0 \<or> \<not> ba_fail_fast args then d' else d, s')))
         else
           (case single_loop be now ns args 0 lines d of (evs, names, failed, d') \<Rightarrow>
              (case batch_finish now args lines (evs, names, failed) s of (answer, s') \<Rightarrow> (Inr answer, d', s')))))"

end
