(* ===== verification/Parts_Correct.thy ===== *)
theory Parts_Correct
  imports Graph_Session Remember
begin

text \<open>
  Statements on the tables around memories and graph: versions, chunks, URLs, embeddings and bindings.
  Each is a \<open>side_step\<close>: it keeps the schema invariant and leaves memories, index, entities and edges
  alone. The second part is the graph invariant up to a set of entities whose degrees are still to be
  recalculated.
\<close>

section \<open>Side steps\<close>

definition side_step :: "db \<Rightarrow> db \<Rightarrow> bool" where
  "side_step d d' \<longleftrightarrow> (store_ok d \<longrightarrow> store_ok d') \<and> memories d' = memories d \<and> fts_memories d' = fts_memories d
     \<and> graph_frame d d'"

named_theorems side_steps

lemma side_step_refl [simp]: "side_step d d"
  by (simp add: side_step_def)

lemma side_step_trans [trans]: "side_step d d' \<Longrightarrow> side_step d' d'' \<Longrightarrow> side_step d d''"
  by (auto simp: side_step_def graph_frame_def)

lemma side_step_inv: "store_inv d \<Longrightarrow> side_step d d' \<Longrightarrow> store_inv d'"
  by (rule store_inv_same) (simp_all add: side_step_def store_invD)

lemma side_step_graph: "graph_inv d \<Longrightarrow> side_step d d' \<Longrightarrow> graph_inv d'"
  using graph_inv_frame side_step_inv graph_invD(1) by (metis side_step_def)

lemma side_stepI:
  assumes "store_ok d \<Longrightarrow> store_ok d'" and "memories d' = memories d" and "fts_memories d' = fts_memories d"
    and "graph_frame d d'"
  shows "side_step d d'"
  using assms by (simp add: side_step_def)

lemma side_insert_version [side_steps]:
  "insert_version now i v n t de b m by reason d = Inr d' \<Longrightarrow> side_step d d'"
  by (rule side_stepI) (auto dest: insert_version_keeps insert_version_ok frame_insert_version)

lemma side_upsert_vec [side_steps]: "upsert_vec cfg i ns emb d = Inr d' \<Longrightarrow> side_step d d'"
  by (rule side_stepI) (auto dest: upsert_vec_keeps upsert_vec_ok frame_upsert_vec)

lemma side_upsert_entity_vec [side_steps]: "upsert_entity_vec cfg i ns emb d = Inr d' \<Longrightarrow> side_step d d'"
  by (rule side_stepI)
     (auto simp: upsert_entity_vec_def graph_frame_def dest: store_ok_entity_vec split: if_splits)

lemma side_delete_chunks [side_steps]: "side_step d (delete_chunks i d)"
  by (rule side_stepI)
     (simp_all add: delete_chunks_def delete_chunk_rows_ok, simp_all add: delete_chunk_rows_def Let_def graph_frame_def)

lemma side_insert_chunk [side_steps]:
  assumes "exec_insert_chunk c d = Inr d'"
  shows "side_step d d'"
proof -
  define x where "x = \<lparr>c_id = seq_chunks d + 1, c_memory_id = sc_memory_id c, c_chunk_idx = sc_chunk_idx c,
    c_text = sc_text c, c_start = sc_start c, c_end = sc_end c, c_token_count = sc_token_count c\<rparr>"
  have x: "c_id x = seq_chunks d + 1" "c_memory_id x \<in> memory_ids d"
    "\<forall>y \<in> set (memory_chunks d). (c_memory_id y, c_chunk_idx y) \<noteq> (c_memory_id x, c_chunk_idx x)"
    and d': "d' = d\<lparr>memory_chunks := memory_chunks d @ [x], seq_chunks := seq_chunks d + 1\<rparr>"
    using assms by (auto simp: exec_insert_chunk_def x_def split: if_splits)
  show ?thesis
  proof (rule side_stepI)
    assume ok: "store_ok d"
    have "keyed_by c_id (seq_chunks d + 1) (memory_chunks d @ [x])"
      using ok x(1) by (intro keyed_by_snoc) (simp_all add: store_defs)
    moreover have "distinct (map (\<lambda>c. (c_memory_id c, c_chunk_idx c)) (memory_chunks d @ [x]))"
      using ok x(3) by (auto simp: store_defs)
    moreover have "x_key ` set (chunk_embeddings d) \<subseteq> c_id ` set (memory_chunks d @ [x])"
      using ok by (auto simp: store_defs chunk_ids_def)
    ultimately show "store_ok d'" using ok x(2) by (simp add: d' store_defs id_set_defs)
  qed (simp_all add: d' graph_frame_def)
qed

lemma side_insert_slices [side_steps]:
  "insert_slices_loop i body idx cs d = Inr (failure, d') \<Longrightarrow> side_step d d'"
proof (induction cs arbitrary: idx d)
  case (Cons c cs)
  from Cons.prems obtain piece where "chunk_text body c = Inr piece"
    by (auto simp: bind_rust_Inr_iff)
  with Cons show ?case
    by (auto split: sum.splits intro: side_step_trans [OF side_insert_chunk])
qed simp

lemma side_upsert_chunk_vec [side_steps]:
  assumes "upsert_chunk_vec cfg i idx emb d = Inr d'"
  shows "side_step d d'"
proof (cases "emb = []")
  case False
  define k where "k = (case List.find (\<lambda>c. c_memory_id c = i \<and> c_chunk_idx c = idx) (memory_chunks d) of
      Some c \<Rightarrow> c_id c | None \<Rightarrow> max_or_zero (map x_key (chunk_embeddings d)) + 1)"
  define x where "x = \<lparr>x_key = k, x_owner = i, x_namespace = '''', x_embedding = f32_to_bytes emb,
    x_source = ''llm-headless'', x_model = cfg_version cfg, x_dim = cfg_dim cfg\<rparr>"
  have x: "x_key x \<in> chunk_ids d" "x_owner x \<in> memory_ids d"
    and d': "d' = d\<lparr>chunk_embeddings := sql_delete (\<lambda>y. x_key y = x_key x) (chunk_embeddings d) @ [x]\<rparr>"
    using assms False by (simp_all add: upsert_chunk_vec_def Let_def x_def flip: k_def split: if_splits)
  show ?thesis
  proof (rule side_stepI)
    assume ok: "store_ok d"
    have "distinct (map x_key (sql_delete (\<lambda>y. x_key y = x_key x) (chunk_embeddings d)))"
      using ok by (simp add: store_defs distinct_map_sql_delete)
    then show "store_ok d'" using ok x by (auto simp: d' store_defs id_set_defs)
  qed (simp_all add: d' graph_frame_def)
qed (use assms in \<open>simp add: upsert_chunk_vec_def\<close>)

lemma side_insert_url [side_steps]:
  assumes "insert_url now i entry d = Inr (n, d')"
  shows "side_step d d'"
proof (cases "n = 0")
  case False
  define x where "x = \<lparr>u_id = seq_urls d + 1, u_memory_id = i, u_url = mu_url entry, u_offset = mu_offset entry,
    u_created_at = now\<rparr>"
  have x: "u_id x = seq_urls d + 1" "u_memory_id x \<in> memory_ids d"
    "\<forall>y \<in> set (memory_urls d). (u_memory_id y, u_url y) \<noteq> (u_memory_id x, u_url x)"
    and d': "d' = d\<lparr>memory_urls := memory_urls d @ [x], seq_urls := seq_urls d + 1\<rparr>"
    using assms False by (auto simp: insert_url_def x_def split: if_splits)
  show ?thesis
  proof (rule side_stepI)
    assume ok: "store_ok d"
    have "keyed_by u_id (seq_urls d + 1) (memory_urls d @ [x])"
      using ok x(1) by (intro keyed_by_snoc) (simp_all add: store_defs)
    moreover have "distinct (map (\<lambda>u. (u_memory_id u, u_url u)) (memory_urls d @ [x]))"
      using ok x(3) by (auto simp: store_defs)
    ultimately show "store_ok d'" using ok x(2) by (simp add: d' store_defs id_set_defs)
  qed (simp_all add: d' graph_frame_def)
qed (use assms in \<open>auto simp: insert_url_def split: if_splits\<close>)

lemma side_insert_urls [side_steps]: "side_step d (snd (insert_urls now i urls d))"
proof -
  have "side_step d (snd (insert_urls_loop now i urls n d))" for n
    by (induction urls arbitrary: n d) (auto intro: side_insert_url side_step_trans split: sum.split)
  then show ?thesis by (simp add: insert_urls_def)
qed

lemma side_link_memory_entity [side_steps]:
  assumes "link_memory_entity i e d = Inr d'"
  shows "side_step d d'"
proof (cases "(i, e) \<in> set (memory_entities d)")
  case False
  with assms have "i \<in> memory_ids d" "e \<in> entity_ids d" and d': "d' = d\<lparr>memory_entities := memory_entities d @ [(i, e)]\<rparr>"
    by (auto simp: link_memory_entity_def split: if_splits)
  with False have "store_ok d \<Longrightarrow> store_ok d'"
    unfolding d' by (intro store_ok_bindings) (auto simp: store_defs)
  then show ?thesis by (rule side_stepI) (simp_all add: d' graph_frame_def)
qed (use assms in \<open>simp add: link_memory_entity_def\<close>)

lemma store_ok_edge_bindings:
  assumes "store_ok d" and "distinct xs" and "fst ` set xs \<subseteq> memory_ids d" and "snd ` set xs \<subseteq> relationship_ids d"
  shows "store_ok (d\<lparr>memory_relationships := xs\<rparr>)"
  using assms by (simp add: store_defs id_set_defs)

lemma side_link_memory_relationship [side_steps]:
  assumes "link_memory_relationship i r d = Inr d'"
  shows "side_step d d'"
proof (cases "(i, r) \<in> set (memory_relationships d)")
  case False
  with assms have "i \<in> memory_ids d" "r \<in> relationship_ids d"
    and d': "d' = d\<lparr>memory_relationships := memory_relationships d @ [(i, r)]\<rparr>"
    by (auto simp: link_memory_relationship_def split: if_splits)
  with False have "store_ok d \<Longrightarrow> store_ok d'"
    unfolding d' by (intro store_ok_edge_bindings) (simp_all add: store_defs)
  then show ?thesis by (rule side_stepI) (simp_all add: d' graph_frame_def)
qed (use assms in \<open>simp add: link_memory_relationship_def\<close>)

lemma side_clear_bindings [side_steps]: "side_step d (snd (clear_memory_graph_bindings i d))"
  by (rule side_stepI)
     (auto simp: clear_memory_graph_bindings_def graph_frame_def store_defs id_set_defs intro: distinct_sql_delete)

end
