(* ===== verification/Remember_Correct.thy ===== *)
theory Remember_Correct
  imports Parts_Correct
begin

text \<open>
  The command \<^verbatim>\<open>remember\<close>: its transaction keeps the invariant of store and graph, a success binds the
  name to the merged content and touches no other name, and an error leaves the store as it was, up to
  the undeletion that runs before the transaction.
\<close>

lemma bind_resultE:
  assumes "bind_result r f = Inr (Inr b)"
  obtains a where "r = Inr (Inr a)" "f a = Inr (Inr b)"
  using assms unfolding bind_result_Inr_iff by blast

section \<open>The graph part of the transaction\<close>

lemma graph_upto_side: "graph_upto S d \<Longrightarrow> side_step d d' \<Longrightarrow> graph_upto S d'"
  using side_step_inv [of d d']
  by (simp add: graph_upto_def side_step_def graph_frame_def graph_typed_def)

definition rows_kept :: "db \<Rightarrow> db \<Rightarrow> bool" where
  "rows_kept d d' \<longleftrightarrow> memories d' = memories d \<and> fts_memories d' = fts_memories d"

lemma rows_kept_refl [simp]: "rows_kept d d"
  by (simp add: rows_kept_def)

lemma rows_kept_trans [trans]: "rows_kept d d' \<Longrightarrow> rows_kept d' d'' \<Longrightarrow> rows_kept d d''"
  by (simp add: rows_kept_def)

lemma rows_kept_side: "side_step d d' \<Longrightarrow> rows_kept d d'"
  by (simp add: side_step_def rows_kept_def)

lemma rows_kept_upsert: "upsert_entity_with ty u now ns e d = Inr (i, d') \<Longrightarrow> rows_kept d d'"
  by (erule upsert_entityE) (simp add: rows_kept_def)

lemma rows_kept_upsert_entity: "upsert_entity u now ns e d = Inr (i, d') \<Longrightarrow> rows_kept d d'"
  unfolding upsert_entity_def by (rule rows_kept_upsert)

lemma rows_kept_link: "link_memory_relationship i r d = Inr d' \<Longrightarrow> rows_kept d d'"
  by (rule rows_kept_side [OF side_link_memory_relationship])

lemma upsert_relationshipE:
  assumes "upsert_relationship u now ns s t rel d = Inr (i, d')"
  obtains (old) "weight_ok (nl_strength rel)"
      "d' = update_relationships now (edge_is s t (map_to_canonical_relation u (nl_relation rel)))
        (\<lambda>r. r\<lparr>r_weight := nl_strength rel, r_description := coalesce (nl_description rel) (r_description r)\<rparr>) d"
    | (new) "insert_relationship now ns s t (map_to_canonical_relation u (nl_relation rel)) (nl_strength rel)
        (nl_description rel) d = Inr d'"
  using assms unfolding upsert_relationship_def Let_def
  by (auto simp: bind_rust_Inr_iff split: if_splits option.splits)

lemma upsert_relationship_upto:
  assumes inv: "graph_upto S d" and run: "upsert_relationship u now ns s t rel d = Inr (i, d')" and "s \<noteq> t"
  shows "graph_upto (S \<union> {s, t}) d'"
  using run
proof (cases rule: upsert_relationshipE)
  case old
  let ?f = "\<lambda>r. r\<lparr>r_weight := nl_strength rel, r_description := coalesce (nl_description rel) (r_description r),
    r_updated_at := now\<rparr>"
  have "graph_upto S d'"
    using rewrite_edges_upto(1) [OF inv, of ?f] old by (simp add: update_relationships_def edge_key_def)
  then show ?thesis by (rule graph_upto_mono) blast
next
  case new
  from insert_edge_upto(1) [OF inv new \<open>s \<noteq> t\<close> map_to_canonical_relation_closed] show ?thesis .
qed

lemma rows_kept_upsert_relationship: "upsert_relationship u now ns s t rel d = Inr (i, d') \<Longrightarrow> rows_kept d d'"
  by (erule upsert_relationshipE) (auto simp: update_relationships_def rows_kept_def elim: insert_relationshipE)

text \<open>Two names with different normal forms are stored as two entities.\<close>

lemma upsert_ids_differ:
  assumes "graph_upto S d" and one: "upsert_entity u now ns e d = Inr (s, d1)"
    and two: "upsert_entity u now ns e' d1 = Inr (t, d2)"
    and differ: "normalize_entity_name u (ne_name e) \<noteq> normalize_entity_name u (ne_name e')"
  shows "s \<noteq> t"
proof -
  note runs = one [unfolded upsert_entity_def] two [unfolded upsert_entity_def]
  have "graph_upto S d2" by (intro upsert_entity_upto [OF upsert_entity_upto [OF assms(1) runs(1)] runs(2)])
  note ok = graph_uptoD(2) [OF this]
  obtain x where x: "x \<in> set (entities d1)" "e_id x = s" "e_name x = normalize_entity_name u (ne_name e)"
    using entity_id_named_SomeD [OF upsert_found [OF runs(1)]] by blast
  obtain x' where "x' \<in> set (entities d2)" "e_id x' = s" "e_name x' = normalize_entity_name u (ne_name e)"
    using upsert_old [OF runs(2) x(1)] x(2,3) by auto
  moreover obtain y where "y \<in> set (entities d2)" "e_id y = t" "e_name y = normalize_entity_name u (ne_name e')"
    using entity_id_named_SomeD [OF upsert_found [OF runs(2)]] by blast
  ultimately show ?thesis using same_entity [OF ok] differ by metis
qed

lemma store_entities_upto:
  assumes "graph_upto S d" and "store_entities env now ns i embs es n d = Inr (Inr d')"
  shows "graph_upto S d' \<and> rows_kept d d'"
  using assms
proof (induction es arbitrary: n d)
  case (Cons e es)
  from Cons.prems(2) obtain j d1 d2 d3 where u: "upsert_entity (re_unicode env) now ns e d = Inr (j, d1)"
    and v: "upsert_entity_vec (re_cfg env) j ns (embs ! n) d1 = Inr d2" and l: "link_memory_entity i j d2 = Inr d3"
    and rest: "store_entities env now ns i embs es (Suc n) d3 = Inr (Inr d')"
    by (auto simp: bind_result_Inr_iff split: if_splits)
  have "side_step d1 d3" using side_upsert_entity_vec [OF v] side_link_memory_entity [OF l] by (rule side_step_trans)
  moreover have "graph_upto S d1" using upsert_entity_upto [OF Cons.prems(1) u [unfolded upsert_entity_def]] .
  ultimately have "graph_upto S d3" "rows_kept d1 d3" by (simp_all add: graph_upto_side rows_kept_side)
  then show ?case
    using Cons.IH [OF _ rest] rows_kept_upsert [OF u [unfolded upsert_entity_def]] by (metis rows_kept_trans)
qed simp

definition no_self_loops :: "unicode \<Rightarrow> new_relationship list \<Rightarrow> bool" where
  "no_self_loops u rs \<longleftrightarrow> (\<forall>r \<in> set rs. normalize_entity_name u (nl_source r) \<noteq> normalize_entity_name u (nl_target r))"

lemma store_relationshipE:
  assumes "store_relationships env now ns i es (r # rs) affected d = Inr (affected', d')"
  obtains s t rel d1 d2 d3 d4 where
    "upsert_entity (re_unicode env) now ns
       \<lparr>ne_name = nl_source r, ne_type = type_of_name es (nl_source r), ne_description = None\<rparr> d = Inr (s, d1)"
    "upsert_entity (re_unicode env) now ns
       \<lparr>ne_name = nl_target r, ne_type = type_of_name es (nl_target r), ne_description = None\<rparr> d1 = Inr (t, d2)"
    "upsert_relationship (re_unicode env) now ns s t r d2 = Inr (rel, d3)"
    "link_memory_relationship i rel d3 = Inr d4"
    "store_relationships env now ns i es rs (affected @ [s, t]) d4 = Inr (affected', d')"
  using assms unfolding store_relationships.simps bind_rust_Inr_iff split_paired_Ex prod.case by blast

lemma store_relationships_kept:
  "store_relationships env now ns i es rs affected d = Inr (affected', d') \<Longrightarrow> rows_kept d d'"
proof (induction rs arbitrary: affected d)
  case (Cons r rs)
  from Cons.prems show ?case
    by (rule store_relationshipE)
       (blast dest: rows_kept_upsert_entity rows_kept_upsert_relationship rows_kept_link Cons.IH intro: rows_kept_trans)
qed simp

lemma store_relationships_upto:
  assumes "graph_upto (set affected) d" and "no_self_loops (re_unicode env) rs"
    and "store_relationships env now ns i es rs affected d = Inr (affected', d')"
  shows "graph_upto (set affected') d'"
  using assms
proof (induction rs arbitrary: affected d)
  case (Cons r rs)
  from Cons.prems(3) show ?case
  proof (rule store_relationshipE)
    fix s t rel d1 d2 d3 d4
    let ?a = "\<lparr>ne_name = nl_source r, ne_type = type_of_name es (nl_source r), ne_description = None\<rparr>"
    let ?b = "\<lparr>ne_name = nl_target r, ne_type = type_of_name es (nl_target r), ne_description = None\<rparr>"
    assume a: "upsert_entity (re_unicode env) now ns ?a d = Inr (s, d1)"
      and b: "upsert_entity (re_unicode env) now ns ?b d1 = Inr (t, d2)"
      and e: "upsert_relationship (re_unicode env) now ns s t r d2 = Inr (rel, d3)"
      and l: "link_memory_relationship i rel d3 = Inr d4"
      and rest: "store_relationships env now ns i es rs (affected @ [s, t]) d4 = Inr (affected', d')"
    have "s \<noteq> t"
      by (rule upsert_ids_differ [OF Cons.prems(1) a b]) (use Cons.prems(2) in \<open>simp add: no_self_loops_def\<close>)
    moreover have "graph_upto (set affected) d2"
      using a b Cons.prems(1) by (auto simp: upsert_entity_def intro: upsert_entity_upto)
    ultimately have "graph_upto (set affected \<union> {s, t}) d3" using upsert_relationship_upto [OF _ e] by blast
    then have "graph_upto (set (affected @ [s, t])) d4"
      using graph_upto_side [OF _ side_link_memory_relationship [OF l]] by simp
    with Cons.IH [OF _ _ rest] Cons.prems(2) show ?thesis by (simp add: no_self_loops_def)
  qed
qed simp

lemma store_graphE:
  assumes "store_graph env now ns i g embs d = Inr (Inr d')"
  obtains (skipped) "d' = d"
    | (stored) d1 js affected d2 where "store_entities env now ns i embs (gi_entities g) 0 d = Inr (Inr d1)"
      "store_relationships env now ns i (gi_entities g) (gi_relationships g) js d1 = Inr (affected, d2)"
      "d' = recalculate_degrees affected d2"
proof (cases "gi_entities g = [] \<and> gi_relationships g = []")
  case False
  with assms show thesis
    unfolding store_graph_def bind_result_Inr_iff if_not_P [OF False] split_paired_Ex prod.case
    using stored by blast
next
  case True
  with assms show thesis by (intro skipped) (simp add: store_graph_def)
qed

lemma store_graph_upto:
  assumes inv: "graph_inv d" and "no_self_loops (re_unicode env) (gi_relationships g)"
    and run: "store_graph env now ns i g embs d = Inr (Inr d')"
  shows "graph_inv d'"
  using run
proof (cases rule: store_graphE)
  case (stored d1 js affected d2)
  have "graph_upto {} d1" using inv stored(1) store_entities_upto by (simp add: graph_inv_upto)
  then have "graph_upto (set js) d1" by (rule graph_upto_mono) simp
  from store_relationships_upto [OF this assms(2) stored(2)] show ?thesis
    unfolding stored(3) by (rule graph_upto_recalculate) simp
qed (use inv in simp)

lemma store_entities_kept: "store_entities env now ns i embs es n d = Inr (Inr d') \<Longrightarrow> rows_kept d d'"
proof (induction es arbitrary: n d)
  case (Cons e es)
  then show ?case
    by (auto simp: bind_result_Inr_iff split: if_splits)
       (blast dest: rows_kept_upsert_entity rows_kept_side [OF side_upsert_entity_vec]
          rows_kept_side [OF side_link_memory_entity] Cons.IH intro: rows_kept_trans)
qed simp

lemma store_graph_kept: "store_graph env now ns i g embs d = Inr (Inr d') \<Longrightarrow> rows_kept d d'"
proof (erule store_graphE)
  fix d1 js affected d2
  assume "store_entities env now ns i embs (gi_entities g) 0 d = Inr (Inr d1)"
    and "store_relationships env now ns i (gi_entities g) (gi_relationships g) js d1 = Inr (affected, d2)"
    and "d' = recalculate_degrees affected d2"
  then show "rows_kept d d'"
    using store_entities_kept store_relationships_kept by (force simp: rows_kept_def)
qed simp

section \<open>The row of the memory\<close>

definition embed_opt :: "embed_config \<Rightarrow> int \<Rightarrow> string \<Rightarrow> f32 list option \<Rightarrow> db \<Rightarrow> app_error + db" where
  "embed_opt cfg i ns embedding d = (case embedding of Some emb \<Rightarrow> upsert_vec cfg i ns emb d | None \<Rightarrow> Inr d)"

lemma side_embed_opt: "embed_opt cfg i ns embedding d = Inr d' \<Longrightarrow> side_step d d'"
  by (auto simp: embed_opt_def intro: side_upsert_vec split: option.splits)

lemma store_row_updateE:
  assumes "store_row env now ns expected m embedding (Some i) d = Inr ((j, action, version, unchanged), d')"
  obtains old d0 b d1 d2 where "List.find (\<lambda>r. m_id r = i) (memories d) = Some old" "j = i" "action = ''updated''"
    "unchanged \<longleftrightarrow> m_body_hash old = n_body_hash m" "d0 = (if unchanged then d else delete_chunks i d)"
    "version = next_version d0 i" "update_memory now i m expected d0 = Inr (b, d1)"
    "insert_version now i version (n_name m) (n_type m) (n_description m) (n_body m) (n_metadata m) None ''edit''
       (sync_fts_after_update i (m_name old) (m_description old) (m_body old) (n_name m) (n_description m) (n_body m) d1)
     = Inr d2"
    "(case embedding of Some emb \<Rightarrow> if unchanged then Inr d2 else upsert_vec (re_cfg env) i ns emb d2 | None \<Rightarrow> Inr d2)
     = Inr d'"
  using assms unfolding store_row_def Let_def
  by (auto simp: bind_rust_Inr_iff split: option.splits)

lemma store_row_insertE:
  assumes "store_row env now ns expected m embedding None d = Inr ((j, action, version, unchanged), d')"
  obtains d1 d2 where "action = ''created''" "version = 1" "\<not> unchanged" "insert_memory now m d = Inr (j, d1)"
    "insert_version now j 1 (n_name m) (n_type m) (n_description m) (n_body m) (n_metadata m) None ''create'' d1 = Inr d2"
    "embed_opt (re_cfg env) j ns embedding d2 = Inr d'"
  using assms unfolding store_row_def embed_opt_def by (auto simp: bind_rust_Inr_iff)

text \<open>The update of a live row whose lock, if there is one, names the time of its last change.\<close>

definition lock_holds :: "int option \<Rightarrow> memory_row \<Rightarrow> bool" where
  "lock_holds expected r \<longleftrightarrow> (case expected of None \<Rightarrow> True | Some ts \<Rightarrow> m_updated_at r = ts)"

lemma lock_holds_None [simp]: "lock_holds None r"
  by (simp add: lock_holds_def)

lemma update_memoryE:
  assumes "update_memory now i m expected d = Inr (b, d')"
  obtains n where "n_source m \<in> set (map source_str all_sources)"
    "exec_update_memories now (\<lambda>r. m_id r = i \<and> lock_holds expected r \<and> live r) (set_memory (n_source m) m) d = Inr (n, d')"
  using assms unfolding update_memory_def bind_rust_Inr_iff
  by (auto simp: validate_source_iff lock_holds_def split: option.splits)

lemma frame_update_memory: "update_memory now i m expected d = Inr (b, d') \<Longrightarrow> graph_frame d d'"
  unfolding update_memory_def bind_rust_Inr_iff by (auto dest: frame_update_memories split: option.splits)

text \<open>The row and its index entry, rewritten together.\<close>

lemma update_and_sync:
  assumes inv: "store_inv d" and l: "live old" and old: "List.find (\<lambda>r. m_id r = i) (memories d) = Some old"
    and names: "n_name m = m_name old" and lock: "lock_holds expected old"
    and run: "update_memory now i m expected d = Inr (b, d1)"
  shows "store_inv (sync_fts_after_update i (m_name old) (m_description old) (m_body old) (n_name m) (n_description m)
      (n_body m) d1)"
    and "set (memories d1) = insert ((set_memory (n_source m) m old)\<lparr>m_updated_at := now\<rparr>) (set (memories d) - {old})"
proof -
  have m: "old \<in> set (memories d)" "m_id old = i" using find_in_set [OF old] by simp_all
  from run obtain n where u: "exec_update_memories now (\<lambda>r. m_id r = i \<and> lock_holds expected r \<and> live r) (set_memory (n_source m) m) d = Inr (n, d1)"
    by (rule update_memoryE)
  have "n = sql_changed (\<lambda>r. m_id r = i \<and> lock_holds expected r \<and> live r) (memories d)"
    using u by (auto elim: exec_update_memoriesE)
  then have "n \<noteq> 0" using m l lock by (auto simp: sql_count_eq_0)
  have ok1: "store_ok d1"
    by (rule exec_update_memories_ok [OF store_invD(1) [OF inv] u]) (simp add: set_memory_def)
  note eff = update_row_inv [OF inv u \<open>n \<noteq> 0\<close> _ _ _ ok1 refl refl, of old,
      unfolded m(2), of "n_name m" "n_description m" "n_body m"]
  show "store_inv (sync_fts_after_update i (m_name old) (m_description old) (m_body old) (n_name m) (n_description m)
      (n_body m) d1)"
    and "set (memories d1) = insert ((set_memory (n_source m) m old)\<lparr>m_updated_at := now\<rparr>) (set (memories d) - {old})"
    using eff m names by (simp_all add: set_memory_def fts_of_def)
qed

lemma store_row_update:
  assumes inv: "store_inv d" and l: "live old" and old: "List.find (\<lambda>r. m_id r = i) (memories d) = Some old"
    and names: "n_name m = m_name old" and lock: "lock_holds expected old"
    and run: "store_row env now ns expected m embedding (Some i) d = Inr ((j, action, version, unchanged), d')"
  shows "store_inv d' \<and> graph_frame d d'
    \<and> set (memories d') = insert ((set_memory (n_source m) m old)\<lparr>m_updated_at := now\<rparr>) (set (memories d) - {old})"
  using run
proof (rule store_row_updateE)
  fix old' d0 b d1 d2
  assume f: "List.find (\<lambda>r. m_id r = i) (memories d) = Some old'"
    and d0: "d0 = (if unchanged then d else delete_chunks i d)" and u: "update_memory now i m expected d0 = Inr (b, d1)"
    and v: "insert_version now i version (n_name m) (n_type m) (n_description m) (n_body m) (n_metadata m) None ''edit''
       (sync_fts_after_update i (m_name old') (m_description old') (m_body old') (n_name m) (n_description m) (n_body m) d1)
     = Inr d2"
    and e: "(case embedding of Some emb \<Rightarrow> if unchanged then Inr d2 else upsert_vec (re_cfg env) i ns emb d2
       | None \<Rightarrow> Inr d2) = Inr d'"
  have old': "old' = old" using f old by simp
  have side: "side_step d d0" using side_delete_chunks by (simp add: d0)
  then have inv0: "store_inv d0" and mem0: "memories d0 = memories d"
    using side_step_inv [OF inv] by (simp_all add: side_step_def)
  let ?d1 = "sync_fts_after_update i (m_name old) (m_description old) (m_body old) (n_name m) (n_description m) (n_body m) d1"
  note 1 = update_and_sync [OF inv0 l old [folded mem0] names lock u]
  have "side_step d2 d'" using e side_upsert_vec by (auto split: option.splits if_splits)
  with side_insert_version [OF v] have "side_step ?d1 d'" unfolding old' by (rule side_step_trans)
  moreover have "graph_frame d ?d1"
    using graph_frame_trans [OF _ frame_update_memory [OF u]] side by (simp add: side_step_def)
  ultimately show ?thesis
    using 1 side_step_inv [of ?d1 d'] graph_frame_trans [of d ?d1 d'] by (simp add: side_step_def mem0)
qed

lemma store_row_insert:
  assumes inv: "store_inv d" and run: "store_row env now ns expected m embedding None d = Inr ((j, action, version, unchanged), d')"
  obtains row where "row = memory_of_new now (seq_memories d + 1) (n_source m) m" "j = m_id row" "store_inv d'"
    "graph_frame d d'" "\<forall>r \<in> set (memories d). \<not> named (n_namespace m) (n_name m) r" "memories d' = memories d @ [row]"
  using run
proof (rule store_row_insertE)
  fix d1 d2
  assume i: "insert_memory now m d = Inr (j, d1)"
    and v: "insert_version now j 1 (n_name m) (n_type m) (n_description m) (n_body m) (n_metadata m) None ''create'' d1 = Inr d2"
    and e: "embed_opt (re_cfg env) j ns embedding d2 = Inr d'"
  have side: "side_step d1 d'" using side_insert_version [OF v] side_embed_opt [OF e] by (rule side_step_trans)
  have "store_inv d'" using side_step_inv [OF insert_memory_inv [OF inv i] side] .
  moreover have "graph_frame d d'" using frame_insert [OF i] side by (simp add: side_step_def graph_frame_def)
  ultimately show thesis using i side by (elim insert_memoryE) (rule that, auto simp: side_step_def)
qed

lemma store_row_effect:
  assumes inv: "store_inv d" and "existing = map_option fst (find_by_name d (n_namespace m) (n_name m))"
    and lock: "\<And>old. read_by_name d (n_namespace m) (n_name m) = Some old \<Longrightarrow> lock_holds expected old"
    and run: "store_row env now ns expected m embedding existing d = Inr ((j, action, version, unchanged), d')"
  shows "store_inv d' \<and> graph_frame d d' \<and> view_of d' = (view_of d)((n_namespace m, n_name m) \<mapsto> new_content m)
    \<and> action = (if existing = None then ''created'' else ''updated'')"
proof (cases existing)
  case None
  from run [unfolded None] obtain row where row: "row = memory_of_new now (seq_memories d + 1) (n_source m) m"
    and inv': "store_inv d'" and fr: "graph_frame d d'" and fresh: "\<forall>r \<in> set (memories d). \<not> named (n_namespace m) (n_name m) r"
    and mem: "memories d' = memories d @ [row]"
    by (rule store_row_insert [OF inv])
  have k: "key row = (n_namespace m, n_name m)" "visible row = Some (new_content m)"
    by (simp_all add: row memory_of_new_def key_def visible_def live_def content_def new_content_def)
  have "view_of d' = (view_of d)(key row := visible row)"
    by (rule view_add [OF store_invD(1) [OF inv'] _ store_invD(1) [OF inv]])
       (use fresh k in \<open>auto simp: named_key mem\<close>)
  moreover have "action = ''created''" using run [unfolded None] by (rule store_row_insertE)
  ultimately show ?thesis using inv' fr k None by simp
next
  case (Some i)
  with assms(2) obtain old where old: "List.find (\<lambda>r. named (n_namespace m) (n_name m) r \<and> live r) (memories d) = Some old"
    "m_id old = i"
    by (auto simp: find_by_name_def split: option.splits)
  note o = find_in_set [OF old(1)]
  have f: "List.find (\<lambda>r. m_id r = i) (memories d) = Some old"
    using find_key [OF store_ok_ids [OF store_invD(1) [OF inv]]] o old(2) by blast
  let ?new = "(set_memory (n_source m) m old)\<lparr>m_updated_at := now\<rparr>"
  have eff: "store_inv d'" "graph_frame d d'" "set (memories d') = insert ?new (set (memories d) - {old})"
    using store_row_update [OF inv _ f _ lock run [unfolded Some]] o old(1) by (simp_all add: named_def read_by_name_def)
  have k: "key old = (n_namespace m, n_name m)" "key ?new = (n_namespace m, n_name m)" "visible ?new = Some (new_content m)"
    using o by (simp_all add: set_memory_def key_def visible_def live_def content_def new_content_def named_def)
  have "view_of d' = (view_of d)(key old := None, key ?new := visible ?new)"
    by (rule view_replace [OF store_invD(1) [OF inv] store_invD(1) [OF eff(1)] conjunct1 [OF o] eff(3)])
  moreover have "action = ''updated''" using run [unfolded Some] by (rule store_row_updateE)
  ultimately show ?thesis using eff k Some by simp
qed

section \<open>The transaction\<close>

lemma view_of_kept: "rows_kept d d' \<Longrightarrow> view_of d' = view_of d"
  by (simp add: rows_kept_def view_of_def read_by_name_def fun_eq_iff)

lemma side_store_chunk_vecs: "store_chunk_vecs cfg i n embs d = Inr d' \<Longrightarrow> side_step d d'"
  by (induction embs arbitrary: n d)
     (auto simp: bind_rust_Inr_iff intro: side_upsert_chunk_vec side_step_trans)

lemma side_insert_chunk_slices: "insert_chunk_slices i body cs d = Inr (failure, d') \<Longrightarrow> side_step d d'"
  unfolding insert_chunk_slices_def by (rule side_insert_slices)

lemma side_store_chunks: "store_chunks cfg i body cs cache d = Inr (Inr d') \<Longrightarrow> side_step d d'"
  unfolding store_chunks_def bind_rust_Inr_iff
  by (auto split: option.splits
      dest!: side_insert_chunk_slices side_store_chunk_vecs intro: side_step_trans)

lemma remember_txE:
  assumes "remember_tx env now ns args g chunks out m existing d = Inr (Inr ((i, action, version, e_removed, r_removed), d'))"
  obtains unchanged d1 d3 where
    "store_row env now ns (rm_expected args) m (eo_embedding out) existing d = Inr ((i, action, version, unchanged), d1)"
    "side_step d1 d3" "store_graph env now ns i g (eo_entities out) d3 = Inr (Inr d')"
proof -
  from assms [unfolded remember_tx_def] obtain x where
    row: "store_row env now ns (rm_expected args) m (eo_embedding out) existing d = Inr x"
    and rest: "(case x of ((i, action, version, unchanged), d1) \<Rightarrow>
          (case (if rm_replace_graph args \<and> action = ''updated'' then clear_memory_graph_bindings i d1
                 else ((0, 0), d1)) of
             ((e, r), d2) \<Rightarrow>
               bind_result
                 (if 1 < length chunks \<and> \<not> unchanged then store_chunks (re_cfg env) i (n_body m) chunks (eo_chunks out) d2
                  else Inr (Inr d2))
                 (\<lambda>d3. bind_result (store_graph env now ns i g (eo_entities out) d3) (\<lambda>d4.
                    Inr (Inr ((i, action, version, e, r), d4)))))) = Inr (Inr ((i, action, version, e_removed, r_removed), d'))"
    by (rule bind_resultE) (rule that, simp_all only: sum.inject case_prod_unfold)
  obtain i' action' version' unchanged d1 where x: "x = ((i', action', version', unchanged), d1)" by (metis prod.exhaust)
  define cleared where "cleared = (if rm_replace_graph args \<and> action' = ''updated''
    then clear_memory_graph_bindings i' d1 else ((0, 0), d1))"
  define d2 where "d2 = snd cleared"
  have "side_step d1 d2" using side_clear_bindings by (simp add: d2_def cleared_def)
  have "bind_result
         (if 1 < length chunks \<and> \<not> unchanged then store_chunks (re_cfg env) i' (n_body m) chunks (eo_chunks out) d2
          else Inr (Inr d2))
         (\<lambda>d3. bind_result (store_graph env now ns i' g (eo_entities out) d3) (\<lambda>d4.
            Inr (Inr ((i', action', version', fst (fst cleared), snd (fst cleared)), d4))))
       = Inr (Inr ((i, action, version, e_removed, r_removed), d'))"
    using rest by (simp only: x case_prod_unfold fst_conv snd_conv d2_def cleared_def)
  then obtain d3 where
    c: "(if 1 < length chunks \<and> \<not> unchanged then store_chunks (re_cfg env) i' (n_body m) chunks (eo_chunks out) d2
                  else Inr (Inr d2)) = Inr (Inr d3)"
    and g: "store_graph env now ns i' g (eo_entities out) d3 = Inr (Inr d')"
    and same: "i' = i" "action' = action" "version' = version"
    by (elim bind_resultE) simp
  from c have "side_step d2 d3" by (auto intro: side_store_chunks split: if_splits)
  with \<open>side_step d1 d2\<close> have "side_step d1 d3" by (rule side_step_trans)
  with row g show thesis by (intro that) (simp_all add: x same)
qed

lemma remember_tx_effect:
  assumes inv: "store_inv d"
    and lock: "\<And>old. read_by_name d (n_namespace m) (n_name m) = Some old \<Longrightarrow> lock_holds (rm_expected args) old"
    and "existing = map_option fst (find_by_name d (n_namespace m) (n_name m))"
    and run: "remember_tx env now ns args g chunks out m existing d = Inr (Inr ((i, action, version, e_removed, r_removed), d'))"
  shows "view_of d' = (view_of d)((n_namespace m, n_name m) \<mapsto> new_content m)"
    and "action = (if existing = None then ''created'' else ''updated'')"
    and "graph_inv d \<Longrightarrow> no_self_loops (re_unicode env) (gi_relationships g) \<Longrightarrow> graph_inv d'"
proof -
  from run obtain unchanged d1 d3 where
    row: "store_row env now ns (rm_expected args) m (eo_embedding out) existing d = Inr ((i, action, version, unchanged), d1)"
    and side: "side_step d1 d3" and g: "store_graph env now ns i g (eo_entities out) d3 = Inr (Inr d')"
    by (rule remember_txE)
  note eff = store_row_effect [OF inv assms(3) lock row]
  have kept: "rows_kept d1 d'" using rows_kept_side [OF side] store_graph_kept [OF g] by (rule rows_kept_trans)
  show "view_of d' = (view_of d)((n_namespace m, n_name m) \<mapsto> new_content m)"
    and "action = (if existing = None then ''created'' else ''updated'')"
    using eff by (simp_all add: view_of_kept [OF kept])
  assume "graph_inv d" and "no_self_loops (re_unicode env) (gi_relationships g)"
  moreover from this have "graph_inv d3" using eff graph_inv_frame side_step_graph [OF _ side] by blast
  ultimately show "graph_inv d'" using store_graph_upto [OF _ _ g] by blast
qed

section \<open>The command\<close>

lemma remember_plan_ofE:
  assumes "remember_plan_of env ns args p d = Inr (Inr plan)"
  obtains ty desc out where "resolve_fields args ns (on_normalized (pp_name p)) d = Inr (ty, desc)"
    "find_by_name d ns (on_normalized (pp_name p)) = None \<or> rm_force_merge args"
    "rp_existing plan = map_option fst (find_by_name d ns (on_normalized (pp_name p)))"
    "n_namespace (rp_memory plan) = ns" "n_name (rp_memory plan) = on_normalized (pp_name p)"
    "new_content (rp_memory plan) = (ty, desc, effective_body args ns (on_normalized (pp_name p)) (pp_body p) d)"
proof -
  let ?name = "on_normalized (pp_name p)"
  have nodup: "find_by_name d ns ?name = None \<or> rm_force_merge args"
    using assms unfolding remember_plan_of_def Let_def by (metis map_option_is_None sum.distinct(1) sum.inject(2))
  then have c: "\<not> (map_option fst (find_by_name d ns ?name) \<noteq> None \<and> \<not> rm_force_merge args)" by auto
  from assms obtain f where f: "resolve_fields args ns ?name d = Inr f"
    and rest: "(case f of (ty, desc) \<Rightarrow>
             (let body = effective_body args ns ?name (pp_body p) d;
                  hash = re_blake3 env body;
                  chunks = split_into_chunks_hierarchical (re_splitter env) body
              in if REMEMBER_MAX_SAFE_MULTI_CHUNKS < length chunks then
                   Inr (Inl (TooManyChunks (length chunks) REMEMBER_MAX_SAFE_MULTI_CHUNKS))
                 else
                   bind_result (run_embed_phase env args body chunks (pp_graph p)) (\<lambda>out.
                     Inr (Inr \<lparr>rp_memory = \<lparr>n_namespace = ns, n_name = ?name, n_type = ty, n_description = desc,
                                            n_body = body, n_body_hash = hash, n_session_id = rm_session_id args,
                                            n_source = ''agent'', n_metadata = pp_metadata p\<rparr>,
                               rp_existing = map_option fst (find_by_name d ns ?name), rp_duplicate = find_by_hash d ns hash,
                               rp_chunks = chunks, rp_out = out\<rparr>)))) = Inr (Inr plan)"
    unfolding remember_plan_of_def Let_def if_not_P [OF c] by (elim bind_resultE) simp
  obtain ty desc where ty: "f = (ty, desc)" by fastforce
  from rest obtain out where "plan = \<lparr>rp_memory = \<lparr>n_namespace = ns, n_name = ?name, n_type = ty, n_description = desc,
      n_body = effective_body args ns ?name (pp_body p) d,
      n_body_hash = re_blake3 env (effective_body args ns ?name (pp_body p) d), n_session_id = rm_session_id args,
      n_source = ''agent'', n_metadata = pp_metadata p\<rparr>,
    rp_existing = map_option fst (find_by_name d ns ?name),
    rp_duplicate = find_by_hash d ns (re_blake3 env (effective_body args ns ?name (pp_body p) d)),
    rp_chunks = split_into_chunks_hierarchical (re_splitter env) (effective_body args ns ?name (pp_body p) d), rp_out = out\<rparr>"
    unfolding ty prod.case Let_def
    by (auto simp: bind_result_Inr_iff simp del: split_into_chunks_hierarchical_def split: if_splits)
  with f nodup show thesis by (intro that [of ty desc]) (simp_all add: ty new_content_def)
qed

lemma side_finish: "side_step d (fst (snd (finish now args p plan stored d s)))"
  using side_insert_urls by (simp add: finish_def case_prod_unfold Let_def)

text \<open>The ways a run ends without a panic.\<close>

lemma remember_storedE:
  assumes "remember_stored env now ns args p d s = Inr (answer, d', s')"
  obtains (failed) e where "answer = Inl e" "d' = d" "s' = s"
    | (stored) plan st d1 r where "remember_plan_of env ns args p d = Inr (Inr plan)"
        "remember_tx env now ns args (pp_graph p) (rp_chunks plan) (rp_out plan) (rp_memory plan) (rp_existing plan) d
           = Inr (Inr (st, d1))"
        "finish now args p plan st d1 s = (r, d', s')" "answer = Inr (Stored r)"
proof -
  from assms obtain planned where pl: "remember_plan_of env ns args p d = Inr planned"
    unfolding remember_stored_def bind_rust_Inr_iff by blast
  show thesis
  proof (cases planned)
    case (Inl e)
    with assms pl show thesis by (intro failed [of e]) (simp_all add: remember_stored_def)
  next
    case plan: (Inr plan)
    with assms pl obtain tx where tx: "remember_tx env now ns args (pp_graph p) (rp_chunks plan) (rp_out plan)
        (rp_memory plan) (rp_existing plan) d = Inr tx"
      unfolding remember_stored_def by (auto simp: bind_rust_Inr_iff)
    show thesis
    proof (cases tx)
      case (Inl e)
      with assms pl plan tx show thesis by (intro failed [of e]) (simp_all add: remember_stored_def)
    next
      case (Inr x)
      obtain st d1 where x: "x = (st, d1)" by fastforce
      obtain r d2 s2 where f: "finish now args p plan st d1 s = (r, d2, s2)" by (metis prod.exhaust)
      have "(Inr (Stored r), d2, s2) = (answer, d', s')"
        using assms pl plan tx Inr x f by (simp add: remember_stored_def)
      with f stored [OF pl [unfolded plan] tx [unfolded Inr x]] show thesis by blast
    qed
  qed
qed

lemma rememberE:
  assumes "remember env now ns args stdin d s = Inr (answer, d', s')"
  obtains (failed) e where "answer = Inl e" "d' = d" "s' = s"
    | (planned) "d' = d" "s' = s" "rm_dry_run args" "\<And>r. answer \<noteq> Inr (Stored r)"
    | (run) p d0 where "remember_prepare env args stdin = Inr (Inr p)" "\<not> rm_dry_run args"
        "revive now ns (on_normalized (pp_name p)) (rm_force_merge args) d = Inr d0"
        "remember_stored env now ns args p d0 s = Inr (answer, d', s')"
proof -
  from assms obtain prep where prep: "remember_prepare env args stdin = Inr prep"
    unfolding remember_def bind_rust_Inr_iff by blast
  show thesis
  proof (cases prep)
    case (Inl e)
    with assms prep show thesis by (intro failed [of e]) (simp_all add: remember_def)
  next
    case (Inr p)
    note go = assms [unfolded remember_def prep Inr Let_def, simplified]
    consider "rm_dry_run args" | "\<not> rm_dry_run args" "namespace_full d ns"
      | "\<not> rm_dry_run args" "\<not> namespace_full d ns" by blast
    then show thesis
    proof cases
      case 1
      with go show thesis by (intro planned) (auto split: if_splits)
    next
      case 2
      with go failed show thesis by auto
    next
      case 3
      with go failed run [OF prep [unfolded Inr]] show thesis
        by (cases "revive now ns (on_normalized (pp_name p)) (rm_force_merge args) d") auto
    qed
  qed
qed

lemma reviveE:
  assumes "revive now ns name force d = Inr d0"
  obtains "d0 = d" | i where "force" "find_by_name_any_state d ns name = Some (i, True)" "d0 = clear_deleted_at now i d"
  using assms by (auto simp: revive_def split: option.splits bool.splits if_splits prod.splits)

lemma frame_clear_deleted: "graph_frame d (clear_deleted_at now i d)"
  by (simp add: clear_deleted_at_def update_memories_def graph_frame_def)

lemma revive_graph: "graph_inv d \<Longrightarrow> revive now ns name force d = Inr d0 \<Longrightarrow> graph_inv d0"
  by (erule reviveE) (auto intro: graph_inv_frame [OF _ frame_clear_deleted] clear_deleted_at_inv dest: graph_invD(1))

lemma revive_inv: "store_inv d \<Longrightarrow> revive now ns name force d = Inr d0 \<Longrightarrow> store_inv d0"
  by (erule reviveE) (auto intro: clear_deleted_at_inv)

text \<open>The lock of a run: the time of the last change of the live holder of the name. A soft-deleted holder is
  undeleted first and then carries the time of the run.\<close>

definition lock_fresh :: "int \<Rightarrow> int option \<Rightarrow> memory_row option \<Rightarrow> bool" where
  "lock_fresh now expected holder \<longleftrightarrow> (case expected of None \<Rightarrow> True | Some ts \<Rightarrow>
     (case holder of None \<Rightarrow> True | Some m \<Rightarrow> ts = (if live m then m_updated_at m else now)))"

lemma revived_lock:
  assumes inv: "store_inv d" and rev: "revive now ns name force d = Inr d0"
    and lock: "lock_fresh now expected (List.find (named ns name) (memories d))"
    and read: "read_by_name d0 ns name = Some old"
  shows "lock_holds expected old"
proof (cases "List.find (named ns name) (memories d)")
  case None
  then have "d0 = d" using rev by (simp add: revive_def find_by_name_any_state_def)
  then have "old \<in> set (memories d)" "named ns name old" using read find_in_set by (fastforce simp: read_by_name_def)+
  with None show ?thesis by (simp add: find_None_iff)
next
  case (Some m)
  note ok = store_invD(1) [OF inv] and ok0 = store_invD(1) [OF revive_inv [OF inv rev]]
  have m: "m \<in> set (memories d)" "named ns name m" using find_in_set [OF Some] by simp_all
  show ?thesis
  proof (cases "live m")
    case True
    then have "d0 = d" using rev Some by (simp add: revive_def find_by_name_any_state_def live_def)
    then have "old = m" using read m same_name_same_row [OF ok] by (auto simp: read_by_name_iff [OF ok])
    then show ?thesis using lock True by (simp add: lock_fresh_def lock_holds_def Some split: option.splits)
  next
    case False
    then have d0: "d0 = clear_deleted_at now (m_id m) d"
      using rev Some by (auto simp: revive_def find_by_name_any_state_def live_def split: if_splits)
    define m' where "m' = m\<lparr>m_deleted_at := None, m_updated_at := now\<rparr>"
    have mems: "set (memories d0) = insert m' (set (memories d) - {m})"
      unfolding d0 clear_deleted_at_def
      by (subst update_one_row_set [of _ m]) (use m(1) same_id_same_row [OF ok] in \<open>auto simp: one_row_def m'_def\<close>)
    have "m' \<in> set (memories d0)" "named ns name m'" using m(2) by (simp_all add: mems m'_def named_def)
    then have "old = m'" using read same_name_same_row [OF ok0] by (auto simp: read_by_name_iff [OF ok0])
    then show ?thesis using lock False by (simp add: lock_fresh_def lock_holds_def Some m'_def split: option.splits)
  qed
qed

lemma remember_graph:
  assumes "graph_inv d"
    and fresh: "\<And>p. remember_prepare env args stdin = Inr (Inr p)
      \<Longrightarrow> lock_fresh now (rm_expected args) (List.find (named ns (on_normalized (pp_name p))) (memories d))"
    and loops: "\<And>p. remember_prepare env args stdin = Inr (Inr p)
      \<Longrightarrow> no_self_loops (re_unicode env) (gi_relationships (pp_graph p))"
    and "remember env now ns args stdin d s = Inr (answer, d', s')"
  shows "graph_inv d'"
  using assms(4)
proof (cases rule: rememberE)
  case (run p d0)
  have inv0: "graph_inv d0" using revive_graph [OF assms(1) run(3)] .
  from run(4) show ?thesis
  proof (cases rule: remember_storedE)
    case (stored plan st d1 r)
    obtain i action version e r' where st: "st = (i, action, version, e, r')" by (metis prod.exhaust)
    have ex: "rp_existing plan = map_option fst (find_by_name d0 (n_namespace (rp_memory plan)) (n_name (rp_memory plan)))"
      using stored(1) by (rule remember_plan_ofE) simp
    have "graph_inv d1"
    proof (rule remember_tx_effect(3) [OF graph_invD(1) [OF inv0] _ ex stored(2) [unfolded st] inv0 loops [OF run(1)]])
      fix old
      assume "read_by_name d0 (n_namespace (rp_memory plan)) (n_name (rp_memory plan)) = Some old"
      moreover have "n_namespace (rp_memory plan) = ns" "n_name (rp_memory plan) = on_normalized (pp_name p)"
        using stored(1) by (rule remember_plan_ofE; simp)+
      ultimately show "lock_holds (rm_expected args) old"
        using revived_lock [OF graph_invD(1) [OF assms(1)] run(3) fresh [OF run(1)]] by simp
    qed
    with side_finish [of d1 now args p plan st s] stored(3) show ?thesis by (auto intro: side_step_graph)
  qed (use inv0 in simp)
qed (use assms(1) in simp_all)


text \<open>The content a successful \<^verbatim>\<open>remember\<close> gives the name, from the arguments and the row that holds the
  name before, deleted or not.\<close>

definition remembered :: "remember_args \<Rightarrow> string \<Rightarrow> memory_row option \<Rightarrow> content" where
  "remembered args raw holder =
     (case holder of
        None \<Rightarrow> (unwrap_or (rm_type args) [], unwrap_or (rm_description args) [], raw)
      | Some m \<Rightarrow> (unwrap_or (rm_type args) (m_type m), unwrap_or (rm_description args) (m_description m),
                   if rm_force_merge args \<and> str_trim raw = [] \<and> \<not> rm_clear_body args \<and> m_body m \<noteq> []
                   then m_body m else raw))"

lemma revived_holder:
  assumes inv: "store_inv d" and rev: "revive now ns name force d = Inr d0"
  shows "(case List.find (named ns name) (memories d) of
        None \<Rightarrow> read_by_name d0 ns name = None
      | Some m \<Rightarrow> \<exists>m'. read_by_name d0 ns name = Some m' \<and> m_type m' = m_type m \<and> m_description m' = m_description m
          \<and> m_body m' = m_body m)
     \<and> view_of d0 = (view_of d)((ns, name) := map_option content (List.find (named ns name) (memories d)))"
proof (cases "List.find (named ns name) (memories d)")
  case None
  then have "d0 = d" using rev by (simp add: revive_def find_by_name_any_state_def)
  moreover have "read_by_name d ns name = None" using None by (simp add: read_by_name_def find_None_iff')
  ultimately show ?thesis using None by (simp add: view_of_def fun_eq_iff)
next
  case (Some m)
  note ok = store_invD(1) [OF inv] and ok0 = store_invD(1) [OF revive_inv [OF inv rev]]
  have m: "m \<in> set (memories d)" "named ns name m" using find_in_set [OF Some] by simp_all
  show ?thesis
  proof (cases "live m")
    case True
    then have "d0 = d" using rev Some by (simp add: revive_def find_by_name_any_state_def live_def)
    moreover have "read_by_name d ns name = Some m" using m True by (simp add: read_by_name_iff [OF ok])
    ultimately show ?thesis using Some by (simp add: view_of_def fun_eq_iff)
  next
    case False
    then have d0: "d0 = clear_deleted_at now (m_id m) d"
      using rev Some by (auto simp: revive_def find_by_name_any_state_def live_def split: if_splits)
    define m' where "m' = m\<lparr>m_deleted_at := None, m_updated_at := now\<rparr>"
    have mems: "set (memories d0) = insert m' (set (memories d) - {m})"
      unfolding d0 clear_deleted_at_def
      by (subst update_one_row_set [of _ m]) (use m(1) same_id_same_row [OF ok] in \<open>auto simp: one_row_def m'_def\<close>)
    have k: "named ns name m'" "live m'" "key m' = key m" "key m = (ns, name)" "visible m' = Some (content m)"
      using m(2) by (simp_all add: m'_def named_def live_def key_def visible_def content_def)
    then have "read_by_name d0 ns name = Some m'" by (simp add: read_by_name_iff [OF ok0] mems)
    moreover have "view_of d0 = (view_of d)((ns, name) := Some (content m))"
      using view_replace [OF ok ok0 m(1) mems] k by simp
    ultimately show ?thesis using Some by (simp add: m'_def)
  qed
qed

lemma resolve_fields_content:
  assumes "resolve_fields args ns name d = Inr (ty, desc)"
    and "case holder of None \<Rightarrow> read_by_name d ns name = None
      | Some m \<Rightarrow> \<exists>m'. read_by_name d ns name = Some m' \<and> m_type m' = m_type m \<and> m_description m' = m_description m
          \<and> m_body m' = m_body m"
  shows "(ty, desc, effective_body args ns name raw d) = remembered args raw holder"
    and "holder = None \<Longrightarrow> rm_type args = Some ty \<and> rm_description args = Some desc"
  using assms
  by (auto simp: resolve_fields_def effective_body_def remembered_def body_preserved_def find_by_name_read unwrap_or_def
      split: option.splits)


text \<open>The update that misses its lock: no row is written, but version and index are.\<close>

lemma stale_row:
  assumes ok: "store_ok d" and m: "old \<in> set (memories d)" and stale: "m_updated_at old \<noteq> ts"
    and run: "store_row env now ns (Some ts) m embedding (Some (m_id old)) d = Inr ((i, action, version, unchanged), d')"
  shows "memories d' = memories d" "fts_memories d' = fts_memories (sync_fts_after_update (m_id old) (m_name old)
      (m_description old) (m_body old) (n_name m) (n_description m) (n_body m) d)" "action = ''updated''"
    "version = next_version d (m_id old)"
proof -
  from run obtain old' d0 b d1 d2 where f: "List.find (\<lambda>r. m_id r = m_id old) (memories d) = Some old'"
    and a: "action = ''updated''" and d0: "d0 = (if unchanged then d else delete_chunks (m_id old) d)"
    and vn: "version = next_version d0 (m_id old)" and u: "update_memory now (m_id old) m (Some ts) d0 = Inr (b, d1)"
    and v: "insert_version now (m_id old) version (n_name m) (n_type m) (n_description m) (n_body m) (n_metadata m) None
       ''edit'' (sync_fts_after_update (m_id old) (m_name old') (m_description old') (m_body old') (n_name m)
         (n_description m) (n_body m) d1) = Inr d2"
    and e: "(case embedding of Some emb \<Rightarrow> if unchanged then Inr d2 else upsert_vec (re_cfg env) (m_id old) ns emb d2
       | None \<Rightarrow> Inr d2) = Inr d'"
    by (rule store_row_updateE)
  have old': "old' = old" using f find_key [OF store_ok_ids [OF ok] m] by simp
  have side: "side_step d d0" and versions: "memory_versions d0 = memory_versions d"
    using side_delete_chunks by (simp_all add: d0 delete_chunks_def delete_chunk_rows_def Let_def)
  then have 0: "memories d0 = memories d" "fts_memories d0 = fts_memories d" by (simp_all add: side_step_def)
  have "sql_update (\<lambda>r. m_id r = m_id old \<and> m_updated_at r = ts \<and> live r) g (memories d) = memories d" for g
    using stale same_id_same_row [OF ok m] unfolding sql_update_def by (intro map_idI) metis
  then have 1: "memories d1 = memories d" "fts_memories d1 = fts_memories d"
    using u unfolding update_memory_def bind_rust_Inr_iff
    by (auto elim!: exec_update_memoriesE simp: update_memories_def 0)
  have "side_step d2 d'" using e side_upsert_vec by (auto split: option.splits if_splits)
  with side_insert_version [OF v] have "rows_kept (sync_fts_after_update (m_id old) (m_name old) (m_description old)
      (m_body old) (n_name m) (n_description m) (n_body m) d1) d'"
    unfolding old' by (intro rows_kept_side) (rule side_step_trans)
  then show "memories d' = memories d" "fts_memories d' = fts_memories (sync_fts_after_update (m_id old) (m_name old)
      (m_description old) (m_body old) (n_name m) (n_description m) (n_body m) d)"
    using 1 by (simp_all add: rows_kept_def sync_fts_after_update_def fts_insert_def fts_delete_def)
  show "action = ''updated''" by (fact a)
  show "version = next_version d (m_id old)" using versions by (simp add: vn next_version_def versions_of_def)
qed

lemma stale_index:
  assumes ok: "store_ok d" and m: "m \<in> set (memories d)"
    and "fts_memories d' = fts_memories (sync_fts_after_update (m_id m) a b c n desc body d)" and "memories d' = memories d"
    and "(desc, body) \<noteq> (m_description m, m_body m)"
  shows "\<not> fts_ok d'"
proof
  assume "fts_ok d'"
  moreover have "\<lparr>f_rowid = m_id m, f_name = n, f_description = desc, f_body = body\<rparr> \<in> set (fts_memories d')"
    by (simp add: assms(3) sync_fts_after_update_def fts_insert_def)
  ultimately obtain x where "x \<in> set (memories d)" "fts_of x = \<lparr>f_rowid = m_id m, f_name = n, f_description = desc, f_body = body\<rparr>"
    using assms(4) by (auto simp: fts_ok_def)
  then have "x = m" using same_id_same_row [OF ok _ m] by (auto simp: fts_of_def)
  with \<open>fts_of x = _\<close> assms(5) show False by (simp add: fts_of_def)
qed

text \<open>Claim C10. A failing \<^verbatim>\<open>remember\<close> changes nothing in store and queue, with one exception: under
  \<^verbatim>\<open>--force-merge\<close> the soft-deleted memory that holds the name of the run in its namespace is undeleted by a
  statement that commits on its own, before the body is embedded and the transaction starts, so it stays
  undeleted with its old content when a later step fails. This name shows its old content again and
  every other name shows what it showed.\<close>

theorem remember_failure_effect:
  assumes "store_inv d" and "remember env now ns args stdin d s = Inr (Inl e, d', s')"
  shows "s' = s \<and> (d' = d \<or> rm_force_merge args \<and> \<not> rm_dry_run args \<and>
      (\<exists>p m. remember_prepare env args stdin = Inr (Inr p) \<and> m \<in> set (memories d)
         \<and> key m = (ns, on_normalized (pp_name p)) \<and> \<not> live m \<and> d' = clear_deleted_at now (m_id m) d
         \<and> view_of d (key m) = None \<and> view_of d' = (view_of d)(key m \<mapsto> content m)))"
  using assms(2)
proof (cases rule: rememberE)
  case (run p d0)
  let ?name = "on_normalized (pp_name p)"
  from run(4) have same: "d' = d0" "s' = s" by (auto elim: remember_storedE)
  from run(3) show ?thesis
  proof (rule reviveE)
    fix i
    assume i: "rm_force_merge args" "find_by_name_any_state d ns ?name = Some (i, True)" "d0 = clear_deleted_at now i d"
    then obtain m where m: "List.find (named ns ?name) (memories d) = Some m" "m_id m = i" "\<not> live m"
      by (auto simp: find_by_name_any_state_def live_def)
    from find_in_set [OF m(1)] have mem: "m \<in> set (memories d)" and k: "key m = (ns, ?name)" by (simp_all add: named_key)
    have "view_of d (key m) = None" using view_of_row [OF store_invD(1) [OF assms(1)] mem] m(3) by (simp add: visible_def)
    moreover have "view_of d' = (view_of d)(key m \<mapsto> content m)"
      using revived_holder [OF assms(1) run(3)] m(1) by (simp add: same k)
    ultimately show ?thesis using i m mem same k run(1,2) by blast
  qed (use same in simp)
qed simp_all

text \<open>Claim C11. With \<^verbatim>\<open>--expected-updated-at\<close> and a timestamp that no longer matches, \<^verbatim>\<open>remember --force-merge\<close>
  does not report a conflict: it answers ''updated'' and returns a new version number while every memory row
  stays as it was, and when the new description or body differs from the stored one, the full-text index no
  longer mirrors the memories.\<close>

theorem remember_stale_lock:
  assumes "store_inv d" and "remember_prepare env args stdin = Inr (Inr p)"
    and "read_by_name d ns (on_normalized (pp_name p)) = Some old"
    and "rm_expected args = Some ts" and "m_updated_at old \<noteq> ts"
    and "remember env now ns args stdin d s = Inr (Inr (Stored r), d', s')"
  shows "rs_action r = ''updated'' \<and> rs_version r = next_version d (m_id old) \<and> memories d' = memories d
    \<and> (snd (remembered args (pp_body p) (Some old)) \<noteq> (m_description old, m_body old) \<longrightarrow> \<not> fts_ok d')"
  using assms(6)
proof (cases rule: rememberE)
  case (run p' d0)
  have p: "p' = p" using run(1) assms(2) by simp
  let ?name = "on_normalized (pp_name p)"
  note ok = store_invD(1) [OF assms(1)]
  have old: "old \<in> set (memories d)" "named ns ?name old" "live old"
    using assms(3) by (simp_all add: read_by_name_iff [OF ok])
  have holder: "List.find (named ns ?name) (memories d) = Some old"
    using old same_name_same_row [OF ok] by (intro find_unique) (auto simp: named_def)
  have d0: "d0 = d"
    using run(3) by (rule reviveE) (use holder old(3) in \<open>auto simp: p find_by_name_any_state_def live_def\<close>)
  from run(4) [unfolded d0] show ?thesis
  proof (cases rule: remember_storedE)
    case (stored plan st d1 r')
    obtain i action version e rr where st: "st = (i, action, version, e, rr)" by (metis prod.exhaust)
    from stored(1)[unfolded p] obtain ty desc where f: "resolve_fields args ns ?name d = Inr (ty, desc)"
      and ex: "rp_existing plan = map_option fst (find_by_name d ns ?name)"
      and n: "n_name (rp_memory plan) = ?name"
      and c: "new_content (rp_memory plan) = (ty, desc, effective_body args ns ?name (pp_body p) d)"
      by (rule remember_plan_ofE)
    let ?m = "rp_memory plan"
    have content: "new_content ?m = remembered args (pp_body p) (Some old)"
      unfolding c using resolve_fields_content(1) [OF f, of "Some old"] assms(3) by simp
    have "rp_existing plan = Some (m_id old)" by (simp add: ex find_by_name_read assms(3))
    with stored(2) obtain unchanged d2 d3 where
      row: "store_row env now ns (Some ts) ?m (eo_embedding (rp_out plan)) (Some (m_id old)) d
        = Inr ((i, action, version, unchanged), d2)"
      and rest: "side_step d2 d3" "store_graph env now ns i (pp_graph p') (eo_entities (rp_out plan)) d3 = Inr (Inr d1)"
      unfolding st assms(4) [symmetric] by (auto elim: remember_txE)
    have stale: "memories d2 = memories d" "fts_memories d2 = fts_memories (sync_fts_after_update (m_id old) (m_name old)
        (m_description old) (m_body old) ?name (n_description ?m) (n_body ?m) d)" "action = ''updated''"
      "version = next_version d (m_id old)"
      using stale_row [OF ok old(1) assms(5) row] n by simp_all
    have side: "side_step d1 d'" and r: "r' = r" "rs_version r = version" "rs_action r = action"
      using side_finish [of d1 now args p' plan st s] stored(3,4) by (auto simp: finish_def st Let_def split: prod.splits)
    have kept: "rows_kept d2 d'"
      using rows_kept_side [OF rest(1)] store_graph_kept [OF rest(2)] rows_kept_side [OF side] by (metis rows_kept_trans)
    have fts: "fts_memories d' = fts_memories (sync_fts_after_update (m_id old) (m_name old)
        (m_description old) (m_body old) ?name (n_description ?m) (n_body ?m) d)" and mem: "memories d' = memories d"
      using kept stale by (simp_all add: rows_kept_def)
    have "\<not> fts_ok d'" if "snd (new_content ?m) \<noteq> (m_description old, m_body old)"
      by (rule stale_index [OF ok old(1) fts mem]) (use that in \<open>simp add: new_content_def\<close>)
    then show ?thesis using kept stale r content by (simp add: rows_kept_def)
  qed simp
next
  case planned
  then show ?thesis by blast
qed simp

end
