(* ===== verification/Remember_Runs.thy ===== *)
theory Remember_Runs
  imports Remember_Correct
begin

text \<open>
  Concrete runs of \<^verbatim>\<open>remember\<close>: a new memory with a graph, an update with a stale lock, and an update of
  a soft-deleted memory whose embedding fails. They show that the hypotheses of the properties of
  \<^verbatim>\<open>remember\<close> hold together.
\<close>

section \<open>Environment and arguments\<close>

definition sample_args :: remember_args where
  "sample_args = \<lparr>rm_positional = None, rm_name = Some ''Onboarding'', rm_type = Some ''note'', rm_description = Some ''d'',
     rm_body = None, rm_body_file = None, rm_body_stdin = False, rm_entities_file = None, rm_relationships_file = None,
     rm_graph_stdin = True, rm_graph_file = None, rm_metadata = None, rm_metadata_file = None, rm_force_merge = False,
     rm_expected = None, rm_enable_ner = False, rm_skip_extraction = False, rm_clear_body = False, rm_dry_run = False,
     rm_strict_name = False, rm_strict_entity_types = False, rm_replace_graph = False, rm_session_id = None,
     rm_max_rss_mb = 1000, rm_enqueue_enrich = False\<rparr>"

definition update_args :: "int option \<Rightarrow> remember_args" where
  "update_args expected = sample_args\<lparr>rm_body := Some ''new'', rm_graph_stdin := False, rm_force_merge := True,
     rm_expected := expected\<rparr>"

definition sample_payload :: graph_input where
  "sample_payload = \<lparr>gi_body = Some ''hello'',
     gi_entities = [\<lparr>ne_name = ''alice'', ne_type = ''person'', ne_description = None\<rparr>],
     gi_relationships = [\<lparr>nl_source = ''alice'', nl_target = ''acme-corp'', nl_relation = ''uses'', nl_strength = 1 / 2,
       nl_description = None\<rparr>],
     gi_type_warnings = []\<rparr>"

text \<open>A parser that knows one payload.\<close>

definition sample_serde :: serde where
  "sample_serde = \<lparr>sd_graph = (\<lambda>_. Inr sample_payload), sd_entities = (\<lambda>_. Inl ''?''), sd_relationships = (\<lambda>_. Inl ''?''),
     sd_value = (\<lambda>_. Inl ''?''), sd_text = (\<lambda>_. ''{}'')\<rparr>"

definition sample_remember_env :: remember_env where
  "sample_remember_env = \<lparr>re_unicode = ascii_unicode, re_serde = sample_serde, re_blake3 = (\<lambda>s. s), re_tokens = length,
     re_splitter = (\<lambda>s. [(0, s)]), re_max_entities = 50, re_max_relationships = 50, re_rss = None, re_available = 0,
     re_embed = (\<lambda>s. Inr ([1], ''m'')), re_embed_chunks = (\<lambda>ts. Inr (map (\<lambda>_. [1]) ts)),
     re_embed_entities = (\<lambda>ts. Inr (map (\<lambda>_. [1]) ts)), re_aggregate = (\<lambda>vs. [1]),
     re_cfg = \<lparr>cfg_version = ''1'', cfg_dim = 1\<rparr>, re_skip = False\<rparr>"

definition offline_env :: remember_env where
  "offline_env = sample_remember_env\<lparr>re_embed := (\<lambda>_. Inl (Validation ''offline''))\<rparr>"

lemma env_sel [simp]:
  "re_serde sample_remember_env = sample_serde" "re_blake3 sample_remember_env = (\<lambda>s. s)"
  "re_tokens sample_remember_env = length" "re_splitter sample_remember_env = (\<lambda>s. [(0, s)])"
  "re_max_entities sample_remember_env = 50" "re_max_relationships sample_remember_env = 50"
  "re_rss sample_remember_env = None" "re_skip sample_remember_env = False"
  "re_unicode sample_remember_env = ascii_unicode"
  "re_cfg sample_remember_env = \<lparr>cfg_version = ''1'', cfg_dim = 1\<rparr>"
  "re_embed_entities sample_remember_env = (\<lambda>ts. Inr (map (\<lambda>_. [1]) ts))"
  "re_serde offline_env = sample_serde" "re_blake3 offline_env = (\<lambda>s. s)" "re_tokens offline_env = length"
  "re_splitter offline_env = (\<lambda>s. [(0, s)])" "re_max_entities offline_env = 50"
  "re_max_relationships offline_env = 50" "re_rss offline_env = None" "re_skip offline_env = False"
  "re_unicode offline_env = ascii_unicode" "re_cfg offline_env = \<lparr>cfg_version = ''1'', cfg_dim = 1\<rparr>"
  "re_embed_entities offline_env = (\<lambda>ts. Inr (map (\<lambda>_. [1]) ts))"
  "re_embed sample_remember_env = (\<lambda>s. Inr ([1], ''m''))"
  "re_embed offline_env = (\<lambda>_. Inl (Validation ''offline''))"
  by (simp_all add: sample_remember_env_def offline_env_def)

definition sample_prepared :: prepared where
  "sample_prepared = \<lparr>pp_name = \<lparr>on_original = ''Onboarding'', on_normalized = ''onboarding''\<rparr>, pp_body = ''hello'',
     pp_graph = sample_payload\<lparr>gi_body := None\<rparr>, pp_truncated = False, pp_metadata = ''{}'', pp_method = None,
     pp_urls = []\<rparr>"

definition update_prepared :: prepared where
  "update_prepared = sample_prepared\<lparr>pp_body := ''new'', pp_graph := empty_graph\<rparr>"

lemma args_sel [simp]:
  "rm_expected sample_args = None" "rm_dry_run sample_args = False" "rm_force_merge sample_args = False"
  "rm_expected (update_args e) = e" "rm_dry_run (update_args e) = False" "rm_force_merge (update_args e) = True"
  "rm_metadata (update_args e) = None" "rm_metadata_file (update_args e) = None" "rm_clear_body (update_args e) = False"
  "rm_strict_entity_types (update_args e) = False" "rm_enable_ner (update_args e) = False"
  "rm_replace_graph (update_args e) = False" "rm_enqueue_enrich (update_args e) = False"
  "rm_session_id (update_args e) = None"
  "rm_positional (update_args e) = rm_positional sample_args" "rm_name (update_args e) = rm_name sample_args"
  "rm_strict_name (update_args e) = rm_strict_name sample_args" "rm_description sample_args = Some ''d''"
  "rm_type (update_args e) = Some ''note''" "rm_description (update_args e) = Some ''d''"
  "on_normalized (pp_name sample_prepared) = ''onboarding''" "on_normalized (pp_name update_prepared) = ''onboarding''"
  "pp_body update_prepared = ''new''" "pp_body sample_prepared = ''hello''"
  by (simp_all add: sample_args_def update_args_def sample_prepared_def update_prepared_def)

section \<open>Preparation\<close>

lemma sample_name:
  "resolve_name (to_lowercase ascii_unicode) sample_args = Inr \<lparr>on_original = ''Onboarding'', on_normalized = ''onboarding''\<rparr>"
  by code_simp

lemma update_name: "resolve_name lower (update_args e) = resolve_name lower sample_args"
  unfolding resolve_name_def args_sel by (rule refl)

lemma sample_input:
  "resolve_input ascii_unicode sample_serde 50 50 sample_args (Inr ''json'') =
     Inr \<lparr>ri_body = ''hello'', ri_graph = sample_payload\<lparr>gi_body := None\<rparr>, ri_external = True, ri_truncated = False\<rparr>"
  by code_simp

lemma update_input:
  "resolve_input ascii_unicode sample_serde 50 50 (update_args e) stdin =
     Inr \<lparr>ri_body = ''new'', ri_graph = empty_graph, ri_external = False, ri_truncated = False\<rparr>"
  by (simp add: resolve_input_def update_args_def sample_args_def remember_body_def graph_from_files_def
      graph_from_stdin_def graph_from_file_def empty_graph_def normalize_and_validate_graph_input_def Let_def)

lemma new_trim: "str_trim ''new'' = ''new''"
  by code_simp

lemmas prepare_defs = remember_prepare_def remember_metadata_def sample_prepared_def update_prepared_def
lemmas prepare_limits = check_embedding_input_size_def EMBEDDING_REQUEST_MAX_TOKENS_def MAX_MEMORY_BODY_LEN_def

lemma sample_prepare: "remember_prepare sample_remember_env sample_args (Inr ''json'') = Inr (Inr sample_prepared)"
  using sample_name sample_input
  by (simp add: prepare_defs sample_remember_env_def)
     (simp add: sample_args_def remember_extract_def Let_def prepare_limits sample_serde_def)

lemma update_prepare:
  "remember_prepare sample_remember_env (update_args e) stdin = Inr (Inr update_prepared)"
  "remember_prepare offline_env (update_args e) stdin = Inr (Inr update_prepared)"
  by (simp_all add: prepare_defs update_name sample_name update_input remember_extract_def prepare_limits)
     (simp_all add: sample_serde_def empty_graph_def Let_def new_trim)

section \<open>A new memory\<close>

definition sample_plan :: remember_plan where
  "sample_plan = \<lparr>rp_memory = sample_memory\<lparr>n_body_hash := ''hello''\<rparr>, rp_existing = None, rp_duplicate = None,
     rp_chunks = [\<lparr>start_offset = 0, end_offset = 5, token_count_approx = 2\<rparr>],
     rp_out = \<lparr>eo_embedding = Some [1], eo_backend = Some ''m'', eo_chunks = None, eo_entities = [[1]]\<rparr>\<rparr>"

lemmas plan_defs = remember_plan_of_def find_by_name_def resolve_fields_def effective_body_def body_preserved_def
  split_into_chunks_hierarchical_def run_embed_phase_def passage_embedding_def accept_embedding_def find_by_hash_def
  char_count_def is_cont_def CHARS_PER_TOKEN_def entity_text_def REMEMBER_MAX_SAFE_MULTI_CHUNKS_def
  AUTOSPLIT_PARTITION_MAX_BYTES_def EMBEDDING_REQUEST_MAX_TOKENS_def

lemma sample_plan_run:
  "remember_plan_of sample_remember_env ''global'' sample_args sample_prepared empty_db = Inr (Inr sample_plan)"
  by (simp add: plan_defs sample_prepared_def empty_db_def sample_args_def sample_remember_env_def sample_payload_def
      sample_plan_def sample_memory_def Let_def)

definition sample_row_db :: db where
  "sample_row_db = sample_db\<lparr>memories := [memory_of_new 100 1 ''agent'' (sample_memory\<lparr>n_body_hash := ''hello''\<rparr>)],
     memory_versions := [\<lparr>v_id = 1, v_memory_id = 1, v_version = 1, v_name = ''onboarding'', v_type = ''note'',
       v_description = ''d'', v_body = ''hello'', v_metadata = ''{}'', v_changed_by = None, v_change_reason = ''create'',
       v_created_at = 100\<rparr>],
     memory_embeddings := [\<lparr>x_key = 1, x_owner = 1, x_namespace = ''global'', x_embedding = f32_to_bytes [1],
       x_source = ''llm-headless'', x_model = ''1'', x_dim = 1\<rparr>], seq_versions := 1\<rparr>"

lemmas row_defs = store_row_def validate_source_def memory_checks_def memory_types_def source_str_def all_sources_def
  memory_of_new_def fts_insert_def fts_of_def sql_length_def char_count_def is_cont_def insert_version_def
  memory_ids_def versions_of_def change_reasons_def upsert_vec_def sample_remember_env_def sample_db_def
  sample_memory_def empty_db_def

lemma sample_row:
  "store_row sample_remember_env 100 ''global'' None (rp_memory sample_plan) (Some [1]) None empty_db
    = Inr ((1, ''created'', 1, False), sample_row_db)"
  by (simp add: row_defs sample_plan_def insert_memory_def sample_row_db_def)

definition sample_done_db :: db where
  "sample_done_db = sample_row_db\<lparr>
     entities := [(entity_of_new 100 1 ''global'' ''alice'' ''person'' None)\<lparr>e_degree := 1\<rparr>,
                  (entity_of_new 100 2 ''global'' ''acme-corp'' ''concept'' None)\<lparr>e_degree := 1\<rparr>],
     relationships := [\<lparr>r_id = 1, r_namespace = ''global'', r_source_id = 1, r_target_id = 2,
       r_relation = ''uses'', r_weight = 1 / 2, r_description = None, r_created_at = 100, r_updated_at = 100\<rparr>],
     memory_entities := [(1, 1)], memory_relationships := [(1, 1)],
     entity_embeddings := [\<lparr>x_key = 1, x_owner = 1, x_namespace = ''global'', x_embedding = f32_to_bytes [1],
       x_source = ''llm-headless'', x_model = ''1'', x_dim = 1\<rparr>],
     seq_entities := 2, seq_relationships := 1\<rparr>"

lemma sample_labels:
  "normalize_entity_type ascii_unicode ''person'' = Inr ''person''"
  "map_to_canonical_relation ascii_unicode ''uses'' = ''uses''"
  "validate_entity_name ''alice'' = Inr ()" "validate_entity_name ''acme-corp'' = Inr ()"
  by code_simp+

lemma sample_graph_run:
  "store_graph sample_remember_env 100 ''global'' 1 (pp_graph sample_prepared) [[1]] sample_row_db = Inr (Inr sample_done_db)"
  by (simp add: store_graph_def sample_prepared_def sample_payload_def upsert_entity_def upsert_entity_with_def sample_labels
      sample_names sample_row_db_def sample_done_db_def sample_db_def empty_db_def sample_remember_env_def char_count_def
      is_cont_def exec_upsert_entity_def entity_id_named_def entity_named_def upsert_entity_vec_def link_memory_entity_def
      memory_ids_def entity_ids_def find_entity_id_def type_of_name_def upsert_relationship_def insert_relationship_def
      weight_ok_def edge_is_def find_relationship_def link_memory_relationship_def relationship_ids_def
      recalculate_degrees_eq degree_in_def sql_count_def touches_def sql_update_def coalesce_def memory_of_new_def
      entity_of_new_def DEFAULT_ENTITY_TYPE_def unwrap_or_def)

lemma sample_tx:
  "remember_tx sample_remember_env 100 ''global'' sample_args (pp_graph sample_prepared) (rp_chunks sample_plan)
     (rp_out sample_plan) (rp_memory sample_plan) (rp_existing sample_plan) empty_db
    = Inr (Inr ((1, ''created'', 1, 0, 0), sample_done_db))"
  using sample_row sample_graph_run by (simp add: remember_tx_def sample_args_def sample_plan_def)

lemma sample_remember_run:
  "\<exists>r. remember sample_remember_env 100 ''global'' sample_args (Inr ''json'') empty_db None
    = Inr (Inr (Stored r), sample_done_db, None)"
proof -
  have "\<exists>r. finish 100 sample_args sample_prepared sample_plan (1, ''created'', 1, 0, 0) sample_done_db None
      = (r, sample_done_db, None)"
    by (simp add: finish_def sample_plan_def sample_prepared_def sample_args_def sample_payload_def)
  then obtain r where r: "finish 100 sample_args sample_prepared sample_plan (1, ''created'', 1, 0, 0) sample_done_db None
      = (r, sample_done_db, None)" by blast
  have "\<not> namespace_full empty_db ''global''" by (simp add: namespace_full_def empty_db_def MAX_NAMESPACES_ACTIVE_def)
  moreover have "revive 100 ''global'' ''onboarding'' False empty_db = Inr empty_db"
    by (simp add: revive_def find_by_name_any_state_def empty_db_def)
  ultimately show ?thesis
    by (simp add: remember_def sample_prepare remember_stored_def sample_plan_run sample_tx r)
qed



section \<open>A stale lock\<close>

lemma sample_holder:
  "List.find (named ''global'' ''onboarding'') (memories sample_db) = Some (memory_of_new 100 1 ''agent'' sample_memory)"
  "read_by_name sample_db ''global'' ''onboarding'' = Some (memory_of_new 100 1 ''agent'' sample_memory)"
  by (simp_all add: sample_db_def memory_of_new_def sample_memory_def named_def read_by_name_def live_def)

lemma sample_stale_run:
  "\<exists>r d'. remember sample_remember_env 200 ''global'' (update_args (Some 7)) (Inr '''') sample_db None
    = Inr (Inr (Stored r), d', None)"
proof -
  have "\<not> namespace_full sample_db ''global''"
    by (auto simp: namespace_full_def sample_db_def memory_of_new_def sample_memory_def live_def)
  moreover have "revive 200 ''global'' ''onboarding'' True sample_db = Inr sample_db"
    using sample_holder by (simp add: revive_def find_by_name_any_state_def memory_of_new_def)
  moreover have "\<exists>plan. remember_plan_of sample_remember_env ''global'' (update_args (Some 7)) update_prepared sample_db
      = Inr (Inr plan) \<and> rp_existing plan = Some 1 \<and> rp_memory plan = sample_memory\<lparr>n_body := ''new'', n_body_hash := ''new''\<rparr>
      \<and> length (rp_chunks plan) = 1 \<and> eo_embedding (rp_out plan) = Some [1]"
    by (simp add: plan_defs read_by_name_def sample_db_def memory_of_new_def sample_memory_def named_def live_def
        update_prepared_def sample_prepared_def update_args_def sample_args_def sample_remember_env_def empty_graph_def Let_def
        unwrap_or_def new_trim)
  then obtain plan where plan: "remember_plan_of sample_remember_env ''global'' (update_args (Some 7)) update_prepared sample_db
      = Inr (Inr plan)" "rp_existing plan = Some 1"
    "rp_memory plan = sample_memory\<lparr>n_body := ''new'', n_body_hash := ''new''\<rparr>" "length (rp_chunks plan) = 1"
    "eo_embedding (rp_out plan) = Some [1]" by blast
  have "\<exists>d'. store_row sample_remember_env 200 ''global'' (Some 7) (rp_memory plan) (Some [1]) (Some 1) sample_db
      = Inr ((1, ''updated'', 1, False), d')"
    by (simp add: plan row_defs delete_chunks_def delete_chunk_rows_def update_memory_def exec_update_memories_def
        update_memories_def sql_update_def next_version_def max_or_zero_def sync_fts_after_update_def fts_delete_def Let_def)
  then obtain d' where "store_row sample_remember_env 200 ''global'' (Some 7) (rp_memory plan) (Some [1]) (Some 1) sample_db
      = Inr ((1, ''updated'', 1, False), d')" by blast
  then have "remember_tx sample_remember_env 200 ''global'' (update_args (Some 7)) (pp_graph update_prepared) (rp_chunks plan)
      (rp_out plan) (rp_memory plan) (rp_existing plan) sample_db = Inr (Inr ((1, ''updated'', 1, 0, 0), d'))"
    by (simp add: remember_tx_def plan update_prepared_def empty_graph_def store_graph_def update_args_def sample_args_def)
  moreover have "\<exists>r d2. finish 200 (update_args (Some 7)) update_prepared plan (1, ''updated'', 1, 0, 0) d' None = (r, d2, None)"
    by (simp add: finish_def cleanup_sidecar_def update_prepared_def sample_prepared_def empty_graph_def Let_def)
  ultimately show ?thesis
    by (auto simp: remember_def update_prepare remember_stored_def plan)
qed

theorem remember_stale_lock_witness:
  "\<exists>r d'. remember sample_remember_env 200 ''global'' (update_args (Some 7)) (Inr '''') sample_db None
      = Inr (Inr (Stored r), d', None)
    \<and> rs_action r = ''updated'' \<and> memories d' = memories sample_db \<and> \<not> fts_ok d'"
proof -
  obtain r d' where r: "remember sample_remember_env 200 ''global'' (update_args (Some 7)) (Inr '''') sample_db None
      = Inr (Inr (Stored r), d', None)" using sample_stale_run by blast
  have h: "read_by_name sample_db ''global'' (on_normalized (pp_name update_prepared))
      = Some (memory_of_new 100 1 ''agent'' sample_memory)" by (simp add: sample_holder)
  have "rs_action r = ''updated'' \<and> memories d' = memories sample_db \<and> \<not> fts_ok d'"
    using remember_stale_lock [OF sample_inv update_prepare(1) h _ _ r]
    by (simp add: memory_of_new_def sample_memory_def remembered_def unwrap_or_def new_trim)
  with r show ?thesis by blast
qed

section \<open>An update that fails after the undeletion\<close>

definition gone_db :: db where
  "gone_db = snd (soft_delete 150 ''global'' ''onboarding'' sample_db)"

lemma gone_run:
  "\<exists>e d'. remember offline_env 200 ''global'' (update_args None) (Inr '''') gone_db None = Inr (Inl e, d', None)
    \<and> d' \<noteq> gone_db"
proof -
  let ?row = "memory_of_new 100 1 ''agent'' sample_memory"
  have gone: "memories gone_db = [?row\<lparr>m_deleted_at := Some 150, m_updated_at := 150\<rparr>]"
    by (simp add: gone_db_def soft_delete_def Let_def update_memories_def sql_update_def sample_db_def memory_of_new_def
        sample_memory_def named_def live_def)
  have "{m \<in> set (memories gone_db). live m} = {}" by (auto simp: gone live_def)
  then have room: "\<not> namespace_full gone_db ''global''" by (simp only: namespace_full_def MAX_NAMESPACES_ACTIVE_def) simp
  have rev: "revive 200 ''global'' ''onboarding'' True gone_db = Inr (clear_deleted_at 200 1 gone_db)"
    by (simp add: revive_def find_by_name_any_state_def gone named_def memory_of_new_def sample_memory_def)
  have undone: "memories (clear_deleted_at 200 1 gone_db) = [?row\<lparr>m_updated_at := 200\<rparr>]"
    by (simp add: clear_deleted_at_def update_memories_def sql_update_def gone memory_of_new_def)
  have "remember_plan_of offline_env ''global'' (update_args None) update_prepared (clear_deleted_at 200 1 gone_db)
      = Inr (Inl (Validation ''offline''))"
    by (simp add: plan_defs read_by_name_def undone memory_of_new_def sample_memory_def named_def live_def
        update_prepared_def sample_prepared_def update_args_def sample_args_def offline_env_def sample_remember_env_def
        empty_graph_def Let_def unwrap_or_def new_trim)
  then have "remember offline_env 200 ''global'' (update_args None) (Inr '''') gone_db None
      = Inr (Inl (Validation ''offline''), clear_deleted_at 200 1 gone_db, None)"
    using room rev by (simp add: remember_def update_prepare remember_stored_def)
  moreover have "clear_deleted_at 200 1 gone_db \<noteq> gone_db" using gone undone by (auto simp: memory_of_new_def)
  ultimately show ?thesis by blast
qed

theorem remember_failure_effect_witness:
  "\<exists>e d'. remember offline_env 200 ''global'' (update_args None) (Inr '''') gone_db None = Inr (Inl e, d', None)
    \<and> (\<exists>m \<in> set (memories gone_db). \<not> live m \<and> view_of d' = (view_of gone_db)(key m \<mapsto> content m))"
proof -
  obtain e d' where r: "remember offline_env 200 ''global'' (update_args None) (Inr '''') gone_db None = Inr (Inl e, d', None)"
    and n: "d' \<noteq> gone_db" using gone_run by blast
  have "store_inv gone_db" unfolding gone_db_def by (rule soft_delete_inv [OF sample_inv])
  from remember_failure_effect [OF this r] n r show ?thesis by blast
qed

end
