(* ===== verification/Batch_Correct.thy ===== *)
theory Batch_Correct
  imports Batch Remember_Runs
begin

text \<open>
  The command \<^verbatim>\<open>remember-batch\<close>. The locale \<open>store_relation\<close> carries a relation between stores through the
  steps of an open transaction, whether they succeed or fail; it is interpreted for the schema
  invariant, for the rows of the memories and for the chunks.
\<close>

lemma act_check_simps [simp]:
  "act_bind (act_check (Inl e)) f = act_fail e" "act_bind (act_check (Inr a)) f = f a"
  "act_fail e d = (Inl e, d)" "act_return a d = (Inr a, d)"
  by (simp_all add: act_bind_def act_check_def act_fail_def act_return_def fun_eq_iff)

section \<open>Relations kept by statements\<close>

definition stays :: "(db \<Rightarrow> db \<Rightarrow> bool) \<Rightarrow> 'a act \<Rightarrow> bool" where
  "stays R m \<longleftrightarrow> (\<forall>d. R d (snd (m d)))"

lemma stays_run: "stays R m \<Longrightarrow> m d = (r, d') \<Longrightarrow> R d d'"
  by (metis snd_conv stays_def)

locale store_relation =
  fixes R :: "db \<Rightarrow> db \<Rightarrow> bool"
  assumes rel_refl: "R d d" and rel_trans: "R d d' \<Longrightarrow> R d' d'' \<Longrightarrow> R d d''"
begin

lemma stays_return: "stays R (act_return a)"
  by (simp add: stays_def act_return_def rel_refl)

lemma stays_fail: "stays R (act_fail e)"
  by (simp add: stays_def act_fail_def rel_refl)

lemma stays_check: "stays R (act_check r)"
  by (simp add: stays_def act_check_def rel_refl)

lemma bind_from:
  assumes "R d (snd (m d))" and "\<And>a. m d = (Inr a, snd (m d)) \<Longrightarrow> R (snd (m d)) (snd (f a (snd (m d))))"
  shows "R d (snd (act_bind m f d))"
proof -
  obtain r d' where m: "m d = (r, d')" by fastforce
  show ?thesis
    using assms by (cases r) (auto simp: act_bind_def m intro: rel_trans)
qed

lemma stays_bind: "stays R m \<Longrightarrow> (\<And>a. stays R (f a)) \<Longrightarrow> stays R (act_bind m f)"
  unfolding stays_def by (blast intro: bind_from)

lemma stays_exec: "(\<And>d a d'. f d = Inr (a, d') \<Longrightarrow> R d d') \<Longrightarrow> stays R (act_exec f)"
  by (auto simp: stays_def act_exec_def rel_refl split: sum.split)

lemma stays_exec_unit: "(\<And>d d'. f d = Inr d' \<Longrightarrow> R d d') \<Longrightarrow> stays R (act_exec_unit f)"
  unfolding act_exec_unit_def by (rule stays_exec) (auto split: sum.splits)

lemma stays_read: "(\<And>d. R d (snd (f d d))) \<Longrightarrow> stays R (act_read f)"
  by (simp add: stays_def act_read_def)

lemma stays_each: "(\<And>x. stays R (f x)) \<Longrightarrow> stays R (act_each f xs)"
  by (induction xs) (simp_all add: stays_return stays_bind)

lemmas stays_intros = stays_return stays_fail stays_check stays_bind stays_each

end

definition keeps_store :: "db \<Rightarrow> db \<Rightarrow> bool" where
  "keeps_store d d' \<longleftrightarrow> (store_inv d \<longrightarrow> store_inv d')"

text \<open>What every step of a line keeps, and what the steps after the row keep.\<close>

definition line_kept :: "db \<Rightarrow> db \<Rightarrow> bool" where
  "line_kept d d' \<longleftrightarrow> keeps_store d d' \<and> memory_chunks d' = memory_chunks d"

definition quiet :: "db \<Rightarrow> db \<Rightarrow> bool" where
  "quiet d d' \<longleftrightarrow> line_kept d d' \<and> rows_kept d d'"

interpretation line_rel: store_relation line_kept
  by unfold_locales (auto simp: line_kept_def keeps_store_def)

interpretation quiet_rel: store_relation quiet
  by unfold_locales (auto simp: quiet_def line_kept_def keeps_store_def rows_kept_def)

lemma quiet_side: "side_step d d' \<Longrightarrow> memory_chunks d' = memory_chunks d \<Longrightarrow> quiet d d'"
  using side_step_inv rows_kept_side by (simp add: quiet_def line_kept_def keeps_store_def)

lemma quiet_line: "stays quiet m \<Longrightarrow> stays line_kept m"
  by (simp add: stays_def quiet_def)

section \<open>The steps of a line\<close>

lemma quiet_upsert_entity:
  assumes "upsert_entity u now ns e d = Inr (i, d')"
  shows "quiet d d'"
  using assms unfolding upsert_entity_def
proof (rule upsert_entityE)
  fix name t
  assume d': "d' = exec_upsert_entity (\<lambda>e t. t) now ns name t (ne_description e) d"
  have "store_inv d'" if inv: "store_inv d"
  proof (rule store_inv_same [OF inv])
    note ok = store_invD(1) [OF inv]
    show "store_ok d'"
    proof (cases "\<exists>e \<in> set (entities d). entity_named ns name e")
      case True
      then show ?thesis unfolding d' exec_upsert_entity_def
        by (simp add: store_ok_sql_update_entities [OF ok])
    next
      case False
      then show ?thesis unfolding d' exec_upsert_entity_def
        using store_ok_insert_entity [OF ok False, of "entity_of_new now (seq_entities d + 1) ns name t (ne_description e)"]
        by (simp add: entity_of_new_def)
    qed
  qed (simp_all add: d')
  then show ?thesis
    by (simp add: quiet_def line_kept_def keeps_store_def rows_kept_def) (simp add: d' exec_upsert_entity_def)
qed

lemma quiet_create_or_fetch:
  assumes run: "create_or_fetch_relationship u now ns s t relation w desc d = Inr (i, new, d')"
  shows "quiet d d'"
proof -
  let ?rel = "map_to_canonical_relation u relation"
  consider "d' = d" | (update) p where "d' = update_relationships now p (\<lambda>r. r\<lparr>r_weight := w\<rparr>) d"
    | (insert) "insert_relationship now ns s t ?rel w desc d = Inr d'"
    using run unfolding create_or_fetch_relationship_def Let_def
    by (auto simp: bind_rust_Inr_iff split: option.splits if_splits)
  then show ?thesis
  proof cases
    case update
    have ok: "store_ok d'" if "store_ok d"
      unfolding update update_relationships_def
      by (rule store_ok_relationships [OF that])
         (use store_ok_endpoints [OF that] store_ok_edges_distinct [OF that] in
           \<open>auto simp: map_sql_update_same edge_key_def set_sql_update\<close>)
    have same: "memories d' = memories d" "fts_memories d' = fts_memories d" "memory_chunks d' = memory_chunks d"
      by (simp_all add: update update_relationships_def)
    have "store_inv d'" if inv: "store_inv d"
      by (rule store_inv_same [OF inv ok [OF store_invD(1) [OF inv]] same(1,2)])
    then show ?thesis using same by (simp add: quiet_def line_kept_def keeps_store_def rows_kept_def)
  next
    case insert
    from insert obtain r where r: "s \<in> entity_ids d" "t \<in> entity_ids d" "r_id r = seq_relationships d + 1"
      "edge_key r = (s, t, ?rel)" "(s, t, ?rel) \<notin> edges d"
      and d': "d' = d\<lparr>relationships := relationships d @ [r], seq_relationships := seq_relationships d + 1\<rparr>"
      by (rule insert_relationshipE)
    have ok: "store_ok d \<Longrightarrow> store_ok d'" unfolding d' by (rule store_ok_insert_edge) (use r in auto)
    have same: "memories d' = memories d" "fts_memories d' = fts_memories d" "memory_chunks d' = memory_chunks d"
      by (simp_all add: d')
    have "store_inv d'" if inv: "store_inv d"
      by (rule store_inv_same [OF inv ok [OF store_invD(1) [OF inv]] same(1,2)])
    then show ?thesis using same by (simp add: quiet_def line_kept_def keeps_store_def rows_kept_def)
  qed (simp add: quiet_rel.rel_refl)
qed

lemma quiet_upsert_vec: "upsert_vec cfg i ns emb d = Inr d' \<Longrightarrow> quiet d d'"
  by (rule quiet_side [OF side_upsert_vec]) (auto simp: upsert_vec_def split: if_splits)

lemma quiet_insert_version: "insert_version now i v n t de b m by reason d = Inr d' \<Longrightarrow> quiet d d'"
  by (rule quiet_side [OF side_insert_version]) (auto simp: insert_version_def split: if_splits)

lemma quiet_upsert_entity_vec: "upsert_entity_vec cfg i ns emb d = Inr d' \<Longrightarrow> quiet d d'"
  by (rule quiet_side [OF side_upsert_entity_vec]) (auto simp: upsert_entity_vec_def split: if_splits)

lemma quiet_link_memory_entity: "link_memory_entity i e d = Inr d' \<Longrightarrow> quiet d d'"
  by (rule quiet_side [OF side_link_memory_entity]) (auto simp: link_memory_entity_def split: if_splits)

lemmas quiet_statements = quiet_upsert_entity quiet_create_or_fetch quiet_upsert_vec quiet_insert_version
  quiet_upsert_entity_vec quiet_link_memory_entity

lemma embed_stays: "stays quiet (batch_embed env i ns body)"
  unfolding batch_embed_def
  by (intro quiet_rel.stays_intros)
     (auto intro: quiet_rel.stays_return quiet_rel.stays_exec_unit quiet_statements split: option.split)

lemma version_stays: "stays quiet (batch_version now i v m reason)"
  unfolding batch_version_def by (intro quiet_rel.stays_exec_unit quiet_statements)

lemma entity_stays: "stays quiet (batch_entity env now ns i e)"
  unfolding batch_entity_def
  by (intro quiet_rel.stays_bind quiet_rel.stays_exec)
     (auto intro: quiet_rel.stays_return quiet_rel.stays_fail quiet_rel.stays_exec_unit quiet_statements
        split: sum.split list.split)

lemma relationship_stays: "stays quiet (batch_relationship env now ns r)"
  unfolding batch_relationship_def Let_def
proof (rule quiet_rel.stays_read)
  fix d
  show "quiet d (snd ((case (find_entity_id (re_unicode env) d ns (normalize_entity_name (re_unicode env) (nl_source r)),
              find_entity_id (re_unicode env) d ns (normalize_entity_name (re_unicode env) (nl_target r))) of
          (Some s, Some t) \<Rightarrow>
            act_exec_unit (\<lambda>d. bind_rust
              (create_or_fetch_relationship (re_unicode env) now ns s t (nl_relation r) (nl_strength r) (nl_description r) d)
              (\<lambda>(_, _, d'). Inr d'))
        | _ \<Rightarrow> act_return ()) d))"
    using quiet_create_or_fetch
    by (auto simp: act_exec_unit_def act_exec_def act_return_def bind_rust_Inr_iff quiet_rel.rel_refl
        split: option.split sum.splits)
qed

section \<open>The row\<close>

lemma act_exec_cases:
  obtains (failed) e where "f d = Inl e" "act_exec f d = (Inl e, d)"
    | (done_as) a d' where "f d = Inr (a, d')" "act_exec f d = (Inr a, d')"
  by (cases "f d") (auto simp: act_exec_def)

text \<open>The statements after the row: version and vector, which change no row.\<close>

lemma finish_row_stays:
  "stays quiet (act_bind (batch_version now i v m reason) (\<lambda>_. act_bind (batch_embed env i ns body) (\<lambda>_. act_return x)))"
  by (intro quiet_rel.stays_bind version_stays embed_stays quiet_rel.stays_return)

text \<open>The outcome of writing a row, also when a later statement of the line fails: either nothing changed
  and the step failed, or the view has the new content and the schema invariant holds.\<close>

definition row_written :: "new_memory \<Rightarrow> db \<Rightarrow> db \<Rightarrow> bool" where
  "row_written m d d' \<longleftrightarrow> store_inv d' \<and> view_of d' = (view_of d)((n_namespace m, n_name m) \<mapsto> new_content m)
     \<and> memory_chunks d' = memory_chunks d"

lemma row_written_quiet: "row_written m d d1 \<Longrightarrow> quiet d1 d' \<Longrightarrow> row_written m d d'"
  by (auto simp: row_written_def quiet_def line_kept_def keeps_store_def view_of_kept)

lemma insert_row_written:
  assumes inv: "store_inv d" and run: "insert_memory now m d = Inr (i, d')"
  shows "row_written m d d'"
proof -
  obtain row where row: "row = memory_of_new now (seq_memories d + 1) (n_source m) m"
    and fresh: "\<forall>r \<in> set (memories d). \<not> named (n_namespace m) (n_name m) r"
    and d': "d' = d\<lparr>memories := memories d @ [row], seq_memories := seq_memories d + 1,
                fts_memories := fts_memories d @ [fts_of row]\<rparr>"
    using run by (rule insert_memoryE)
  have k: "key row = (n_namespace m, n_name m)" "visible row = Some (new_content m)"
    by (simp_all add: row memory_of_new_def key_def visible_def live_def content_def new_content_def)
  note inv' = insert_memory_inv [OF inv run]
  have "view_of d' = (view_of d)(key row := visible row)"
    by (rule view_add [OF store_invD(1) [OF inv'] _ store_invD(1) [OF inv]])
       (use fresh k in \<open>auto simp: named_key d'\<close>)
  then show ?thesis using inv' k by (simp add: row_written_def) (simp add: d')
qed

lemma batch_create_effect:
  assumes inv: "store_inv d" and run: "batch_create env now ns m d = (r, d')"
  shows "(\<exists>e. r = Inl e \<and> d' = d) \<or> row_written m d d'"
proof (cases rule: act_exec_cases [of "insert_memory now m" d])
  case (failed e)
  then show ?thesis using run by (auto simp: batch_create_def act_bind_def)
next
  case (done_as i d1)
  let ?tail = "act_bind (batch_version now i 1 m ''create'') (\<lambda>_. act_bind (batch_embed env i ns (n_body m))
      (\<lambda>_. act_return (i, ''created'')))"
  have "?tail d1 = (r, d')" using run done_as(2) by (simp add: batch_create_def act_bind_def [of "act_exec _"])
  then have "quiet d1 d'" by (rule stays_run [OF finish_row_stays])
  with insert_row_written [OF inv done_as(1)] show ?thesis by (simp add: row_written_quiet)
qed

lemma batch_update_effect:
  assumes inv: "store_inv d" and live: "live old" and f: "List.find (\<lambda>r. m_id r = i) (memories d) = Some old"
    and key: "key old = (n_namespace m, n_name m)" and run: "batch_update env now ns m i d = (r, d')"
  shows "(\<exists>e. r = Inl e \<and> d' = d) \<or> row_written m d d'"
proof (cases rule: act_exec_cases [of "update_memory now i m None" d])
  case (failed e)
  then show ?thesis using run by (auto simp: batch_update_def act_read_def f act_bind_def)
next
  case (done_as b d1)
  let ?d1 = "sync_fts_after_update i (m_name old) (m_description old) (m_body old) (n_name m) (n_description m) (n_body m) d1"
  let ?tail = "\<lambda>d1. act_bind (batch_version now i (next_version d1 i) m ''edit'') (\<lambda>_.
      act_bind (batch_embed env i ns (n_body m)) (\<lambda>_. act_return (i, ''updated'')))"
  have "?tail ?d1 ?d1 = (r, d')"
    using run done_as(2) by (simp add: batch_update_def act_read_def f act_bind_def act_apply_def)
  then have q: "quiet ?d1 d'" by (rule stays_run [OF finish_row_stays])
  have n: "n_name m = m_name old" using key by (simp add: key_def)
  note eff = update_and_sync [OF inv live f n lock_holds_None done_as(1)]
  let ?new = "(set_memory (n_source m) m old)\<lparr>m_updated_at := now\<rparr>"
  have old: "old \<in> set (memories d)" using find_in_set [OF f] by simp
  have k: "key ?new = key old" "visible ?new = Some (new_content m)"
    using live by (simp_all add: set_memory_def key_def visible_def live_def content_def new_content_def)
  have "view_of ?d1 = (view_of d)(key old := None, key ?new := visible ?new)"
    using eff(2) by (intro view_replace [OF store_invD(1) [OF inv] store_invD(1) [OF eff(1)] old]) simp
  moreover have "memory_chunks ?d1 = memory_chunks d"
    using done_as(1) unfolding update_memory_def bind_rust_Inr_iff
    by (auto elim!: exec_update_memoriesE simp: update_memories_def sync_fts_after_update_def fts_insert_def fts_delete_def
        split: option.splits)
  ultimately have "row_written m d ?d1" using eff(1) k key by (simp add: row_written_def)
  then show ?thesis using q by (simp add: row_written_quiet)
qed

section \<open>The line\<close>

text \<open>The row step of a line, under the branch that the lookup selects.\<close>

definition row_step :: "remember_env \<Rightarrow> int \<Rightarrow> string \<Rightarrow> bool \<Rightarrow> string \<Rightarrow> new_memory \<Rightarrow> (int \<times> string) act" where
  "row_step env now ns force name m = act_read (\<lambda>d. case find_by_name d ns name of
     None \<Rightarrow> if str_trim (n_description m) = [] then act_fail (Validation ''batch_line_type_description_required'')
             else batch_create env now ns m
   | Some (i, _) \<Rightarrow> if \<not> force then act_fail (Duplicate ''duplicate_memory'') else batch_update env now ns m i)"

lemma row_step_effect:
  assumes inv: "store_inv d" and m: "n_namespace m = ns" "n_name m = name"
    and run: "row_step env now ns force name m d = (r, d')"
  shows "(\<exists>e. r = Inl e \<and> d' = d) \<or> row_written m d d'"
proof (cases "find_by_name d ns name")
  case None
  then show ?thesis
    using run batch_create_effect [OF inv] by (auto simp: row_step_def act_read_def act_fail_def split: if_splits)
next
  case (Some x)
  then obtain old where old: "read_by_name d ns name = Some old" and i: "fst x = m_id old"
    by (auto simp: find_by_name_read)
  then have o: "old \<in> set (memories d)" "named ns name old" "live old"
    by (simp_all add: read_by_name_iff [OF store_invD(1) [OF inv]])
  have "List.find (\<lambda>r. m_id r = m_id old) (memories d) = Some old"
    by (rule find_key [OF store_ok_ids [OF store_invD(1) [OF inv]] o(1)])
  then have upd: "batch_update env now ns m (m_id old) d = (r, d') \<Longrightarrow> ?thesis"
    using batch_update_effect [OF inv o(3), of "m_id old" m] o(2) m by (auto simp: named_key)
  show ?thesis
  proof (cases force)
    case True
    have "batch_update env now ns m (m_id old) d = (r, d')"
      using run Some i True by (auto simp: row_step_def act_read_def split: prod.splits)
    then show ?thesis by (rule upd)
  next
    case False
    with run Some show ?thesis by (auto simp: row_step_def act_read_def act_fail_def split: prod.splits)
  qed
qed

lemma tail_stays:
  "stays quiet (act_bind (act_each (batch_entity env now ns i) es) (\<lambda>_.
     act_bind (act_each (batch_relationship env now ns) rs) (\<lambda>_. act_return x)))"
  by (intro quiet_rel.stays_intros entity_stays relationship_stays)

text \<open>A line either fails before it writes, or runs the row step and the statements on the graph.\<close>

lemma process_lineE:
  assumes "process_line be now ns args idx raw d = (r, d')"
  obtains (refused) e where "r = Inl e" "d' = d"
    | (written) input es where "be_parse be raw = Inr input"
        "act_bind (row_step (be_env be) now ns (ba_force_merge args) (normalize_entity_name (re_unicode (be_env be)) (bl_name input))
             (batch_memory (be_env be) ns (normalize_entity_name (re_unicode (be_env be)) (bl_name input)) input))
           (\<lambda>(i, action). act_bind (act_each (batch_entity (be_env be) now ns i) es) (\<lambda>_.
              act_bind (act_each (batch_relationship (be_env be) now ns) (bl_relationships input)) (\<lambda>_.
                act_return (\<lparr>bv_name = normalize_entity_name (re_unicode (be_env be)) (bl_name input), bv_status = action,
                     bv_memory_id = Some i, bv_error = None, bv_index = idx,
                     bv_warnings = collect_noncanonical_entity_types (re_unicode (be_env be)) (re_serde (be_env be)) raw\<rparr>,
                   map (\<lambda>e. normalize_entity_name (re_unicode (be_env be)) (ne_name e)) es)))) d = (r, d')"
proof (cases "be_parse be raw")
  case (Inl e)
  then show thesis using assms refused by (auto simp: process_line_def act_fail_def)
next
  case (Inr input)
  let ?u = "re_unicode (be_env be)" and ?name = "normalize_entity_name (re_unicode (be_env be)) (bl_name input)"
  let ?strict = "ba_strict args \<and> collect_noncanonical_entity_types ?u (re_serde (be_env be)) raw \<noteq> []"
  consider ?strict | e where "\<not> ?strict" "normalize_entities ?u (bl_entities input) = Inl e"
    | es where "\<not> ?strict" "normalize_entities ?u (bl_entities input) = Inr es" by (cases "normalize_entities ?u (bl_entities input)") auto
  then show thesis
  proof cases
    case 1
    then show thesis using assms Inr refused by (auto simp: process_line_def Let_def)
  next
    case (2 e)
    then show thesis using assms Inr refused by (auto simp: process_line_def Let_def)
  next
    case (3 es)
    show thesis
    proof (cases "?name = [] \<or> (\<exists>e. check_embedding_input_size (re_tokens (be_env be)) (bl_body input) = Inl e)")
      case True
      then show thesis
        using assms Inr 3 refused by (cases "?name = []") (auto simp: process_line_def Let_def)
    next
      case False
      then obtain x where x: "check_embedding_input_size (re_tokens (be_env be)) (bl_body input) = Inr x"
        by (cases "check_embedding_input_size (re_tokens (be_env be)) (bl_body input)") auto
      have desc: "n_description (batch_memory env ns name input) = bl_description input" for env name
        by (simp add: batch_memory_def)
      have n: "\<not> ?name = []" using False by simp
      from assms show thesis
        unfolding process_line_def Let_def Inr sum.case if_not_P [OF 3(1)] 3(2) act_check_simps(1,2) if_not_P [OF n] x
        by (rule written [OF Inr, unfolded row_step_def desc])
    qed
  qed
qed

lemma line_effect:
  assumes inv: "store_inv d" and run: "process_line be now ns args idx raw d = (r, d')"
  shows "store_inv d' \<and> memory_chunks d' = memory_chunks d \<and>
    ((\<exists>e. r = Inl e) \<and> d' = d \<or>
     (\<exists>input. be_parse be raw = Inr input \<and>
        view_of d' = (view_of d)((ns, normalize_entity_name (re_unicode (be_env be)) (bl_name input))
          \<mapsto> (bl_type input, bl_description input, bl_body input))))"
  using run
proof (cases rule: process_lineE)
  case (refused e)
  with inv show ?thesis by simp
next
  case (written input es)
  let ?name = "normalize_entity_name (re_unicode (be_env be)) (bl_name input)"
  let ?m = "batch_memory (be_env be) ns ?name input"
  obtain r1 d1 where row: "row_step (be_env be) now ns (ba_force_merge args) ?name ?m d = (r1, d1)" by fastforce
  have m: "n_namespace ?m = ns" "n_name ?m = ?name" "new_content ?m = (bl_type input, bl_description input, bl_body input)"
    by (simp_all add: batch_memory_def new_content_def)
  from row_step_effect [OF inv m(1,2) row] have eff: "(\<exists>e. r1 = Inl e \<and> d1 = d) \<or> row_written ?m d d1" .
  have rest: "row_written ?m d d1 \<Longrightarrow> row_written ?m d d'"
    using written(2) row
    by (cases r1) (auto simp: act_bind_def [of "row_step _ _ _ _ _ _"] intro: row_written_quiet stays_run [OF tail_stays]
        split: prod.splits)
  have "(\<exists>e. r1 = Inl e \<and> d1 = d) \<Longrightarrow> (\<exists>e. r = Inl e) \<and> d' = d"
    using written(2) row by (auto simp: act_bind_def [of "row_step _ _ _ _ _ _"])
  with eff rest inv written(1) m(3) show ?thesis by (auto simp: row_written_def m(1,2))
qed

lemmas batch_line_inv = line_effect [THEN conjunct1]

text \<open>Claim C13. One line of \<^verbatim>\<open>remember-batch\<close> leaves a store that satisfies the schema invariant, and touches no
  chunk of any memory. If it succeeds, the normalised name is bound to the type, description and body of
  the line and no other name changes. If it fails, either nothing changed, or the same binding has been
  written to the open transaction: the row is stored although the line is reported as failed.\<close>

theorem batch_line_effect:
  assumes inv: "store_inv d" and run: "process_line be now ns args idx raw d = (r, d')"
  shows "store_inv d' \<and> memory_chunks d' = memory_chunks d \<and>
    ((\<exists>e. r = Inl e) \<and> d' = d \<or>
     (\<exists>input. be_parse be raw = Inr input \<and>
        view_of d' = (view_of d)((ns, normalize_entity_name (re_unicode (be_env be)) (bl_name input))
          \<mapsto> (bl_type input, bl_description input, bl_body input))))"
  using assms by (rule line_effect)

section \<open>The command\<close>


lemma process_line_event:
  "process_line be now ns args idx raw d = (Inr (ev, names), d') \<Longrightarrow> bv_error ev = None \<and> bv_index ev = idx"
  by (erule process_lineE) (auto simp: act_bind_def act_return_def split: sum.splits prod.splits)

lemma shared_loop_effect:
  assumes "shared_loop be now ns args idx ls d = (evs, names, failed, d')" and "store_inv d"
  shows "store_inv d' \<and> length (filter (\<lambda>ev. bv_error ev \<noteq> None) evs) = failed \<and> (failed = 0 \<longrightarrow> length evs = length ls)"
  using assms
proof (induction ls arbitrary: idx d evs names failed)
  case (Cons l ls)
  obtain r d1 where line: "process_line be now ns args idx l d = (r, d1)" by fastforce
  have inv1: "store_inv d1" using batch_line_inv [OF Cons.prems(2) line] .
  show ?case
  proof (cases r)
    case (Inl e)
    then show ?thesis
      using Cons.prems(1) line inv1 Cons.IH [of "Suc idx" d1]
      by (auto simp: failed_event_def split: if_splits prod.splits)
  next
    case (Inr x)
    obtain ev ns' where x: "x = (ev, ns')" by fastforce
    have "bv_error ev = None" using process_line_event line [unfolded Inr x] by blast
    then show ?thesis
      using Cons.prems(1) line inv1 Cons.IH [of "Suc idx" d1] by (auto simp: Inr x split: prod.splits)
  qed
qed simp

text \<open>The store that the per-line mode is meant to reach: the lines in order, the failing ones without
  effect.\<close>

definition lines_applied :: "batch_env \<Rightarrow> int \<Rightarrow> string \<Rightarrow> batch_args \<Rightarrow> (nat \<times> string) list \<Rightarrow> db \<Rightarrow> db" where
  "lines_applied be now ns args = fold (\<lambda>(idx, l) d.
     case process_line be now ns args idx l d of (Inr _, d') \<Rightarrow> d' | (Inl _, _) \<Rightarrow> d)"

lemma single_loop_effect:
  assumes "single_loop be now ns args idx ls d = (evs, names, failed, d')" and "store_inv d"
  shows "store_inv d' \<and> length (filter (\<lambda>ev. bv_error ev \<noteq> None) evs) = failed
    \<and> d' = lines_applied be now ns args (take (length evs) (enumerate idx ls)) d
    \<and> (\<not> ba_fail_fast args \<or> failed = 0 \<longrightarrow> length evs = length ls) \<and> length evs \<le> length ls"
  using assms
proof (induction ls arbitrary: idx d evs names failed)
  case (Cons l ls)
  obtain r d1 where line: "process_line be now ns args idx l d = (r, d1)" by fastforce
  have inv1: "store_inv d1" using batch_line_inv [OF Cons.prems(2) line] .
  show ?case
  proof (cases r)
    case (Inl e)
    then show ?thesis
      using Cons.prems line Cons.IH [of "Suc idx" d]
      by (auto simp: failed_event_def lines_applied_def split: if_splits prod.splits)
  next
    case (Inr x)
    obtain ev ns' where x: "x = (ev, ns')" by fastforce
    have "bv_error ev = None" using process_line_event line [unfolded Inr x] by blast
    then show ?thesis
      using Cons.prems(1) line inv1 Cons.IH [of "Suc idx" d1]
      by (auto simp: Inr x lines_applied_def split: prod.splits)
  qed
qed (simp add: lines_applied_def)

text \<open>Claim C14. However it is called, \<^verbatim>\<open>remember-batch\<close> leaves a store that satisfies the schema invariant, and a dry run
  changes nothing. With \<^verbatim>\<open>--transaction --fail-fast\<close> the batch is atomic: if one line fails, the
  store is as before. Without \<^verbatim>\<open>--transaction\<close> every line is atomic: the store is the one that the
  successful lines alone produce, in the order of the input, up to the line at which \<^verbatim>\<open>--fail-fast\<close> stops. The
  summary counts exactly the failed events.\<close>

theorem batch_modes:
  assumes "store_inv d"
    and "remember_batch be no_input now ns args stdin d s = (Inr (evs, summary), d', s')"
  shows "store_inv d' \<and> (ba_dry_run args \<longrightarrow> d' = d)
    \<and> bs_failed summary = length (filter (\<lambda>ev. bv_error ev \<noteq> None) evs)
    \<and> (ba_transaction args \<and> ba_fail_fast args \<and> bs_failed summary \<noteq> 0 \<longrightarrow> d' = d)
    \<and> (\<not> ba_dry_run args \<and> \<not> ba_transaction args \<longrightarrow>
        d' = lines_applied be now ns args (take (length evs) (enumerate 0 (input_lines stdin))) d
        \<and> (ba_fail_fast args \<and> bs_failed summary \<noteq> 0 \<or> length evs = length (input_lines stdin)))"
proof -
  have no: "\<not> no_input" using assms(2) by (auto simp: remember_batch_def split: if_splits)
  consider (dry) "ba_dry_run args" | (shared) "\<not> ba_dry_run args" "ba_transaction args"
    | (single) "\<not> ba_dry_run args" "\<not> ba_transaction args" by blast
  then show ?thesis
  proof cases
    case dry
    then show ?thesis using assms no by (auto simp: remember_batch_def Let_def)
  next
    case shared
    obtain evs' names failed d1 where l: "shared_loop be now ns args 0 (input_lines stdin) d = (evs', names, failed, d1)"
      by (metis prod.exhaust)
    obtain answer s1 where f: "batch_finish now args (input_lines stdin) (evs', names, failed) s = (answer, s1)" by fastforce
    have "fst answer = evs'" "bs_failed (snd answer) = failed"
      using arg_cong [OF f, of fst] by (auto simp: batch_finish_def Let_def case_prod_unfold split: if_splits)
    moreover have "answer = (evs, summary)" "d' = (if failed = 0 \<or> \<not> ba_fail_fast args then d1 else d)"
      using assms(2) no shared l f by (simp_all add: remember_batch_def)
    ultimately show ?thesis
      using shared_loop_effect [OF l assms(1)] assms(1) shared by auto
  next
    case single
    obtain evs' names failed d1 where l: "single_loop be now ns args 0 (input_lines stdin) d = (evs', names, failed, d1)"
      by (metis prod.exhaust)
    obtain answer s1 where f: "batch_finish now args (input_lines stdin) (evs', names, failed) s = (answer, s1)" by fastforce
    have "fst answer = evs'" "bs_failed (snd answer) = failed"
      using arg_cong [OF f, of fst] by (auto simp: batch_finish_def Let_def case_prod_unfold split: if_splits)
    moreover have "answer = (evs, summary)" "d' = d1"
      using assms(2) no single l f by (simp_all add: remember_batch_def)
    ultimately show ?thesis
      using single_loop_effect [OF l assms(1)] single by auto
  qed
qed

lemma batch_version_first:
  assumes inv: "store_inv d" and run: "insert_memory now m d = Inr (i, d1)"
  obtains d2 where "batch_version now i 1 m ''create'' d1 = (Inr (), d2)"
proof -
  obtain row where row: "row = memory_of_new now (seq_memories d + 1) (n_source m) m" "i = m_id row"
    and d1: "d1 = d\<lparr>memories := memories d @ [row], seq_memories := seq_memories d + 1,
                fts_memories := fts_memories d @ [fts_of row]\<rparr>"
    using run by (rule insert_memoryE)
  have "i \<notin> memory_ids d"
    using store_ok_id_bound [OF store_invD(1) [OF inv]] by (fastforce simp: row memory_of_new_def memory_ids_def)
  then have "versions_of d1 i = []"
    using no_versions_of_fresh [OF store_invD(1) [OF inv]] by (simp add: versions_of_def d1)
  then have "next_version d1 i = 1" by (simp add: next_version_def max_or_zero_def)
  moreover have "i \<in> memory_ids d1" by (simp add: d1 row memory_ids_def)
  ultimately show thesis
    using that insert_version_next [of i d1 "''create''" now "n_name m" "n_type m" "n_description m" "n_body m" "''{}''" None]
    by (auto simp: batch_version_def act_exec_unit_def act_exec_def change_reasons_def)
qed

text \<open>\<^verbatim>\<open>--transaction\<close> alone is not all-or-nothing: when a new memory is written and its embedding then fails,
  the line is reported as failed, nothing is counted as succeeded, and the commit at the end keeps the
  memory all the same.\<close>

theorem batch_commits_failed_line:
  assumes inv: "store_inv d"
    and "ba_transaction args" "\<not> ba_fail_fast args" "\<not> ba_dry_run args" "\<not> ba_strict args"
    and "str_trim raw \<noteq> []" "be_parse be raw = Inr input"
    and "normalize_entities (re_unicode (be_env be)) (bl_entities input) = Inr es"
    and "name = normalize_entity_name (re_unicode (be_env be)) (bl_name input)" "name \<noteq> []"
    and "check_embedding_input_size (re_tokens (be_env be)) (bl_body input) = Inr ()"
    and "str_trim (bl_description input) \<noteq> []" "\<forall>r \<in> set (memories d). \<not> named ns name r"
    and "memory_checks (memory_of_new now (seq_memories d + 1) ''agent'' (batch_memory (be_env be) ns name input))"
    and "accept_embedding (re_skip (be_env be)) (re_embed (be_env be) (bl_body input)) = Inl e"
  shows "\<exists>evs summary d' s'. remember_batch be False now ns args [Inr raw] d s = (Inr (evs, summary), d', s')
    \<and> map bv_status evs = [''failed''] \<and> bs_succeeded summary = 0 \<and> bs_failed summary = 1
    \<and> view_of d = (view_of d')((ns, name) := None)
    \<and> view_of d' (ns, name) = Some (bl_type input, bl_description input, bl_body input)"
proof -
  let ?env = "be_env be"
  let ?m = "batch_memory ?env ns name input"
  have free: "find_by_name d ns name = None"
    using assms(13) by (auto simp: find_by_name_def find_None_iff' split: option.split)
  have "validate_source ''agent'' = Inr ''agent''" by (simp add: validate_source_def)
  then obtain i d1 where ins: "insert_memory now ?m d = Inr (i, d1)"
    using assms(13,14) by (auto simp: insert_memory_def Let_def batch_memory_def)
  obtain d2 where v: "batch_version now i 1 ?m ''create'' d1 = (Inr (), d2)"
    using batch_version_first [OF inv ins] .
  have "n_body ?m = bl_body input" by (simp add: batch_memory_def)
  then have "batch_create ?env now ns ?m d = (Inl e, d2)"
    using ins v assms(15) by (simp add: batch_create_def act_bind_def act_exec_def batch_embed_def act_check_def)
  then have line: "process_line be now ns args 0 raw d = (Inl e, d2)"
    using assms(5,7-12) free by (simp add: process_line_def Let_def act_bind_def act_read_def)
  have w: "row_written ?m d d2"
    by (rule row_written_quiet [OF insert_row_written [OF inv ins] stays_run [OF version_stays v]])
  moreover have "view_of d (ns, name) = None"
    using assms(13) by (intro view_of_none) (auto simp: named_key)
  ultimately have view: "view_of d = (view_of d2)((ns, name) := None)"
    "view_of d2 (ns, name) = Some (bl_type input, bl_description input, bl_body input)"
    by (auto simp: row_written_def batch_memory_def new_content_def)
  obtain s' where "batch_finish now args [raw] ([failed_event 0 e], [], 1) s
      = (([failed_event 0 e], \<lparr>bs_total = 1, bs_succeeded = 0, bs_failed = 1, bs_entities = [], bs_recommended = [],
          bs_enqueued = None\<rparr>), s')"
    by (simp add: batch_finish_def)
  then have "remember_batch be False now ns args [Inr raw] d s = (Inr ([failed_event 0 e], \<lparr>bs_total = 1, bs_succeeded = 0,
      bs_failed = 1, bs_entities = [], bs_recommended = [], bs_enqueued = None\<rparr>), d2, s')"
    using assms(2-4,6) line by (simp add: remember_batch_def input_lines_def)
  with view show ?thesis by (auto simp: failed_event_def)
qed

section \<open>A concrete batch\<close>

definition sample_batch_env :: batch_env where
  "sample_batch_env = \<lparr>be_env = offline_env,
     be_parse = (\<lambda>_. Inr \<lparr>bl_name = ''alice'', bl_type = ''note'', bl_description = ''new'', bl_body = ''new'',
       bl_entities = [], bl_relationships = []\<rparr>)\<rparr>"

definition sample_batch_args :: batch_args where
  "sample_batch_args = \<lparr>ba_transaction = True, ba_fail_fast = False, ba_force_merge = False, ba_dry_run = False,
     ba_enqueue_enrich = False, ba_strict = False\<rparr>"


theorem batch_commits_failed_line_witness:
  "\<exists>evs summary d' s'. remember_batch sample_batch_env False 100 ''global'' sample_batch_args [Inr ''new''] empty_db None
      = (Inr (evs, summary), d', s')
    \<and> map bv_status evs = [''failed''] \<and> view_of d' (''global'', ''alice'') = Some (''note'', ''new'', ''new'')"
proof -
  let ?input = "\<lparr>bl_name = ''alice'', bl_type = ''note'', bl_description = ''new'', bl_body = ''new'',
       bl_entities = [], bl_relationships = []\<rparr>"
  have flags: "ba_transaction sample_batch_args" "\<not> ba_fail_fast sample_batch_args" "\<not> ba_dry_run sample_batch_args"
    "\<not> ba_strict sample_batch_args" by (simp_all add: sample_batch_args_def)
  have env: "be_parse sample_batch_env ''new'' = Inr ?input" "be_env sample_batch_env = offline_env"
    by (simp_all add: sample_batch_env_def)
  have "memory_checks (memory_of_new 100 (seq_memories empty_db + 1) ''agent''
      (batch_memory offline_env ''global'' ''alice'' ?input))"
    by (simp add: memory_checks_def memory_of_new_def batch_memory_def memory_types_def source_str_def all_sources_def
        sql_length_def char_count_def is_cont_def)
  then have "\<exists>evs summary d' s'. remember_batch sample_batch_env False 100 ''global'' sample_batch_args [Inr ''new''] empty_db None
      = (Inr (evs, summary), d', s')
    \<and> map bv_status evs = [''failed''] \<and> bs_succeeded summary = 0 \<and> bs_failed summary = 1
    \<and> view_of empty_db = (view_of d')((''global'', ''alice'') := None)
    \<and> view_of d' (''global'', ''alice'') = Some (bl_type ?input, bl_description ?input, bl_body ?input)"
    by (intro batch_commits_failed_line [OF store_inv_empty flags _ env(1), where es = "[]" and e = "Validation ''offline''"])
       (simp_all add: env new_trim sample_names prepare_limits accept_embedding_def empty_db_def)
  then show ?thesis by auto
qed

theorem batch_line_effect_witness:
  "\<exists>r d'. process_line sample_batch_env 100 ''global'' sample_batch_args 0 ''new'' empty_db = (r, d') \<and> store_inv d'"
proof -
  obtain r d' where r: "process_line sample_batch_env 100 ''global'' sample_batch_args 0 ''new'' empty_db = (r, d')" by fastforce
  from batch_line_effect [OF store_inv_empty r] r show ?thesis by blast
qed

theorem batch_modes_witness:
  "\<exists>evs summary s'. remember_batch sample_batch_env False 100 ''global'' (sample_batch_args\<lparr>ba_dry_run := True\<rparr>) [Inr ''new'']
      empty_db None = (Inr (evs, summary), empty_db, s') \<and> map bv_status evs = [''would_create'']"
proof -
  obtain evs summary d' s' where r: "remember_batch sample_batch_env False 100 ''global'' (sample_batch_args\<lparr>ba_dry_run := True\<rparr>)
      [Inr ''new''] empty_db None = (Inr (evs, summary), d', s')"
    by (simp add: remember_batch_def Let_def)
  then have "map bv_status evs = [''would_create'']"
    by (auto simp: remember_batch_def Let_def input_lines_def new_trim preview_line_def sample_batch_env_def
        sample_names sample_batch_args_def find_by_name_def empty_db_def)
  with batch_modes [OF store_inv_empty r] r show ?thesis by auto
qed

end
