(* ===== verification/Split_Body.thy ===== *)
theory Split_Body
  imports Remember "HOL-Library.AList"
begin

text \<open>
  The command \<^verbatim>\<open>split-body\<close> (\<^verbatim>\<open>src/commands/split_body.rs\<close>): an oversized memory is cut into sections,
  each section becomes a memory of its own, the original is annotated and each part \<^verbatim>\<open>replaces\<close> it in
  the graph. The section splitter is the one of \<open>Chunking\<close>; JSON, hash, text splitter and token counter
  are fields of the environment. A run yields its answer and the store, or a panic.
\<close>

section \<open>Data\<close>

record split_env =
  sv_unicode :: unicode
  sv_serde :: serde
  sv_blake3 :: "string \<Rightarrow> string"
  sv_chunk_indices :: "string \<Rightarrow> (nat \<times> string) list"
  sv_count_tokens :: "string \<Rightarrow> nat"

record split_args =
  sb_positional :: "string option"
  sb_name :: "string option"
  sb_batch :: bool
  sb_threshold :: nat
  sb_dry_run :: bool

record child_plan =
  cp_name :: string
  cp_body_len :: nat

record split_result =
  sr_original :: string
  sr_original_id :: "int option"
  sr_children :: "child_plan list"
  sr_threshold :: nat
  sr_dry_run :: bool

record batch_split =
  bs_namespace :: string
  bs_threshold :: nat
  bs_dry_run :: bool
  bs_split :: "split_result list"
  bs_skipped :: nat

datatype split_answer = OneSplit split_result | ManySplit batch_split

section \<open>Names of the parts\<close>

definition child_name :: "string \<Rightarrow> nat \<Rightarrow> string" where
  "child_name name i = name @ ''-part-'' @ nat_str i"

definition validate_child_name :: "string \<Rightarrow> app_error + unit" where
  "validate_child_name child =
     (if child = [] \<or> MAX_MEMORY_NAME_LEN < length child then Inl (Validation ''child_name_exceeds_max'')
      else if \<not> name_slug_matches child then Inl (Validation ''child_name_not_kebab'')
      else Inr ())"

fun validate_children :: "string list \<Rightarrow> app_error + unit" where
  "validate_children [] = Inr ()"
| "validate_children (c # cs) = bind_rust (validate_child_name c) (\<lambda>_. validate_children cs)"

section \<open>The transaction\<close>

text \<open>The annotated metadata; text that does not parse counts as an empty object.\<close>

definition split_metadata :: "serde \<Rightarrow> string list \<Rightarrow> string \<Rightarrow> app_error + string" where
  "split_metadata sd children metadata =
     (case (case sd_value sd metadata of Inl _ \<Rightarrow> JObject [] | Inr v \<Rightarrow> v) of
        JObject fs \<Rightarrow>
          Inr (sd_text sd (JObject
            (AList.update ''split_into'' (JArray (map JString children))
               (AList.update ''superseded_by_split'' (JBool True) fs))))
      | _ \<Rightarrow> Inl (Internal ''metadata_not_object''))"

text \<open>The Portuguese description of a part, as UTF-8 bytes.\<close>

definition child_description :: "string \<Rightarrow> string" where
  "child_description name =
     ''Parti'' @ [CHR 0xC3, CHR 0xA7, CHR 0xC3, CHR 0xA3] @ ''o de '' @ [CHR 0x27] @ name @ [CHR 0x27] @ '' (split-body)''"

definition child_memory :: "split_env \<Rightarrow> string \<Rightarrow> memory_row \<Rightarrow> string \<Rightarrow> string \<Rightarrow> string \<Rightarrow> new_memory" where
  "child_memory env ns row name child part =
     \<lparr>n_namespace = ns, n_name = child, n_type = ''document'', n_description = child_description name,
      n_body = part, n_body_hash = sv_blake3 env part, n_session_id = m_session_id row, n_source = ''system'',
      n_metadata = sd_text (sv_serde env) (JObject [(''split_from'', JString name)])\<rparr>"

fun insert_children ::
  "split_env \<Rightarrow> int \<Rightarrow> string \<Rightarrow> memory_row \<Rightarrow> string \<Rightarrow> (string \<times> string) list \<Rightarrow> db \<Rightarrow> app_error + db" where
  "insert_children env now ns row name [] d = Inr d"
| "insert_children env now ns row name ((part, child) # ps) d =
     bind_rust (insert_memory now (child_memory env ns row name child part) d)
       (\<lambda>(_, d'). insert_children env now ns row name ps d')"

definition annotate_original :: "int \<Rightarrow> int \<Rightarrow> string \<Rightarrow> db \<Rightarrow> app_error + db" where
  "annotate_original now i metadata d =
     bind_rust (exec_update_memories now (\<lambda>m. m_id m = i \<and> live m) (\<lambda>m. m\<lparr>m_metadata := metadata\<rparr>) d)
       (\<lambda>(affected, d'). if affected = 0 then Inl (Conflict ''memory_modified_concurrently'') else Inr d')"

definition split_entity :: "unicode \<Rightarrow> string \<Rightarrow> new_entity" where
  "split_entity u name = \<lparr>ne_name = normalize_entity_name u name, ne_type = ''memory'', ne_description = None\<rparr>"

fun link_children :: "unicode \<Rightarrow> int \<Rightarrow> string \<Rightarrow> int \<Rightarrow> string list \<Rightarrow> db \<Rightarrow> app_error + db" where
  "link_children u now ns original [] d = Inr d"
| "link_children u now ns original (child # cs) d =
     bind_rust (upsert_entity u now ns (split_entity u child) d) (\<lambda>(i, d1).
     bind_rust (create_or_fetch_relationship u now ns i original ''replaces'' DEFAULT_RELATION_WEIGHT None d1)
       (\<lambda>(_, was_created, d2).
          link_children u now ns original cs
            (if was_created then recalculate_degree original (recalculate_degree i d2) else d2)))"

definition split_tx ::
  "split_env \<Rightarrow> int \<Rightarrow> string \<Rightarrow> string \<Rightarrow> memory_row \<Rightarrow> string list \<Rightarrow> string list \<Rightarrow> string \<Rightarrow> db \<Rightarrow> app_error + db" where
  "split_tx env now ns name row parts children metadata d =
     bind_rust (insert_children env now ns row name (zip parts children) d) (\<lambda>d1.
     bind_rust (annotate_original now (m_id row) metadata d1) (\<lambda>d2.
     bind_rust (insert_version now (m_id row) (next_version d2 (m_id row)) (m_name row) (m_type row)
         (m_description row) (m_body row) metadata None ''edit'' d2) (\<lambda>d3.
     bind_rust (upsert_entity (sv_unicode env) now ns (split_entity (sv_unicode env) name) d3) (\<lambda>(original, d4).
       link_children (sv_unicode env) now ns original children d4))))"

section \<open>One memory\<close>

definition split_single ::
  "split_env \<Rightarrow> int \<Rightarrow> string \<Rightarrow> string \<Rightarrow> nat \<Rightarrow> bool \<Rightarrow> db \<Rightarrow> (app_error + (split_result \<times> db)) rust" where
  "split_single env now ns name limit dry_run d =
     (case read_by_name d ns name of
        None \<Rightarrow> Inr (Inl (NotFound ''memory_not_found''))
      | Some row \<Rightarrow>
          (let answer = (\<lambda>plan. \<lparr>sr_original = name, sr_original_id = Some (m_id row), sr_children = plan,
                               sr_threshold = limit, sr_dry_run = dry_run\<rparr>)
           in if length (m_body row) \<le> limit then Inr (Inr (answer [], d))
              else
                bind_rust (split_body_by_sections (sv_chunk_indices env) (sv_count_tokens env) (m_body row)) (\<lambda>parts.
                  if length parts < 2 then Inr (Inr (answer [], d))
                  else
                    (let children = map (child_name name) [0..<length parts];
                         plan = map2 (\<lambda>part child. \<lparr>cp_name = child, cp_body_len = length part\<rparr>) parts children
                     in Inr (bind_rust (validate_children children) (\<lambda>_.
                          if dry_run then Inr (answer plan, d)
                          else
                            bind_rust (split_metadata (sv_serde env) children (m_metadata row)) (\<lambda>metadata.
                            bind_rust (split_tx env now ns name row parts children metadata d) (\<lambda>d'.
                              Inr (answer plan, d')))))))))"

section \<open>A namespace\<close>

text \<open>The names of the oversized memories, where \<^verbatim>\<open>LENGTH\<close> counts characters.\<close>

definition oversized_names :: "db \<Rightarrow> string \<Rightarrow> nat \<Rightarrow> string list" where
  "oversized_names d ns limit =
     map m_name (filter (\<lambda>m. m_namespace m = ns \<and> live m \<and> as_i64 limit < int (sql_length (m_body m))) (memories d))"

text \<open>Each memory has a transaction of its own: an error ends the loop and keeps what is committed.\<close>

fun split_loop ::
  "split_env \<Rightarrow> int \<Rightarrow> string \<Rightarrow> nat \<Rightarrow> bool \<Rightarrow> string list \<Rightarrow> split_result list \<Rightarrow> nat \<Rightarrow> db
     \<Rightarrow> ((app_error + (split_result list \<times> nat)) \<times> db) rust" where
  "split_loop env now ns limit dry_run [] acc skipped d = Inr (Inr (acc, skipped), d)"
| "split_loop env now ns limit dry_run (name # names) acc skipped d =
     bind_rust (split_single env now ns name limit dry_run d) (\<lambda>answer.
       (case answer of
          Inr (r, d') \<Rightarrow> split_loop env now ns limit dry_run names (acc @ [r]) skipped d'
        | Inl (NotFound _) \<Rightarrow> split_loop env now ns limit dry_run names acc (skipped + 1) d
        | Inl e \<Rightarrow> Inr (Inl e, d)))"

definition split_batch ::
  "split_env \<Rightarrow> int \<Rightarrow> string \<Rightarrow> nat \<Rightarrow> bool \<Rightarrow> db \<Rightarrow> ((app_error + batch_split) \<times> db) rust" where
  "split_batch env now ns limit dry_run d =
     bind_rust (split_loop env now ns limit dry_run (oversized_names d ns limit) [] 0 d) (\<lambda>(outcome, d').
       Inr (bind_rust outcome (\<lambda>(results, skipped).
              Inr \<lparr>bs_namespace = ns, bs_threshold = limit, bs_dry_run = dry_run, bs_split = results,
                   bs_skipped = skipped\<rparr>), d'))"

definition split_body :: "split_env \<Rightarrow> int \<Rightarrow> string \<Rightarrow> split_args \<Rightarrow> db \<Rightarrow> ((app_error + split_answer) \<times> db) rust" where
  "split_body env now ns args d =
     (let designated = or_else (sb_positional args) (sb_name args) in
      if \<not> sb_batch args \<and> designated = None then Inr (Inl (Validation ''split_body_needs_name_or_batch''), d)
      else if sb_threshold args = 0 then Inr (Inl (Validation ''--threshold must be greater than zero''), d)
      else if sb_batch args then
        bind_rust (split_batch env now ns (sb_threshold args) (sb_dry_run args) d) (\<lambda>(outcome, d').
          Inr (bind_rust outcome (\<lambda>b. Inr (ManySplit b)), d'))
      else
        (case designated of
           None \<Rightarrow> Inr (Inl (Validation ''either --name <NAME> or --batch is required''), d)
         | Some name \<Rightarrow>
             bind_rust (split_single env now ns name (sb_threshold args) (sb_dry_run args) d) (\<lambda>answer.
               Inr (case answer of Inl e \<Rightarrow> (Inl e, d) | Inr (r, d') \<Rightarrow> (Inr (OneSplit r), d')))))"

end
