(* ===== verification/Split_Correct.thy ===== *)
theory Split_Correct
  imports Split_Body Remember_Correct
begin

text \<open>
  The command \<^verbatim>\<open>split-body\<close>: the parts in the store are the body of the original, nothing else changes
  for a reader, each part is linked to the original, and a memory that has been split cannot be split again.
\<close>

section \<open>Names of the parts\<close>

lemma digits_value_snoc: "digits_value (s @ [c]) = 10 * digits_value s + (of_char c - 48)"
  by (simp add: digits_value_def)

lemma int_of_digit: "n < 10 \<Longrightarrow> (of_char (char_of (48 + n)) :: int) = 48 + int n" for n :: nat
  using of_nat_of_char [of "char_of (48 + n)", where ?'a = int] by simp

lemma digits_value_nat_str: "digits_value (nat_str n) = int n"
proof (induction n rule: nat_str.induct)
  case (1 n)
  show ?case
  proof (cases "n < 10")
    case True
    then show ?thesis by (simp add: nat_str.simps [of n] digits_value_def int_of_digit)
  next
    case False
    have "int n = 10 * int (n div 10) + int (n mod 10)" by presburger
    with False 1 show ?thesis by (simp add: nat_str.simps [of n] digits_value_snoc int_of_digit)
  qed
qed

lemma nat_str_inject [simp]: "nat_str i = nat_str j \<longleftrightarrow> i = j"
  by (metis digits_value_nat_str of_nat_eq_iff)

lemma child_name_inject [simp]: "child_name name i = child_name name j \<longleftrightarrow> i = j"
  by (simp add: child_name_def)

lemma child_name_other [simp]: "child_name name i \<noteq> name" "name \<noteq> child_name name i"
  by (simp_all add: child_name_def)

lemma children_distinct: "distinct (map (child_name name) is) \<longleftrightarrow> distinct is"
  by (simp add: distinct_map inj_on_def)

lemma validate_children_iff: "validate_children cs = Inr () \<longleftrightarrow> (\<forall>c \<in> set cs. validate_child_name c = Inr ())"
  by (induction cs) (auto simp: bind_rust_Inr_iff)

text \<open>Normalising keeps the letters and digits of a slug, so a part and its original are two entities.\<close>

lemma filter_collapse: "filter (\<lambda>c. c \<noteq> CHR ''-'') (collapse_hyphens prev s) = filter (\<lambda>c. c \<noteq> CHR ''-'') s"
  by (induction prev s rule: collapse_hyphens.induct) auto

lemma filter_dropWhile: "filter (\<lambda>c. c \<noteq> CHR ''-'') (dropWhile (\<lambda>c. c = CHR ''-'') s) = filter (\<lambda>c. c \<noteq> CHR ''-'') s"
  by (induction s) auto

lemma filter_trim: "filter (\<lambda>c. c \<noteq> CHR ''-'') (trim_hyphens s) = filter (\<lambda>c. c \<noteq> CHR ''-'') s"
  unfolding trim_hyphens_def by (metis filter_dropWhile rev_filter rev_rev_ident)

lemma normalize_child_differs:
  assumes u: "unicode_ok u" and child: "validate_child_name (child_name name i) = Inr ()"
  shows "normalize_entity_name u (child_name name i) \<noteq> normalize_entity_name u name"
proof
  assume eq: "normalize_entity_name u (child_name name i) = normalize_entity_name u name"
  have "name_slug_matches (child_name name i)" using child by (simp add: validate_child_name_def split: if_splits)
  moreover have "length (child_name name i) \<noteq> 1" by (simp add: child_name_def)
  ultimately have slug: "slug_text (child_name name i)" by (simp add: name_slug_matches_def slug_text_def list_all_iff)
  then have "slug_text name" by (simp add: slug_text_def child_name_def)
  with eq slug have "filter (\<lambda>c. c \<noteq> CHR ''-'') (child_name name i) = filter (\<lambda>c. c \<noteq> CHR ''-'') name"
    by (metis u normalize_slug filter_trim filter_collapse)
  then show False by (simp add: child_name_def)
qed

section \<open>The rows\<close>

text \<open>The rows of the parts: same namespace, active, and the contents in order.\<close>

definition child_rows :: "split_env \<Rightarrow> int \<Rightarrow> string \<Rightarrow> memory_row \<Rightarrow> string \<Rightarrow> (string \<times> string) list \<Rightarrow> memory_row list \<Rightarrow> bool" where
  "child_rows env now ns row name =
     list_all2 (\<lambda>(part, child) m. \<exists>i. m = memory_of_new now i ''system'' (child_memory env ns row name child part))"

definition child_view :: "string \<Rightarrow> string \<Rightarrow> (string \<times> string) list \<Rightarrow> view \<Rightarrow> view" where
  "child_view ns name ps w =
     w (map (\<lambda>p. (ns, snd p)) ps [\<mapsto>] map (\<lambda>p. (''document'', child_description name, fst p)) ps)"

lemma view_insert:
  assumes inv: "store_inv d" and run: "insert_memory now m d = Inr (i, d')"
  shows "view_of d' = (view_of d)((n_namespace m, n_name m) \<mapsto> new_content m)"
  using run
proof (rule insert_memoryE)
  fix row
  assume row: "row = memory_of_new now (seq_memories d + 1) (n_source m) m"
    and fresh: "\<forall>r \<in> set (memories d). \<not> named (n_namespace m) (n_name m) r"
    and d': "d' = d\<lparr>memories := memories d @ [row], seq_memories := seq_memories d + 1,
                fts_memories := fts_memories d @ [fts_of row]\<rparr>"
  have k: "key row = (n_namespace m, n_name m)" "visible row = Some (new_content m)"
    by (simp_all add: row memory_of_new_def key_def visible_def live_def content_def new_content_def)
  have "view_of d' = (view_of d)(key row := visible row)"
    by (rule view_add [OF store_invD(1) [OF insert_memory_inv [OF inv run]] _ store_invD(1) [OF inv]])
       (use fresh k in \<open>auto simp: named_key d'\<close>)
  then show ?thesis by (simp add: k)
qed

lemma insert_children_effect:
  assumes "store_inv d" and "insert_children env now ns row name ps d = Inr d'"
  shows "store_inv d' \<and> graph_frame d d' \<and> view_of d' = child_view ns name ps (view_of d)
    \<and> (\<exists>rows. memories d' = memories d @ rows \<and> child_rows env now ns row name ps rows)
    \<and> (\<forall>p \<in> set ps. \<forall>m \<in> set (memories d). \<not> named ns (snd p) m)"
  using assms
proof (induction ps arbitrary: d)
  case (Cons p ps)
  obtain part child where p: "p = (part, child)" by fastforce
  from Cons.prems(2) obtain i d1 where ins: "insert_memory now (child_memory env ns row name child part) d = Inr (i, d1)"
    and rest: "insert_children env now ns row name ps d1 = Inr d'"
    by (auto simp: p bind_rust_Inr_iff)
  from ins obtain x where x: "memories d1 = memories d @ [x]"
    "x = memory_of_new now (seq_memories d + 1) ''system'' (child_memory env ns row name child part)"
    and fresh: "\<forall>m \<in> set (memories d). \<not> named ns child m"
    by (rule insert_memoryE) (simp add: child_memory_def)
  note IH = Cons.IH [OF insert_memory_inv [OF Cons.prems(1) ins] rest]
  then obtain rows where rows: "memories d' = memories d1 @ rows" "child_rows env now ns row name ps rows" by blast
  then have "memories d' = memories d @ (x # rows)" "child_rows env now ns row name (p # ps) (x # rows)"
    using x by (auto simp: child_rows_def p)
  moreover have "view_of d' = child_view ns name (p # ps) (view_of d)"
    using IH view_insert [OF Cons.prems(1) ins] by (simp add: child_view_def p child_memory_def new_content_def fun_upd_def)
  moreover have "\<forall>q \<in> set (p # ps). \<forall>m \<in> set (memories d). \<not> named ns (snd q) m"
    using IH fresh x(1) by (simp add: p)
  ultimately show ?case using IH frame_insert [OF ins] by (blast intro: graph_frame_trans)
qed (simp add: child_view_def child_rows_def)

text \<open>The annotation changes the metadata and the time stamp of one row.\<close>

definition annotated :: "int \<Rightarrow> string \<Rightarrow> memory_row \<Rightarrow> memory_row" where
  "annotated now metadata row = row\<lparr>m_metadata := metadata, m_updated_at := now\<rparr>"

lemma annotate_effect:
  assumes inv: "store_inv d" and row: "row \<in> set (memories d)" "live row"
    and run: "annotate_original now (m_id row) metadata d = Inr d'"
  shows "store_inv d'" and "graph_frame d d'" and "view_of d' = view_of d"
    and "set (memories d') = insert (annotated now metadata row) (set (memories d) - {row})"
proof -
  let ?p = "\<lambda>m. m_id m = m_id row \<and> live m" and ?f = "\<lambda>m. m\<lparr>m_metadata := metadata\<rparr>"
  note ok = store_invD(1) [OF inv]
  from run obtain n where u: "exec_update_memories now ?p ?f d = Inr (n, d')"
    by (auto simp: annotate_original_def bind_rust_Inr_iff split: if_splits)
  then have d': "d' = update_memories now ?p ?f d" by (rule exec_update_memoriesE)
  show inv': "store_inv d'" unfolding d' by (rule store_inv_update_state [OF inv]) simp
  show "graph_frame d d'" using u by (rule frame_update_memories)
  have one: "one_row ?p row d" using row same_id_same_row [OF ok] by (auto simp: one_row_def)
  show mems: "set (memories d') = insert (annotated now metadata row) (set (memories d) - {row})"
    unfolding d' update_one_row_set [OF one] annotated_def by simp
  have "view_of d' = (view_of d)(key row := None, key (annotated now metadata row) := visible (annotated now metadata row))"
    by (rule view_replace [OF ok store_invD(1) [OF inv'] row(1) mems])
  moreover have "key (annotated now metadata row) = key row" "visible (annotated now metadata row) = visible row"
    by (simp_all add: annotated_def key_def visible_def live_def content_def)
  ultimately show "view_of d' = view_of d" using view_of_row [OF ok row(1)] by auto
qed

section \<open>The links\<close>

lemma rows_kept_create_or_fetch:
  "create_or_fetch_relationship u now ns s t relation w desc d = Inr (i, b, d') \<Longrightarrow> rows_kept d d'"
  unfolding create_or_fetch_relationship_def Let_def
  by (auto simp: update_relationships_def rows_kept_def bind_rust_Inr_iff elim!: insert_relationshipE
      split: option.splits if_splits)

lemma rows_kept_recalculate: "rows_kept d (recalculate_degrees is d)"
  by (simp add: rows_kept_def)

lemma upsert_split_entity:
  assumes inv: "graph_inv d" and u: "unicode_ok u" and run: "upsert_entity u now ns (split_entity u name) d = Inr (i, d')"
  shows "graph_inv d'" and "entities_kept d d'" and "edges d' = edges d" and "rows_kept d d'"
    and "holds_entity d' ns (normalize_entity_name u name) i"
proof -
  note run' = run [unfolded upsert_entity_def]
  show "graph_inv d'" by (rule upsert_entity_inv [OF inv run'])
  show "entities_kept d d'" using upsert_old [OF run'] by (auto simp: entities_kept_def)
  show "edges d' = edges d" using upsert_sel(1) [OF run'] by (simp add: edges_def)
  show "rows_kept d d'" by (rule rows_kept_upsert_entity [OF run])
  have "ne_name (split_entity u name) = normalize_entity_name u name" by (simp add: split_entity_def)
  then show "holds_entity d' ns (normalize_entity_name u name) i"
    using entity_id_named_SomeD [OF upsert_found [OF run']] normalize_entity_name_idem [OF u, of name]
    by (auto simp: holds_entity_def)
qed

text \<open>One part: its entity, its edge to the original, and the degrees of both.\<close>

lemma link_child_effect:
  assumes inv: "graph_inv d" and u: "unicode_ok u" and orig: "holds_entity d ns (normalize_entity_name u name) original"
    and differ: "normalize_entity_name u child \<noteq> normalize_entity_name u name"
    and up: "upsert_entity u now ns (split_entity u child) d = Inr (i, d1)"
    and cf: "create_or_fetch_relationship u now ns i original ''replaces'' w None d1 = Inr (r, was_created, d2)"
    and d3: "d3 = (if was_created then recalculate_degree original (recalculate_degree i d2) else d2)"
  shows "graph_inv d3" and "rows_kept d d3" and "entities_kept d d3" and "holds_entity d3 ns (normalize_entity_name u child) i"
    and "edges d3 = insert (i, original, ''replaces'') (edges d)"
proof -
  note ue = upsert_split_entity [OF inv u up]
  have d3': "d3 = (if was_created then recalculate_degrees [i, original] d2 else d2)"
    using d3 recalculate_two by simp
  have orig1: "holds_entity d1 ns (normalize_entity_name u name) original" by (rule holds_entity_kept [OF orig ue(2)])
  then have "i \<noteq> original"
    using ue(5) differ same_entity [OF graph_invD(2) [OF ue(1)]] unfolding holds_entity_def by metis
  have canonical: "map_to_canonical_relation u ''replaces'' = ''replaces''"
    by (rule canonical_relation_fixed [OF u]) (simp add: relation_literals)
  have "edges d2 = insert (i, original, ''replaces'') (edges d1) \<and> entities d2 = entities d1"
    and g: "graph_inv (if was_created then recalculate_degrees [i, original] d2 else d2)"
    by (rule create_or_fetchE [OF ue(1) \<open>i \<noteq> original\<close> cf], simp add: canonical)+
  moreover have "entities_kept d2 d3" "rows_kept d2 d3" "edges d3 = edges d2"
    using entities_kept_recalculate rows_kept_recalculate by (simp_all add: d3' edges_def)
  ultimately have k: "entities_kept d1 d3" "edges d3 = insert (i, original, ''replaces'') (edges d1)"
    by (simp_all add: entities_kept_def)
  show "graph_inv d3" using g by (simp add: d3')
  show "rows_kept d d3"
    using ue(4) rows_kept_create_or_fetch [OF cf] \<open>rows_kept d2 d3\<close> by (blast intro: rows_kept_trans)
  show "entities_kept d d3" using ue(2) k(1) unfolding entities_kept_def by metis
  show "holds_entity d3 ns (normalize_entity_name u child) i" by (rule holds_entity_kept [OF ue(5) k(1)])
  show "edges d3 = insert (i, original, ''replaces'') (edges d)" using k(2) ue(3) by simp
qed

lemma link_children_effect:
  assumes "graph_inv d" and u: "unicode_ok u" and "holds_entity d ns (normalize_entity_name u name) original"
    and "\<forall>c \<in> set children. normalize_entity_name u c \<noteq> normalize_entity_name u name"
    and "link_children u now ns original children d = Inr d'"
  shows "graph_inv d' \<and> rows_kept d d' \<and> entities_kept d d'
    \<and> (\<exists>is. list_all2 (\<lambda>c i. holds_entity d' ns (normalize_entity_name u c) i) children is
          \<and> edges d' = edges d \<union> (\<lambda>i. (i, original, ''replaces'')) ` set is)"
  using assms(1,3-5)
proof (induction children arbitrary: d)
  case (Cons c cs)
  from Cons.prems(4) obtain i d1 r was_created d2 where
    up: "upsert_entity u now ns (split_entity u c) d = Inr (i, d1)"
    and cf: "create_or_fetch_relationship u now ns i original ''replaces'' DEFAULT_RELATION_WEIGHT None d1 = Inr (r, was_created, d2)"
    and rest: "link_children u now ns original cs
      (if was_created then recalculate_degree original (recalculate_degree i d2) else d2) = Inr d'"
    by (auto simp: bind_rust_Inr_iff simp del: if_split)
  define d3 where "d3 = (if was_created then recalculate_degree original (recalculate_degree i d2) else d2)"
  have differ: "normalize_entity_name u c \<noteq> normalize_entity_name u name" using Cons.prems(3) by simp
  note one = link_child_effect [OF Cons.prems(1) u Cons.prems(2) differ up cf d3_def]
  from Cons.IH [OF one(1) holds_entity_kept [OF Cons.prems(2) one(3)] _ rest [folded d3_def]] Cons.prems(3)
  obtain "is" where g: "graph_inv d'" "rows_kept d3 d'" "entities_kept d3 d'"
    and ids: "list_all2 (\<lambda>c i. holds_entity d' ns (normalize_entity_name u c) i) cs is"
      "edges d' = edges d3 \<union> (\<lambda>i. (i, original, ''replaces'')) ` set is"
    by auto
  have "list_all2 (\<lambda>c i. holds_entity d' ns (normalize_entity_name u c) i) (c # cs) (i # is)"
    using ids(1) holds_entity_kept [OF one(4) g(3)] by simp
  moreover have "edges d' = edges d \<union> (\<lambda>i. (i, original, ''replaces'')) ` set (i # is)" using ids(2) one(5) by auto
  moreover have "entities_kept d d'" using one(3) g(3) unfolding entities_kept_def by metis
  moreover have "rows_kept d d'" using one(2) g(2) by (rule rows_kept_trans)
  ultimately show ?case using g(1) by blast
qed simp

section \<open>One memory\<close>

definition children_of :: "string \<Rightarrow> string list \<Rightarrow> string list" where
  "children_of name parts = map (child_name name) [0..<length parts]"

lemma children_of_sel [simp]: "length (children_of name parts) = length parts" "distinct (children_of name parts)"
  "name \<notin> set (children_of name parts)"
  by (auto simp: children_of_def children_distinct)

lemma children_differ:
  "unicode_ok u \<Longrightarrow> validate_children (children_of name parts) = Inr () \<Longrightarrow>
    \<forall>c \<in> set (children_of name parts). normalize_entity_name u c \<noteq> normalize_entity_name u name"
  unfolding validate_children_iff by (auto simp: children_of_def normalize_child_differs)

lemma split_singleE:
  assumes "split_single env now ns name limit dry_run d = Inr (Inr (r, d'))" and "sr_children r \<noteq> []"
  obtains row parts where "read_by_name d ns name = Some row" "limit < length (m_body row)"
    "split_body_by_sections (sv_chunk_indices env) (sv_count_tokens env) (m_body row) = Inr parts" "2 \<le> length parts"
    "validate_children (children_of name parts) = Inr ()"
    "map cp_name (sr_children r) = children_of name parts" "map cp_body_len (sr_children r) = map length parts"
    "dry_run \<Longrightarrow> d' = d"
    "\<not> dry_run \<Longrightarrow> \<exists>metadata. split_metadata (sv_serde env) (children_of name parts) (m_metadata row) = Inr metadata
       \<and> split_tx env now ns name row parts (children_of name parts) metadata d = Inr d'"
proof -
  from assms obtain row where row: "read_by_name d ns name = Some row" "limit < length (m_body row)"
    by (auto simp: split_single_def split: option.splits if_splits)
  obtain parts where parts: "split_body_by_sections (sv_chunk_indices env) (sv_count_tokens env) (m_body row) = Inr parts"
    using split_body_by_sections_ok by blast
  have two: "2 \<le> length parts" using assms row parts by (auto simp: split_single_def split: if_splits)
  let ?cs = "children_of name parts"
  let ?plan = "map2 (\<lambda>part child. \<lparr>cp_name = child, cp_body_len = length part\<rparr>) parts ?cs"
  have run: "validate_children ?cs = Inr ()" "sr_children r = ?plan" "if dry_run then d' = d
      else \<exists>metadata. split_metadata (sv_serde env) ?cs (m_metadata row) = Inr metadata
       \<and> split_tx env now ns name row parts ?cs metadata d = Inr d'"
    using assms row parts two unfolding split_single_def children_of_def
    by (auto simp: Let_def bind_rust_Inr_iff split: if_splits)
  have "map cp_name ?plan = map snd (zip parts ?cs)" "map cp_body_len ?plan = map length (map fst (zip parts ?cs))"
    by (simp_all add: case_prod_unfold del: map_fst_zip map_snd_zip)
  then have "map cp_name ?plan = ?cs" "map cp_body_len ?plan = map length parts"
    by simp_all
  with row parts two run show thesis by (intro that) (auto split: if_splits)
qed

lemma split_single_dry_run:
  assumes "split_single env now ns name limit False d = Inr (Inr (r, d'))"
  shows "split_single env now ns name limit True d = Inr (Inr (r\<lparr>sr_dry_run := True\<rparr>, d))"
proof (cases "read_by_name d ns name")
  case None
  then show ?thesis using assms by (simp add: split_single_def)
next
  case (Some row)
  obtain parts where parts: "split_body_by_sections (sv_chunk_indices env) (sv_count_tokens env) (m_body row) = Inr parts"
    using split_body_by_sections_ok by blast
  show ?thesis
  proof (cases "length (m_body row) \<le> limit")
    case True
    with assms Some show ?thesis by (simp add: split_single_def) auto
  next
    case long: False
    show ?thesis
    proof (cases "length parts < 2")
      case True
      with assms Some parts long show ?thesis by (simp add: split_single_def) auto
    next
      case False
      with assms Some parts long show ?thesis
        by (simp add: split_single_def Let_def bind_rust_Inr_iff) auto
    qed
  qed
qed

lemma child_rows_names: "child_rows env now ns row name ps rows \<Longrightarrow> m \<in> set rows \<Longrightarrow> m_name m \<in> snd ` set ps"
  unfolding child_rows_def
proof (induction rule: list_all2_induct)
  case (Cons p ps x xs)
  then show ?case by (auto simp: memory_of_new_def child_memory_def split: prod.splits)
qed simp

lemma split_tx_effect:
  assumes inv: "graph_inv d" and u: "unicode_ok (sv_unicode env)" and row: "read_by_name d ns name = Some row"
    and valid: "validate_children (children_of name parts) = Inr ()"
    and run: "split_tx env now ns name row parts (children_of name parts) metadata d = Inr d'"
  obtains rows original "is" where "graph_inv d'" "\<forall>c \<in> set (children_of name parts). \<forall>m \<in> set (memories d). \<not> named ns c m"
    "view_of d' = child_view ns name (zip parts (children_of name parts)) (view_of d)"
    "child_rows env now ns row name (zip parts (children_of name parts)) rows"
    "set (memories d') = insert (annotated now metadata row) (set (memories d) - {row}) \<union> set rows"
    "holds_entity d' ns (normalize_entity_name (sv_unicode env) name) original"
    "list_all2 (\<lambda>c i. holds_entity d' ns (normalize_entity_name (sv_unicode env) c) i) (children_of name parts) is"
    "edges d' = edges d \<union> (\<lambda>i. (i, original, ''replaces'')) ` set is"
proof -
  let ?cs = "children_of name parts"
  from run obtain d1 d2 d3 d4 original where
    ins: "insert_children env now ns row name (zip parts ?cs) d = Inr d1"
    and ann: "annotate_original now (m_id row) metadata d1 = Inr d2"
    and ver: "insert_version now (m_id row) (next_version d2 (m_id row)) (m_name row) (m_type row)
         (m_description row) (m_body row) metadata None ''edit'' d2 = Inr d3"
    and up: "upsert_entity (sv_unicode env) now ns (split_entity (sv_unicode env) name) d3 = Inr (original, d4)"
    and links: "link_children (sv_unicode env) now ns original ?cs d4 = Inr d'"
    by (auto simp: split_tx_def bind_rust_Inr_iff)
  have m: "row \<in> set (memories d)" "named ns name row" "live row"
    using row by (simp_all add: read_by_name_iff [OF graph_invD(2) [OF inv]])
  from insert_children_effect [OF graph_invD(1) [OF inv] ins] obtain rows where
    i: "store_inv d1" "graph_frame d d1" "view_of d1 = child_view ns name (zip parts ?cs) (view_of d)"
      "memories d1 = memories d @ rows" "child_rows env now ns row name (zip parts ?cs) rows"
    and "\<forall>p \<in> set (zip parts ?cs). \<forall>m \<in> set (memories d). \<not> named ns (snd p) m"
    by blast
  then have "\<forall>c \<in> set (map snd (zip parts ?cs)). \<forall>m \<in> set (memories d). \<not> named ns c m"
    unfolding set_map by blast
  then have fresh: "\<forall>c \<in> set ?cs. \<forall>m \<in> set (memories d). \<not> named ns c m" by simp
  have "row \<notin> set rows"
  proof
    assume "row \<in> set rows"
    then have "name \<in> snd ` set (zip parts ?cs)" using child_rows_names [OF i(5)] m(2) by (auto simp: named_def)
    then have "name \<in> set ?cs" by (auto dest: set_zip_rightD)
    then show False by simp
  qed
  have "row \<in> set (memories d1)" using m(1) i(4) by simp
  note a = annotate_effect [OF i(1) this m(3) ann]
  have mems2: "set (memories d2) = insert (annotated now metadata row) (set (memories d) - {row}) \<union> set rows"
    using a(4) i(4) \<open>row \<notin> set rows\<close> by auto
  have "graph_inv d2" by (rule graph_inv_frame [OF inv graph_frame_trans [OF i(2) a(2)] a(1)])
  then have g3: "graph_inv d3" by (rule side_step_graph [OF _ side_insert_version [OF ver]])
  note e = upsert_split_entity [OF g3 u up]
  from link_children_effect [OF e(1) u e(5) children_differ [OF u valid] links] obtain "is" where
    l: "graph_inv d'" "rows_kept d4 d'" "entities_kept d4 d'"
      "list_all2 (\<lambda>c i. holds_entity d' ns (normalize_entity_name (sv_unicode env) c) i) ?cs is"
      "edges d' = edges d4 \<union> (\<lambda>i. (i, original, ''replaces'')) ` set is"
    by blast
  have kept: "rows_kept d2 d'"
    using rows_kept_side [OF side_insert_version [OF ver]] e(4) l(2) by (blast intro: rows_kept_trans)
  have "edges d4 = edges d"
    using e(3) side_insert_version [OF ver] i(2) a(2) by (simp add: edges_def side_step_def graph_frame_def)
  then show thesis
    using that [OF l(1) _ _ i(5) _ holds_entity_kept [OF e(5) l(3)] l(4)] l(5) mems2 kept a(3) i(3) fresh
      view_of_kept [OF kept] by (simp add: rows_kept_def)
qed

lemma split_body_inv:
  assumes inv: "graph_inv d" and u: "unicode_ok (sv_unicode env)"
    and run: "split_single env now ns name limit False d = Inr (Inr (r, d'))" and parts: "sr_children r \<noteq> []"
  shows "graph_inv d'"
  using run parts by (rule split_singleE) (auto elim: split_tx_effect [OF inv u])

lemma split_single_returns: "\<exists>answer. split_single env now ns name limit dry_run d = Inr answer"
proof (cases "read_by_name d ns name")
  case (Some row)
  obtain parts where "split_body_by_sections (sv_chunk_indices env) (sv_count_tokens env) (m_body row) = Inr parts"
    using split_body_by_sections_ok by blast
  with Some show ?thesis by (simp add: split_single_def Let_def)
qed (simp add: split_single_def)

section \<open>Properties\<close>

text \<open>
  Claim C15. Splitting a memory of a well-formed store keeps the store and the graph well formed. The parts
  joined in order are the body of the original; each part is stored as a new document under a name that no
  row held; no other name changes for a reader, the original included; and a dry run announces the
  same parts and changes nothing.
\<close>

theorem split_body_effect:
  assumes inv: "graph_inv d" and u: "unicode_ok (sv_unicode env)"
    and run: "split_single env now ns name limit False d = Inr (Inr (r, d'))" and parts: "sr_children r \<noteq> []"
  shows "graph_inv d' \<and> split_single env now ns name limit True d = Inr (Inr (r\<lparr>sr_dry_run := True\<rparr>, d))
    \<and> (\<exists>row parts. read_by_name d ns name = Some row \<and> concat parts = m_body row \<and> 2 \<le> length parts
        \<and> map cp_name (sr_children r) = children_of name parts
        \<and> (\<forall>c \<in> set (children_of name parts). \<forall>m \<in> set (memories d). \<not> named ns c m)
        \<and> view_of d' = child_view ns name (zip parts (children_of name parts)) (view_of d))"
  using run parts
proof (rule split_singleE)
  fix row parts
  assume row: "read_by_name d ns name = Some row"
    and split: "split_body_by_sections (sv_chunk_indices env) (sv_count_tokens env) (m_body row) = Inr parts"
      "2 \<le> length parts" "validate_children (children_of name parts) = Inr ()"
    and names: "map cp_name (sr_children r) = children_of name parts"
    and "\<not> False \<Longrightarrow> \<exists>metadata. split_metadata (sv_serde env) (children_of name parts) (m_metadata row) = Inr metadata
       \<and> split_tx env now ns name row parts (children_of name parts) metadata d = Inr d'"
  then obtain metadata where tx: "split_tx env now ns name row parts (children_of name parts) metadata d = Inr d'" by blast
  have "concat parts = m_body row" using split(1) split_body_by_sections_ok by (metis Inr_inject)
  moreover note split_single_dry_run [OF run]
  moreover have "graph_inv d'" by (rule split_tx_effect [OF inv u row split(3) tx])
  moreover have "\<forall>c \<in> set (children_of name parts). \<forall>m \<in> set (memories d). \<not> named ns c m"
    by (rule split_tx_effect [OF inv u row split(3) tx])
  moreover have "view_of d' = child_view ns name (zip parts (children_of name parts)) (view_of d)"
    by (rule split_tx_effect [OF inv u row split(3) tx])
  ultimately show ?thesis using row split(2) names by blast
qed

text \<open>
  Claim C17. After a split the graph has, beside its old edges, exactly one \<^verbatim>\<open>replaces\<close> edge from the entity of
  each part to the entity of the original; the entities carry the normalised names, and degrees are right again.
\<close>

theorem split_body_links:
  assumes inv: "graph_inv d" and u: "unicode_ok (sv_unicode env)"
    and run: "split_single env now ns name limit False d = Inr (Inr (r, d'))" and parts: "sr_children r \<noteq> []"
  shows "degrees_ok d' \<and> (\<exists>original is. holds_entity d' ns (normalize_entity_name (sv_unicode env) name) original
    \<and> list_all2 (\<lambda>c i. holds_entity d' ns (normalize_entity_name (sv_unicode env) (cp_name c)) i) (sr_children r) is
    \<and> edges d' = edges d \<union> (\<lambda>i. (i, original, ''replaces'')) ` set is)"
  using run parts
proof (rule split_singleE)
  fix row parts
  assume row: "read_by_name d ns name = Some row" and valid: "validate_children (children_of name parts) = Inr ()"
    and names: "map cp_name (sr_children r) = children_of name parts"
    and "\<not> False \<Longrightarrow> \<exists>metadata. split_metadata (sv_serde env) (children_of name parts) (m_metadata row) = Inr metadata
       \<and> split_tx env now ns name row parts (children_of name parts) metadata d = Inr d'"
  then obtain metadata where tx: "split_tx env now ns name row parts (children_of name parts) metadata d = Inr d'" by blast
  show ?thesis
    by (rule split_tx_effect [OF inv u row valid tx]) (auto simp: graph_invD list_all2_map1 simp flip: names)
qed

section \<open>Splitting again\<close>

lemma split_original:
  assumes inv: "graph_inv d" and u: "unicode_ok (sv_unicode env)"
    and run: "split_single env now ns name limit False d = Inr (Inr (r, d'))" and parts: "sr_children r \<noteq> []"
  shows "view_of d' (ns, name) = view_of d (ns, name)"
proof -
  from run parts obtain row metadata parts where row: "read_by_name d ns name = Some row"
    and valid: "validate_children (children_of name parts) = Inr ()"
    and tx: "split_tx env now ns name row parts (children_of name parts) metadata d = Inr d'"
    by (rule split_singleE) auto
  have view: "view_of d' = child_view ns name (zip parts (children_of name parts)) (view_of d)"
    by (rule split_tx_effect [OF inv u row valid tx])
  have "(ns, name) \<notin> set (map (\<lambda>p. (ns, snd p)) (zip parts (children_of name parts)))"
    by (auto dest: set_zip_rightD)
  then show ?thesis unfolding view child_view_def by (rule map_upds_apply_nontin)
qed

text \<open>The JSON library reads back an object it has printed as an object.\<close>

definition serde_objects :: "serde \<Rightarrow> bool" where
  "serde_objects sd \<longleftrightarrow> (\<forall>fs. \<exists>fs'. sd_value sd (sd_text sd (JObject fs)) = Inr (JObject fs'))"

text \<open>An oversized memory one of whose parts already exists, and whose metadata is an object or no JSON at all.\<close>

definition object_or_none :: "serde \<Rightarrow> string \<Rightarrow> bool" where
  "object_or_none sd metadata \<longleftrightarrow> (case sd_value sd metadata of Inr (JObject _) \<Rightarrow> True | Inr _ \<Rightarrow> False | Inl _ \<Rightarrow> True)"

definition blocked :: "split_env \<Rightarrow> string \<Rightarrow> string \<Rightarrow> nat \<Rightarrow> db \<Rightarrow> bool" where
  "blocked env ns name limit d \<longleftrightarrow> (\<exists>row parts. read_by_name d ns name = Some row \<and> limit < length (m_body row)
     \<and> split_body_by_sections (sv_chunk_indices env) (sv_count_tokens env) (m_body row) = Inr parts \<and> 2 \<le> length parts
     \<and> validate_children (children_of name parts) = Inr () \<and> object_or_none (sv_serde env) (m_metadata row)
     \<and> (\<exists>c \<in> set (children_of name parts). \<exists>m \<in> set (memories d). named ns c m))"

lemma insert_taken:
  assumes "\<exists>r \<in> set (memories d). named (n_namespace m) (n_name m) r" and "n_source m \<in> set (map source_str all_sources)"
  shows "insert_memory now m d = Inl constraint_error"
proof -
  have "validate_source (n_source m) = Inr (n_source m)" using assms(2) validate_source_iff by blast
  with assms(1) show ?thesis by (auto simp: insert_memory_def Let_def)
qed

lemma children_zip:
  "parts \<noteq> [] \<Longrightarrow> \<exists>p ps. zip parts (children_of name parts) = (p, child_name name 0) # ps"
  by (cases parts) (simp_all add: children_of_def upt_conv_Cons del: upt_Suc)

text \<open>A part never fails but on a constraint, and a part whose name is held does fail.\<close>

lemma insert_child_error:
  assumes "insert_memory now (child_memory env ns row name child part) d = Inl e"
  shows "e = constraint_error"
proof -
  have "validate_source ''system'' = Inr ''system''" by (simp add: validate_source_def)
  with assms show ?thesis by (auto simp: insert_memory_def child_memory_def Let_def split: if_splits)
qed

lemma insert_children_taken:
  assumes "\<exists>c \<in> snd ` set ps. \<exists>m \<in> set (memories d). named ns c m"
  shows "insert_children env now ns row name ps d = Inl constraint_error"
  using assms
proof (induction ps arbitrary: d)
  case (Cons p ps)
  obtain part child where p: "p = (part, child)" by fastforce
  show ?case
  proof (cases "insert_memory now (child_memory env ns row name child part) d")
    case (Inl e)
    then show ?thesis using insert_child_error by (simp add: p)
  next
    case (Inr x)
    obtain i d1 where x: "x = (i, d1)" by fastforce
    have "\<not> (\<exists>m \<in> set (memories d). named ns child m)"
      using Inr insert_taken [of d "child_memory env ns row name child part" now]
      by (auto simp: child_memory_def source_str_def all_sources_def)
    with Cons.prems have later: "\<exists>c \<in> snd ` set ps. \<exists>m \<in> set (memories d). named ns c m" by (auto simp: p)
    have "set (memories d) \<subseteq> set (memories d1)" using Inr x by (auto elim!: insert_memoryE)
    with later have "\<exists>c \<in> snd ` set ps. \<exists>m \<in> set (memories d1). named ns c m" by blast
    from Cons.IH [OF this] show ?thesis by (simp add: p Inr x)
  qed
qed simp

lemma split_metadata_total:
  "object_or_none sd metadata \<Longrightarrow> \<exists>m. split_metadata sd children metadata = Inr m"
  by (auto simp: object_or_none_def split_metadata_def split: sum.splits json.splits)

lemma blocked_fails:
  assumes "blocked env ns name limit d"
  shows "split_single env now ns name limit False d = Inr (Inl constraint_error)"
proof -
  from assms obtain row parts where row: "read_by_name d ns name = Some row" "limit < length (m_body row)"
    and parts: "split_body_by_sections (sv_chunk_indices env) (sv_count_tokens env) (m_body row) = Inr parts" "2 \<le> length parts"
    and valid: "validate_children (children_of name parts) = Inr ()"
    and meta: "object_or_none (sv_serde env) (m_metadata row)"
    and taken: "\<exists>c \<in> set (children_of name parts). \<exists>m \<in> set (memories d). named ns c m"
    by (auto simp: blocked_def)
  have "snd ` set (zip parts (children_of name parts)) = set (children_of name parts)"
    by (metis children_of_sel(1) list.set_map map_snd_zip)
  then have "insert_children env now ns row name (zip parts (children_of name parts)) d = Inl constraint_error"
    using taken by (intro insert_children_taken) simp
  then have "split_tx env now ns name row parts (children_of name parts) metadata d = Inl constraint_error" for metadata
    by (simp add: split_tx_def)
  moreover obtain metadata where "split_metadata (sv_serde env) (children_of name parts) (m_metadata row) = Inr metadata"
    using split_metadata_total [OF meta] by blast
  ultimately show ?thesis using row parts valid by (simp add: split_single_def Let_def flip: children_of_def)
qed

lemma child_row_of:
  assumes "child_rows env now ns row name ps rows" and "q \<in> set ps"
  shows "\<exists>x \<in> set rows. named ns (snd q) x"
  using assms unfolding child_rows_def
proof (induction ps rows rule: list_all2_induct)
  case (Cons p ps x xs)
  then show ?case by (cases "q = p") (auto simp: memory_of_new_def child_memory_def named_def)
qed simp

lemma split_blocks:
  assumes inv: "graph_inv d" and u: "unicode_ok (sv_unicode env)" and sd: "serde_objects (sv_serde env)"
    and run: "split_single env now ns name limit False d = Inr (Inr (r, d'))" and parts: "sr_children r \<noteq> []"
  shows "graph_inv d' \<and> (\<exists>row row'. read_by_name d ns name = Some row \<and> read_by_name d' ns name = Some row'
    \<and> m_body row' = m_body row \<and> object_or_none (sv_serde env) (m_metadata row'))
    \<and> (\<forall>c \<in> cp_name ` set (sr_children r). \<exists>m \<in> set (memories d'). named ns c m)"
  using run parts
proof (rule split_singleE)
  fix row parts
  assume row: "read_by_name d ns name = Some row" and long: "limit < length (m_body row)"
    and split: "split_body_by_sections (sv_chunk_indices env) (sv_count_tokens env) (m_body row) = Inr parts"
      "2 \<le> length parts" "validate_children (children_of name parts) = Inr ()"
    and names: "map cp_name (sr_children r) = children_of name parts"
    and "\<not> False \<Longrightarrow> \<exists>metadata. split_metadata (sv_serde env) (children_of name parts) (m_metadata row) = Inr metadata
       \<and> split_tx env now ns name row parts (children_of name parts) metadata d = Inr d'"
  then obtain metadata where meta: "split_metadata (sv_serde env) (children_of name parts) (m_metadata row) = Inr metadata"
    and tx: "split_tx env now ns name row parts (children_of name parts) metadata d = Inr d'" by blast
  from split_tx_effect [OF inv u row split(3) tx] obtain rows where inv': "graph_inv d'"
    and rows: "child_rows env now ns row name (zip parts (children_of name parts)) rows"
    and mems: "set (memories d') = insert (annotated now metadata row) (set (memories d) - {row}) \<union> set rows"
    by metis
  let ?row = "annotated now metadata row"
  have "named ns name row" "live row" using row by (simp_all add: read_by_name_iff [OF graph_invD(2) [OF inv]])
  then have row': "read_by_name d' ns name = Some ?row"
    by (simp add: read_by_name_iff [OF graph_invD(2) [OF inv']] mems annotated_def named_def live_def)
  obtain fs where "metadata = sd_text (sv_serde env) (JObject fs)"
    using meta by (auto simp: split_metadata_def split: json.splits sum.splits)
  then obtain fs' where fs: "sd_value (sv_serde env) metadata = Inr (JObject fs')"
    using sd by (auto simp: serde_objects_def)
  have "object_or_none (sv_serde env) (m_metadata ?row)" by (simp add: object_or_none_def annotated_def fs)
  moreover have "\<exists>m \<in> set (memories d'). named ns c m" if "c \<in> cp_name ` set (sr_children r)" for c
  proof -
    have "c \<in> set (children_of name parts)" using that names by (metis list.set_map)
    then have "c \<in> snd ` set (zip parts (children_of name parts))"
      by (metis children_of_sel(1) list.set_map map_snd_zip)
    then obtain q where q: "q \<in> set (zip parts (children_of name parts))" "snd q = c" by blast
    from child_row_of [OF rows q(1)] obtain x where "x \<in> set rows" "named ns c x" using q(2) by blast
    then show ?thesis by (auto simp: mems)
  qed
  ultimately show ?thesis using inv' row row' by (auto simp: annotated_def)
qed

lemma split_single_nothing:
  assumes "split_single env now ns name limit dry_run d = Inr (Inr (r, d'))" and "sr_children r = []"
  shows "d' = d"
proof -
  obtain row where row: "read_by_name d ns name = Some row" using assms by (auto simp: split_single_def split: option.splits)
  obtain parts where parts: "split_body_by_sections (sv_chunk_indices env) (sv_count_tokens env) (m_body row) = Inr parts"
    using split_body_by_sections_ok by blast
  have "length (m_body row) \<le> limit \<or> length parts < 2"
  proof (rule ccontr)
    assume big: "\<not> (length (m_body row) \<le> limit \<or> length parts < 2)"
    with assms row parts have "map2 (\<lambda>part child. \<lparr>cp_name = child, cp_body_len = length part\<rparr>) parts
        (map (child_name name) [0..<length parts]) = []"
      by (auto simp: split_single_def Let_def bind_rust_Inr_iff split: if_splits)
    then show False using big by (auto simp: zip_eq_Nil_iff)
  qed
  then show ?thesis using assms row parts by (auto simp: split_single_def split: if_splits)
qed

lemma split_single_dry:
  assumes run: "split_single env now ns name limit dry_run d = Inr (Inr (r, d'))" and "dry_run"
  shows "d' = d"
proof (cases "sr_children r = []")
  case False
  show ?thesis by (rule split_singleE [OF run False]) (use \<open>dry_run\<close> in simp)
qed (rule split_single_nothing [OF run])

lemma split_single_inv:
  assumes inv: "graph_inv d" and u: "unicode_ok (sv_unicode env)"
    and run: "split_single env now ns name limit dry_run d = Inr (Inr (r, d'))"
  shows "graph_inv d'"
proof (cases "sr_children r = [] \<or> dry_run")
  case True
  then have "d' = d" using split_single_nothing [OF run] split_single_dry [OF run] by blast
  with inv show ?thesis by simp
next
  case False
  then show ?thesis using split_body_inv [OF inv u] run by simp
qed

lemma blocked_kept:
  assumes inv: "graph_inv d" and u: "unicode_ok (sv_unicode env)" and b: "blocked env ns name limit d" and "other \<noteq> name"
    and run: "split_single env now ns other limit False d = Inr (Inr (r, d'))"
  shows "blocked env ns name limit d'"
proof (cases "sr_children r = []")
  case True
  with split_single_nothing [OF run] b show ?thesis by simp
next
  case False
  from run False obtain row metadata parts where row: "read_by_name d ns other = Some row"
    and valid: "validate_children (children_of other parts) = Inr ()"
    and tx: "split_tx env now ns other row parts (children_of other parts) metadata d = Inr d'"
    by (rule split_singleE) auto
  from split_tx_effect [OF inv u row valid tx] obtain rows where inv': "graph_inv d'"
    and mems: "set (memories d') = insert (annotated now metadata row) (set (memories d) - {row}) \<union> set rows"
    by metis
  note ok = graph_invD(2) [OF inv]
  have named: "named ns other row" using row by (simp add: read_by_name_iff [OF ok])
  have keep: "read_by_name d' ns name = Some m" if "read_by_name d ns name = Some m" for m
    using that named \<open>other \<noteq> name\<close>
    by (auto simp: read_by_name_iff [OF ok] read_by_name_iff [OF graph_invD(2) [OF inv']] mems named_def)
  have taken: "\<exists>m \<in> set (memories d'). named ns c m" if "\<exists>m \<in> set (memories d). named ns c m" for c
    using that by (force simp: mems annotated_def named_def)
  from b show ?thesis unfolding blocked_def using keep taken by blast
qed

text \<open>A loop that comes to the blocked name ends with an error.\<close>

lemma blocked_loop:
  assumes "graph_inv d" and u: "unicode_ok (sv_unicode env)" and "blocked env ns name limit d" and "name \<in> set names"
  shows "\<exists>e d'. split_loop env now ns limit False names acc skipped d = Inr (Inl e, d')"
  using assms(1,3,4)
proof (induction names arbitrary: acc skipped d)
  case (Cons n names)
  show ?case
  proof (cases "n = name")
    case True
    then show ?thesis using blocked_fails [OF Cons.prems(2)] by (simp add: constraint_error_def)
  next
    case other: False
    then have name: "name \<in> set names" using Cons.prems(3) by simp
    obtain answer where run: "split_single env now ns n limit False d = Inr answer" using split_single_returns by blast
    show ?thesis
    proof (cases answer)
      case (Inl e)
      then show ?thesis using run Cons.IH [OF Cons.prems(1,2) name] by (cases e) simp_all
    next
      case (Inr a)
      obtain r d1 where a: "a = (r, d1)" by fastforce
      note run' = run [unfolded Inr a]
      show ?thesis
        using Cons.IH [OF split_single_inv [OF Cons.prems(1) u run'] blocked_kept [OF Cons.prems(1) u Cons.prems(2) other run'] name]
        by (simp add: run')
    qed
  qed
qed simp

lemma split_loop_safe:
  assumes "graph_inv d" and u: "unicode_ok (sv_unicode env)"
  shows "\<exists>outcome d'. split_loop env now ns limit dry_run names acc skipped d = Inr (outcome, d') \<and> graph_inv d'
    \<and> (dry_run \<longrightarrow> d' = d)"
  using assms(1)
proof (induction names arbitrary: acc skipped d)
  case (Cons n names)
  obtain answer where run: "split_single env now ns n limit dry_run d = Inr answer" using split_single_returns by blast
  show ?case
  proof (cases answer)
    case (Inl e)
    then show ?thesis using run Cons.prems Cons.IH [OF Cons.prems] by (cases e) simp_all
  next
    case (Inr a)
    obtain r d1 where a: "a = (r, d1)" by fastforce
    note run' = run [unfolded Inr a]
    have "dry_run \<longrightarrow> d1 = d" using split_single_dry [OF run'] by blast
    then show ?thesis using Cons.IH [OF split_single_inv [OF Cons.prems u run']] by (simp add: run')
  qed
qed simp

text \<open>Whatever its arguments, the command returns without a panic and leaves a well-formed store and graph, also
  when a batch fails half way; a dry run changes nothing.\<close>

lemma split_body_safe:
  assumes inv: "graph_inv d" and u: "unicode_ok (sv_unicode env)"
  shows "\<exists>outcome d'. split_body env now ns args d = Inr (outcome, d') \<and> graph_inv d' \<and> (sb_dry_run args \<longrightarrow> d' = d)"
proof -
  have one: "\<exists>outcome d'. (bind_rust (split_single env now ns name (sb_threshold args) (sb_dry_run args) d) (\<lambda>answer.
       Inr (case answer of Inl e \<Rightarrow> (Inl e, d) | Inr (r, d') \<Rightarrow> (Inr (OneSplit r), d'))) :: ((app_error + split_answer) \<times> db) rust)
     = Inr (outcome, d') \<and> graph_inv d' \<and> (sb_dry_run args \<longrightarrow> d' = d)" for name
  proof -
    obtain answer where run: "split_single env now ns name (sb_threshold args) (sb_dry_run args) d = Inr answer"
      using split_single_returns by blast
    show ?thesis
    proof (cases answer)
      case (Inr a)
      obtain r d1 where a: "a = (r, d1)" by fastforce
      note run' = run [unfolded Inr a]
      show ?thesis using split_single_inv [OF inv u run'] split_single_dry [OF run'] by (simp add: run')
    qed (simp add: run inv)
  qed
  from split_loop_safe [OF inv u] obtain outcome d' where
    "split_loop env now ns (sb_threshold args) (sb_dry_run args) (oversized_names d ns (sb_threshold args)) [] 0 d
       = Inr (outcome, d')" "graph_inv d'" "sb_dry_run args \<longrightarrow> d' = d"
    by blast
  then have many: "\<exists>outcome d'. split_batch env now ns (sb_threshold args) (sb_dry_run args) d = Inr (outcome, d')
      \<and> graph_inv d' \<and> (sb_dry_run args \<longrightarrow> d' = d)"
    by (simp add: split_batch_def)
  show ?thesis
    using one many inv by (auto simp: split_body_def Let_def split: option.split)
qed

text \<open>A store in which a memory still has the body it had when it was split, and some part still holds its name,
  visible or soft-deleted. Its metadata must not have been replaced by JSON that is no object.\<close>

definition split_before :: "split_env \<Rightarrow> string \<Rightarrow> string \<Rightarrow> memory_row \<Rightarrow> split_result \<Rightarrow> db \<Rightarrow> bool" where
  "split_before env ns name row r d \<longleftrightarrow>
     (\<exists>row'. read_by_name d ns name = Some row' \<and> m_body row' = m_body row \<and> object_or_none (sv_serde env) (m_metadata row'))
     \<and> (\<exists>c \<in> cp_name ` set (sr_children r). \<exists>m \<in> set (memories d). named ns c m)"

lemma split_before_blocked:
  assumes run: "split_single env now ns name limit False d = Inr (Inr (r, d'))" and parts: "sr_children r \<noteq> []"
    and row: "read_by_name d ns name = Some row" and later: "split_before env ns name row r d2"
  shows "blocked env ns name limit d2"
  using run parts
proof (rule split_singleE)
  fix row0 ps
  assume "read_by_name d ns name = Some row0" and long: "limit < length (m_body row0)"
    and split: "split_body_by_sections (sv_chunk_indices env) (sv_count_tokens env) (m_body row0) = Inr ps"
      "2 \<le> length ps" "validate_children (children_of name ps) = Inr ()"
    and names: "map cp_name (sr_children r) = children_of name ps"
  then have "row0 = row" using row by simp
  moreover have "cp_name ` set (sr_children r) = set (children_of name ps)" using names by (metis list.set_map)
  ultimately show ?thesis
    using later long split unfolding blocked_def split_before_def by (metis (no_types, lifting))
qed

lemma blocked_first:
  assumes b: "blocked env ns name limit d" and first: "oversized_names d ns limit = name # rest"
  shows "split_batch env now ns limit False d = Inr (Inl constraint_error, d)"
  using blocked_fails [OF b] by (simp add: split_batch_def first constraint_error_def)


end
