(* ===== verification/Split_Runs.thy ===== *)
theory Split_Runs
  imports Split_Correct Remember_Runs
begin

text \<open>
  A concrete run of \<^verbatim>\<open>split-body\<close>: a body of one byte more than the partition budget is split into two parts.
\<close>

section \<open>The body\<close>

definition long_part :: string where "long_part = replicate 81920 CHR ''a''"
definition long_body :: string where "long_body = long_part @ ''b''"

lemma long_part_length [simp]: "length long_part = 81920"
  unfolding long_part_def by (rule length_replicate)

lemma long_body_length [simp]: "length long_body = 81921"
  by (simp add: long_body_def)

lemma long_body_nonempty [simp]: "long_body \<noteq> []"
  by (simp add: long_body_def)

lemma long_part_plain: "c \<in> set long_part \<Longrightarrow> c = CHR ''a''"
  unfolding long_part_def by (drule in_set_replicate [THEN iffD1]) simp

lemma long_body_plain: "c \<in> set long_body \<Longrightarrow> c = CHR ''a'' \<or> c = CHR ''b''"
  using long_part_plain by (auto simp: long_body_def)

lemma budget: "AUTOSPLIT_PARTITION_MAX_BYTES = 81920"
  by (simp add: AUTOSPLIT_PARTITION_MAX_BYTES_def)

lemma long_body_slices: "hard_slice_to_budget long_body = Inr [long_part, ''b'']"
proof -
  have b: "is_char_boundary long_body 81920"
    by (simp add: is_char_boundary_def long_body_def nth_append is_cont_def byte_in_def)
  then have p: "previous_char_boundary long_body 81920 = 81920"
    using previous_char_boundary_greatest [of 81920 81920 long_body] previous_char_boundary_le [of long_body 81920] by simp
  have q: "previous_char_boundary long_body 81921 = 81921"
    using previous_char_boundary_len [of long_body] by simp
  have s: "str_slice long_body 0 81920 = Inr long_part" "str_slice long_body 81920 81921 = Inr ''b''"
    using b is_char_boundary_length [of long_body] by (simp_all add: str_slice_ok) (simp_all add: long_body_def)
  have h2: "hard_slice_loop long_body 81920 81921 acc = Inr acc" for acc
    by (subst hard_slice_loop.simps) simp
  have h1: "hard_slice_loop long_body 81920 81920 acc = Inr (acc @ [''b''])" for acc
    by (subst hard_slice_loop.simps) (simp add: Let_def q s h2)
  have "hard_slice_loop long_body 81920 0 [] = Inr [long_part, ''b'']"
    by (subst hard_slice_loop.simps) (simp add: Let_def p s h1)
  then show ?thesis by (simp add: hard_slice_to_budget_def budget)
qed

lemma long_body_lines: "split_inclusive CHR 0x0A long_body = [long_body]"
  using split_inclusive_free long_body_plain by fastforce

lemma long_body_parts: "split_body_by_sections ci ct long_body = Inr [long_part, ''b'']"
proof -
  have "\<not> fits_single_partition ci ct long_body" by (simp add: fits_single_partition_def budget)
  moreover have "split_markdown_sections long_body = [long_body]"
    using long_body_lines by (simp add: split_markdown_sections_def)
  moreover have "fits_single_partition ci ct long_body = False" using calculation(1) by simp
  ultimately show ?thesis by (simp add: split_body_by_sections_def long_body_slices)
qed

section \<open>The run\<close>

definition split_sample_env :: split_env where
  "split_sample_env = \<lparr>sv_unicode = ascii_unicode,
     sv_serde = sample_serde\<lparr>sd_value := \<lambda>_. Inr (JObject []), sd_text := \<lambda>_. ''{}''\<rparr>,
     sv_blake3 = (\<lambda>s. ''h''), sv_chunk_indices = (\<lambda>s. [(0, s)]), sv_count_tokens = length\<rparr>"

lemma split_env_sel [simp]:
  "sv_unicode split_sample_env = ascii_unicode" "sv_blake3 split_sample_env = (\<lambda>s. ''h'')"
  "sd_value (sv_serde split_sample_env) = (\<lambda>_. Inr (JObject []))" "sd_text (sv_serde split_sample_env) = (\<lambda>_. ''{}'')"
  by (simp_all add: split_sample_env_def)

definition long_memory :: new_memory where
  "long_memory = \<lparr>n_namespace = ''g'', n_name = ''doc'', n_type = ''note'', n_description = ''d'', n_body = long_body,
     n_body_hash = ''h'', n_session_id = None, n_source = ''user'', n_metadata = ''{}''\<rparr>"

definition long_row :: memory_row where
  "long_row = memory_of_new 100 1 ''user'' long_memory"

definition long_db :: db where
  "long_db = empty_db\<lparr>memories := [long_row], seq_memories := 1, fts_memories := [fts_of long_row]\<rparr>"

lemma long_texts:
  "sql_length ''d'' = 1" "sql_length (child_description ''doc'') = 30"
  "child_name ''doc'' 0 = ''doc-part-0''" "child_name ''doc'' (Suc 0) = ''doc-part-1''"
  "validate_child_name ''doc-part-0'' = Inr ()" "validate_child_name ''doc-part-1'' = Inr ()"
  by code_simp+

lemma long_insert: "insert_memory 100 long_memory empty_db = Inr (1, long_db)"
  by (simp add: insert_memory_def long_memory_def long_db_def long_row_def empty_db_def validate_source_def memory_checks_def
      memory_of_new_def memory_types_def source_str_def all_sources_def fts_insert_def Let_def long_texts)

lemma long_inv: "graph_inv long_db"
  using insert_memory_inv [OF store_inv_empty long_insert]
  by (simp add: graph_inv_def graph_typed_def degrees_ok_def long_db_def empty_db_def)

lemma long_read: "read_by_name long_db ''g'' ''doc'' = Some long_row"
  by (simp add: read_by_name_def long_db_def long_row_def memory_of_new_def long_memory_def named_def live_def)

lemma long_children: "children_of ''doc'' [long_part, ''b''] = [''doc-part-0'', ''doc-part-1'']"
  by (simp add: children_of_def long_texts)

lemma long_entity_names:
  "validate_entity_name ''doc'' = Inr ()" "normalize_entity_name ascii_unicode ''doc'' = ''doc''"
  "validate_entity_name ''doc-part-0'' = Inr ()" "normalize_entity_name ascii_unicode ''doc-part-0'' = ''doc-part-0''"
  "validate_entity_name ''doc-part-1'' = Inr ()" "normalize_entity_name ascii_unicode ''doc-part-1'' = ''doc-part-1''"
  "char_count ''doc'' = 3" "char_count ''doc-part-0'' = 10" "char_count ''doc-part-1'' = 10"
  "normalize_entity_type ascii_unicode ''memory'' = Inr ''memory''"
  "map_to_canonical_relation ascii_unicode ''replaces'' = ''replaces''"
  by code_simp+

lemmas row_statements = insert_memory_def child_memory_def validate_source_def memory_checks_def memory_of_new_def
  memory_types_def source_str_def all_sources_def fts_insert_def exec_update_memories_def update_memories_def sql_update_def
  insert_version_def next_version_def versions_of_def max_or_zero_def change_reasons_def

lemmas graph_statements = upsert_entity_def upsert_entity_with_def split_entity_def exec_upsert_entity_def entity_id_named_def
  entity_named_def entity_of_new_def create_or_fetch_relationship_def find_relationship_def insert_relationship_def
  edge_is_def recalculate_degree_def entity_ids_def weight_ok_def DEFAULT_RELATION_WEIGHT_def

lemma long_tx:
  "\<exists>d'. split_tx split_sample_env 200 ''g'' ''doc'' long_row [long_part, ''b''] [''doc-part-0'', ''doc-part-1''] ''{}'' long_db
     = Inr d'"
  by (simp add: split_tx_def annotate_original_def long_db_def long_row_def long_memory_def empty_db_def row_statements
      graph_statements Let_def long_texts long_entity_names named_def live_def memory_ids_def)

lemma long_split:
  "\<exists>r d'. split_single split_sample_env 200 ''g'' ''doc'' 25000 False long_db = Inr (Inr (r, d')) \<and> sr_children r \<noteq> []"
proof -
  have body: "m_body long_row = long_body" by (simp add: long_row_def memory_of_new_def long_memory_def)
  have children: "map (child_name ''doc'') [0..<Suc (Suc 0)] = [''doc-part-0'', ''doc-part-1'']"
    by (simp add: long_texts)
  show ?thesis
    using long_tx
    by (auto simp: split_single_def long_read body long_body_parts children long_texts Let_def split_metadata_def simp del: upt_Suc)
qed

text \<open>The printer of the sample environment writes an object that its parser reads.\<close>

lemma sample_objects: "serde_objects (sv_serde split_sample_env)"
  by (simp add: serde_objects_def)

theorem split_body_effect_witness:
  "\<exists>r d'. split_single split_sample_env 200 ''g'' ''doc'' 25000 False long_db = Inr (Inr (r, d')) \<and> graph_inv d'
     \<and> split_single split_sample_env 200 ''g'' ''doc'' 25000 True long_db = Inr (Inr (r\<lparr>sr_dry_run := True\<rparr>, long_db))"
proof -
  obtain r d' where r: "split_single split_sample_env 200 ''g'' ''doc'' 25000 False long_db = Inr (Inr (r, d'))"
    "sr_children r \<noteq> []" using long_split by blast
  from split_body_effect [OF long_inv _ r] r show ?thesis by auto
qed

theorem split_body_links_witness:
  "\<exists>r d'. split_single split_sample_env 200 ''g'' ''doc'' 25000 False long_db = Inr (Inr (r, d')) \<and> degrees_ok d'
     \<and> (\<exists>original. holds_entity d' ''g'' ''doc'' original)"
proof -
  obtain r d' where r: "split_single split_sample_env 200 ''g'' ''doc'' 25000 False long_db = Inr (Inr (r, d'))"
    "sr_children r \<noteq> []" using long_split by blast
  from split_body_links [OF long_inv _ r] r show ?thesis by (auto simp: long_entity_names)
qed


end
