(* ===== verification/Entity_Upkeep.thy ===== *)
theory Entity_Upkeep
  imports Graph_Commands
begin

text \<open>
  The commands that tidy the entities of a namespace: \<^verbatim>\<open>normalize-entities\<close>
  (\<^verbatim>\<open>src/commands/normalize_entities.rs\<close>), \<^verbatim>\<open>prune-ner\<close> (\<^verbatim>\<open>src/commands/prune_ner.rs\<close>) and the listing
  \<^verbatim>\<open>memory-entities\<close> (\<^verbatim>\<open>src/commands/memory_entities.rs\<close>).
\<close>

section \<open>Normalising the names\<close>

record normalize_args =
  za_dry_run :: bool
  za_yes :: bool

record normalize_response =
  zr_action :: string
  zr_normalized :: nat
  zr_merged :: nat

text \<open>The entities of the namespace by id, and those whose name is not in normal form, with the normal form.\<close>

definition namespace_entities :: "string \<Rightarrow> db \<Rightarrow> entity_row list" where
  "namespace_entities ns d = sort_key e_id (filter (\<lambda>e. e_namespace e = ns) (entities d))"

definition names_to_change :: "unicode \<Rightarrow> string \<Rightarrow> db \<Rightarrow> (int \<times> string) list" where
  "names_to_change u ns d =
     map (\<lambda>e. (e_id e, normalize_entity_name u (e_name e)))
       (filter (\<lambda>e. normalize_entity_name u (e_name e) \<noteq> e_name e) (namespace_entities ns d))"

definition already_normalized :: "unicode \<Rightarrow> string \<Rightarrow> db \<Rightarrow> string set" where
  "already_normalized u ns d =
     set (map e_name (filter (\<lambda>e. normalize_entity_name u (e_name e) = e_name e) (namespace_entities ns d)))"

text \<open>The preview: one group for each normal form; pairs are the merges and the renames.\<close>

definition preview_group :: "string set \<Rightarrow> string list \<Rightarrow> string \<Rightarrow> nat \<times> nat \<Rightarrow> nat \<times> nat" where
  "preview_group already targets target counts =
     (let n = length (filter (\<lambda>t. t = target) targets) in
      if 1 < n \<or> target \<in> already then
        (let extra = (if target \<in> already then n else n - 1) in (fst counts + extra, snd counts + (n - extra)))
      else (fst counts, snd counts + 1))"

definition preview_counts :: "string set \<Rightarrow> string list \<Rightarrow> nat \<times> nat" where
  "preview_counts already targets = fold (preview_group already targets) (remdups targets) (0, 0)"

text \<open>A collision: edges and bindings of the source go to the target, all self-loops of the database are
  dropped, the source goes, and the degree of the target is recalculated.\<close>

definition absorb_entity :: "int \<Rightarrow> int \<Rightarrow> int \<Rightarrow> db \<Rightarrow> db" where
  "absorb_entity now target src d =
     recalculate_degree target
       (delete_entity_rows (\<lambda>e. e_id e = src)
          (merge_bindings target [src] (drop_self_loops (snd (merge_edges now target [src] d)))))"

definition exec_rename_entity :: "int \<Rightarrow> int \<Rightarrow> string \<Rightarrow> db \<Rightarrow> app_error + db" where
  "exec_rename_entity now i name d =
     (let rows = sql_update (\<lambda>e. e_id e = i) (\<lambda>e. e\<lparr>e_name := name, e_updated_at := now\<rparr>) (entities d) in
      if distinct (map (\<lambda>e. (e_namespace e, e_name e)) rows) then Inr (d\<lparr>entities := rows\<rparr>)
      else Inl constraint_error)"

fun normalize_loop :: "int \<Rightarrow> string \<Rightarrow> (int \<times> string) list \<Rightarrow> nat \<Rightarrow> nat \<Rightarrow> db \<Rightarrow> app_error + ((nat \<times> nat) \<times> db)" where
  "normalize_loop now ns [] renamed merged d = Inr ((renamed, merged), d)"
| "normalize_loop now ns ((src, name) # rest) renamed merged d =
     (let rename_step =
            bind_rust (exec_rename_entity now src name d) (normalize_loop now ns rest (renamed + 1) merged)
      in case entity_id_named d ns name of
           Some target \<Rightarrow>
             if target \<noteq> src then normalize_loop now ns rest renamed (merged + 1) (absorb_entity now target src d)
             else rename_step
         | None \<Rightarrow> rename_step)"

definition normalize_names ::
  "unicode \<Rightarrow> int \<Rightarrow> string \<Rightarrow> normalize_args \<Rightarrow> db \<Rightarrow> app_error + (normalize_response \<times> db)" where
  "normalize_names u now ns args d =
     (if \<not> za_dry_run args \<and> \<not> za_yes args then
        Inl (Validation ''pass --dry-run to preview or --yes to apply changes'')
      else
        (let changes = names_to_change u ns d in
         if za_dry_run args then
           (case preview_counts (already_normalized u ns d) (map snd changes) of (merged, renamed) \<Rightarrow>
              Inr (\<lparr>zr_action = ''dry_run'', zr_normalized = renamed, zr_merged = merged\<rparr>, d))
         else
           bind_rust (normalize_loop now ns changes 0 0 d) (\<lambda>((renamed, merged), d').
             Inr (\<lparr>zr_action = ''normalized'', zr_normalized = renamed, zr_merged = merged\<rparr>, d'))))"

section \<open>Pruning bindings\<close>

record prune_ner_args =
  pn_entity :: "string option"
  pn_all :: bool
  pn_dry_run :: bool
  pn_yes :: bool

record prune_ner_response =
  pn_action :: string
  pn_removed :: nat

text \<open>Bindings of the entities of a namespace that satisfy a condition on the name.\<close>

definition binding_of :: "db \<Rightarrow> string \<Rightarrow> (string \<Rightarrow> bool) \<Rightarrow> int \<times> int \<Rightarrow> bool" where
  "binding_of d ns p x \<longleftrightarrow> (\<exists>e \<in> set (entities d). e_id e = snd x \<and> e_namespace e = ns \<and> p (e_name e))"

text \<open>The count is taken under the name as given, the deletion under its normal form.\<close>

definition prune_ner :: "unicode \<Rightarrow> string \<Rightarrow> prune_ner_args \<Rightarrow> db \<Rightarrow> app_error + (prune_ner_response \<times> db)" where
  "prune_ner u ns args d =
     (if pn_entity args = None \<and> \<not> pn_all args then
        Inl (Validation ''either --entity <NAME> or --all must be specified'')
      else
        (let count = sql_count (binding_of d ns (\<lambda>n. case pn_entity args of Some name \<Rightarrow> n = name | None \<Rightarrow> True))
                       (memory_entities d);
             doomed = binding_of d ns (\<lambda>n. case pn_entity args of Some name \<Rightarrow> n = normalize_entity_name u name | None \<Rightarrow> True)
         in if pn_dry_run args then Inr (\<lparr>pn_action = ''dry_run'', pn_removed = count\<rparr>, d)
            else if \<not> pn_yes args then Inr (\<lparr>pn_action = ''aborted'', pn_removed = count\<rparr>, d)
            else Inr (\<lparr>pn_action = ''pruned'', pn_removed = sql_changed doomed (memory_entities d)\<rparr>,
                   d\<lparr>memory_entities := sql_delete doomed (memory_entities d)\<rparr>)))"

section \<open>Listing bindings\<close>

record memory_entities_args =
  mx_positional :: "string option"
  mx_name :: "string option"
  mx_entity :: "string option"

record entity_binding =
  eb_entity_id :: int
  eb_name :: string
  eb_type :: string
  eb_description :: string

record memory_binding =
  mb_memory_id :: int
  mb_name :: string
  mb_description :: string
  mb_type :: string

datatype bindings_answer =
    EntitiesOf string "entity_binding list"
  | MemoriesOf string "memory_binding list"

text \<open>The joins: for every binding row the joined row, ordered by name.\<close>

definition memories_of_entity :: "db \<Rightarrow> int \<Rightarrow> memory_binding list" where
  "memories_of_entity d i =
     sort_key mb_name
       (concat (map (\<lambda>(m, e). if e = i then
            map (\<lambda>r. \<lparr>mb_memory_id = m_id r, mb_name = m_name r, mb_description = m_description r, mb_type = m_type r\<rparr>)
              (filter (\<lambda>r. m_id r = m \<and> live r) (memories d)) else []) (memory_entities d)))"

definition entities_of_memory :: "db \<Rightarrow> int \<Rightarrow> entity_binding list" where
  "entities_of_memory d i =
     sort_key eb_name
       (concat (map (\<lambda>(m, e). if m = i then
            map (\<lambda>r. \<lparr>eb_entity_id = e_id r, eb_name = e_name r, eb_type = e_type r,
                      eb_description = unwrap_or (e_description r) []\<rparr>)
              (filter (\<lambda>r. e_id r = e) (entities d)) else []) (memory_entities d)))"

definition memory_entities_cmd ::
  "unicode \<Rightarrow> string \<Rightarrow> memory_entities_args \<Rightarrow> db \<Rightarrow> app_error + bindings_answer" where
  "memory_entities_cmd u ns args d =
     (case mx_entity args of
        Some name \<Rightarrow>
          bind_rust (ok_or (NotFound ''entity_not_found'') (find_entity_id u d ns name)) (\<lambda>i.
            Inr (MemoriesOf name (memories_of_entity d i)))
      | None \<Rightarrow>
          bind_rust (ok_or (Validation ''name_required'') (or_else (mx_positional args) (mx_name args))) (\<lambda>name.
          bind_rust (ok_or (NotFound ''memory_not_found'') (read_by_name d ns name)) (\<lambda>row.
            Inr (EntitiesOf name (entities_of_memory d (m_id row))))))"

end
