(* ===== verification/Upkeep_Correct.thy ===== *)
theory Upkeep_Correct
  imports Entity_Upkeep Merge_Correct
begin

text \<open>
  \<^verbatim>\<open>normalize-entities\<close> against its specification: the quotient of the graph by the normal form of the
  names, whatever names the store holds. The preview counts what the command does.
\<close>

section \<open>Quotients of the graph\<close>

text \<open>The store after an identification of entities: edges without the loops this creates, bindings, ids.\<close>

definition edge_image :: "(int \<Rightarrow> int) \<Rightarrow> int \<times> int \<times> string \<Rightarrow> int \<times> int \<times> string" where
  "edge_image f k = (f (fst k), f (fst (snd k)), snd (snd k))"

definition is_loop :: "int \<times> int \<times> string \<Rightarrow> bool" where
  "is_loop k \<longleftrightarrow> fst k = fst (snd k)"

definition quotient_by :: "(int \<Rightarrow> int) \<Rightarrow> db \<Rightarrow> db \<Rightarrow> bool" where
  "quotient_by f d d' \<longleftrightarrow>
     edges d' = {k \<in> edge_image f ` edges d. \<not> is_loop k}
     \<and> set (memory_entities d') = (\<lambda>x. (fst x, f (snd x))) ` set (memory_entities d)
     \<and> entity_ids d' = f ` entity_ids d \<and> memories d' = memories d \<and> fts_memories d' = fts_memories d"

definition loop_free :: "db \<Rightarrow> bool" where
  "loop_free d \<longleftrightarrow> (\<forall>k \<in> edges d. \<not> is_loop k)"

lemma edge_image_id [simp]: "edge_image (\<lambda>i. i) ` E = E"
  by (simp add: edge_image_def)

lemma quotient_refl: "loop_free d \<Longrightarrow> quotient_by (\<lambda>i. i) d d"
  by (auto simp: quotient_by_def loop_free_def)

lemma quotient_loop_free: "quotient_by f d d' \<Longrightarrow> loop_free d'"
  by (simp add: quotient_by_def loop_free_def)

lemma quotient_trans:
  assumes fd: "quotient_by f d d'" and gd: "quotient_by g d' d''"
  shows "quotient_by (\<lambda>i. g (f i)) d d''"
proof -
  have "\<not> is_loop (edge_image f k)" if "\<not> is_loop (edge_image g (edge_image f k))" for k
    using that by (auto simp: is_loop_def edge_image_def)
  then have "{k \<in> edge_image g ` {k \<in> edge_image f ` edges d. \<not> is_loop k}. \<not> is_loop k}
      = {k \<in> (\<lambda>k. edge_image g (edge_image f k)) ` edges d. \<not> is_loop k}" by auto
  also have "(\<lambda>k. edge_image g (edge_image f k)) = edge_image (\<lambda>i. g (f i))"
    by (rule ext) (simp add: edge_image_def)
  finally show ?thesis using fd gd by (simp add: quotient_by_def image_image)
qed

lemma image_filter: "(\<And>x. P x \<longleftrightarrow> Q (f x)) \<Longrightarrow> f ` {x \<in> A. P x} = {y \<in> f ` A. Q y}"
  by auto

text \<open>The names of the entities by id.\<close>

definition id_names :: "db \<Rightarrow> (int \<times> string \<times> string) set" where
  "id_names d = (\<lambda>e. (e_id e, e_namespace e, e_name e)) ` set (entities d)"

lemma id_namesI: "e \<in> set (entities d) \<Longrightarrow> (e_id e, e_namespace e, e_name e) \<in> id_names d"
  unfolding id_names_def by (rule imageI)

lemma id_names_unique:
  assumes "store_ok d" and "(i, ns, name) \<in> id_names d"
  shows "(i, ns', name') \<in> id_names d \<Longrightarrow> ns' = ns \<and> name' = name"
    and "(j, ns, name) \<in> id_names d \<Longrightarrow> j = i"
proof -
  from assms(2) obtain e where e: "e \<in> set (entities d)" "e_id e = i" "e_namespace e = ns" "e_name e = name"
    by (auto simp: id_names_def)
  show "ns' = ns \<and> name' = name" if "(i, ns', name') \<in> id_names d"
    using that e same_entity [OF assms(1)] by (auto simp: id_names_def)
  show "j = i" if "(j, ns, name) \<in> id_names d"
    using that e store_ok_entity_names [OF assms(1)] by (auto simp: id_names_def distinct_map inj_on_def)
qed

lemma id_names_ids: "(i, ns, name) \<in> id_names d \<Longrightarrow> i \<in> entity_ids d"
  by (auto simp: id_names_def entity_ids_def)

section \<open>One step\<close>

lemma absorb_eq:
  assumes "store_ok d" and "target \<in> entity_ids d" and "target \<noteq> src"
  shows "absorb_entity now target src d = recalculate_degree target (merge_core now target [src] d)"
  by (simp add: absorb_entity_def merge_core_def)

lemma absorb_effect:
  assumes ok: "store_ok d" and t: "target \<in> entity_ids d" "target \<noteq> src" and src: "src \<in> entity_ids d"
  shows "store_ok (absorb_entity now target src d)"
    and "quotient_by (merged_id target [src]) d (absorb_entity now target src d)"
    and "id_names (absorb_entity now target src d) = {x \<in> id_names d. fst x \<noteq> src}"
proof -
  define d2 where "d2 = merge_core now target [src] d"
  have "target \<notin> set [src]" using t(2) by simp
  note m = merge_tables [OF ok t(1) this d2_def]
  have eq: "absorb_entity now target src d = recalculate_degrees [target] d2"
    by (simp add: absorb_eq [OF ok t] d2_def recalculate_degree_as_list)
  show "store_ok (absorb_entity now target src d)" unfolding eq by (rule store_ok_recalculate [OF m(1)])
  have "id_names (recalculate_degrees [target] d2) = id_names d2"
    by (simp add: id_names_def recalculate_degrees_eq image_sql_update_same)
  moreover have "id_names d2 = {x \<in> id_names d. fst x \<noteq> src}"
    unfolding id_names_def m(4) set_sql_delete by (rule image_filter) simp
  ultimately show "id_names (absorb_entity now target src d) = {x \<in> id_names d. fst x \<noteq> src}" unfolding eq by simp
  have "entity_ids d2 = entity_ids d - {src}" unfolding entity_ids_def m(4) set_sql_delete by auto
  also have "\<dots> = merged_id target [src] ` entity_ids d" using t src by (auto simp: merged_id_def)
  finally have e: "entity_ids (recalculate_degrees [target] d2) = merged_id target [src] ` entity_ids d"
    by (simp add: entity_ids_def recalculate_degrees_eq image_sql_update_same)
  have "edges (recalculate_degrees [target] d2) = edges d2" by (simp add: edges_def)
  moreover have "merged_edge target [src] = edge_image (merged_id target [src])"
    by (rule ext) (simp add: merged_edge_def edge_image_def split: prod.splits)
  ultimately show "quotient_by (merged_id target [src]) d (absorb_entity now target src d)"
    using e m(2,3,5,6) unfolding eq
    by (simp add: quotient_by_def is_loop_def merged_binding_def image_def)
qed

lemma rename_effect_ids:
  assumes ok: "store_ok d" and free: "loop_free d" and run: "exec_rename_entity now i name d = Inr d'"
  shows "store_ok d'" and "quotient_by (\<lambda>i. i) d d'"
    and "(i, ns, old) \<in> id_names d \<Longrightarrow> id_names d' = insert (i, ns, name) {x \<in> id_names d. fst x \<noteq> i}"
proof -
  let ?rows = "sql_update (\<lambda>e. e_id e = i) (\<lambda>e. e\<lparr>e_name := name, e_updated_at := now\<rparr>) (entities d)"
  have d': "d' = d\<lparr>entities := ?rows\<rparr>" and dist: "distinct (map (\<lambda>e. (e_namespace e, e_name e)) ?rows)"
    using run by (auto simp: exec_rename_entity_def Let_def split: if_splits)
  have ids: "map e_id ?rows = map e_id (entities d)" by (intro map_sql_update_same) simp
  show "store_ok d'" unfolding d' by (rule store_ok_entities [OF ok ids dist])
  have "entity_ids d' = entity_ids d" using arg_cong [OF ids, of set] by (simp add: entity_ids_def d')
  then show "quotient_by (\<lambda>i. i) d d'"
    using quotient_refl [OF free] by (simp add: quotient_by_def d' edges_def)
  assume old: "(i, ns, old) \<in> id_names d"
  have ns: "e_namespace e = ns" if "e \<in> set (entities d)" "e_id e = i" for e
  proof -
    have "(i, e_namespace e, e_name e) \<in> id_names d" using id_namesI [OF that(1)] that(2) by simp
    then show ?thesis using id_names_unique(1) [OF ok old] by blast
  qed
  obtain e where e: "e \<in> set (entities d)" "e_id e = i" using old by (auto simp: id_names_def)
  show "id_names d' = insert (i, ns, name) {x \<in> id_names d. fst x \<noteq> i}"
  proof
    show "id_names d' \<subseteq> insert (i, ns, name) {x \<in> id_names d. fst x \<noteq> i}"
      using ns by (auto simp: id_names_def d' set_sql_update)
    show "insert (i, ns, name) {x \<in> id_names d. fst x \<noteq> i} \<subseteq> id_names d'"
    proof -
      have "e\<lparr>e_name := name, e_updated_at := now\<rparr> \<in> set (entities d')" using e by (auto simp: d' set_sql_update)
      from id_namesI [OF this] have "(i, ns, name) \<in> id_names d'" using ns [OF e] e(2) by simp
      moreover have "{x \<in> id_names d. fst x \<noteq> i} \<subseteq> id_names d'" by (auto simp: id_names_def d' set_sql_update)
      ultimately show ?thesis by simp
    qed
  qed
qed

section \<open>The loop\<close>

text \<open>What is left to do: distinct entities of the namespace with the normal form of their present name.\<close>

definition pending_ok :: "unicode \<Rightarrow> string \<Rightarrow> db \<Rightarrow> (int \<times> string) list \<Rightarrow> bool" where
  "pending_ok u ns d todo \<longleftrightarrow> distinct (map fst todo)
     \<and> (\<forall>x \<in> set todo. \<exists>old. (fst x, ns, old) \<in> id_names d \<and> snd x = normalize_entity_name u old \<and> old \<noteq> snd x)"

definition names_in :: "string \<Rightarrow> db \<Rightarrow> string set" where
  "names_in ns d = {name. \<exists>i. (i, ns, name) \<in> id_names d}"

definition carried_over :: "unicode \<Rightarrow> int set \<Rightarrow> (int \<Rightarrow> int) \<Rightarrow> db \<Rightarrow> db \<Rightarrow> bool" where
  "carried_over u changed f d d' \<longleftrightarrow> (\<forall>i ns name. (i, ns, name) \<in> id_names d \<longrightarrow>
     (f i, ns, if i \<in> changed then normalize_entity_name u name else name) \<in> id_names d')"

lemma entity_id_named_ids:
  assumes "store_ok d"
  shows "entity_id_named d ns name = Some i \<longleftrightarrow> (i, ns, name) \<in> id_names d"
proof
  assume "entity_id_named d ns name = Some i"
  from entity_id_named_SomeD [OF this] show "(i, ns, name) \<in> id_names d" using id_namesI by blast
next
  assume "(i, ns, name) \<in> id_names d"
  then show "entity_id_named d ns name = Some i"
    using entity_id_named_eq [OF assms] by (auto simp: id_names_def)
qed

lemma entity_id_named_none: "store_ok d \<Longrightarrow> entity_id_named d ns name = None \<longleftrightarrow> name \<notin> names_in ns d"
  using entity_id_named_ids [of d ns name] by (cases "entity_id_named d ns name") (auto simp: names_in_def)

lemma rename_possible:
  assumes ok: "store_ok d" and old: "(i, ns, old) \<in> id_names d" and free: "name \<notin> names_in ns d"
  shows "\<exists>d'. exec_rename_entity now i name d = Inr d'"
proof -
  let ?f = "\<lambda>e. if e_id e = i then e\<lparr>e_name := name, e_updated_at := now\<rparr> else e"
  have "inj_on (\<lambda>e. (e_namespace (?f e), e_name (?f e))) (set (entities d))"
  proof (rule inj_onI)
    fix x y assume xy: "x \<in> set (entities d)" "y \<in> set (entities d)"
      "(e_namespace (?f x), e_name (?f x)) = (e_namespace (?f y), e_name (?f y))"
    have i: "e_namespace e = ns" if "e \<in> set (entities d)" "e_id e = i" for e
      using id_names_unique(1) [OF ok old] id_namesI [OF that(1)] that(2) by auto
    have n: "e_name e \<noteq> name" if "e \<in> set (entities d)" "e_namespace e = ns" for e
      using free id_namesI [OF that(1)] that(2) by (auto simp: names_in_def)
    consider "e_id x = i" "e_id y = i" | "e_id x \<noteq> i" "e_id y \<noteq> i" | "e_id x = i" "e_id y \<noteq> i" | "e_id x \<noteq> i" "e_id y = i"
      by blast
    then show "x = y"
    proof cases
      case 1
      then show ?thesis using same_entity [OF ok xy(1,2)] by simp
    next
      case 2
      then have "(e_namespace x, e_name x) = (e_namespace y, e_name y)" using xy(3) by simp
      then show ?thesis using store_ok_entity_names [OF ok] xy(1,2) by (auto simp: distinct_map inj_on_def)
    next
      case 3
      then show ?thesis using xy i [OF xy(1)] n [OF xy(2)] by simp
    next
      case 4
      then show ?thesis using xy i [OF xy(2)] n [OF xy(1)] by simp
    qed
  qed
  moreover have "distinct (entities d)" using store_ok_entity_ids [OF ok] by (simp add: distinct_map)
  ultimately have "distinct (map (\<lambda>e. (e_namespace (?f e), e_name (?f e))) (entities d))" by (simp add: distinct_map)
  then have "distinct (map (\<lambda>e. (e_namespace e, e_name e)) (map ?f (entities d)))" by (simp add: comp_def)
  then show ?thesis unfolding exec_rename_entity_def sql_update_def Let_def by (simp del: map_map)
qed

lemma carried_step:
  assumes u: "unicode_ok u" and ok: "store_ok d" and p: "pending_ok u ns d ((src, name) # rest)"
    and keep: "\<And>x. x \<in> id_names d \<Longrightarrow> fst x \<noteq> src \<Longrightarrow> x \<in> id_names d1 \<and> g (fst x) = fst x"
    and new: "(g src, ns, name) \<in> id_names d1" and c: "carried_over u (fst ` set rest) f d1 d'"
  shows "carried_over u (fst ` set ((src, name) # rest)) (\<lambda>i. f (g i)) d d'"
proof -
  from p obtain old where old: "(src, ns, old) \<in> id_names d" "name = normalize_entity_name u old"
    by (auto simp: pending_ok_def)
  have fixed: "normalize_entity_name u name = name" unfolding old(2) by (rule normalize_entity_name_idem [OF u])
  have head: "(f (g src), ns, name) \<in> id_names d'" 
    using c [unfolded carried_over_def, rule_format, OF new] fixed by (simp split: if_splits)
  show ?thesis
    unfolding carried_over_def
  proof (intro allI impI)
    fix i n nm assume x: "(i, n, nm) \<in> id_names d"
    show "(f (g i), n, if i \<in> fst ` set ((src, name) # rest) then normalize_entity_name u nm else nm) \<in> id_names d'"
    proof (cases "i = src")
      case True
      then have "n = ns \<and> nm = old" using id_names_unique(1) [OF ok old(1)] x by simp
      with True head old(2) show ?thesis by simp
    next
      case False
      then have "(i, n, nm) \<in> id_names d1" "g i = i" using keep [OF x] by simp_all
      then show ?thesis using c False unfolding carried_over_def by auto
    qed
  qed
qed

lemma pending_rest:
  assumes "pending_ok u ns d ((src, name) # rest)" and "\<And>x. x \<in> id_names d \<Longrightarrow> fst x \<noteq> src \<Longrightarrow> x \<in> id_names d1"
  shows "pending_ok u ns d1 rest"
  unfolding pending_ok_def
proof (intro conjI ballI)
  show "distinct (map fst rest)" using assms(1) by (simp add: pending_ok_def)
  fix x assume x: "x \<in> set rest"
  then obtain old where old: "(fst x, ns, old) \<in> id_names d" "snd x = normalize_entity_name u old" "old \<noteq> snd x"
    using assms(1) by (auto simp: pending_ok_def)
  have "fst x \<noteq> src" using assms(1) x by (force simp: pending_ok_def)
  with old assms(2) [OF old(1)] show "\<exists>old. (fst x, ns, old) \<in> id_names d1 \<and> snd x = normalize_entity_name u old \<and> old \<noteq> snd x"
    by auto
qed

text \<open>Targets are normal forms, so a name that is still to be changed is no target.\<close>

lemma pending_targets_fixed: "unicode_ok u \<Longrightarrow> pending_ok u ns d todo \<Longrightarrow> n \<in> snd ` set todo \<Longrightarrow> normalize_entity_name u n = n"
  using normalize_entity_name_idem by (force simp: pending_ok_def)

lemma names_owner:
  "store_ok d \<Longrightarrow> (src, ns, old) \<in> id_names d \<Longrightarrow> (i, ns, n) \<in> id_names d \<Longrightarrow> i = src \<longleftrightarrow> n = old"
  using id_names_unique by blast

lemma names_in_absorb:
  assumes ok: "store_ok d" and old: "(src, ns, old) \<in> id_names d" and ids: "id_names d1 = {x \<in> id_names d. fst x \<noteq> src}"
  shows "names_in ns d1 = names_in ns d - {old}"
  unfolding names_in_def ids using names_owner [OF ok old] by auto

lemma names_in_rename:
  assumes ok: "store_ok d" and old: "(src, ns, old) \<in> id_names d"
    and ids: "id_names d1 = insert (src, ns, name) {x \<in> id_names d. fst x \<noteq> src}"
  shows "names_in ns d1 = insert name (names_in ns d - {old})"
  unfolding names_in_def ids using names_owner [OF ok old] by auto

text \<open>The loop succeeds, is a quotient, normalises exactly the pending names, and renames once for every normal
  form that no entity had.\<close>

definition loop_result :: "unicode \<Rightarrow> string \<Rightarrow> (int \<times> string) list \<Rightarrow> nat \<Rightarrow> nat \<Rightarrow> db \<Rightarrow> app_error + ((nat \<times> nat) \<times> db) \<Rightarrow> bool" where
  "loop_result u ns todo renamed merged d answer \<longleftrightarrow>
     (\<exists>k f d'. answer = Inr ((renamed + k, merged + (length todo - k)), d') \<and> k \<le> length todo
        \<and> k = card (snd ` set todo - names_in ns d)
        \<and> store_ok d' \<and> quotient_by f d d' \<and> carried_over u (fst ` set todo) f d d')"

lemma loop_merge_step:
  assumes u: "unicode_ok u" and ok: "store_ok d" and p: "pending_ok u ns d ((src, name) # rest)"
    and t: "(t, ns, name) \<in> id_names d" "t \<noteq> src"
    and rest: "loop_result u ns rest renamed (merged + 1) (absorb_entity now t src d) answer"
  shows "loop_result u ns ((src, name) # rest) renamed merged d answer"
proof -
  let ?d = "absorb_entity now t src d" and ?todo = "(src, name) # rest"
  from p obtain old where old: "(src, ns, old) \<in> id_names d" "name = normalize_entity_name u old" "old \<noteq> name"
    by (auto simp: pending_ok_def)
  note a = absorb_effect [OF ok id_names_ids [OF t(1)] t(2) id_names_ids [OF old(1)], of now]
  have keep: "x \<in> id_names ?d \<and> merged_id t [src] (fst x) = fst x" if "x \<in> id_names d" "fst x \<noteq> src" for x
    using that by (simp add: a(3) merged_id_def)
  have new: "(merged_id t [src] src, ns, name) \<in> id_names ?d" using t by (simp add: a(3) merged_id_def)
  have fixed: "normalize_entity_name u n = n" if "n \<in> snd ` set rest" for n
    using pending_targets_fixed [OF u p] that by simp
  have "names_in ns ?d = names_in ns d - {old}" by (rule names_in_absorb [OF ok old(1) a(3)])
  moreover have "old \<notin> snd ` set rest" using fixed [of old] old(2,3) by metis
  moreover have "name \<in> names_in ns d" using t(1) by (auto simp: names_in_def)
  ultimately have targets: "snd ` set ?todo - names_in ns d = snd ` set rest - names_in ns ?d" by auto
  from rest obtain k f d' where r: "answer = Inr ((renamed + k, merged + 1 + (length rest - k)), d')" "k \<le> length rest"
      "k = card (snd ` set rest - names_in ns ?d)" "store_ok d'" "quotient_by f ?d d'" "carried_over u (fst ` set rest) f ?d d'"
    by (auto simp: loop_result_def)
  have "quotient_by (\<lambda>i. f (merged_id t [src] i)) d d'" by (rule quotient_trans [OF a(2) r(5)])
  moreover have "carried_over u (fst ` set ?todo) (\<lambda>i. f (merged_id t [src] i)) d d'"
    by (rule carried_step [OF u ok p keep new r(6)])
  moreover have "merged + 1 + (length rest - k) = merged + (length ?todo - k)" using r(2) by simp
  moreover have "k = card (snd ` set ?todo - names_in ns d)" using r(3) targets by simp
  ultimately show ?thesis using r(1,2,4) unfolding loop_result_def by (intro exI [of _ k] exI [of _ "\<lambda>i. f (merged_id t [src] i)"]
      exI [of _ d'] conjI) simp_all
qed

lemma loop_rename_step:
  assumes u: "unicode_ok u" and ok: "store_ok d" and free: "loop_free d" and p: "pending_ok u ns d ((src, name) # rest)"
    and run: "exec_rename_entity now src name d = Inr d1" and none: "name \<notin> names_in ns d"
    and rest: "loop_result u ns rest (renamed + 1) merged d1 answer"
  shows "loop_result u ns ((src, name) # rest) renamed merged d answer"
proof -
  let ?todo = "(src, name) # rest"
  from p obtain old where old: "(src, ns, old) \<in> id_names d" "name = normalize_entity_name u old" "old \<noteq> name"
    by (auto simp: pending_ok_def)
  note a = rename_effect_ids [OF ok free run]
  note ids = a(3) [OF old(1)]
  have keep: "x \<in> id_names d1 \<and> fst x = fst x" if "x \<in> id_names d" "fst x \<noteq> src" for x
    using that by (simp add: ids)
  have new: "(src, ns, name) \<in> id_names d1" by (simp add: ids)
  have fixed: "normalize_entity_name u n = n" if "n \<in> snd ` set rest" for n
    using pending_targets_fixed [OF u p] that by simp
  have "names_in ns d1 = insert name (names_in ns d - {old})" by (rule names_in_rename [OF ok old(1) ids])
  moreover have "old \<notin> snd ` set rest" using fixed [of old] old(2,3) by metis
  ultimately have "snd ` set ?todo - names_in ns d = insert name (snd ` set rest - names_in ns d1)"
    using none by auto
  moreover have "name \<notin> snd ` set rest - names_in ns d1" using new by (auto simp: names_in_def)
  ultimately have count: "card (snd ` set ?todo - names_in ns d) = Suc (card (snd ` set rest - names_in ns d1))" by simp
  from rest obtain k f d' where r: "answer = Inr ((renamed + 1 + k, merged + (length rest - k)), d')" "k \<le> length rest"
      "k = card (snd ` set rest - names_in ns d1)" "store_ok d'" "quotient_by f d1 d'" "carried_over u (fst ` set rest) f d1 d'"
    by (auto simp: loop_result_def)
  have "quotient_by f d d'" using quotient_trans [OF a(2) r(5)] by simp
  moreover have "carried_over u (fst ` set ?todo) f d d'" by (rule carried_step [OF u ok p keep new r(6)])
  ultimately show ?thesis using r count unfolding loop_result_def
    by (intro exI [of _ "Suc k"] exI [of _ f] exI [of _ d'] conjI) simp_all
qed

lemma normalize_loop_result:
  assumes u: "unicode_ok u" and "store_ok d" and "loop_free d" and "pending_ok u ns d todo"
  shows "loop_result u ns todo renamed merged d (normalize_loop now ns todo renamed merged d)"
  using assms(2-4)
proof (induction todo arbitrary: renamed merged d)
  case Nil
  then show ?case
    by (auto simp: loop_result_def carried_over_def intro!: exI [of _ "\<lambda>i. i"] quotient_refl)
next
  case (Cons x rest)
  obtain src name where x: "x = (src, name)" by fastforce
  note p = Cons.prems(3) [unfolded x]
  from p obtain old where old: "(src, ns, old) \<in> id_names d" "old \<noteq> name" by (auto simp: pending_ok_def)
  show ?case
  proof (cases "entity_id_named d ns name")
    case (Some t)
    then have t: "(t, ns, name) \<in> id_names d" by (simp add: entity_id_named_ids [OF Cons.prems(1)])
    then have "t \<noteq> src" using id_names_unique(1) [OF Cons.prems(1) old(1)] old(2) by blast
    note a = absorb_effect [OF Cons.prems(1) id_names_ids [OF t] this id_names_ids [OF old(1)], of now]
    have "pending_ok u ns (absorb_entity now t src d) rest" by (rule pending_rest [OF p]) (simp add: a(3))
    from loop_merge_step [OF u Cons.prems(1) p t \<open>t \<noteq> src\<close> Cons.IH [OF a(1) quotient_loop_free [OF a(2)] this]]
    show ?thesis using \<open>t \<noteq> src\<close> Some by (simp add: x)
  next
    case None
    then have free: "name \<notin> names_in ns d" by (simp add: entity_id_named_none [OF Cons.prems(1)])
    obtain d1 where run: "exec_rename_entity now src name d = Inr d1"
      using rename_possible [OF Cons.prems(1) old(1) free] by blast
    note a = rename_effect_ids [OF Cons.prems(1,2) run]
    have "pending_ok u ns d1 rest" by (rule pending_rest [OF p]) (simp add: a(3) [OF old(1)])
    from loop_rename_step [OF u Cons.prems(1,2) p run free Cons.IH [OF a(1) quotient_loop_free [OF a(2)] this]]
    show ?thesis using None run by (simp add: x)
  qed
qed

section \<open>The whole command\<close>

lemma set_namespace_entities: "set (namespace_entities ns d) = {e \<in> set (entities d). e_namespace e = ns}"
  by (simp add: namespace_entities_def)

lemma names_to_change_iff:
  "(i, n) \<in> set (names_to_change u ns d) \<longleftrightarrow>
     (\<exists>old. (i, ns, old) \<in> id_names d \<and> n = normalize_entity_name u old \<and> old \<noteq> n)"
  by (auto simp: names_to_change_def set_namespace_entities id_names_def image_iff)

lemma names_to_change_pending:
  assumes "store_ok d"
  shows "pending_ok u ns d (names_to_change u ns d)"
proof -
  have "distinct (map e_id (filter (\<lambda>e. e_namespace e = ns) (entities d)))"
    using store_ok_entity_ids [OF assms] by (rule distinct_map_filter)
  then have "distinct (map e_id (namespace_entities ns d))"
    by (simp add: namespace_entities_def distinct_map distinct_sort)
  then have "distinct (map fst (names_to_change u ns d))"
    unfolding names_to_change_def map_map comp_def fst_conv by (rule distinct_map_filter)
  then show ?thesis by (simp add: pending_ok_def names_to_change_iff split_paired_all)
qed

lemma changed_ids:
  assumes "store_ok d" and "(i, ns', name) \<in> id_names d"
  shows "(if i \<in> fst ` set (names_to_change u ns d) then normalize_entity_name u name else name)
    = (if ns' = ns then normalize_entity_name u name else name)"
proof (cases "i \<in> fst ` set (names_to_change u ns d)")
  case True
  then obtain old where "(i, ns, old) \<in> id_names d" by (auto simp: names_to_change_iff)
  then have "ns' = ns" using id_names_unique(1) [OF assms] by metis
  with True show ?thesis by simp
next
  case False
  then have "normalize_entity_name u name = name" if "ns' = ns"
    using assms(2) that names_to_change_iff [of i _ u ns d] by (force simp: image_iff)
  with False show ?thesis by simp
qed

lemma already_normalized_eq: "already_normalized u ns d = {n \<in> names_in ns d. normalize_entity_name u n = n}"
  by (auto simp: already_normalized_def set_namespace_entities names_in_def id_names_def image_iff)

lemma preview_group_counts:
  assumes "target \<in> set targets"
  shows "snd (preview_group already targets target c) = snd c + (if target \<in> already then 0 else 1)"
    and "fst (preview_group already targets target c) + snd (preview_group already targets target c)
      = fst c + snd c + count_list targets target"
proof -
  define n where "n = length (filter (\<lambda>t. t = target) targets)"
  have count: "count_list targets target = n" unfolding n_def by (induction targets) auto
  have pos: "0 < n" unfolding n_def using assms by (simp add: filter_empty_conv)
  show "snd (preview_group already targets target c) = snd c + (if target \<in> already then 0 else 1)"
    "fst (preview_group already targets target c) + snd (preview_group already targets target c)
      = fst c + snd c + count_list targets target"
    using pos unfolding preview_group_def count by (auto simp: Let_def simp flip: n_def)
qed

lemma preview_fold:
  assumes "distinct ts" and "set ts \<subseteq> set targets"
  shows "snd (fold (preview_group already targets) ts c) = snd c + card (set ts - already)
    \<and> fst (fold (preview_group already targets) ts c) + snd (fold (preview_group already targets) ts c)
      = fst c + snd c + sum (count_list targets) (set ts)"
  using assms
proof (induction ts arbitrary: c)
  case (Cons t ts)
  have t: "t \<in> set targets" "t \<notin> set ts" using Cons.prems by auto
  have "card (set (t # ts) - already) = (if t \<in> already then 0 else 1) + card (set ts - already)"
    using t(2) by (simp add: insert_Diff_if)
  then show ?case
    using Cons.IH [of "preview_group already targets t c"] Cons.prems preview_group_counts [OF t(1), of already c] t(2) by simp
qed simp

lemma preview_counts_eq:
  "preview_counts already targets = (length targets - card (set targets - already), card (set targets - already))"
proof -
  have "sum (count_list targets) (set targets) = length targets" by (rule sum_count_set) simp_all
  then show ?thesis
    using preview_fold [of "remdups targets" targets already "(0, 0)"]
    by (auto simp: preview_counts_def prod_eq_iff)
qed

lemma normalize_names_result:
  assumes u: "unicode_ok u" and ok: "store_ok d" and free: "loop_free d" and args: "za_yes args" "\<not> za_dry_run args"
  obtains k f d' where
    "normalize_names u now ns args d = Inr (\<lparr>zr_action = ''normalized'', zr_normalized = k,
       zr_merged = length (names_to_change u ns d) - k\<rparr>, d')"
    "k \<le> length (names_to_change u ns d)" "k = card (snd ` set (names_to_change u ns d) - names_in ns d)"
    "store_ok d'" "quotient_by f d d'" "carried_over u (fst ` set (names_to_change u ns d)) f d d'"
proof -
  from normalize_loop_result [OF u ok free names_to_change_pending [OF ok], of ns 0 0 now]
  show thesis using that args by (auto simp: loop_result_def normalize_names_def Let_def)
qed

section \<open>Properties of normalize-entities\<close>

text \<open>
  Claim C18. Applied to any store that satisfies the schema and has no self-loops, whatever names it holds,
  \<^verbatim>\<open>normalize-entities --yes\<close> succeeds and is a quotient: it sends every entity to the one that carries the normal form of
  its name, maps edges and bindings along and drops the loops this creates; other namespaces keep their names,
  memories are untouched, and every name left in the namespace is in normal form.
\<close>

theorem normalize_entities_quotient:
  assumes u: "unicode_ok u" and ok: "store_ok d" and free: "loop_free d" and args: "za_yes args" "\<not> za_dry_run args"
  shows "\<exists>r f d'. normalize_names u now ns args d = Inr (r, d') \<and> store_ok d' \<and> quotient_by f d d'
    \<and> (\<forall>i ns' name. (i, ns', name) \<in> id_names d \<longrightarrow>
         (f i, ns', if ns' = ns then normalize_entity_name u name else name) \<in> id_names d')
    \<and> (\<forall>name \<in> names_in ns d'. normalize_entity_name u name = name)"
proof (rule normalize_names_result [OF u ok free args, of now ns])
  fix k f d'
  assume run: "normalize_names u now ns args d = Inr (\<lparr>zr_action = ''normalized'', zr_normalized = k,
       zr_merged = length (names_to_change u ns d) - k\<rparr>, d')"
    and ok': "store_ok d'" and q: "quotient_by f d d'" and c: "carried_over u (fst ` set (names_to_change u ns d)) f d d'"
  have names: "(f i, ns', if ns' = ns then normalize_entity_name u name else name) \<in> id_names d'"
    if "(i, ns', name) \<in> id_names d" for i ns' name
    using c [unfolded carried_over_def, rule_format, OF that] changed_ids [OF ok that, of u ns] by simp
  have "normalize_entity_name u name = name" if n: "name \<in> names_in ns d'" for name
  proof -
    obtain j where j: "(j, ns, name) \<in> id_names d'" using n by (auto simp: names_in_def)
    then obtain i where i: "i \<in> entity_ids d" "j = f i" using q id_names_ids [OF j] by (auto simp: quotient_by_def)
    then obtain ns0 name0 where x: "(i, ns0, name0) \<in> id_names d" by (auto simp: entity_ids_def id_names_def)
    have "ns = ns0 \<and> name = (if ns0 = ns then normalize_entity_name u name0 else name0)"
      by (rule id_names_unique(1) [OF ok' names [OF x]]) (use j i(2) in simp)
    then have "name = normalize_entity_name u name0" by simp
    then show ?thesis using normalize_entity_name_idem [OF u] by simp
  qed
  with run ok' q names show ?thesis by blast
qed

text \<open>
  Claim C19. The preview is exact: \<^verbatim>\<open>--dry-run\<close> changes nothing and announces the numbers of renames and merges
  that \<^verbatim>\<open>--yes\<close> then reports, computed once by grouping the normal forms and once by running through the entities.
\<close>

theorem normalize_preview_exact:
  assumes u: "unicode_ok u" and ok: "store_ok d" and free: "loop_free d"
  shows "\<exists>k m d'. normalize_names u now ns \<lparr>za_dry_run = True, za_yes = False\<rparr> d
      = Inr (\<lparr>zr_action = ''dry_run'', zr_normalized = k, zr_merged = m\<rparr>, d)
    \<and> normalize_names u now ns \<lparr>za_dry_run = False, za_yes = True\<rparr> d
      = Inr (\<lparr>zr_action = ''normalized'', zr_normalized = k, zr_merged = m\<rparr>, d')"
proof (rule normalize_names_result [OF u ok free, of "\<lparr>za_dry_run = False, za_yes = True\<rparr>" now ns])
  fix k d'
  assume run: "normalize_names u now ns \<lparr>za_dry_run = False, za_yes = True\<rparr> d = Inr (\<lparr>zr_action = ''normalized'',
       zr_normalized = k, zr_merged = length (names_to_change u ns d) - k\<rparr>, d')"
    and k: "k = card (snd ` set (names_to_change u ns d) - names_in ns d)"
  have "snd ` set (names_to_change u ns d) - names_in ns d = snd ` set (names_to_change u ns d) - already_normalized u ns d"
    using pending_targets_fixed [OF u names_to_change_pending [OF ok, of u ns]] unfolding already_normalized_eq by blast
  then have "preview_counts (already_normalized u ns d) (map snd (names_to_change u ns d))
      = (length (names_to_change u ns d) - k, k)"
    unfolding preview_counts_eq k by simp
  with run show ?thesis by (simp add: normalize_names_def Let_def)
qed simp_all

end
