(* ===== verification/Upkeep_Runs.thy ===== *)
theory Upkeep_Runs
  imports Upkeep_Correct Graph_Session
begin

text \<open>
  The upkeep commands on stores that the other commands maintain, and concrete runs on a store with
  names from before normalisation.
\<close>

section \<open>On well-formed graphs\<close>

lemma names_to_change_none:
  assumes inv: "graph_inv d" and u: "unicode_ok u"
  shows "names_to_change u ns d = []"
proof -
  have "normalize_entity_name u (e_name e) = e_name e" if "e \<in> set (namespace_entities ns d)" for e
    using graph_invD(3) [OF inv] that kebab_fixed [OF u]
    by (simp add: set_namespace_entities graph_typed_def entity_typed_ok_def)
  then show ?thesis by (simp add: names_to_change_def filter_empty_conv)
qed

lemma normalize_names_noop:
  assumes "graph_inv d" and "unicode_ok u" and "normalize_names u now ns args d = Inr (r, d')"
  shows "d' = d"
  using assms(3) names_to_change_none [OF assms(1,2)]
  by (auto simp: normalize_names_def Let_def preview_counts_def split: if_splits)

lemma prune_ner_inv:
  assumes inv: "graph_inv d" and run: "prune_ner u ns args d = Inr (r, d')"
  shows "graph_inv d'"
proof -
  have "d' = d \<or> (\<exists>p. d' = d\<lparr>memory_entities := sql_delete p (memory_entities d)\<rparr>)"
    using run by (auto simp: prune_ner_def Let_def split: if_splits)
  then show ?thesis
  proof
    assume "\<exists>p. d' = d\<lparr>memory_entities := sql_delete p (memory_entities d)\<rparr>"
    then obtain p where d': "d' = d\<lparr>memory_entities := sql_delete p (memory_entities d)\<rparr>" by blast
    note ok = graph_invD(2) [OF inv]
    have "store_ok d'" unfolding d'
      by (rule store_ok_bindings [OF ok]) (use ok in \<open>auto simp: store_defs distinct_sql_delete\<close>)
    then have "store_inv d'" by (rule store_inv_same [OF graph_invD(1) [OF inv]]) (simp_all add: d')
    moreover have "graph_frame d d'" by (simp add: graph_frame_def d')
    ultimately show ?thesis using graph_inv_frame [OF inv] by blast
  qed (use inv in simp)
qed

section \<open>A store with old names\<close>

definition old_entity :: "int \<Rightarrow> string \<Rightarrow> int \<Rightarrow> entity_row" where
  "old_entity i name degree = (entity_of_new 100 i ''g'' name ''concept'' None)\<lparr>e_degree := degree\<rparr>"

definition old_edge :: "int \<Rightarrow> int \<Rightarrow> relationship_row" where
  "old_edge i s = \<lparr>r_id = i, r_namespace = ''g'', r_source_id = s, r_target_id = 3, r_relation = ''uses'', r_weight = 1 / 2,
     r_description = None, r_created_at = 100, r_updated_at = 100\<rparr>"

definition old_db :: db where
  "old_db = sample_db\<lparr>
     entities := [old_entity 1 ''Acme Corp'' 1, old_entity 2 ''acme-corp'' 1, old_entity 3 ''bob'' 2], seq_entities := 3,
     relationships := [old_edge 1 1, old_edge 2 2], seq_relationships := 2, memory_entities := [(1, 2)]\<rparr>"

abbreviation apply_changes :: normalize_args where
  "apply_changes \<equiv> \<lparr>za_dry_run = False, za_yes = True\<rparr>"

lemma old_names:
  "normalize_entity_name ascii_unicode ''Acme Corp'' = ''acme-corp''"
  "normalize_entity_name ascii_unicode ''acme-corp'' = ''acme-corp''"
  "normalize_entity_name ascii_unicode ''bob'' = ''bob''"
  by code_simp+

lemma old_store_ok: "store_ok old_db"
  by (simp add: store_defs keyed_by_def id_set_defs old_db_def sample_db_def empty_db_def old_entity_def old_edge_def
      entity_of_new_def memory_of_new_def)

lemma old_loop_free: "loop_free old_db"
  by (simp add: loop_free_def is_loop_def edges_def edge_key_def old_db_def old_edge_def)

lemma old_changes: "names_to_change ascii_unicode ''g'' old_db = [(1, ''acme-corp'')]"
  by (simp add: names_to_change_def namespace_entities_def old_db_def old_entity_def entity_of_new_def old_names)

lemmas old_run_defs = absorb_entity_def merge_edges.simps update_or_ignore_relationships_def update_or_ignore.simps edge_key_def
  delete_relationship_rows_def drop_self_loops_def merge_bindings.simps delete_entity_rows_def recalculate_degree_def sql_update_def
  sql_delete_def degree_in_def sql_count_def touches_def

text \<open>After the run \<^verbatim>\<open>bob\<close> has one edge and a stored degree of two: only the degree of the surviving entity is
  recalculated.\<close>

theorem normalize_entities_stale_degree:
  "degrees_ok old_db \<and> (\<exists>r d'. normalize_names ascii_unicode 200 ''g'' apply_changes old_db = Inr (r, d') \<and> \<not> degrees_ok d')"
proof -
  define d' where "d' = absorb_entity 200 2 1 old_db"
  have "entity_id_named old_db ''g'' ''acme-corp'' = Some 2"
    by (simp add: entity_id_named_def entity_named_def old_db_def old_entity_def entity_of_new_def)
  then have "normalize_names ascii_unicode 200 ''g'' apply_changes old_db
      = Inr (\<lparr>zr_action = ''normalized'', zr_normalized = 0, zr_merged = 1\<rparr>, d')"
    by (simp add: normalize_names_def old_changes d'_def)
  moreover have "relationships d' = [old_edge 2 2]" and bob: "old_entity 3 ''bob'' 2 \<in> set (entities d')"
    by (simp_all add: d'_def old_run_defs old_db_def old_edge_def old_entity_def entity_of_new_def Let_def)
  then have "\<not> degree_right (relationships d') (old_entity 3 ''bob'' 2)"
    by (simp add: degree_right_def degree_in_def sql_count_def touches_def old_edge_def old_entity_def entity_of_new_def)
  with bob have "\<not> degrees_ok d'" by (auto simp: degrees_ok_def)
  moreover have "degrees_ok old_db"
    by (simp add: degrees_ok_def degree_right_def degree_in_def sql_count_def touches_def old_db_def old_edge_def
        old_entity_def entity_of_new_def)
  ultimately show ?thesis by blast
qed

text \<open>The preview of \<^verbatim>\<open>prune-ner\<close> counts under the name as typed, the deletion uses its normal form.\<close>

theorem prune_ner_preview_differs:
  "\<exists>d'. prune_ner ascii_unicode ''g'' \<lparr>pn_entity = Some ''Acme Corp'', pn_all = False, pn_dry_run = True, pn_yes = False\<rparr> old_db
      = Inr (\<lparr>pn_action = ''dry_run'', pn_removed = 0\<rparr>, old_db)
    \<and> prune_ner ascii_unicode ''g'' \<lparr>pn_entity = Some ''Acme Corp'', pn_all = False, pn_dry_run = False, pn_yes = True\<rparr> old_db
      = Inr (\<lparr>pn_action = ''pruned'', pn_removed = 1\<rparr>, d')"
  by (simp add: prune_ner_def old_names binding_of_def old_db_def old_entity_def entity_of_new_def sql_count_def)

theorem normalize_entities_quotient_witness:
  "store_ok old_db \<and> (\<exists>r f d'. normalize_names ascii_unicode 200 ''g'' apply_changes old_db = Inr (r, d')
     \<and> quotient_by f old_db d' \<and> (f 1, ''g'', ''acme-corp'') \<in> id_names d')"
proof -
  have "(1, ''g'', ''Acme Corp'') \<in> id_names old_db"
    by (simp add: id_names_def old_db_def old_entity_def entity_of_new_def)
  moreover have "\<exists>r f d'. normalize_names ascii_unicode 200 ''g'' apply_changes old_db = Inr (r, d') \<and> store_ok d'
      \<and> quotient_by f old_db d'
      \<and> (\<forall>i ns' name. (i, ns', name) \<in> id_names old_db \<longrightarrow>
           (f i, ns', if ns' = ''g'' then normalize_entity_name ascii_unicode name else name) \<in> id_names d')
      \<and> (\<forall>name \<in> names_in ''g'' d'. normalize_entity_name ascii_unicode name = name)"
    by (rule normalize_entities_quotient [OF ascii_unicode_ok old_store_ok old_loop_free]) simp_all
  then obtain r f d' where run: "normalize_names ascii_unicode 200 ''g'' apply_changes old_db = Inr (r, d')"
    "quotient_by f old_db d'"
    and names: "\<And>i ns' name. (i, ns', name) \<in> id_names old_db \<Longrightarrow>
      (f i, ns', if ns' = ''g'' then normalize_entity_name ascii_unicode name else name) \<in> id_names d'" by blast
  ultimately have "(f 1, ''g'', ''acme-corp'') \<in> id_names d'" using names [of 1 "''g''" "''Acme Corp''"] old_names(1) by simp
  with run old_store_ok show ?thesis by blast
qed

theorem normalize_preview_exact_witness:
  "loop_free old_db \<and> (\<exists>k m. normalize_names ascii_unicode 200 ''g'' \<lparr>za_dry_run = True, za_yes = False\<rparr> old_db
      = Inr (\<lparr>zr_action = ''dry_run'', zr_normalized = k, zr_merged = m\<rparr>, old_db))"
  using normalize_preview_exact [OF ascii_unicode_ok old_store_ok old_loop_free, of 200 "''g''"] old_loop_free by blast

end
