(* ===== verification/Reachable.thy ===== *)
theory Reachable
  imports Split_Runs Upkeep_Runs
begin

text \<open>
  The step relation \<open>graph_step\<close> of the committed commands and the states that any interleaving of them
  reaches from a new database: memory commands, graph commands, \<^verbatim>\<open>remember\<close>, \<^verbatim>\<open>split-body\<close> and the upkeep commands.
\<close>

section \<open>Reachable states\<close>

text \<open>One committed command. A failing command rolls back and is no step. Left out are the forms the
  invariant does not survive: \<^verbatim>\<open>unlink --entity .. --all\<close>, a \<^verbatim>\<open>rename-entity\<close> to a name that
  normalises to fewer than two characters, \<^verbatim>\<open>reclassify-relation\<close>, which stores any label with
  \<^verbatim>\<open>--literal-to\<close> and drops duplicate edges without a new degree, \<^verbatim>\<open>remember-batch\<close>, which never
  recounts a degree, and of \<^verbatim>\<open>remember\<close> the runs with a stale lock or with a relationship from a name to
  itself. The theorems below speak of the states these steps reach and of no others. A \<^verbatim>\<open>remember\<close> that fails is a step too, since it
  can leave a memory undeleted, and so is a batch of \<^verbatim>\<open>split-body\<close>, which commits memory by memory.\<close>

inductive graph_step :: "unicode \<Rightarrow> env \<Rightarrow> engine \<Rightarrow> db \<times> sidecar \<Rightarrow> db \<times> sidecar \<Rightarrow> bool" for u v eng where
  memory: "run_command v (now, ns, cmd) (d, s) = (d', s') \<Longrightarrow> graph_step u v eng (d, s) (d', s')"
| linked: "link u now ns la d = Inr (r, d') \<Longrightarrow> graph_step u v eng (d, s) (d', s)"
| unlinked: "unlink u ns ua d = Inr (ur, d') \<Longrightarrow> \<not> ua_all ua \<Longrightarrow> graph_step u v eng (d, s) (d', s)"
| merged: "merge_entities u now ns ga d = Inr (gr, d') \<Longrightarrow> graph_step u v eng (d, s) (d', s)"
| removed: "delete_entity u ns da d = Inr (n, d') \<Longrightarrow> graph_step u v eng (d, s) (d', s)"
| renamed_entity: "rename_entity u cfg embed_call skip now ns ta d = Inr (n, d') \<Longrightarrow>
    2 \<le> length (normalize_entity_name u (ta_new_name ta)) \<Longrightarrow> graph_step u v eng (d, s) (d', s)"
| reclassified: "reclassify u now ns ca d = Inr (cr, d') \<Longrightarrow> graph_step u v eng (d, s) (d', s)"
| pruned: "prune_relations ns pa d = (ps, d') \<Longrightarrow> graph_step u v eng (d, s) (d', s)"
| remembered: "remember env now ns ra stdin d s = Inr (answer, d', s') \<Longrightarrow> re_unicode env = u \<Longrightarrow>
    (\<And>p. remember_prepare env ra stdin = Inr (Inr p) \<Longrightarrow> no_self_loops u (gi_relationships (pp_graph p))) \<Longrightarrow>
    (\<And>p. remember_prepare env ra stdin = Inr (Inr p) \<Longrightarrow>
       lock_fresh now (rm_expected ra) (List.find (named ns (on_normalized (pp_name p))) (memories d))) \<Longrightarrow>
    graph_step u v eng (d, s) (d', s')"
| divided: "split_body sv now ns sa d = Inr (outcome, d') \<Longrightarrow> sv_unicode sv = u \<Longrightarrow> graph_step u v eng (d, s) (d', s)"
| normalized: "normalize_names u now ns za d = Inr (zr, d') \<Longrightarrow> graph_step u v eng (d, s) (d', s)"
| unbound: "prune_ner u ns pn d = Inr (pr, d') \<Longrightarrow> graph_step u v eng (d, s) (d', s)"
| cleaned: "cleanup_orphans eng oa d = Inr (cl, d') \<Longrightarrow> graph_step u v eng (d, s) (d', s)"

inductive reachable :: "unicode \<Rightarrow> env \<Rightarrow> engine \<Rightarrow> db \<times> sidecar \<Rightarrow> bool" for u v eng where
  initial: "reachable u v eng (empty_db, s)"
| step: "reachable u v eng st \<Longrightarrow> graph_step u v eng st st' \<Longrightarrow> reachable u v eng st'"

inductive_cases graph_stepE: "graph_step u v eng (d, s) (d', s')"

lemma graph_step_inv:
  assumes "graph_step u v eng st st'" and "unicode_ok u" and "engine_sound eng" and "graph_inv (fst st)"
  shows "graph_inv (fst st')"
  using assms
proof (induction rule: graph_step.induct)
  case (memory now ns cmd d s d' s')
  then show ?case using run_command_graph [of "(d, s)" v "(now, ns, cmd)"] by simp
next
  case (linked now ns la d r d' s)
  then show ?case using link_cmd.keeps_graph [of d "(u, now, ns, la)"] by simp
next
  case (unlinked ns ua d ur d' s)
  then show ?case using unlink_cmd.keeps_graph [of d "(u, ns, ua)"] by simp
next
  case (merged now ns ga d gr d' s)
  then show ?case using merge_cmd.keeps_graph [of d "(u, now, ns, ga)"] by simp
next
  case (removed ns da d n d' s)
  then show ?case using delete_entity_cmd.keeps_graph [of d "(u, ns, da)"] by simp
next
  case (renamed_entity cfg embed_call skip now ns ta d n d' s)
  then show ?case using rename_entity_cmd.keeps_graph [of d "(u, cfg, embed_call, skip, now, ns, ta)"] by simp
next
  case (reclassified now ns ca d cr d' s)
  then show ?case using reclassify_cmd.keeps_graph [of d "(u, now, ns, ca)"] by simp
next
  case (pruned ns pa d ps d' s)
  then show ?case using prune_cmd.keeps_graph [of d "(ns, pa)"] by simp
next
  case (remembered env now ns ra stdin d s answer d' s')
  then show ?case using remember_graph [of d env ra stdin now ns s answer d' s'] by simp
next
  case (divided sv now ns sa d outcome d' s)
  then show ?case using split_body_safe [of d sv now ns sa] by simp
next
  case (normalized now ns za d zr d' s)
  then show ?case using normalize_names_noop [of d u now ns za zr d'] by simp
next
  case (unbound ns pn d pr d' s)
  then show ?case using prune_ner_inv [of d u ns pn pr d'] by simp
next
  case (cleaned oa d cl d' s)
  then show ?case using cleanup_cmd.keeps_graph [of d "(eng, oa)"] by simp
qed

lemma reachable_inv:
  assumes "reachable u v eng st" and "unicode_ok u" and "engine_sound eng"
  shows "graph_inv (fst st)"
  using assms(1) by induction (simp_all add: graph_inv_empty graph_step_inv [OF _ assms(2,3)])

text \<open>Claim C20. Type invariant of the graph, in every state that any interleaving of the steps of \<open>graph_step\<close>
  reaches from a new database: inserts, edits, renames, restores, forgets and purges of memories, \<^verbatim>\<open>remember\<close>
  (with a current lock or none, and no relationship from a name to itself), \<^verbatim>\<open>split-body\<close>, \<^verbatim>\<open>link\<close>,
  \<^verbatim>\<open>unlink\<close> (not \<^verbatim>\<open>--all\<close>), \<^verbatim>\<open>merge-entities\<close>, \<^verbatim>\<open>delete-entity\<close>, \<^verbatim>\<open>rename-entity\<close> (to a name with at least two
  characters), \<^verbatim>\<open>reclassify\<close>, \<^verbatim>\<open>prune-relations\<close>, \<^verbatim>\<open>prune-ner\<close>, \<^verbatim>\<open>normalize-entities\<close> and
  \<^verbatim>\<open>cleanup-orphans\<close>. Every entity name is in kebab case with at least two characters, every type label has
  the stored shape, every relation is canonical, every weight is between 0 and 1, and no edge is a self-loop.
  \<^verbatim>\<open>reclassify-relation\<close> and \<^verbatim>\<open>remember-batch\<close> are not among the steps.\<close>

theorem reachable_graph_typed:
  assumes "unicode_ok u" and "engine_sound eng" and "reachable u v eng (d, s)"
  shows "(\<forall>e \<in> set (entities d). kebab (e_name e) \<and> 2 \<le> length (e_name e) \<and> type_shape (e_type e))
    \<and> (\<forall>r \<in> set (relationships d). is_canonical_relation (r_relation r) \<and> 0 \<le> r_weight r \<and> r_weight r \<le> 1
         \<and> r_source_id r \<noteq> r_target_id r)"
  using graph_invD(3) [OF reachable_inv [OF assms(3,1,2)]]
  by (auto simp: graph_typed_def entity_typed_ok_def edge_typed_ok_def weight_ok_def)

text \<open>Claim C21. In every state that the steps of \<open>graph_step\<close> reach from a new database, the stored degree of an
  entity is the number of edges that start or end at it, two entities of one namespace never share a name,
  every edge and every binding refers to existing rows, and the full-text index mirrors the memories. The
  runs that would break this are no steps: \<^verbatim>\<open>unlink --all\<close>, \<^verbatim>\<open>reclassify-relation\<close>, \<^verbatim>\<open>remember-batch\<close>, and
  \<^verbatim>\<open>remember\<close> with a stale lock or a relationship from a name to itself.\<close>

theorem reachable_degrees_and_references:
  assumes "unicode_ok u" and "engine_sound eng" and "reachable u v eng (d, s)"
  shows "store_inv d \<and> (\<forall>e \<in> set (entities d). e_degree e = int (card (edges_at (e_id e) (edges d))))"
proof -
  note inv = reachable_inv [OF assms(3,1,2)]
  have "e_degree e = int (card (edges_at (e_id e) (edges d)))" if "e \<in> set (entities d)" for e
    using graph_invD(4) [OF inv] that degree_in_card [OF graph_invD(2) [OF inv]]
    by (simp add: degrees_ok_def degree_right_def)
  then show ?thesis using graph_invD(1) [OF inv] by simp
qed

text \<open>A reachable state with an edge.\<close>

lemma sample_reachable: "reachable ascii_unicode sample_env sample_engine (sample_graph, None)"
  by (rule reachable.step [OF reachable.initial graph_step.linked [OF sample_link_run]])

theorem reachable_graph_typed_witness:
  "reachable ascii_unicode sample_env sample_engine (sample_graph, None)
   \<and> map (kebab \<circ> e_name) (entities sample_graph) = [True, True]"
  using reachable_graph_typed [OF ascii_unicode_ok sample_engine_sound sample_reachable] sample_reachable
  by (simp add: sample_graph_def)

theorem reachable_degrees_and_references_witness:
  "reachable ascii_unicode sample_env sample_engine (sample_graph, None) \<and> store_inv sample_graph
   \<and> card (edges_at 1 (edges sample_graph)) = 1"
  using reachable_degrees_and_references [OF ascii_unicode_ok sample_engine_sound sample_reachable] sample_reachable
  by (auto simp: sample_graph_def entity_of_new_def)

end
