(* ===== verification/Spec2Isabelle.thy ===== *)
theory Spec2Isabelle
  imports Chunk_Loops Traverse_Correct Drain_Correct Name_Spec Graph_Limits Url_Scan_Correct Batch_Correct Reachable
begin

text \<open>
  A model of sqlite-graphrag, a command-line program that keeps memories (named texts with versions,
  chunks, URLs and embeddings) and a graph of entities in one SQLite database. Every invocation runs one
  subcommand: it validates its arguments, reads and writes the database, usually in one transaction, and
  answers with one response. The theories follow that structure: what a subcommand reads and writes is a
  value of the record \<open>db\<close>, one invocation is one function from arguments and store to an error or a
  response with a new store, and the properties say what each function does to the store, on every branch,
  and what holds after any sequence of invocations. Paths below are relative to the crate root.

  \<^bold>\<open>The store.\<close> \<open>Prelude\<close> has the result type (\<open>'e + 'a\<close> with \<open>bind_rust\<close> for the question mark of Rust),
  panics as values, and the statements of SQL on lists of rows; \<open>Casts\<close> has the number casts. \<open>Utf8\<close> has Rust strings as lists of UTF-8
  bytes, character boundaries and slices that panic off them. \<open>Errors\<close> is \<^verbatim>\<open>errors.rs\<close>, \<open>Retry\<close> is
  \<^verbatim>\<open>retry.rs\<close> and \<^verbatim>\<open>storage/utils.rs\<close>. \<open>Store\<close> is the schema the migrations leave: a list of rows per table in
  rowid order, the key counters, the \<^verbatim>\<open>ON DELETE CASCADE\<close> clauses, and \<open>store_ok\<close>, the conjunction of keys,
  uniqueness and references. \<open>Memories\<close>, \<open>Memory_Parts\<close> and \<open>Entities\<close> are \<^verbatim>\<open>storage/memories/\<close>,
  \<^verbatim>\<open>versions.rs\<close>, \<^verbatim>\<open>urls.rs\<close>, \<^verbatim>\<open>chunks.rs\<close>, \<^verbatim>\<open>pending_embeddings.rs\<close>, \<^verbatim>\<open>foreign_keys.rs\<close> and
  \<^verbatim>\<open>storage/entities/\<close>; \<open>Names\<close> is \<^verbatim>\<open>parsers/mod.rs\<close> and \<^verbatim>\<open>entity_type.rs\<close>.

  \<^bold>\<open>The commands on memories.\<close> \<open>Lifecycle\<close> has \<^verbatim>\<open>forget\<close>, \<^verbatim>\<open>restore\<close>, \<^verbatim>\<open>purge\<close>, \<^verbatim>\<open>rename\<close> and \<^verbatim>\<open>edit\<close>;
  \<open>Url_Scan\<close> (\<^verbatim>\<open>extraction.rs\<close>), \<open>Remember_Input\<close> and \<open>Remember\<close> (\<^verbatim>\<open>commands/remember/\<close>) have \<^verbatim>\<open>remember\<close>,
  \<open>Batch\<close> has \<^verbatim>\<open>remember-batch\<close> and \<open>Split_Body\<close> has \<^verbatim>\<open>split-body\<close>. \<open>Chunking\<close> is \<^verbatim>\<open>chunking.rs\<close>.

  \<^bold>\<open>The commands on the graph.\<close> \<open>Graph_Commands\<close> has \<^verbatim>\<open>link\<close>, \<^verbatim>\<open>unlink\<close> and \<^verbatim>\<open>merge-entities\<close>,
  \<open>Graph_Maintenance\<close> \<^verbatim>\<open>delete-entity\<close>, \<^verbatim>\<open>rename-entity\<close>, \<^verbatim>\<open>reclassify\<close>, \<^verbatim>\<open>reclassify-relation\<close>,
  \<^verbatim>\<open>prune-relations\<close> and \<^verbatim>\<open>cleanup-orphans\<close>, \<open>Entity_Upkeep\<close> \<^verbatim>\<open>normalize-entities\<close>, \<^verbatim>\<open>prune-ner\<close> and
  \<^verbatim>\<open>memory-entities\<close>. \<open>Walk\<close> is the bounded breadth-first search of \<^verbatim>\<open>graph/\<close> with its two neighbour sources.

  \<^bold>\<open>The enrichment queue.\<close> \<open>Queue\<close> is the second database that schedules work
  (\<^verbatim>\<open>commands/enrich/queue.rs\<close>, \<^verbatim>\<open>queue_ops.rs\<close>, \<^verbatim>\<open>scheduler.rs\<close>, \<^verbatim>\<open>run/queue_prep.rs\<close>, parts of
  \<^verbatim>\<open>status.rs\<close>): enqueueing, claiming one row or a batch, recording a failure with backoff, sweeping and
  reopening. \<open>Drain\<close> is the loop that claims and settles its rows one by one (\<^verbatim>\<open>drain_serial.rs\<close>) and the
  cycle that re-embeds a claimed batch (\<^verbatim>\<open>reembed/batch/cycle.rs\<close>); what the remote handlers answer is a
  script of turns. \<^verbatim>\<open>forget\<close> and \<^verbatim>\<open>purge\<close> clean up in it, which is why they carry a sidecar beside the store.

  \<^bold>\<open>What is proved.\<close>
  \<^item> \<open>Store_Correct\<close>, \<open>Memories_Correct\<close>, \<open>Parts_Correct\<close>, \<open>Entities_Correct\<close>: every statement keeps the
    invariant, and what it does otherwise (\<open>side_step\<close>: nothing to memories, index, entities and edges).
    \<open>Names_Correct\<close>: normal forms are stable. \<open>Search_Correct\<close>: paging, the byte form of embeddings, and the
    query text that reaches the search engine.
  \<^item> \<open>Lifecycle_Correct\<close>, \<open>Session\<close>, \<open>Lifecycle_Effects\<close> and \<open>Name_Spec\<close>: the contract \<open>store_command\<close> (a command keeps the
    invariant) and its special case \<open>transaction\<close> (an error keeps the store), interpreted for every command;
    the view of the store as a map from names to contents; what an edit and a round trip change; and, in
    \<open>Name_Spec\<close>, the abstract machine of names, hidden names and recorded versions, the step each answer
    of a command must make there, and the refinement of the commands into those steps.
  \<^item> \<open>Remember_Correct\<close>, \<open>Batch_Correct\<close>, \<open>Split_Correct\<close>: the same for the commands that write a memory with
    its graph, their failure branches included. \<open>store_relation\<close> in \<open>Batch_Correct\<close> carries a relation
    between stores through the statements of a line and is interpreted for success and for failure.
    \<open>Remember_Runs\<close> and \<open>Split_Runs\<close> evaluate runs.
  \<^item> \<open>Link_Correct\<close>, \<open>Edge_Deletes\<close>, \<open>Entity_Deletes\<close>, \<open>Merge_Correct\<close>, \<open>Graph_Effects\<close>, \<open>Upkeep_Correct\<close>:
    the effect of every graph command on the sets of labelled edges and bindings; merging and normalising are
    quotients of the graph. \<open>graph_inv\<close> adds to the schema that names are in kebab case, labels have the
    stored shape, weights are in range, no edge is a loop, and the degree column counts the incident edges.
    \<open>Graph_Session\<close> states the contract \<open>graph_command\<close> and interprets it for the commands that keep
    \<open>graph_inv\<close>; \<open>Graph_Limits\<close> and \<open>Upkeep_Runs\<close> show those that do not.
  \<^item> \<open>Reachable\<close>: the step relation of all committed commands, and by rule induction the invariants of every
    reachable state.
  \<^item> \<open>Walk_Correct\<close>, \<open>Traverse_Correct\<close>: the contract \<open>neighbor_source\<close> of the trait \<^verbatim>\<open>NeighborSource\<close>,
    interpreted for the SQL and the in-memory source; recorded depths are minimal numbers of hops.
  \<^item> \<open>Queue_Correct\<close>: key invariants under every operation, the choice of a claim, batch claims as iterated
    claims, and what revives a dead-letter row (nothing in the background). \<open>Drain_Correct\<close> follows the rows of
    a turn (\<open>turn_rel\<close>): the drain returns, closes what it claims, and its tally agrees with the table.
  \<^item> \<open>Chunk_Loops\<close>, \<open>Url_Scan_Correct\<close>: no panic on well-formed text, bounds, and when a loop ends.
\<close>

text \<open>
  \<^bold>\<open>Conventions.\<close> Ids and times are integers; the clock is an argument \<open>now\<close>. Edge weights and scores that
  the code stores and compares are reals, so rounding of \<^verbatim>\<open>f64\<close> is not in the model; an \<^verbatim>\<open>f32\<close> is its bit
  pattern, a 32-bit word. Casts and saturating arithmetic are written out where a command depends on them
  (\<^verbatim>\<open>purge\<close>, backoff delays). Error values carry the variant of the source and a short form of its message,
  since the text is looked up by language. A query without \<^verbatim>\<open>ORDER BY\<close> returns rows in rowid order. An upsert
  that meets an existing row leaves the key counter alone. A hash map is an association list or a set; no
  result depends on its iteration order. JSON that a command stores is the text its serialiser, a parameter,
  returns. A transaction that fails returns no store, which is the rollback. Two invocations do not overlap:
  SQLite serialises the writers, and a session is a sequence of invocations.

  \<^bold>\<open>Parameters.\<close> Code that is not in the repository is an argument: the JSON parser and serialiser, BLAKE3, the
  tokenizer, the Markdown splitter, the remote embedding service and the f32 aggregation (fields of
  \<open>remember_env\<close>, \<open>batch_env\<close>, \<open>split_env\<close>, \<open>env\<close>), the Unicode tables (\<open>unicode\<close>, with the law \<open>unicode_ok\<close>),
  and the engine's own checks (\<open>engine\<close>, with the law \<open>engine_sound\<close>). Each law has a concrete instance in a
  witness. Files and standard input are the outcome of reading them.

  \<^bold>\<open>Loops.\<close> The loops that the source does not bound, the char-budget chunker, the driver of the
  walk and the drain, are \<^verbatim>\<open>partial_function (option)\<close>: a run that never returns is \<open>None\<close>. The walk is proved to
  return for every input, the drain for every script (its measure adds the attempts left in the rows of the
  operation and the time left to the rate-limit deadline), the chunker to return on a class of bodies and not
  to return on another, which is a defect of the source. No definition runs on fuel: every other loop recurses on its data or has a
  measure. The busy retry is bounded by the retry count of the source.

  \<^bold>\<open>Where the code does less than it means to.\<close> The definitions follow the code, so some theorems state
  its defects: an update with a stale lock that reports success, an undeletion that
  survives a failing run, batch lines that leave partial work
  behind, a split that cannot be repeated, a preempted drain that
  omits the cost of its last item, degrees that go stale after
  \<^verbatim>\<open>unlink --all\<close>, \<^verbatim>\<open>reclassify-relation\<close>, \<^verbatim>\<open>remember-batch\<close> and \<^verbatim>\<open>normalize-entities\<close> on older data, and the
  chunker's loop. The step relation of \<open>Reachable\<close> therefore leaves out the runs that break its invariant and
  says which they are.

  \<^bold>\<open>Not modelled.\<close> Rankings in f32 and f64 (vector search, rank fusion, \<^verbatim>\<open>recall\<close>, \<^verbatim>\<open>hybrid-search\<close>,
  \<^verbatim>\<open>deep-research\<close>, fuzzy entity resolution) for lack of a float model; the judgments of \<^verbatim>\<open>enrich\<close>, its
  drain over threads and the threads of \<^verbatim>\<open>ingest\<close>, which depend on a remote model and on the file system; clients, configuration, output,
  messages, locks, signals, migrations and maintenance of the file, which are input, output or the engine's
  work; and the read-only reports. Elapsed times, WAL checkpoints and log lines are left out everywhere.
\<close>

end
